(* ===== verification/Prelude.thy ===== *)
theory Prelude
  imports Main "HOL-Library.Word" "HOL-Library.Monad_Syntax"
begin

text \<open>
  Shared vocabulary of the development: the machine integer types of the kernel (it is an
  i386 build, so \<open>uint32_t\<close>, \<open>size_t\<close> and pointers are 32 bit wide), C arrays with their
  bounds made explicit, and the word and list lemmas the components use.

  Convention used in every component theory: a result of type \<open>'a option\<close> is \<open>None\<close>
  exactly where the C++ leaves defined behaviour (an array index out of range, a null
  pointer dereference, a string that is not terminated, a loop that does not end). The
  error returns of the code itself (\<open>-1\<close>, \<open>false\<close>, \<open>nullptr\<close>, \<open>0\<close>) are ordinary values.
\<close>

unbundle bit_operations_syntax

type_synonym u8 = "8 word"
type_synonym u16 = "16 word"
type_synonym u32 = "32 word"
type_synonym u64 = "64 word"

named_theorems array_simps \<open>reads and writes of bounded C arrays\<close>
named_theorems word_facts \<open>word arithmetic shared by the components\<close>

section \<open>C arrays\<close>

text \<open>\<open>xs[i]\<close> and \<open>xs[i] = v\<close>, undefined out of range.\<close>

definition arr_get :: "'a list \<Rightarrow> nat \<Rightarrow> 'a option" where
  "arr_get xs i = (if i < length xs then Some (xs ! i) else None)"

definition arr_set :: "'a list \<Rightarrow> nat \<Rightarrow> 'a \<Rightarrow> 'a list option" where
  "arr_set xs i v = (if i < length xs then Some (xs[i := v]) else None)"

lemma arr_get_Some [array_simps]: "arr_get xs i = Some v \<longleftrightarrow> i < length xs \<and> v = xs ! i"
  by (auto simp: arr_get_def)

lemma arr_get_None [array_simps]: "arr_get xs i = None \<longleftrightarrow> length xs \<le> i"
  by (auto simp: arr_get_def)

lemma arr_set_Some [array_simps]: "arr_set xs i v = Some ys \<longleftrightarrow> i < length xs \<and> ys = xs[i := v]"
  by (auto simp: arr_set_def)

lemma arr_set_None [array_simps]: "arr_set xs i v = None \<longleftrightarrow> length xs \<le> i"
  by (auto simp: arr_set_def)

lemma arr_get_in [simp]: "i < length xs \<Longrightarrow> arr_get xs i = Some (xs ! i)"
  by (simp add: arr_get_def)

lemma arr_set_in [simp]: "i < length xs \<Longrightarrow> arr_set xs i v = Some (xs[i := v])"
  by (simp add: arr_set_def)

section \<open>Words\<close>

lemma two_power_and_zero: "(a :: 'a :: len word) AND 2 ^ n = 0 \<longleftrightarrow> \<not> bit a n"
proof -
  have "a AND 2 ^ n = of_bool (bit a n) * 2 ^ n"
    by (rule bit_eqI) (auto simp: bit_simps)
  then show ?thesis
    by (auto simp: exp_eq_0_imp_not_bit)
qed

lemma xor_two_power_unset [word_facts]:
  "\<not> bit (a :: 'a :: len word) n \<Longrightarrow> a XOR 2 ^ n = a + 2 ^ n"
  by (simp add: two_power_and_zero [symmetric] disjunctive_add_eq_xor)

lemma xor_two_power_set [word_facts]:
  assumes "bit (a :: 'a :: len word) n"
  shows "a XOR 2 ^ n = a - 2 ^ n"
proof -
  have "n < LENGTH('a)" using assms bit_imp_le_length by blast
  with assms have "\<not> bit (a XOR 2 ^ n) n"
    by (auto simp: bit_simps)
  then have "(a XOR 2 ^ n) XOR 2 ^ n = (a XOR 2 ^ n) + 2 ^ n"
    by (rule xor_two_power_unset)
  then have "a = (a XOR 2 ^ n) + 2 ^ n"
    by (simp add: xor.assoc)
  then show ?thesis
    by (metis add_diff_cancel_right')
qed

lemma less_xor_two_power_iff [word_facts]:
  assumes "n < LENGTH('a)"
  shows "(a :: 'a :: len word) < a XOR 2 ^ n \<longleftrightarrow> \<not> bit a n"
proof (cases "bit a n")
  case True
  let ?b = "a XOR 2 ^ n"
  have nb: "\<not> bit ?b n" using True assms by (auto simp: bit_simps)
  then have "a = ?b + 2 ^ n"
    using xor_two_power_unset [OF nb] by (simp add: xor.assoc)
  moreover have "?b + 2 ^ n = ?b OR 2 ^ n"
    using nb by (simp add: two_power_and_zero [symmetric] disjunctive_add_eq_or)
  ultimately have "?b \<le> a" by (metis le_word_or2)
  then show ?thesis using True by (simp add: not_less)
next
  case False
  have "a XOR 2 ^ n = a OR 2 ^ n"
    using False by (simp add: two_power_and_zero [symmetric] disjunctive_xor_eq_or)
  then have "a \<le> a XOR 2 ^ n" by (simp add: le_word_or2)
  moreover have "a \<noteq> a XOR 2 ^ n"
    using assms False by (auto simp: bit_eq_iff bit_simps)
  ultimately show ?thesis using False by (simp add: order.strict_iff_order)
qed

text \<open>Rounding down by clearing low bits.\<close>

lemma and_not_mask_eq: "(x :: 'a :: len word) AND NOT (mask n) = push_bit n (drop_bit n x)"
  by (rule bit_eqI) (auto simp: bit_simps)

lemma unat_and_not_mask:
  "unat ((x :: 'a :: len word) AND NOT (mask n)) = unat x div 2 ^ n * 2 ^ n"
proof -
  have "x = push_bit n (drop_bit n x) + take_bit n x"
    by (rule bits_ident [symmetric])
  then have "push_bit n (drop_bit n x) = x - take_bit n x" by (metis add_diff_cancel_right')
  moreover have "unat (take_bit n x) = unat x mod 2 ^ n"
    by (simp only: unsigned_take_bit_eq) (simp only: take_bit_eq_mod)
  ultimately have "unat (push_bit n (drop_bit n x)) = unat x - unat x mod 2 ^ n"
    by (simp add: unat_sub word_le_nat_alt)
  then show ?thesis by (simp add: and_not_mask_eq minus_mod_eq_div_mult)
qed

lemma unat_and_not_FFF [word_facts]: "unat ((x :: u32) AND NOT 0xFFF) = unat x div 4096 * 4096"
  using unat_and_not_mask [of x 12] by (simp add: mask_eq_exp_minus_1)

lemma unat_u32_less [word_facts]: "unat (x :: u32) < 4294967296"
  by (rule order_less_le_trans [OF unsigned_less]) simp

lemma unat_two_power [word_facts]:
  assumes "n < LENGTH('a)"
  shows "unat ((2 :: 'a :: len word) ^ n) = 2 ^ n"
proof -
  have "(2 :: nat) ^ n < 2 ^ LENGTH('a)" using assms by simp
  then have "unat (of_nat (2 ^ n) :: 'a word) = 2 ^ n" by (simp only: unat_of_nat mod_less)
  then show ?thesis by simp
qed

lemma sint_small [word_facts]:
  assumes "unat (x :: u32) < 2 ^ 31"
  shows "sint x = int (unat x)"
proof -
  have u: "uint x < 2 ^ 31" using assms by (simp only: unat_eq_nat_uint nat_less_iff [OF uint_ge_0] of_nat_power of_nat_numeral)
  have "sint x = signed_take_bit (LENGTH(32) - Suc 0) (uint x)" by (rule sint_uint)
  also have "\<dots> = uint x"
  proof (rule signed_take_bit_int_eq_self)
    show "- (2 ^ (LENGTH(32) - Suc 0)) \<le> uint x" by (rule order_trans [OF _ uint_ge_0]) simp
    show "uint x < 2 ^ (LENGTH(32) - Suc 0)" using u by simp
  qed
  finally show ?thesis by simp
qed
end
