(* ===== verification/CString.thy ===== *)
theory CString
  imports Prelude "HOL-Library.Sublist" "HOL-Library.List_Lexorder"
begin

text \<open>
  The C string functions of \<open>lib/string.cpp\<close>. A pointer to characters is the list of the
  bytes from there to the end of the object it points into; running past the end is
  undefined. A pointer returned into an argument is an index from its start, \<open>None\<close> for
  null. \<open>strtok\<close> keeps the string it works on and its position between calls.
\<close>

section \<open>Operations\<close>

primrec strlen_loop :: "u8 list \<Rightarrow> nat \<Rightarrow> nat option" where
  "strlen_loop [] len = None"
| "strlen_loop (c # cs) len = (if c \<noteq> 0 then strlen_loop cs (len + 1) else Some len)"

definition strlen :: "u8 list \<Rightarrow> nat option" where
  "strlen str = do { len \<leftarrow> strlen_loop str 0; Some (if len \<ge> 0x1000000 then 0 else len) }"

primrec strcpy_loop :: "u8 list \<Rightarrow> u8 list \<Rightarrow> nat \<Rightarrow> u8 list option" where
  "strcpy_loop [] dest d = None"
| "strcpy_loop (c # cs) dest d =
     do { dest \<leftarrow> arr_set dest d c;
          if c \<noteq> 0 then strcpy_loop cs dest (d + 1) else Some dest }"

definition strcpy :: "u8 list \<Rightarrow> u8 list \<Rightarrow> u8 list option" where
  "strcpy dest src = strcpy_loop src dest 0"

text \<open>The two loops of \<open>strncpy\<close>; \<open>n\<close> positions remain.\<close>

primrec zero_fill :: "nat \<Rightarrow> u8 list \<Rightarrow> nat \<Rightarrow> u8 list option" where
  "zero_fill 0 dest i = Some dest"
| "zero_fill (Suc n) dest i = do { dest \<leftarrow> arr_set dest i 0; zero_fill n dest (i + 1) }"

primrec strncpy_loop :: "nat \<Rightarrow> u8 list \<Rightarrow> u8 list \<Rightarrow> nat \<Rightarrow> u8 list option" where
  "strncpy_loop 0 src dest i = Some dest"
| "strncpy_loop (Suc n) src dest i =
     (case src of
        [] \<Rightarrow> None
      | c # cs \<Rightarrow> if c \<noteq> 0 then do { dest \<leftarrow> arr_set dest i c; strncpy_loop n cs dest (i + 1) }
                  else zero_fill (Suc n) dest i)"

definition strncpy :: "u8 list \<Rightarrow> u8 list \<Rightarrow> nat \<Rightarrow> u8 list option" where
  "strncpy dest src n = strncpy_loop n src dest 0"

fun strcmp :: "u8 list \<Rightarrow> u8 list \<Rightarrow> int option" where
  "strcmp (a # s1) (b # s2) = (if a \<noteq> 0 \<and> a = b then strcmp s1 s2 else Some (uint a - uint b))"
| "strcmp _ _ = None"

text \<open>\<open>strncmp\<close> counts down in a signed integer; \<open>n--\<close> below the least one is undefined.\<close>

fun strncmp_loop :: "int \<Rightarrow> u8 list \<Rightarrow> u8 list \<Rightarrow> int option" where
  "strncmp_loop n s1 s2 =
     (if n = - (2 ^ 31) then None
      else if n = 0 then Some 0
      else case s1 of
             [] \<Rightarrow> None
           | a # s1' \<Rightarrow>
               if a = 0
               then (if n - 1 < 0 then Some 0
                     else case s2 of [] \<Rightarrow> None | b # s2' \<Rightarrow> Some (uint a - uint b))
               else case s2 of
                      [] \<Rightarrow> None
                    | b # s2' \<Rightarrow>
                        if a = b then strncmp_loop (n - 1) s1' s2'
                        else Some (if n - 1 < 0 then 0 else uint a - uint b))"

definition strncmp :: "u8 list \<Rightarrow> u8 list \<Rightarrow> u32 \<Rightarrow> int option" where
  "strncmp s1 s2 n = strncmp_loop (sint n) s1 s2"

primrec strchr_loop :: "u8 list \<Rightarrow> u8 \<Rightarrow> nat \<Rightarrow> nat option option" where
  "strchr_loop [] c i = None"
| "strchr_loop (x # xs) c i =
     (if x \<noteq> c then if x = 0 then Some None else strchr_loop xs c (i + 1) else Some (Some i))"

definition strchr :: "u8 list \<Rightarrow> int \<Rightarrow> nat option option" where
  "strchr s c = strchr_loop s (word_of_int c) 0"

primrec strrchr_loop :: "u8 list \<Rightarrow> u8 \<Rightarrow> nat option \<Rightarrow> nat \<Rightarrow> nat option option" where
  "strrchr_loop [] c found i = None"
| "strrchr_loop (x # xs) c found i =
     (if x \<noteq> 0 then strrchr_loop xs c (if x = c then Some i else found) (i + 1)
      else Some (if c = 0 then Some i else found))"

definition strrchr :: "u8 list \<Rightarrow> int \<Rightarrow> nat option option" where
  "strrchr s c = strrchr_loop s (word_of_int c) None 0"

primrec memcpy_loop :: "nat \<Rightarrow> u8 list \<Rightarrow> u8 list \<Rightarrow> nat \<Rightarrow> u8 list option" where
  "memcpy_loop 0 src dest i = Some dest"
| "memcpy_loop (Suc n) src dest i =
     (case src of [] \<Rightarrow> None
      | c # cs \<Rightarrow> do { dest \<leftarrow> arr_set dest i c; memcpy_loop n cs dest (i + 1) })"

definition memcpy :: "u8 list \<Rightarrow> u8 list \<Rightarrow> nat \<Rightarrow> u8 list option" where
  "memcpy dest src n = memcpy_loop n src dest 0"

primrec memset_loop :: "nat \<Rightarrow> u8 \<Rightarrow> u8 list \<Rightarrow> nat \<Rightarrow> u8 list option" where
  "memset_loop 0 c s i = Some s"
| "memset_loop (Suc n) c s i = do { s \<leftarrow> arr_set s i c; memset_loop n c s (i + 1) }"

definition memset :: "u8 list \<Rightarrow> int \<Rightarrow> nat \<Rightarrow> u8 list option" where
  "memset s c n = memset_loop n (word_of_int c) s 0"

text \<open>The bytes of the array that \<open>strdup\<close> allocates, whose initial values do not matter.\<close>

definition strdup :: "u8 list \<Rightarrow> u8 list option" where
  "strdup s = do { len \<leftarrow> strlen s; memcpy (replicate (len + 1) 0) s (len + 1) }"

primrec memcmp_loop :: "nat \<Rightarrow> u8 list \<Rightarrow> u8 list \<Rightarrow> int option" where
  "memcmp_loop 0 p1 p2 = Some 0"
| "memcmp_loop (Suc n) p1 p2 =
     (case (p1, p2) of
        (a # p1', b # p2') \<Rightarrow> if a \<noteq> b then Some (uint a - uint b) else memcmp_loop n p1' p2'
      | _ \<Rightarrow> None)"

definition memcmp :: "u8 list \<Rightarrow> u8 list \<Rightarrow> nat \<Rightarrow> int option" where
  "memcmp s1 s2 n = memcmp_loop n s1 s2"

text \<open>The inner loop of \<open>strstr\<close>: whether the needle ends where the match stops.\<close>

fun match_at :: "u8 list \<Rightarrow> u8 list \<Rightarrow> bool option" where
  "match_at (h # hs) (n # ns) = (if h \<noteq> 0 \<and> n \<noteq> 0 \<and> h = n then match_at hs ns else Some (n = 0))"
| "match_at _ _ = None"

primrec strstr_loop :: "u8 list \<Rightarrow> u8 list \<Rightarrow> nat \<Rightarrow> nat option option" where
  "strstr_loop [] needle i = None"
| "strstr_loop (h # hs) needle i =
     (if h = 0 then Some None
      else do { found \<leftarrow> match_at (h # hs) needle;
                if found then Some (Some i) else strstr_loop hs needle (i + 1) })"

definition strstr :: "u8 list option \<Rightarrow> u8 list option \<Rightarrow> nat option option" where
  "strstr haystack needle =
     (case (haystack, needle) of
        (Some h, Some n) \<Rightarrow>
          do { c \<leftarrow> arr_get n 0;
               if c = 0 then Some (Some 0) else strstr_loop h n 0 }
      | _ \<Rightarrow> Some None)"

section \<open>Tokens\<close>

record StrtokState =
  tok_buf :: "u8 list"
  tok_last :: "nat option"

text \<open>How far a token or a run of delimiters extends: the two loops of \<open>strtok\<close>.\<close>

primrec skip_while :: "bool \<Rightarrow> u8 list \<Rightarrow> u8 list \<Rightarrow> nat \<Rightarrow> nat option" where
  "skip_while want delim [] i = None"
| "skip_while want delim (c # cs) i =
     (if c = 0 then Some i
      else do { found \<leftarrow> strchr delim (sint c);
                if (found \<noteq> None) = want then skip_while want delim cs (i + 1) else Some i })"

definition strtok :: "u8 list option \<Rightarrow> u8 list \<Rightarrow> StrtokState \<Rightarrow> (nat option \<times> StrtokState) option" where
  "strtok str delim st =
     (let st1 = (case str of Some s \<Rightarrow> st\<lparr>tok_buf := s, tok_last := Some 0\<rparr> | None \<Rightarrow> st) in
      case tok_last st1 of
        None \<Rightarrow> Some (None, st1)
      | Some pos \<Rightarrow>
          do { start \<leftarrow> skip_while True delim (drop pos (tok_buf st1)) pos;
               c \<leftarrow> arr_get (tok_buf st1) start;
               if c = 0 then Some (None, st1\<lparr>tok_last := None\<rparr>)
               else do { end \<leftarrow> skip_while False delim (drop start (tok_buf st1)) start;
                         e \<leftarrow> arr_get (tok_buf st1) end;
                         if e \<noteq> 0
                         then Some (Some start, st1\<lparr>tok_buf := (tok_buf st1)[end := 0], tok_last := Some (end + 1)\<rparr>)
                         else Some (Some start, st1\<lparr>tok_last := None\<rparr>) } })"

section \<open>The string in a buffer\<close>

definition cstr :: "u8 list \<Rightarrow> u8 list" where
  "cstr s = takeWhile (\<lambda>c. c \<noteq> 0) s"

abbreviation terminated :: "u8 list \<Rightarrow> bool" where
  "terminated s \<equiv> 0 \<in> set s"

lemma cstr_simps [simp]: "cstr [] = []" "cstr (c # s) = (if c = 0 then [] else c # cstr s)"
  by (simp_all add: cstr_def)

lemma zero_notin_cstr [simp]: "0 \<notin> set (cstr s)"
  unfolding cstr_def by (metis set_takeWhileD)

lemma cstr_app_zero: "0 \<notin> set xs \<Longrightarrow> cstr (xs @ 0 # ys) = xs"
  by (induction xs) auto

lemma strlen_loop_eq: "terminated s \<Longrightarrow> strlen_loop s n = Some (n + length (cstr s))"
  by (induction s arbitrary: n) auto

lemma strlen_eq: "terminated s \<Longrightarrow> length (cstr s) < 0x1000000 \<Longrightarrow> strlen s = Some (length (cstr s))"
  by (simp add: strlen_def strlen_loop_eq)

lemma strchr_loop_eq:
  "terminated s \<Longrightarrow> c \<noteq> 0 \<Longrightarrow> \<exists>r. strchr_loop s c i = Some r \<and> (r \<noteq> None \<longleftrightarrow> c \<in> set (cstr s))"
  by (induction s arbitrary: i) auto

lemma strchr_eq:
  assumes "terminated s" and "c \<noteq> 0"
  shows "\<exists>r. strchr s (sint c) = Some r \<and> (r \<noteq> None \<longleftrightarrow> c \<in> set (cstr s))"
  using strchr_loop_eq [OF assms] by (simp add: strchr_def)

lemma zero_fill_eq:
  "i + n \<le> length dest \<Longrightarrow> zero_fill n dest i = Some (take i dest @ replicate n 0 @ drop (i + n) dest)"
proof (induction n arbitrary: dest i)
  case (Suc n)
  then have i: "i < length dest" by simp
  from Suc.IH [of "Suc i" "dest[i := 0]"] Suc.prems i show ?case
    by (simp add: take_Suc_conv_app_nth)
qed simp

lemma strncpy_loop_eq:
  assumes "terminated src \<or> n \<le> length src" and "i + n \<le> length dest"
  shows "strncpy_loop n src dest i =
    Some (take i dest @ take n (cstr src @ replicate n 0) @ drop (i + n) dest)"
  using assms
proof (induction n arbitrary: src dest i)
  case (Suc n)
  then obtain c cs where src: "src = c # cs" by (cases src) auto
  have i: "i < length dest" using Suc.prems by simp
  show ?case
  proof (cases "c = 0")
    case True
    have "zero_fill (Suc n) dest i = Some (take i dest @ replicate (Suc n) 0 @ drop (i + Suc n) dest)"
      using Suc.prems(2) by (rule zero_fill_eq)
    with True src show ?thesis by simp
  next
    case False
    have "strncpy_loop n cs (dest[i := c]) (Suc i) = Some (take (Suc i) (dest[i := c]) @
        take n (cstr cs @ replicate n 0) @ drop (Suc i + n) (dest[i := c]))"
      using Suc.prems False src by (intro Suc.IH) auto
    with False src i show ?thesis
      by (simp add: take_Suc_conv_app_nth take_Cons') (metis Suc_diff_Suc not_le replicate_Suc)
  qed
qed simp

lemma memcpy_loop_eq:
  "n \<le> length src \<Longrightarrow> i + n \<le> length dest \<Longrightarrow>
    memcpy_loop n src dest i = Some (take i dest @ take n src @ drop (i + n) dest)"
proof (induction n arbitrary: src dest i)
  case (Suc n)
  then obtain c cs where src: "src = c # cs" by (cases src) auto
  have i: "i < length dest" using Suc.prems by simp
  from Suc.IH [of cs "Suc i" "dest[i := c]"] Suc.prems src i show ?case
    by (simp add: take_Suc_conv_app_nth)
qed simp

lemma memcpy_eq: "n \<le> length src \<Longrightarrow> n \<le> length dest \<Longrightarrow> memcpy dest src n = Some (take n src @ drop n dest)"
  by (simp add: memcpy_def memcpy_loop_eq)

section \<open>Comparison and search\<close>

lemma strcmp_lex:
  assumes "terminated s1" and "terminated s2"
  shows "\<exists>r. strcmp s1 s2 = Some r \<and> (r = 0 \<longleftrightarrow> cstr s1 = cstr s2) \<and> (r < 0 \<longleftrightarrow> cstr s1 < cstr s2)"
  using assms
proof (induction s1 s2 rule: strcmp.induct)
  case (1 a s1 b s2)
  have "uint a - uint b = 0 \<longleftrightarrow> a = b" by (simp add: word_uint_eq_iff)
  moreover have "uint a - uint b < 0 \<longleftrightarrow> a < b" by (simp add: word_less_def)
  ultimately show ?case using 1 by (cases "a = 0"; cases "b = 0"; cases "a = b") (auto simp: word_gt_0)
qed auto

lemma match_at_eq:
  assumes "terminated h" and "terminated n"
  shows "match_at h n = Some (prefix (cstr n) (cstr h))"
  using assms by (induction h n rule: match_at.induct) auto

lemma strstr_loop_eq:
  assumes "terminated h" and "terminated n" and "cstr n \<noteq> []"
  shows "\<exists>r. strstr_loop h n i = Some r \<and>
    (case r of None \<Rightarrow> \<not> sublist (cstr n) (cstr h)
     | Some k \<Rightarrow> i \<le> k \<and> prefix (cstr n) (drop (k - i) (cstr h)) \<and>
         (\<forall>j < k - i. \<not> prefix (cstr n) (drop j (cstr h))))"
  using assms(1)
proof (induction h arbitrary: i)
  case (Cons c h)
  show ?case
  proof (cases "c = 0")
    case True
    then show ?thesis using assms(3) by simp
  next
    case c: False
    then have h: "terminated h" using Cons.prems by auto
    have m: "match_at (c # h) n = Some (prefix (cstr n) (c # cstr h))"
      using match_at_eq [OF Cons.prems assms(2)] c by simp
    show ?thesis
    proof (cases "prefix (cstr n) (c # cstr h)")
      case True
      then show ?thesis using m c by simp
    next
      case False
      from Cons.IH [OF h, of "Suc i"] obtain r where r: "strstr_loop h n (Suc i) = Some r"
        "case r of None \<Rightarrow> \<not> sublist (cstr n) (cstr h)
         | Some k \<Rightarrow> Suc i \<le> k \<and> prefix (cstr n) (drop (k - Suc i) (cstr h)) \<and>
             (\<forall>j < k - Suc i. \<not> prefix (cstr n) (drop j (cstr h)))" by blast
      show ?thesis
      proof (cases r)
        case None
        then show ?thesis using r m c False by (simp add: sublist_Cons_right)
      next
        case (Some k)
        then obtain d where d: "k = Suc (i + d)" using r(2) by (auto dest!: Suc_le_D le_Suc_ex)
        have "\<not> prefix (cstr n) (drop j (c # cstr h))" if "j < Suc d" for j
          using that r(2) Some d False by (cases j) auto
        then show ?thesis using r m c False Some d by simp
      qed
    qed
  qed
qed simp

section \<open>Tokens\<close>

text \<open>The tokens of a string: the maximal runs of characters that are no delimiters.\<close>

function tokens :: "(u8 \<Rightarrow> bool) \<Rightarrow> u8 list \<Rightarrow> u8 list list" where
  "tokens D xs = (let ys = dropWhile D xs in
     if ys = [] then [] else takeWhile (Not \<circ> D) ys # tokens D (dropWhile (Not \<circ> D) ys))"
  by pat_completeness auto
termination
proof (relation "measure (length \<circ> snd)")
  fix D :: "u8 \<Rightarrow> bool" and xs ys
  assume ys: "ys = dropWhile D xs" "ys \<noteq> []"
  then have "\<not> D (hd ys)" by (simp add: hd_dropWhile)
  then have "length (dropWhile (Not \<circ> D) ys) < length ys"
    using ys(2) by (cases ys) (auto simp: le_imp_less_Suc length_dropWhile_le)
  also have "\<dots> \<le> length xs" using ys(1) by (simp add: length_dropWhile_le)
  finally show "((D, dropWhile (Not \<circ> D) ys), (D, xs)) \<in> measure (length \<circ> snd)" by simp
qed simp

declare tokens.simps [simp del]

lemma tokens_Nil [simp]: "tokens D [] = []"
  by (simp add: tokens.simps)

lemma tokens_skip: "tokens D (dropWhile D xs) = tokens D xs"
  by (subst (1 2) tokens.simps) simp

lemma tokens_Cons_delim: "D x \<Longrightarrow> tokens D (x # xs) = tokens D xs"
  using tokens_skip [of D "x # xs"] tokens_skip [of D xs] by simp

text \<open>Calling \<open>strtok\<close> until it returns null, at most \<open>f\<close> times, and reading each token.\<close>

primrec strtok_all :: "nat \<Rightarrow> u8 list option \<Rightarrow> u8 list \<Rightarrow> StrtokState \<Rightarrow> u8 list list option" where
  "strtok_all 0 str delim st = None"
| "strtok_all (Suc f) str delim st =
     do { (r, st') \<leftarrow> strtok str delim st;
          case r of None \<Rightarrow> Some []
          | Some i \<Rightarrow> do { rest \<leftarrow> strtok_all f None delim st';
                           Some (cstr (drop i (tok_buf st')) # rest) } }"

abbreviation delims :: "u8 list \<Rightarrow> u8 \<Rightarrow> bool" where
  "delims delim \<equiv> (\<lambda>c. c \<in> set (cstr delim))"

lemma skip_while_eq:
  assumes "terminated delim" and "terminated xs"
  shows "skip_while want delim xs i = Some (i + length (takeWhile (\<lambda>c. c \<noteq> 0 \<and> delims delim c = want) xs))"
  using assms(2)
proof (induction xs arbitrary: i)
  case (Cons c xs)
  then show ?case using strchr_eq [OF assms(1), of c] by auto
qed simp

lemma cstr_dropWhile: "cstr (dropWhile (\<lambda>c. c \<noteq> 0 \<and> P c) xs) = dropWhile P (cstr xs)"
  by (induction xs) auto

lemma takeWhile_cstr: "takeWhile P (cstr xs) = takeWhile (\<lambda>c. c \<noteq> 0 \<and> P c) xs"
  by (induction xs) auto

lemma terminated_dropWhile: "terminated xs \<Longrightarrow> terminated (dropWhile (\<lambda>c. c \<noteq> 0 \<and> P c) xs)"
  by (induction xs) auto

text \<open>One call: the token starts after the delimiters and is cut off at the next one.\<close>

lemma strtok_step:
  fixes xs :: "u8 list" and D :: "u8 \<Rightarrow> bool"
  assumes t: "terminated delim" "terminated (drop pos buf)" and st: "tok_buf st = buf" "tok_last st = Some pos"
  defines "D \<equiv> delims delim"
  defines "ys \<equiv> dropWhile (\<lambda>c. c \<noteq> 0 \<and> D c) (drop pos buf)"
  defines "tok \<equiv> takeWhile (\<lambda>c. c \<noteq> 0 \<and> \<not> D c) ys"
  defines "start \<equiv> pos + length (takeWhile (\<lambda>c. c \<noteq> 0 \<and> D c) (drop pos buf))"
  defines "stop \<equiv> start + length tok"
  shows "strtok None delim st =
    (if cstr ys = [] then Some (None, st\<lparr>tok_last := None\<rparr>)
     else if buf ! stop \<noteq> 0 then Some (Some start, st\<lparr>tok_buf := buf[stop := 0], tok_last := Some (stop + 1)\<rparr>)
     else Some (Some start, st\<lparr>tok_last := None\<rparr>))"
    and "drop start buf = ys" and "stop < length buf" and "start < length buf" and "terminated ys"
    and "drop stop buf = dropWhile (\<lambda>c. c \<noteq> 0 \<and> \<not> D c) ys"
proof -
  show ys: "drop start buf = ys"
    by (simp add: start_def ys_def dropWhile_eq_drop add.commute)
  show ty: "terminated ys" using t(2) unfolding ys_def by (rule terminated_dropWhile)
  show zs: "drop stop buf = dropWhile (\<lambda>c. c \<noteq> 0 \<and> \<not> D c) ys"
    unfolding stop_def tok_def ys [symmetric] by (simp add: dropWhile_eq_drop add.commute)
  have tz: "terminated (drop stop buf)" unfolding zs using ty by (rule terminated_dropWhile)
  show stop: "stop < length buf" using tz by (cases "stop < length buf") auto
  show start: "start < length buf" using stop by (simp add: stop_def)
  have s1: "skip_while True delim (drop pos buf) pos = Some start"
    using skip_while_eq [OF t] by (simp add: start_def D_def)
  have s2: "skip_while False delim (drop start buf) start = Some stop"
    using skip_while_eq [OF t(1) ty] by (simp add: ys stop_def tok_def D_def)
  have hd: "buf ! start = 0 \<longleftrightarrow> cstr ys = []"
    using start ys by (auto simp: Cons_nth_drop_Suc [symmetric] split: if_splits)
  show "strtok None delim st =
    (if cstr ys = [] then Some (None, st\<lparr>tok_last := None\<rparr>)
     else if buf ! stop \<noteq> 0 then Some (Some start, st\<lparr>tok_buf := buf[stop := 0], tok_last := Some (stop + 1)\<rparr>)
     else Some (Some start, st\<lparr>tok_last := None\<rparr>))"
    using start stop s2 hd by (simp add: strtok_def st s1)
qed

lemma tokens_cstr:
  fixes D :: "u8 \<Rightarrow> bool"
  defines "ys xs \<equiv> dropWhile (\<lambda>c. c \<noteq> 0 \<and> D c) xs"
  shows "tokens D (cstr xs) = (if cstr (ys xs) = [] then []
    else takeWhile (\<lambda>c. c \<noteq> 0 \<and> \<not> D c) (ys xs) # tokens D (cstr (dropWhile (\<lambda>c. c \<noteq> 0 \<and> \<not> D c) (ys xs))))"
proof -
  have a: "dropWhile D (cstr xs) = cstr (ys xs)"
    unfolding ys_def by (rule cstr_dropWhile [symmetric])
  have b: "takeWhile (Not \<circ> D) (cstr (ys xs)) = takeWhile (\<lambda>c. c \<noteq> 0 \<and> \<not> D c) (ys xs)"
    by (simp add: takeWhile_cstr)
  have c: "dropWhile (Not \<circ> D) (cstr (ys xs)) = cstr (dropWhile (\<lambda>c. c \<noteq> 0 \<and> \<not> D c) (ys xs))"
    by (simp add: cstr_dropWhile comp_def)
  show ?thesis unfolding tokens.simps [of D "cstr xs"] Let_def a b c ..
qed

lemma cstr_takeWhile: "cstr (takeWhile (\<lambda>c. c \<noteq> 0 \<and> P c) xs @ 0 # ws) = takeWhile (\<lambda>c. c \<noteq> 0 \<and> P c) xs"
  by (induction xs) auto

lemma strtok_all_tokens:
  assumes "terminated delim" and "terminated (drop pos (tok_buf st))" and "tok_last st = Some pos"
    and "length (drop pos (tok_buf st)) < f"
  shows "strtok_all f None delim st = Some (tokens (delims delim) (cstr (drop pos (tok_buf st))))"
  using assms(2-4)
proof (induction f arbitrary: st pos)
  case (Suc f)
  let ?D = "delims delim" and ?buf = "tok_buf st"
  define ys where "ys = dropWhile (\<lambda>c. c \<noteq> 0 \<and> ?D c) (drop pos ?buf)"
  define tok where "tok = takeWhile (\<lambda>c. c \<noteq> 0 \<and> \<not> ?D c) ys"
  define start where "start = pos + length (takeWhile (\<lambda>c. c \<noteq> 0 \<and> ?D c) (drop pos ?buf))"
  define stop where "stop = start + length tok"
  note step = strtok_step [OF assms(1) Suc.prems(1) refl Suc.prems(2), folded ys_def start_def,
      folded tok_def, folded stop_def]
  have toks: "tokens ?D (cstr (drop pos ?buf)) =
      (if cstr ys = [] then [] else tok # tokens ?D (cstr (drop stop ?buf)))"
    unfolding step(6) tok_def by (subst tokens_cstr) (simp only: ys_def)
  have cut: "cstr (drop start xs) = tok" if "drop start xs = tok @ 0 # ws" for xs ws
    unfolding that tok_def by (rule cstr_takeWhile)
  have split: "ys = tok @ drop stop ?buf" unfolding step(6) tok_def by simp
  have nz: "drop stop ?buf = ?buf ! stop # drop (Suc stop) ?buf"
    using step(3) by (simp add: Cons_nth_drop_Suc)
  show ?case
  proof (cases "cstr ys = []")
    case True
    then show ?thesis using step(1) toks by simp
  next
    case ne: False
    show ?thesis
    proof (cases "?buf ! stop = 0")
      case True
      have "f \<noteq> 0" using Suc.prems(3) step(4) by (auto simp: start_def)
      then obtain f' where f': "f = Suc f'" by (cases f) auto
      have "cstr (drop start ?buf) = tok" using split nz True step(2) by (intro cut) simp
      then show ?thesis using step(1) toks ne True nz f' by (simp add: strtok_def)
    next
      case False
      let ?st = "st\<lparr>tok_buf := ?buf[stop := 0], tok_last := Some (stop + 1)\<rparr>"
      have d: "drop (stop + 1) (tok_buf ?st) = drop (Suc stop) ?buf" by simp
      have "?D (?buf ! stop)"
        using step(6) nz False dropWhile_eq_Cons_conv [of "\<lambda>c. c \<noteq> 0 \<and> \<not> ?D c" ys] by metis
      then have r: "tokens ?D (cstr (drop stop ?buf)) = tokens ?D (cstr (drop (Suc stop) ?buf))"
        unfolding nz using False by (simp add: tokens_Cons_delim)
      have "terminated (drop stop ?buf)"
        unfolding step(6) using step(5) by (rule terminated_dropWhile)
      then have "terminated (drop (Suc stop) ?buf)" unfolding nz using False by auto
      then have rest: "strtok_all f None delim ?st = Some (tokens ?D (cstr (drop (Suc stop) ?buf)))"
        using Suc.IH [of "stop + 1" ?st] Suc.prems(3) step(3) by (simp add: start_def stop_def)
      have "drop start (?buf[stop := 0]) = tok @ 0 # drop (Suc stop) ?buf"
        using split step(2,3) nz by (simp add: drop_update_swap stop_def list_update_append)
      then show ?thesis using step(1) toks ne False r rest cut by simp
    qed
  qed
qed simp

section \<open>Properties\<close>

text \<open>
  C30. \<open>strtok\<close>: the first call with a string and the calls with null after it return the
  maximal runs of characters that are no delimiters, in order, and then null. More calls
  than the string has bytes are never needed.
\<close>

theorem strtok_returns_tokens:
  assumes "terminated s" and "terminated delim" and "length s < f"
  shows "strtok_all f (Some s) delim st = Some (tokens (\<lambda>c. c \<in> set (cstr delim)) (cstr s))"
proof -
  obtain f' where f: "f = Suc f'" using assms(3) by (cases f) auto
  let ?st = "st\<lparr>tok_buf := s, tok_last := Some 0\<rparr>"
  have "strtok (Some s) delim st = strtok None delim ?st" by (simp add: strtok_def Let_def)
  then have "strtok_all f (Some s) delim st = strtok_all f None delim ?st" using f by simp
  then show ?thesis using strtok_all_tokens [of delim 0 ?st f] assms by simp
qed

theorem strtok_returns_tokens_witness:
  "strtok_all 9 (Some [47, 97, 98, 47, 47, 99, 0]) [47, 0] \<lparr>tok_buf = [], tok_last = None\<rparr> = Some [[97, 98], [99]]"
  using strtok_returns_tokens [of "[47, 97, 98, 47, 47, 99, 0]" "[47, 0]" 9] by (simp add: tokens.simps)

text \<open>
  \<open>strstr\<close> on two strings returns the first position at which the needle occurs in the
  haystack, and null exactly when it does not occur.
\<close>

theorem strstr_first_occurrence:
  assumes "terminated h" and "terminated n"
  shows "\<exists>r. strstr (Some h) (Some n) = Some r \<and>
    (case r of None \<Rightarrow> \<not> sublist (cstr n) (cstr h)
     | Some k \<Rightarrow> prefix (cstr n) (drop k (cstr h)) \<and> (\<forall>j < k. \<not> prefix (cstr n) (drop j (cstr h))))"
proof (cases "cstr n = []")
  case True
  then show ?thesis using assms(2) by (cases n) (auto simp: strstr_def arr_get_def split: if_splits)
next
  case False
  then have "strstr (Some h) (Some n) = strstr_loop h n 0"
    using assms(2) by (cases n) (auto simp: strstr_def arr_get_def)
  then show ?thesis using strstr_loop_eq [OF assms False, of 0] by (auto split: option.splits)
qed

theorem strstr_first_occurrence_witness:
  "strstr (Some [97, 98, 97, 98, 0]) (Some [98, 97, 0]) = Some (Some 1) \<and>
   prefix [98, 97] (drop 1 [97, 98, 97, 98 :: u8]) \<and> \<not> prefix [98, 97] (drop 0 [97, 98, 97, 98 :: u8])"
proof -
  have "strstr (Some [97, 98, 97, 98, 0]) (Some [98, 97, 0]) = Some (Some 1)" by (simp add: strstr_def arr_get_def)
  then show ?thesis using strstr_first_occurrence [of "[97, 98, 97, 98, 0]" "[98, 97, 0]"] by simp
qed

text \<open>
  \<open>strcmp\<close> on two strings is zero exactly when they are equal and negative exactly when
  the first comes before the second in the lexicographic order of unsigned bytes.
\<close>

theorem strcmp_lexicographic:
  assumes "terminated s1" and "terminated s2"
  shows "\<exists>r. strcmp s1 s2 = Some r \<and> (r = 0 \<longleftrightarrow> cstr s1 = cstr s2) \<and> (r < 0 \<longleftrightarrow> cstr s1 < cstr s2)"
  using assms by (rule strcmp_lex)

theorem strcmp_lexicographic_witness:
  "\<exists>r. strcmp [97, 200, 0] [97, 98, 0] = Some r \<and> r \<noteq> 0 \<and> \<not> r < 0"
  using strcmp_lexicographic [of "[97, 200, 0]" "[97, 98, 0]"] by auto

end
