(* ===== verification/Format.thy ===== *)
theory Format
  imports CString
begin

text \<open>
  The formatted output of \<open>lib/debug.cpp\<close>. The output is the bytes of the buffer and the offset
  of \<open>p\<close> in it; \<open>end\<close> is the offset behind the last byte that may be written. Arguments are a
  list of words and strings, where reading one of the other kind is undefined, as is a read
  behind the end of the format.
\<close>

section \<open>Flags\<close>

record FormatFlags =
  width :: int
  precision :: int
  alternative :: bool
  zero_padding :: bool
  left_align :: bool
  ftype :: u8

datatype va_arg = VInt u32 | VStr "u8 list option"

definition va_int :: "va_arg list \<Rightarrow> (u32 \<times> va_arg list) option" where
  "va_int args = (case args of VInt v # rest \<Rightarrow> Some (v, rest) | _ \<Rightarrow> None)"

definition va_str :: "va_arg list \<Rightarrow> (u8 list option \<times> va_arg list) option" where
  "va_str args = (case args of VStr s # rest \<Rightarrow> Some (s, rest) | _ \<Rightarrow> None)"

definition is_digit :: "u8 \<Rightarrow> bool" where
  "is_digit c \<longleftrightarrow> 0x30 \<le> c \<and> c \<le> 0x39"

fun parse_flag_chars :: "u8 list \<Rightarrow> FormatFlags \<Rightarrow> (u8 list \<times> FormatFlags) option" where
  "parse_flag_chars [] fl = None"
| "parse_flag_chars (c # cs) fl =
     (if c = 0x23 then parse_flag_chars cs (fl\<lparr>alternative := True\<rparr>)
      else if c = 0x30 then parse_flag_chars cs (fl\<lparr>zero_padding := True\<rparr>)
      else if c = 0x2D then parse_flag_chars cs (fl\<lparr>left_align := True\<rparr>)
      else Some (c # cs, fl))"

text \<open>A number in the format, in an \<open>int\<close> whose overflow is undefined.\<close>

fun parse_digits :: "u8 list \<Rightarrow> int \<Rightarrow> (u8 list \<times> int) option" where
  "parse_digits [] n = None"
| "parse_digits (c # cs) n =
     (if \<not> is_digit c then Some (c # cs, n)
      else if n * 10 + (uint c - 48) \<ge> 2 ^ 31 then None
      else parse_digits cs (n * 10 + (uint c - 48)))"

text \<open>A number or an asterisk, which takes the next argument.\<close>

definition parse_count :: "u8 list \<Rightarrow> int \<Rightarrow> va_arg list \<Rightarrow> (u8 list \<times> int \<times> va_arg list) option" where
  "parse_count fmt n args =
     do { c \<leftarrow> arr_get fmt 0;
          if is_digit c then do { (fmt, n) \<leftarrow> parse_digits fmt 0; Some (fmt, n, args) }
          else if c = 0x2A then do { (v, args) \<leftarrow> va_int args; Some (tl fmt, sint v, args) }
          else Some (fmt, n, args) }"

definition parse_format_flags ::
  "u8 list \<Rightarrow> va_arg list \<Rightarrow> (u8 list \<times> FormatFlags \<times> va_arg list) option" where
  "parse_format_flags fmt args =
     do { (fmt, fl) \<leftarrow> parse_flag_chars fmt
            \<lparr>width = 0, precision = - 1, alternative = False, zero_padding = False, left_align = False, ftype = 0\<rparr>;
          (fmt, w, args) \<leftarrow> parse_count fmt 0 args;
          c \<leftarrow> arr_get fmt 0;
          (fmt, pr, args) \<leftarrow> (if c = 0x2E then parse_count (tl fmt) 0 args else Some (fmt, - 1, args));
          c \<leftarrow> arr_get fmt 0;
          fmt \<leftarrow> (if c = 0x6C \<or> c = 0x68
                 then do { d \<leftarrow> arr_get fmt 1; Some (if d = c then drop 2 fmt else tl fmt) } else Some fmt);
          c \<leftarrow> arr_get fmt 0;
          Some (fmt, fl\<lparr>width := w, precision := pr, ftype := c\<rparr>, args) }"

section \<open>Output\<close>

definition put_char :: "nat \<Rightarrow> u8 \<Rightarrow> u8 list \<times> nat \<Rightarrow> (u8 list \<times> nat) option" where
  "put_char e c st =
     (case st of (buf, p) \<Rightarrow> if p < e then do { buf \<leftarrow> arr_set buf p c; Some (buf, p + 1) } else Some (buf, p))"

text \<open>A loop that writes characters while \<open>p < end\<close>.\<close>

primrec put_chars :: "nat \<Rightarrow> u8 list \<Rightarrow> u8 list \<times> nat \<Rightarrow> (u8 list \<times> nat) option" where
  "put_chars e [] st = Some st"
| "put_chars e (c # cs) st = do { st \<leftarrow> put_char e c st; put_chars e cs st }"

definition apply_padding :: "nat \<Rightarrow> int \<Rightarrow> FormatFlags \<Rightarrow> bool \<Rightarrow> u8 list \<times> nat \<Rightarrow> (u8 list \<times> nat) option" where
  "apply_padding e len fl prefix_handled st =
     (if \<not> left_align fl \<and> width fl > len
      then put_chars e (replicate (nat (width fl - len)) (if zero_padding fl \<and> \<not> prefix_handled then 0x30 else 0x20)) st
      else Some st)"

definition apply_post_padding :: "nat \<Rightarrow> int \<Rightarrow> FormatFlags \<Rightarrow> u8 list \<times> nat \<Rightarrow> (u8 list \<times> nat) option" where
  "apply_post_padding e len fl st =
     (if left_align fl \<and> width fl > len then put_chars e (replicate (nat (width fl - len)) 0x20) st else Some st)"

definition digit_char :: "bool \<Rightarrow> nat \<Rightarrow> u8" where
  "digit_char upper d = of_nat (if d < 10 then 48 + d else if upper then 55 + d else 87 + d)"

text \<open>The digits of a number in a base of at least two, most significant first.\<close>

function digits_of :: "bool \<Rightarrow> nat \<Rightarrow> nat \<Rightarrow> u8 list" where
  "digits_of upper b v =
     (if v < b \<or> b < 2 then [digit_char upper v] else digits_of upper b (v div b) @ [digit_char upper (v mod b)])"
  by pat_completeness auto
termination
  by (relation "measure (\<lambda>(_, _, v). v)") auto

declare digits_of.simps [simp del]

definition format_integer :: "nat \<Rightarrow> u32 \<Rightarrow> FormatFlags \<Rightarrow> u8 list \<times> nat \<Rightarrow> (u8 list \<times> nat) option" where
  "format_integer e value fl st =
     (let v = sint value; neg = v < 0 in
      if v = - (2 ^ 31) then None
      else do {
        let ds = digits_of False 10 (nat \<bar>v\<bar>);
        let len = int (length ds) + (if neg then 1 else 0);
        let first = neg \<and> \<not> left_align fl \<and> zero_padding fl \<and> snd st < e;
        st \<leftarrow> (if first then put_char e 0x2D st else Some st);
        st \<leftarrow> apply_padding e len fl False st;
        st \<leftarrow> (if neg \<and> \<not> first then put_char e 0x2D st else Some st);
        st \<leftarrow> put_chars e ds st;
        apply_post_padding e len fl st })"

definition format_unsigned :: "nat \<Rightarrow> u32 \<Rightarrow> FormatFlags \<Rightarrow> u8 list \<times> nat \<Rightarrow> (u8 list \<times> nat) option" where
  "format_unsigned e value fl st =
     (let ds = digits_of False 10 (unat value); len = int (length ds) in
      do { st \<leftarrow> apply_padding e len fl False st; st \<leftarrow> put_chars e ds st; apply_post_padding e len fl st })"

text \<open>The sum of the lengths in \<open>format_hex\<close> is an \<open>int\<close>.\<close>

definition format_hex :: "nat \<Rightarrow> u32 \<Rightarrow> FormatFlags \<Rightarrow> u8 list \<times> nat \<Rightarrow> (u8 list \<times> nat) option" where
  "format_hex e value fl st =
     (let upper = ftype fl = 0x58; ds = digits_of upper 16 (unat value); num_len = int (length ds);
          prefix_len = (if alternative fl then 2 else 0);
          (zeros, base_len) =
            (if precision fl > num_len then (precision fl - num_len, precision fl)
             else if zero_padding fl \<and> \<not> left_align fl \<and> width fl > num_len + prefix_len
             then (width fl - num_len - prefix_len, num_len) else (0, num_len));
          total_len = base_len + prefix_len + zeros;
          spaces = (if width fl > total_len then width fl - total_len else 0) in
      if total_len \<ge> 2 ^ 31 then None
      else do {
        st \<leftarrow> (if \<not> left_align fl then put_chars e (replicate (nat spaces) 0x20) st else Some st);
        st \<leftarrow> (if alternative fl \<and> snd st + 1 < e then put_chars e [0x30, if upper then 0x58 else 0x78] st else Some st);
        st \<leftarrow> put_chars e (replicate (nat zeros) 0x30) st;
        st \<leftarrow> put_chars e ds st;
        if left_align fl then put_chars e (replicate (nat spaces) 0x20) st else Some st })"

definition format_octal :: "nat \<Rightarrow> u32 \<Rightarrow> FormatFlags \<Rightarrow> u8 list \<times> nat \<Rightarrow> (u8 list \<times> nat) option" where
  "format_octal e value fl st =
     (let prefix_handled = alternative fl \<and> snd st < e; ds = digits_of False 8 (unat value);
          len = int (length ds) + (if alternative fl then 1 else 0) in
      do { st \<leftarrow> (if prefix_handled then put_char e 0x30 st else Some st);
           st \<leftarrow> (if \<not> prefix_handled then apply_padding e len fl False st else Some st);
           st \<leftarrow> put_chars e ds st;
           apply_post_padding e len fl st })"

definition format_str :: "nat \<Rightarrow> u8 list option \<Rightarrow> FormatFlags \<Rightarrow> u8 list \<times> nat \<Rightarrow> (u8 list \<times> nat) option" where
  "format_str e s fl st =
     (let s = (case s of None \<Rightarrow> [0x28, 0x6E, 0x75, 0x6C, 0x6C, 0x29, 0] | Some x \<Rightarrow> x) in
      do { n \<leftarrow> strlen s;
           let len = (if precision fl \<ge> 0 \<and> precision fl < int n then precision fl else int n);
           st \<leftarrow> apply_padding e len fl False st;
           st \<leftarrow> put_chars e (take (nat len) s) st;
           apply_post_padding e len fl st })"

definition format_char :: "nat \<Rightarrow> u32 \<Rightarrow> FormatFlags \<Rightarrow> u8 list \<times> nat \<Rightarrow> (u8 list \<times> nat) option" where
  "format_char e c fl st =
     do { st \<leftarrow> apply_padding e 1 fl False st; st \<leftarrow> put_char e (ucast c) st; apply_post_padding e 1 fl st }"

definition format_pointer :: "nat \<Rightarrow> u32 \<Rightarrow> u8 list \<times> nat \<Rightarrow> (u8 list \<times> nat) option" where
  "format_pointer e ptr st = do { st \<leftarrow> put_chars e [0x30, 0x78] st; put_chars e (digits_of False 16 (unat ptr)) st }"

section \<open>The main function\<close>

definition format_directive ::
  "nat \<Rightarrow> FormatFlags \<Rightarrow> va_arg list \<Rightarrow> u8 list \<times> nat \<Rightarrow> ((u8 list \<times> nat) \<times> va_arg list) option" where
  "format_directive e fl args st =
     (let ty = ftype fl in
      if ty \<in> {0x64, 0x69} then do { (v, args) \<leftarrow> va_int args; st \<leftarrow> format_integer e v fl st; Some (st, args) }
      else if ty = 0x75 then do { (v, args) \<leftarrow> va_int args; st \<leftarrow> format_unsigned e v fl st; Some (st, args) }
      else if ty \<in> {0x78, 0x58} then do { (v, args) \<leftarrow> va_int args; st \<leftarrow> format_hex e v fl st; Some (st, args) }
      else if ty = 0x6F then do { (v, args) \<leftarrow> va_int args; st \<leftarrow> format_octal e v fl st; Some (st, args) }
      else if ty = 0x73 then do { (s, args) \<leftarrow> va_str args; st \<leftarrow> format_str e s fl st; Some (st, args) }
      else if ty = 0x63 then do { (v, args) \<leftarrow> va_int args; st \<leftarrow> format_char e v fl st; Some (st, args) }
      else if ty = 0x70 then do { (v, args) \<leftarrow> va_int args; st \<leftarrow> format_pointer e v st; Some (st, args) }
      else do { st \<leftarrow> put_char e ty st; Some (st, args) })"

partial_function (option) format_loop ::
  "nat \<Rightarrow> u8 list \<Rightarrow> va_arg list \<Rightarrow> u8 list \<times> nat \<Rightarrow> (u8 list \<times> nat) option" where
  [code]: "format_loop e fmt args st =
     do { c \<leftarrow> arr_get fmt 0;
          if c = 0 \<or> snd st \<ge> e then Some st
          else if c \<noteq> 0x25 then do { st \<leftarrow> put_char e c st; format_loop e (tl fmt) args st }
          else do {
            (fmt, fl, args) \<leftarrow> parse_format_flags (tl fmt) args;
            (st, args) \<leftarrow> format_directive e fl args st;
            format_loop e (tl fmt) args st } }"

text \<open>The result is the number of bytes before the terminating zero is written, and the buffer.\<close>

definition format_string_v :: "u8 list \<Rightarrow> nat \<Rightarrow> u8 list \<Rightarrow> va_arg list \<Rightarrow> (nat \<times> u8 list) option" where
  "format_string_v buffer sz fmt args =
     do { (buf, p) \<leftarrow> format_loop sz fmt args (buffer, 0);
          buf \<leftarrow> (if p < sz then arr_set buf p 0 else if sz > 0 then arr_set buf (sz - 1) 0 else Some buf);
          Some (p, buf) }"

definition get_filename_from_path :: "u8 list \<Rightarrow> nat option" where
  "get_filename_from_path path = map_option (\<lambda>r. case r of None \<Rightarrow> 0 | Some i \<Rightarrow> i + 1) (strrchr path 0x2F)"

section \<open>Hexadecimal dumps\<close>

definition format_at :: "u8 list \<Rightarrow> nat \<Rightarrow> nat \<Rightarrow> u8 list \<Rightarrow> va_arg list \<Rightarrow> (nat \<times> u8 list) option" where
  "format_at line p sz fmt args = do { (n, b) \<leftarrow> format_string_v (drop p line) sz fmt args; Some (n, take p line @ b) }"

text \<open>
  \<open>_debug_print\<close>: the message that goes to the output handler, none for a level above the current
  one. The current task and the processor are arguments, and so is the buffer, which the code
  does not initialise. The prefix is the one of the current level, not of the message.
\<close>

abbreviation (input) log_level_prefix :: "u8 list list" where
  "log_level_prefix \<equiv> map (\<lambda>i. [0x3C, 0x30 + i, 0x3E, 0]) [0, 1, 2, 3, 4, 5, 6, 7]"

definition debug_print ::
  "nat \<Rightarrow> u32 option \<Rightarrow> u32 \<Rightarrow> nat \<Rightarrow> u8 list \<Rightarrow> u32 \<Rightarrow> u8 list \<Rightarrow> u8 list \<Rightarrow> va_arg list \<Rightarrow> u8 list \<Rightarrow> u8 list option option" where
  "debug_print current_log_level current cpu_id level file line func fmt args msg_buffer =
     (if level > current_log_level then Some None
      else do {
        let pid = (case current of None \<Rightarrow> 0 | Some task_id \<Rightarrow> task_id);
        prefix \<leftarrow> arr_get log_level_prefix current_log_level;
        name \<leftarrow> get_filename_from_path file;
        (len, buf) \<leftarrow> format_string_v msg_buffer 512 (map of_char ''%s[CPU:%d TID:%d] (%s:%d %s): '' @ [0])
          [VStr (Some prefix), VInt cpu_id, VInt pid, VStr (Some (drop name file)), VInt line, VStr (Some func)];
        (_, buf) \<leftarrow> format_at buf len (512 - len) fmt args;
        Some (Some buf) })"

text \<open>The columns from \<open>i\<close> on: the bytes, then blanks up to the sixteenth.\<close>

primrec hex_columns :: "nat \<Rightarrow> u8 list \<Rightarrow> nat \<Rightarrow> u8 list \<times> nat \<Rightarrow> (u8 list \<times> nat) option" where
  "hex_columns 0 bs i st = Some st"
| "hex_columns (Suc k) bs i st =
     (case st of (line, p) \<Rightarrow>
        do { (n, line) \<leftarrow> (case bs of
               [] \<Rightarrow> format_at line p 3 [0x20, 0x20, 0] []
             | b # _ \<Rightarrow> format_at line p 3 [0x25, 0x30, 0x32, 0x78, 0] [VInt (ucast b)]);
             (line, p) \<leftarrow> (if i = 7 then do { l \<leftarrow> arr_set line (p + n) 0x20; Some (l, p + n + 1) } else Some (line, p + n));
             line \<leftarrow> arr_set line p 0x20;
             hex_columns k (tl bs) (i + 1) (line, p + 1) })"

definition hexdump_line :: "u8 list \<Rightarrow> u32 \<Rightarrow> u8 list \<Rightarrow> u8 list option" where
  "hexdump_line line address bs =
     do { (_, line) \<leftarrow> format_at line 0 9 [0x25, 0x30, 0x38, 0x78, 0x3A, 0] [VInt address];
          let line = map (\<lambda>c. if c = 0 \<or> c = 0x0A then 0x20 else c) (take 9 line) @ drop 9 line;
          line \<leftarrow> arr_set line 9 0x20;
          (line, p) \<leftarrow> hex_columns 16 bs 0 (line, 10);
          r \<leftarrow> put_chars (length line + 1) ([0x7C, 0x20] @ map (\<lambda>c. if 32 \<le> c \<and> c \<le> 126 then c else 0x2E) bs @
            replicate (16 - length bs) 0x20 @ [0]) (line, p);
          Some (fst r) }"

text \<open>The lines that are handed to the output function, each in the same array.\<close>

function hexdump :: "u8 list \<Rightarrow> u32 \<Rightarrow> u8 list \<Rightarrow> u8 list list option" where
  "hexdump line address bs =
     (if bs = [] then Some []
      else do { line \<leftarrow> hexdump_line line address (take 16 bs);
                rest \<leftarrow> hexdump line (address + of_nat (min 16 (length bs))) (drop 16 bs);
                Some (line # rest) })"
  by pat_completeness auto
termination
  by (relation "measure (\<lambda>(_, _, bs). length bs)") auto

declare hexdump.simps [simp del]

section \<open>What is printed\<close>

lemma put_chars_room:
  "p + length cs \<le> e \<Longrightarrow> e \<le> length buf \<Longrightarrow>
    put_chars e cs (buf, p) = Some (take p buf @ cs @ drop (p + length cs) buf, p + length cs)"
proof (induction cs arbitrary: buf p)
  case (Cons c cs)
  then have "put_chars e cs (buf[p := c], p + 1) = Some (take (p + 1) (buf[p := c]) @ cs @ drop (p + 1 + length cs) (buf[p := c]), p + 1 + length cs)"
    by simp
  moreover have "take (p + 1) (buf[p := c]) = take p buf @ [c]" using Cons.prems by (simp add: take_Suc_conv_app_nth)
  ultimately show ?case using Cons.prems by (simp add: put_char_def arr_set_def)
qed simp

text \<open>Reading digits back.\<close>

definition digit_value :: "u8 \<Rightarrow> nat" where
  "digit_value c = (if c < 58 then unat c - 48 else unat c - 87)"

definition read_number :: "nat \<Rightarrow> u8 list \<Rightarrow> nat" where
  "read_number b = foldl (\<lambda>n c. n * b + digit_value c) 0"

lemma digit_value_char: "d < 16 \<Longrightarrow> digit_value (digit_char False d) = d"
  by (simp add: digit_value_def digit_char_def word_less_nat_alt unat_of_nat)

lemma read_digits_of: "2 \<le> b \<Longrightarrow> b \<le> 16 \<Longrightarrow> read_number b (digits_of False b v) = v"
proof (induction v rule: less_induct)
  case (less v)
  show ?case
  proof (cases "v < b")
    case True
    then show ?thesis using less.prems by (simp add: digits_of.simps [of _ b v] read_number_def digit_value_char)
  next
    case False
    then have "v div b < v" using less.prems by simp
    moreover have "v mod b < 16" using less.prems mod_less_divisor [of b v] by linarith
    ultimately show ?thesis using less False
      by (simp add: digits_of.simps [of _ b v] read_number_def digit_value_char)
  qed
qed

lemma length_digits_of: "2 \<le> b \<Longrightarrow> v < b ^ k \<Longrightarrow> 0 < k \<Longrightarrow> length (digits_of upper b v) \<le> k"
proof (induction k arbitrary: v)
  case (Suc k)
  show ?case
  proof (cases "v < b")
    case True
    then show ?thesis by (simp add: digits_of.simps [of _ b v])
  next
    case False
    then have "0 < k" using Suc.prems by (cases k) auto
    moreover have "v div b < b ^ k" using Suc.prems by (simp add: less_mult_imp_div_less mult.commute)
    ultimately show ?thesis using Suc False by (simp add: digits_of.simps [of _ b v])
  qed
qed simp

lemma format_loop_text:
  assumes "0 \<notin> set lit" and "0x25 \<notin> set lit" and "p + length lit \<le> e" and "e \<le> length buf"
  shows "format_loop e (lit @ rest) args (buf, p) =
    format_loop e rest args (take p buf @ lit @ drop (p + length lit) buf, p + length lit)"
  using assms
proof (induction lit arbitrary: buf p)
  case (Cons c lit)
  have "take (p + 1) (buf[p := c]) = take p buf @ [c]" using Cons.prems by (simp add: take_Suc_conv_app_nth)
  then have "format_loop e (lit @ rest) args (buf[p := c], p + 1) =
      format_loop e rest args (take p buf @ (c # lit) @ drop (p + length (c # lit)) buf, p + length (c # lit))"
    using Cons.IH [of "p + 1" "buf[p := c]"] Cons.prems by simp
  then show ?case using Cons.prems
    by (subst format_loop.simps) (simp add: put_char_def arr_set_def arr_get_def)
qed simp

section \<open>Properties\<close>

text \<open>
  A format of text and a decimal or a hexadecimal directive, with room for ten digits,
  gives the text and the digits of the argument, from which it can be read back, then a
  zero; the rest of the buffer is untouched.
\<close>

theorem format_number_roundtrip:
  assumes "0 \<notin> set lit" and "0x25 \<notin> set lit" and "c = 0x75 \<and> b = 10 \<or> c = 0x78 \<and> b = 16"
    and "length lit + 10 < sz" and "sz \<le> length buf"
  shows "\<exists>ds. format_string_v buf sz (lit @ [0x25, c, 0]) [VInt v] =
      Some (length lit + length ds, lit @ ds @ [0] @ drop (length lit + length ds + 1) buf) \<and>
    read_number b ds = unat v \<and> 0 < length ds \<and> length ds \<le> 10"
proof -
  define ds where "ds = digits_of False b (unat v)"
  define fl where "fl = \<lparr>width = 0, precision = - 1, alternative = False, zero_padding = False, left_align = False, ftype = c\<rparr>"
  define buf1 where "buf1 = lit @ drop (length lit) buf"
  have b: "2 \<le> b" "b \<le> 16" using assms(3) by auto
  have "unat v < b ^ 10" using assms(3) unat_u32_less [of v] by auto
  then have len: "length ds \<le> 10" using length_digits_of [OF b(1)] by (simp add: ds_def)
  have pos: "0 < length ds" by (subst ds_def, subst digits_of.simps) simp
  have parse: "parse_format_flags [c, 0] [VInt v] = Some ([c, 0], fl, [VInt v])"
    using assms(3) by (auto simp: parse_format_flags_def parse_count_def arr_get_def is_digit_def fl_def)
  have put: "put_chars sz ds (buf1, length lit) =
      Some (lit @ ds @ drop (length lit + length ds) buf, length lit + length ds)"
    using assms(4,5) len by (simp add: put_chars_room buf1_def add.commute)
  have dir: "format_directive sz fl [VInt v] (buf1, length lit) =
      Some ((lit @ ds @ drop (length lit + length ds) buf, length lit + length ds), [])"
    using assms(3) put len
    by (auto simp: format_directive_def fl_def va_int_def format_unsigned_def format_hex_def apply_padding_def
        apply_post_padding_def ds_def Let_def)
  have "format_loop sz (lit @ [0x25, c, 0]) [VInt v] (buf, 0) =
      Some (lit @ ds @ drop (length lit + length ds) buf, length lit + length ds)"
    using format_loop_text [OF assms(1,2), of 0 sz buf "[0x25, c, 0]"] assms(4,5) parse dir
    by (simp add: buf1_def [symmetric] format_loop.simps arr_get_def)
  moreover have "(lit @ ds @ drop (length lit + length ds) buf)[length lit + length ds := 0] =
      lit @ ds @ [0] @ drop (length lit + length ds + 1) buf"
    using assms(4,5) len by (simp add: list_update_append Cons_nth_drop_Suc [symmetric])
  ultimately have "format_string_v buf sz (lit @ [0x25, c, 0]) [VInt v] =
      Some (length lit + length ds, lit @ ds @ [0] @ drop (length lit + length ds + 1) buf)"
    using assms(4,5) len by (simp add: format_string_v_def arr_set_def)
  then show ?thesis using read_digits_of [OF b, of "unat v"] pos len by (auto simp: ds_def)
qed

theorem format_number_roundtrip_witness:
  "\<exists>ds. format_string_v (replicate 32 0xFF) 20 ([0x70, 0x3D] @ [0x25, 0x78, 0]) [VInt 0xBEEF] =
     Some (2 + length ds, [0x70, 0x3D] @ ds @ [0] @ drop (2 + length ds + 1) (replicate 32 0xFF)) \<and> read_number 16 ds = 0xBEEF"
  using format_number_roundtrip [of "[0x70, 0x3D]" "0x78" 16 20 "replicate 32 0xFF" "0xBEEF"] by auto

text \<open>What an output operation keeps: the length, the bytes behind \<open>end\<close>, and \<open>p\<close> within \<open>end\<close>.\<close>

definition within :: "nat \<Rightarrow> u8 list \<times> nat \<Rightarrow> u8 list \<times> nat \<Rightarrow> bool" where
  "within e st st' \<longleftrightarrow> length (fst st') = length (fst st) \<and> drop e (fst st') = drop e (fst st) \<and> (snd st \<le> e \<longrightarrow> snd st' \<le> e)"

lemma within_refl [simp]: "within e st st"
  by (simp add: within_def)

lemma within_trans: "within e a b \<Longrightarrow> within e b c \<Longrightarrow> within e a c"
  by (auto simp: within_def)

lemma put_char_within: "put_char e c st = Some st' \<Longrightarrow> within e st st'"
  by (auto simp: put_char_def within_def arr_set_def split: prod.splits if_splits)

lemma put_chars_within: "put_chars e cs st = Some st' \<Longrightarrow> within e st st'"
proof (induction cs arbitrary: st)
  case (Cons c cs)
  then obtain st1 where "put_char e c st = Some st1" "put_chars e cs st1 = Some st'" by (auto split: bind_splits)
  then show ?case using Cons.IH put_char_within within_trans by blast
qed simp

lemma if_None_SomeE: "(if b then None else m) = Some x \<Longrightarrow> (m = Some x \<Longrightarrow> P) \<Longrightarrow> P"
  by (auto split: if_splits)

lemma bind_SomeE: "m \<bind> k = Some x \<Longrightarrow> (\<And>y. k y = Some x \<Longrightarrow> P) \<Longrightarrow> P"
  by (cases m) auto

lemma padding_within:
  "apply_padding e len fl h st = Some st' \<Longrightarrow> within e st st'"
  "apply_post_padding e len fl st = Some st' \<Longrightarrow> within e st st'"
  by (auto simp: apply_padding_def apply_post_padding_def put_chars_within split: if_splits)

lemma if_within:
  "(if b then put_char e c st else Some st) = Some st' \<Longrightarrow> within e st st'"
  "(if b then put_chars e cs st else Some st) = Some st' \<Longrightarrow> within e st st'"
  "(if b then apply_padding e len fl h st else Some st) = Some st' \<Longrightarrow> within e st st'"
  by (auto simp: put_char_within put_chars_within padding_within split: if_splits)

lemmas within_rules = put_char_within put_chars_within padding_within if_within

lemma within_bind:
  "m \<bind> k = Some st' \<Longrightarrow> (\<And>x. m = Some x \<Longrightarrow> within e st x) \<Longrightarrow> (\<And>x. k x = Some st' \<Longrightarrow> within e x st') \<Longrightarrow> within e st st'"
  by (cases m) (auto intro: within_trans)

lemma format_integer_within: "format_integer e v fl st = Some st' \<Longrightarrow> within e st st'"
  unfolding format_integer_def Let_def by (erule if_None_SomeE, elim within_bind) (erule within_rules)+

lemma format_unsigned_within: "format_unsigned e v fl st = Some st' \<Longrightarrow> within e st st'"
  unfolding format_unsigned_def Let_def by (elim within_bind) (erule within_rules)+

lemma format_hex_within: "format_hex e v fl st = Some st' \<Longrightarrow> within e st st'"
  unfolding format_hex_def Let_def case_prod_beta by (erule if_None_SomeE, elim within_bind) (erule within_rules)+

lemma format_octal_within: "format_octal e v fl st = Some st' \<Longrightarrow> within e st st'"
  unfolding format_octal_def Let_def by (elim within_bind) (erule within_rules)+

lemma format_str_within: "format_str e s fl st = Some st' \<Longrightarrow> within e st st'"
  unfolding format_str_def Let_def by (erule bind_SomeE, elim within_bind) (erule within_rules)+

lemma format_char_within: "format_char e v fl st = Some st' \<Longrightarrow> within e st st'"
  unfolding format_char_def by (elim within_bind) (erule within_rules)+

lemma format_pointer_within: "format_pointer e v st = Some st' \<Longrightarrow> within e st st'"
  unfolding format_pointer_def by (elim within_bind) (erule within_rules)+

lemmas directive_within = format_integer_within format_unsigned_within format_hex_within format_octal_within format_str_within
  format_char_within format_pointer_within

lemma format_directive_within: "format_directive e fl args st = Some (st', args') \<Longrightarrow> within e st st'"
  by (auto simp: format_directive_def Let_def directive_within put_char_within split: bind_splits if_split_asm)

lemma format_loop_within:
  assumes "format_loop e fmt args st = Some st'"
  shows "within e st st'"
proof (rule format_loop.raw_induct [where P = "\<lambda>e fmt args st st'. within e st st'", OF _ assms])
  fix f e fmt args st st'
  assume IH: "\<And>e fmt args st st'. f e fmt args st = Some st' \<Longrightarrow> within e st st'"
    and eq: "arr_get fmt 0 \<bind> (\<lambda>c. if c = 0 \<or> e \<le> snd st then Some st
        else if c \<noteq> 0x25 then put_char e c st \<bind> f e (tl fmt) args
        else parse_format_flags (tl fmt) args \<bind>
          (\<lambda>(fmt, fl, args). format_directive e fl args st \<bind> (\<lambda>(st, args). f e (tl fmt) args st))) = Some st'"
  then show "within e st st'"
    by (auto split: bind_splits if_split_asm) (meson IH put_char_within format_directive_within within_trans)+
qed

lemma format_string_v_within:
  assumes "format_string_v buf sz fmt args = Some (n, buf')" and "sz \<le> length buf"
  shows "n \<le> sz \<and> length buf' = length buf \<and> drop sz buf' = drop sz buf \<and> (0 < sz \<longrightarrow> 0 \<in> set (take sz buf'))"
proof -
  obtain b where b: "format_loop sz fmt args (buf, 0) = Some (b, n)"
    and buf': "(if n < sz then arr_set b n 0 else if sz > 0 then arr_set b (sz - 1) 0 else Some b) = Some buf'"
  proof -
    obtain b p where "format_loop sz fmt args (buf, 0) = Some (b, p)"
      using assms(1) by (cases "format_loop sz fmt args (buf, 0)") (auto simp: format_string_v_def)
    then show thesis using assms(1) that by (auto simp: format_string_v_def split: bind_splits if_splits)
  qed
  have w: "length b = length buf" "drop sz b = drop sz buf" "n \<le> sz"
    using format_loop_within [OF b] by (auto simp: within_def)
  show ?thesis
  proof (cases "0 < sz")
    case True
    define i where "i = (if n < sz then n else sz - 1)"
    have i: "i < sz" "buf' = b[i := 0]" using buf' True by (auto simp: i_def arr_set_def split: if_splits)
    then have "take sz buf' ! i = 0" "i < length (take sz buf')" using w assms(2) by auto
    then have "0 \<in> set (take sz buf')" by (metis nth_mem)
    then show ?thesis using w i by simp
  next
    case False
    then show ?thesis using w buf' by simp
  qed
qed

lemma format_at_within:
  assumes "format_at buf p sz fmt args = Some (n, buf')" and "p + sz \<le> length buf"
  shows "n \<le> sz \<and> length buf' = length buf \<and> take p buf' = take p buf \<and> drop (p + sz) buf' = drop (p + sz) buf \<and>
    (0 < sz \<longrightarrow> 0 \<in> set (take (p + sz) buf'))"
proof -
  obtain b where b: "format_string_v (drop p buf) sz fmt args = Some (n, b)" "buf' = take p buf @ b"
    using assms(1) by (auto simp: format_at_def split: bind_splits)
  have p: "p \<le> length buf" using assms(2) by simp
  note w = format_string_v_within [OF b(1)]
  have "length b = length buf - p" "n \<le> sz" "drop sz b = drop sz (drop p buf)" "0 < sz \<longrightarrow> 0 \<in> set (take sz b)"
    using w assms(2) by auto
  then show ?thesis using b(2) p assms(2) by (auto simp: min_def add.commute)
qed

text \<open>
  A log message is built inside its 512 bytes and is terminated there, also when the header alone
  fills the buffer and no byte is left for the text.
\<close>

lemma debug_print_bounded:
  assumes "debug_print cur task cpu level file line func fmt args buf = Some (Some msg)" and "length buf = 512"
  shows "level \<le> cur \<and> length msg = 512 \<and> 0 \<in> set msg"
proof -
  obtain hdr hargs len b n where h: "level \<le> cur" "format_string_v buf 512 hdr hargs = Some (len, b)"
      "format_at b len (512 - len) fmt args = Some (n, msg)"
    using assms(1) by (auto simp: debug_print_def Let_def split: bind_splits if_splits)
  have w: "len \<le> 512" "length b = 512" "0 \<in> set b"
    using format_string_v_within [OF h(2)] assms(2) by auto
  have a: "length msg = 512" "take len msg = take len b" "len < 512 \<longrightarrow> 0 \<in> set msg"
    using format_at_within [OF h(3)] w(1,2) by auto
  show ?thesis using h(1) a w by (cases "len < 512") auto
qed

text \<open>
  C15. Whatever the format and the arguments are, a call that returns has written only into
  the first \<open>size\<close> bytes of the buffer, has left a terminating zero in them, and returns at
  most \<open>size\<close>.
\<close>

theorem format_string_v_bounded:
  assumes "format_string_v buf sz fmt args = Some (n, buf')" and "0 < sz" and "sz \<le> length buf"
  shows "n \<le> sz \<and> length buf' = length buf \<and> drop sz buf' = drop sz buf \<and> 0 \<in> set (take sz buf')"
  using format_string_v_within [OF assms(1,3)] assms(2) by simp

theorem format_string_v_bounded_witness:
  "\<exists>n buf'. format_string_v (replicate 8 0xFF) 4 [0x61, 0x25, 0x73, 0] [VStr (Some [0x62, 0x63, 0x64, 0x65, 0])] = Some (n, buf') \<and>
     n \<le> 4 \<and> drop 4 buf' = replicate 4 0xFF \<and> 0 \<in> set (take 4 buf')"
proof -
  have "format_loop 4 [0x61, 0x25, 0x73, 0] [VStr (Some [0x62, 0x63, 0x64, 0x65, 0])] ([0xFF, 0xFF, 0xFF, 0xFF, 0xFF, 0xFF, 0xFF, 0xFF], 0) =
      Some ([0x61, 0x62, 0x63, 0x64, 0xFF, 0xFF, 0xFF, 0xFF], 4)"
    by (simp add: format_loop.simps arr_get_def put_char_def arr_set_def parse_format_flags_def parse_count_def is_digit_def
        format_directive_def va_str_def format_str_def strlen_def apply_padding_def apply_post_padding_def)
  then have f: "format_string_v (replicate 8 0xFF) 4 [0x61, 0x25, 0x73, 0] [VStr (Some [0x62, 0x63, 0x64, 0x65, 0])] =
      Some (4, [0x61, 0x62, 0x63, 0, 0xFF, 0xFF, 0xFF, 0xFF])"
    by (simp add: format_string_v_def arr_set_def numeral_eq_Suc)
  show ?thesis using format_string_v_bounded [OF f] f by (auto simp: numeral_eq_Suc)
qed

end
