(* ===== verification/SList.thy ===== *)
theory SList
  imports Prelude
begin

text \<open>
  Null-terminated singly linked lists threaded through memory. The kernel uses them for
  the free blocks of the buddy allocator, the slabs and free objects of the slab
  allocator, the waiters of a mutex and the buckets of the page cache. The heap is the
  function from a node's address to the content of its \<open>next\<close> field; the predicate
  \<open>sll\<close> relates it to the list of node addresses.
\<close>

primrec lseg :: "(u32 \<Rightarrow> u32) \<Rightarrow> u32 \<Rightarrow> u32 list \<Rightarrow> u32 \<Rightarrow> bool" where
  "lseg nxt p [] q \<longleftrightarrow> p = q"
| "lseg nxt p (x # xs) q \<longleftrightarrow> p = x \<and> x \<noteq> 0 \<and> lseg nxt (nxt x) xs q"

abbreviation sll :: "(u32 \<Rightarrow> u32) \<Rightarrow> u32 \<Rightarrow> u32 list \<Rightarrow> bool" where
  "sll nxt p xs \<equiv> lseg nxt p xs 0"

lemma lseg_append [simp]:
  "lseg nxt p (xs @ ys) q \<longleftrightarrow> (\<exists>r. lseg nxt p xs r \<and> lseg nxt r ys q)"
  by (induction xs arbitrary: p) auto

lemma lseg_nonnull: "lseg nxt p xs q \<Longrightarrow> x \<in> set xs \<Longrightarrow> x \<noteq> 0"
  by (induction xs arbitrary: p) auto

lemma lseg_frame: "(\<And>x. x \<in> set xs \<Longrightarrow> nxt' x = nxt x) \<Longrightarrow> lseg nxt' p xs q = lseg nxt p xs q"
  by (induction xs arbitrary: p) auto

lemma lseg_upd [simp]: "a \<notin> set xs \<Longrightarrow> lseg (nxt(a := v)) p xs q = lseg nxt p xs q"
  by (rule lseg_frame) auto

lemma sll_null [simp]: "sll nxt 0 xs \<longleftrightarrow> xs = []"
  by (cases xs) auto

lemma sll_nonnull: "p \<noteq> 0 \<Longrightarrow> sll nxt p xs \<longleftrightarrow> (\<exists>ys. xs = p # ys \<and> sll nxt (nxt p) ys)"
  by (cases xs) auto

lemma sll_unique: "sll nxt p xs \<Longrightarrow> sll nxt p ys \<Longrightarrow> xs = ys"
proof (induction xs arbitrary: p ys)
  case Nil
  then show ?case by simp
next
  case (Cons x xs)
  then show ?case by (cases ys) auto
qed

lemma sll_head_notin_tail: "sll nxt (nxt x) xs \<Longrightarrow> x \<notin> set xs"
proof
  assume sl: "sll nxt (nxt x) xs" and "x \<in> set xs"
  then obtain ys zs where xs: "xs = ys @ x # zs"
    by (meson split_list)
  then have "sll nxt (nxt x) zs" using sl by auto
  with sl have "xs = zs" by (rule sll_unique)
  then have "length xs = length zs" by simp
  with xs show False by simp
qed

lemma sll_distinct: "sll nxt p xs \<Longrightarrow> distinct xs"
proof (induction xs arbitrary: p)
  case Nil
  then show ?case by simp
next
  case (Cons x xs)
  then show ?case using sll_head_notin_tail by auto
qed

lemma sll_push: "sll nxt p xs \<Longrightarrow> a \<noteq> 0 \<Longrightarrow> a \<notin> set xs \<Longrightarrow> sll (nxt(a := p)) a (a # xs)"
  by simp

section \<open>Unlinking through a pointer to a pointer\<close>

text \<open>
  The code removes a node by walking a cursor of type \<open>Node**\<close> that first points to the
  list head and then to the \<open>next\<close> field of the node just passed, and by storing through
  the cursor when the wanted node is found. The walk is a partial function: on a cyclic
  list without a match it does not return.
\<close>

datatype slot = Slot_head | Slot_next u32

fun read_slot :: "u32 \<Rightarrow> (u32 \<Rightarrow> u32) \<Rightarrow> slot \<Rightarrow> u32" where
  "read_slot h nxt Slot_head = h"
| "read_slot h nxt (Slot_next p) = nxt p"

fun write_slot :: "u32 \<Rightarrow> (u32 \<Rightarrow> u32) \<Rightarrow> slot \<Rightarrow> u32 \<Rightarrow> u32 \<times> (u32 \<Rightarrow> u32)" where
  "write_slot h nxt Slot_head v = (v, nxt)"
| "write_slot h nxt (Slot_next p) v = (h, nxt(p := v))"

partial_function (option) unlink_loop ::
  "(u32 \<Rightarrow> bool) \<Rightarrow> u32 \<Rightarrow> (u32 \<Rightarrow> u32) \<Rightarrow> slot \<Rightarrow> (u32 option \<times> u32 \<times> (u32 \<Rightarrow> u32)) option" where
  [code]: "unlink_loop P h nxt cur =
     (let p = read_slot h nxt cur in
      if p = 0 then Some (None, h, nxt)
      else if P p then Some (Some p, write_slot h nxt cur (nxt p))
      else unlink_loop P h nxt (Slot_next p))"

fun remove_first :: "('a \<Rightarrow> bool) \<Rightarrow> 'a list \<Rightarrow> 'a list" where
  "remove_first P [] = []"
| "remove_first P (x # xs) = (if P x then xs else x # remove_first P xs)"

lemma remove_first_eq: "remove_first (\<lambda>x. x = a) xs = remove1 a xs"
  by (induction xs) auto

lemma set_remove_first_subset: "set (remove_first P xs) \<subseteq> set xs"
  by (induction xs) auto

lemma remove_first_append_not:
  "\<forall>y \<in> set ys. \<not> P y \<Longrightarrow> remove_first P (ys @ zs) = ys @ remove_first P zs"
  by (induction ys) auto

lemma find_append_not: "\<forall>y \<in> set ys. \<not> P y \<Longrightarrow> find P (ys @ zs) = find P zs"
  by (induction ys) auto

definition slot_after :: "u32 list \<Rightarrow> slot" where
  "slot_after ys = (if ys = [] then Slot_head else Slot_next (last ys))"

lemma read_slot_after:
  "lseg nxt h ys r \<Longrightarrow> read_slot h nxt (slot_after ys) = r"
proof (cases ys rule: rev_cases)
  case Nil
  then show "lseg nxt h ys r \<Longrightarrow> ?thesis" by (simp add: slot_after_def)
next
  case (snoc ys' y)
  then show "lseg nxt h ys r \<Longrightarrow> ?thesis" by (auto simp: slot_after_def)
qed

lemma write_slot_after:
  assumes "lseg nxt h ys r" and "sll nxt v zs" and "distinct (ys @ zs)"
    and "write_slot h nxt (slot_after ys) v = (h', nxt')"
  shows "sll nxt' h' (ys @ zs) \<and> (\<forall>y. y \<notin> set ys \<longrightarrow> nxt' y = nxt y)"
proof (cases ys rule: rev_cases)
  case Nil
  with assms show ?thesis by (simp add: slot_after_def)
next
  case (snoc ys' y)
  with assms show ?thesis by (auto simp: slot_after_def)
qed

lemma unlink_loop_from:
  assumes "lseg nxt h ys r" and "sll nxt r zs" and "distinct (ys @ zs)"
    and "\<forall>y \<in> set ys. \<not> P y"
  shows "\<exists>h' nxt'. unlink_loop P h nxt (slot_after ys) = Some (find P zs, h', nxt') \<and>
           sll nxt' h' (ys @ remove_first P zs) \<and>
           (\<forall>y. y \<notin> set (ys @ zs) \<longrightarrow> nxt' y = nxt y)"
  using assms
proof (induction zs arbitrary: ys r)
  case Nil
  then show ?case
    by (subst unlink_loop.simps) (auto simp: read_slot_after)
next
  case (Cons z zs)
  have r: "read_slot h nxt (slot_after ys) = r"
    using Cons.prems(1) by (rule read_slot_after)
  have z: "r = z" "z \<noteq> 0" and zs: "sll nxt (nxt z) zs" using Cons.prems(2) by auto
  show ?case
  proof (cases "P z")
    case True
    obtain h' nxt' where w: "write_slot h nxt (slot_after ys) (nxt z) = (h', nxt')"
      by fastforce
    have "sll nxt' h' (ys @ zs) \<and> (\<forall>y. y \<notin> set ys \<longrightarrow> nxt' y = nxt y)"
      using Cons.prems(1) zs _ w by (rule write_slot_after) (use Cons.prems(3) in auto)
    then show ?thesis
      using True z r w by (subst unlink_loop.simps) auto
  next
    case False
    have step: "unlink_loop P h nxt (slot_after ys) = unlink_loop P h nxt (slot_after (ys @ [z]))"
      using False z r by (subst unlink_loop.simps) (simp add: slot_after_def)
    have "lseg nxt h (ys @ [z]) (nxt z)"
      using Cons.prems(1) z by auto
    from Cons.IH [OF this zs] Cons.prems(3,4) False
    show ?thesis unfolding step by auto
  qed
qed

lemma unlink_loop_sll:
  assumes "sll nxt h xs"
  obtains h' nxt' where "unlink_loop P h nxt Slot_head = Some (find P xs, h', nxt')"
    and "sll nxt' h' (remove_first P xs)"
    and "\<And>y. y \<notin> set xs \<Longrightarrow> nxt' y = nxt y"
  using unlink_loop_from [of nxt h "[]" h xs P] sll_distinct [OF assms] assms
  by (auto simp: slot_after_def)

end
