(* ===== verification/Layout.thy ===== *)
theory Layout
  imports Prelude
begin

text \<open>
  The memory layout constants of \<open>include/arch/x86/paging.h\<close> and the translation between
  physical addresses and the kernel's direct mapping (\<open>KernelMemory::virt2Phys\<close>,
  \<open>phys2Virt\<close> and \<open>getPfn\<close> in \<open>kernel/memory/kernel_memory.cpp\<close>), which every memory
  component uses. The zone bounds are page frame numbers, the other bounds are addresses.
\<close>

named_theorems layout_defs \<open>the layout constants\<close>

abbreviation (input) PAGE_PRESENT :: u32 where "PAGE_PRESENT \<equiv> 0x1"
abbreviation (input) PAGE_WRITE :: u32 where "PAGE_WRITE \<equiv> 0x2"
abbreviation (input) PAGE_USER :: u32 where "PAGE_USER \<equiv> 0x4"
abbreviation (input) PAGE_COW :: u32 where "PAGE_COW \<equiv> 0x200"

abbreviation (input) DMA_ZONE_START :: u32 where "DMA_ZONE_START \<equiv> 0x0"
abbreviation (input) DMA_ZONE_END :: u32 where "DMA_ZONE_END \<equiv> 0x1000"
abbreviation (input) NORMAL_ZONE_START :: u32 where "NORMAL_ZONE_START \<equiv> DMA_ZONE_END"
abbreviation (input) NORMAL_ZONE_END :: u32 where "NORMAL_ZONE_END \<equiv> 0x38000"
abbreviation (input) HIGH_ZONE_START :: u32 where "HIGH_ZONE_START \<equiv> NORMAL_ZONE_END"
abbreviation (input) HIGH_ZONE_END :: u32 where "HIGH_ZONE_END \<equiv> 0x100000"
abbreviation (input) PAGE_DIRECTORY_ADDR :: u32 where "PAGE_DIRECTORY_ADDR \<equiv> 0x400000"
abbreviation (input) K_FIRST_4M_PT :: u32 where "K_FIRST_4M_PT \<equiv> 0x401000"
abbreviation (input) K_PAGE_TABLE_START :: u32 where "K_PAGE_TABLE_START \<equiv> 0x402000"
abbreviation (input) K_PAGE_TABLE_COUNT :: u32 where "K_PAGE_TABLE_COUNT \<equiv> 224"

abbreviation (input) KERNEL_DIRECT_MAP_START :: u32 where "KERNEL_DIRECT_MAP_START \<equiv> 0xC0000000"
abbreviation (input) KERNEL_DIRECT_MAP_END :: u32 where "KERNEL_DIRECT_MAP_END \<equiv> 0xF8000000"
abbreviation (input) VMALLOC_START :: u32 where "VMALLOC_START \<equiv> KERNEL_DIRECT_MAP_END"
abbreviation (input) VMALLOC_END :: u32 where "VMALLOC_END \<equiv> 0xF8000000"
abbreviation (input) KMAP_START :: u32 where "KMAP_START \<equiv> 0xF8000000"
abbreviation (input) KMAP_END :: u32 where "KMAP_END \<equiv> 0xFC000000"

abbreviation (input) PAGE_SIZE :: u32 where "PAGE_SIZE \<equiv> 0x1000"
abbreviation (input) USER_START :: u32 where "USER_START \<equiv> 0x40000000"
abbreviation (input) USER_END :: u32 where "USER_END \<equiv> 0xC0000000"

definition virt2Phys :: "u32 \<Rightarrow> u32" where
  "virt2Phys virt_addr = virt_addr - KERNEL_DIRECT_MAP_START"

definition phys2Virt :: "u32 \<Rightarrow> u32" where
  "phys2Virt phys_addr = phys_addr + KERNEL_DIRECT_MAP_START"

definition getPfn :: "u32 \<Rightarrow> u32" where
  "getPfn virt_addr = (let phys_addr = virt2Phys virt_addr in drop_bit 12 phys_addr)"

lemma virt2Phys_phys2Virt [simp]: "virt2Phys (phys2Virt p) = p"
  by (simp add: virt2Phys_def phys2Virt_def)

lemma phys2Virt_virt2Phys [simp]: "phys2Virt (virt2Phys v) = v"
  by (simp add: virt2Phys_def phys2Virt_def)

lemma phys2Virt_eq_iff [simp]: "phys2Virt p = phys2Virt q \<longleftrightarrow> p = q"
  by (simp add: phys2Virt_def)

lemma inj_phys2Virt: "inj phys2Virt"
  by (simp add: inj_def)

end
