(* ===== verification/PagePool.thy ===== *)
theory PagePool
  imports Layout
begin

text \<open>
  What the layers of the physical page allocator promise each other. A block of order
  \<open>k\<close> at address \<open>a\<close> is the set \<open>blk a k\<close> of the addresses of its \<open>2\<^sup>k\<close> pages, computed
  modulo \<open>2\<^sup>3\<^sup>2\<close> as the code computes them, so no statement needs to exclude wrap-around.
  The locale \<open>page_allocator\<close> is the contract that the buddy allocator, a zone and the
  kernel memory manager all provide to the layer above, and its client lemma says what
  any user of such an allocator can rely on: blocks that are live at the same time never
  share a page.
\<close>

definition blk :: "u32 \<Rightarrow> nat \<Rightarrow> u32 set" where
  "blk a k = (\<lambda>i. a + 0x1000 * of_nat i) ` {..<2 ^ k}"

lemma blk_base [simp, intro]: "a \<in> blk a k"
  unfolding blk_def by (rule image_eqI [where x = 0]) simp_all

lemma blk_0: "blk a 0 = {a}"
  by (simp add: blk_def lessThan_Suc)

lemma blk_shift: "blk (a + c) k = (\<lambda>x. x + c) ` blk a k"
  by (auto simp: blk_def image_iff algebra_simps)

lemma blk_phys2Virt: "blk (phys2Virt p) k = phys2Virt ` blk p k"
  by (simp add: phys2Virt_def [abs_def] blk_shift)

lemma blk_Suc: "blk a (Suc k) = blk a k \<union> blk (a + 0x1000 * 2 ^ k) k"
proof -
  have "{..<2 ^ Suc k} = {..<2 ^ k} \<union> (\<lambda>i. 2 ^ k + i) ` {..<(2 :: nat) ^ k}" (is "?l = ?r")
  proof
    show "?l \<subseteq> ?r"
    proof
      fix i :: nat
      assume i: "i \<in> {..<2 ^ Suc k}"
      show "i \<in> ?r"
      proof (cases "i < 2 ^ k")
        case True
        then show ?thesis by simp
      next
        case False
        with i have "i = 2 ^ k + (i - 2 ^ k)" and "i - 2 ^ k < 2 ^ k" by auto
        then show ?thesis by blast
      qed
    qed
  qed auto
  then show ?thesis
    by (simp add: blk_def image_Un image_image algebra_simps)
qed

lemma of_nat_page_inj:
  assumes "(0x1000 :: u32) * of_nat i = 0x1000 * of_nat j" and "i < 2 ^ 20" and "j < 2 ^ 20"
  shows "i = j"
proof -
  have "unat ((0x1000 :: u32) * of_nat i) = unat ((0x1000 :: u32) * of_nat j)"
    using assms(1) by simp
  then have "4096 * i mod 2 ^ 32 = 4096 * j mod 2 ^ 32"
    by (simp add: unat_word_ariths unat_of_nat mod_mult_right_eq)
  with assms(2,3) show ?thesis by simp
qed

lemma blk_halves_disjoint:
  assumes "k < 20"
  shows "blk a k \<inter> blk (a + 0x1000 * 2 ^ k) k = {}"
proof (rule ccontr)
  assume "blk a k \<inter> blk (a + 0x1000 * 2 ^ k) k \<noteq> {}"
  then obtain i j where ij: "i < 2 ^ k" "j < 2 ^ k"
    and eq: "a + 0x1000 * of_nat i = a + 0x1000 * 2 ^ k + (0x1000 :: u32) * of_nat j"
    by (auto simp: blk_def)
  have "(2 :: nat) ^ Suc k \<le> 2 ^ 20"
    using assms by (intro power_increasing) auto
  then have b: "i < 2 ^ 20" "2 ^ k + j < 2 ^ 20" using ij by auto
  from eq have "(0x1000 :: u32) * of_nat i = 0x1000 * of_nat (2 ^ k + j)"
    by (simp add: algebra_simps)
  then have "i = 2 ^ k + j" using b by (rule of_nat_page_inj)
  with ij show False by simp
qed

definition page_aligned :: "u32 \<Rightarrow> bool" where
  "page_aligned a \<longleftrightarrow> a mod PAGE_SIZE = 0"

lemma page_aligned_unat: "page_aligned a \<longleftrightarrow> unat a mod 4096 = 0"
proof -
  have "a mod PAGE_SIZE = 0 \<longleftrightarrow> unat (a mod PAGE_SIZE) = 0"
    by (simp add: unat_eq_0)
  then show ?thesis
    by (simp add: page_aligned_def unat_mod)
qed

lemma page_aligned_add: "page_aligned a \<Longrightarrow> page_aligned (a + 0x1000 * x)"
proof -
  assume "page_aligned a"
  then have a: "unat a mod 4096 = 0" by (simp add: page_aligned_unat)
  have "unat (a + 0x1000 * x) mod 4096 = (unat a + 4096 * unat x mod 2 ^ 32) mod 4096"
    by (simp add: unat_word_ariths mod_mod_cancel)
  also have "\<dots> = (unat a mod 4096 + (4096 * unat x mod 2 ^ 32) mod 4096) mod 4096"
    by (simp only: mod_add_eq)
  also have "(4096 * unat x mod 2 ^ 32) mod 4096 = 0"
    by (simp add: mod_mod_cancel)
  finally show ?thesis using a by (simp add: page_aligned_unat)
qed

lemma page_aligned_diff: "page_aligned a \<Longrightarrow> page_aligned (a - 0x1000 * x)"
  using page_aligned_add [of a "- x"] by simp

lemma blk_aligned: "x \<in> blk a k \<Longrightarrow> page_aligned a \<Longrightarrow> page_aligned x"
  by (auto simp: blk_def page_aligned_add)

lemma page_aligned_phys2Virt [simp]: "page_aligned (phys2Virt p) \<longleftrightarrow> page_aligned p"
proof -
  have c: "phys2Virt p = p + 0x1000 * 0xC0000"
    by (simp add: phys2Virt_def)
  then have p: "p = phys2Virt p - 0x1000 * 0xC0000" by simp
  show ?thesis
    using page_aligned_add [of p "0xC0000"] page_aligned_diff [of "phys2Virt p" "0xC0000"] c p
    by metis
qed

lemma unat_page_offset:
  assumes "page_aligned s" and "n < 4096"
  shows "unat (s + of_nat n) = unat s + n"
proof -
  have "unat s mod 4096 = 0" using assms(1) by (simp add: page_aligned_unat)
  then obtain q where q: "unat s = 4096 * q" by (auto simp: mod_eq_0_iff_dvd)
  then have "q < 2 ^ 20" using unat_u32_less [of s] by simp
  then have "unat s + n < 2 ^ 32" using q assms(2) by simp
  then show ?thesis by (simp add: unat_word_ariths unat_of_nat mod_simps)
qed

lemma blk_virt2Phys: "blk (virt2Phys p) k = virt2Phys ` blk p k"
proof -
  have "virt2Phys x = x + (- KERNEL_DIRECT_MAP_START)" for x by (simp add: virt2Phys_def)
  then show ?thesis using blk_shift [of p "- KERNEL_DIRECT_MAP_START" k] by simp
qed

text \<open>A block that does not contain page 0 does not wrap around.\<close>

lemma blk_no_wrap:
  assumes "page_aligned a" and "0 \<notin> blk a k" and "i < 2 ^ k"
  shows "unat (a + 0x1000 * of_nat i) = unat a + 4096 * i"
  using assms(3)
proof (induction i)
  case 0
  then show ?case by simp
next
  case (Suc i)
  let ?x = "a + 0x1000 * of_nat i"
  have ih: "unat ?x = unat a + 4096 * i" using Suc by simp
  have "unat ?x mod 4096 = 0"
    using page_aligned_add [OF assms(1), of "of_nat i"] by (simp add: page_aligned_unat)
  then obtain q where q: "unat ?x = 4096 * q" by (auto simp: mod_eq_0_iff_dvd)
  have "unat ?x < 2 ^ 32" by (rule order_less_le_trans [OF unsigned_less]) simp
  then have "q < 2 ^ 20" using q by simp
  then have le: "unat ?x + 4096 \<le> 2 ^ 32" using q by simp
  have nx: "a + 0x1000 * of_nat (Suc i) = ?x + 0x1000" by (simp add: algebra_simps)
  have "?x + 0x1000 \<in> blk a k"
    unfolding blk_def nx [symmetric] using Suc.prems by blast
  then have "unat (?x + 0x1000) \<noteq> 0" using assms(2) by (auto simp only: unat_eq_0)
  moreover have sum: "unat (?x + 0x1000) = (unat ?x + 4096) mod 2 ^ 32"
    by (simp add: unat_word_ariths)
  ultimately have "(unat ?x + 4096) mod 2 ^ 32 \<noteq> 0" by (simp only: not_False_eq_True)
  then have "unat ?x + 4096 \<noteq> 2 ^ 32" by (metis mod_self)
  with le have "unat ?x + 4096 < 2 ^ 32" by simp
  then have "unat (?x + 0x1000) = unat ?x + 4096"
    unfolding sum by (rule mod_less)
  then show ?case unfolding nx using ih by simp
qed

lemma blk_last:
  assumes "page_aligned a" and "0 \<notin> blk a k"
  obtains z where "z \<in> blk a k" and "unat z = unat a + 4096 * (2 ^ k - 1)"
proof
  let ?i = "2 ^ k - 1 :: nat"
  show "a + 0x1000 * of_nat ?i \<in> blk a k" unfolding blk_def by (rule imageI) simp
  show "unat (a + 0x1000 * of_nat ?i) = unat a + 4096 * (2 ^ k - 1)"
    by (rule blk_no_wrap [OF assms]) simp
qed

section \<open>The contract of a page allocator\<close>

datatype page_op = Alloc nat | Free nat

text \<open>
  A client's view: \<open>live\<close> lists the blocks it holds, newest first. It may allocate a
  block of any order, or free the \<open>i\<close>-th block it holds. The run stops with \<open>None\<close> only
  where the allocator itself leaves defined behaviour.
\<close>

fun client_step :: "('s \<Rightarrow> nat \<Rightarrow> (u32 \<times> 's) option) \<Rightarrow> ('s \<Rightarrow> u32 \<Rightarrow> nat \<Rightarrow> 's option) \<Rightarrow>
    's \<times> (u32 \<times> nat) list \<Rightarrow> page_op \<Rightarrow> ('s \<times> (u32 \<times> nat) list) option" where
  "client_step alloc release (s, live) (Alloc k) =
     (case alloc s k of
        None \<Rightarrow> None
      | Some (p, s') \<Rightarrow> Some (s', if p = 0 then live else (p, k) # live))"
| "client_step alloc release (s, live) (Free i) =
     (if i < length live
      then (case release s (fst (live ! i)) (snd (live ! i)) of
              None \<Rightarrow> None
            | Some s' \<Rightarrow> Some (s', take i live @ drop (Suc i) live))
      else Some (s, live))"

fun client_run :: "('s \<Rightarrow> nat \<Rightarrow> (u32 \<times> 's) option) \<Rightarrow> ('s \<Rightarrow> u32 \<Rightarrow> nat \<Rightarrow> 's option) \<Rightarrow>
    's \<times> (u32 \<times> nat) list \<Rightarrow> page_op list \<Rightarrow> ('s \<times> (u32 \<times> nat) list) option" where
  "client_run alloc release c [] = Some c"
| "client_run alloc release c (x # xs) = (case client_step alloc release c x of None \<Rightarrow> None | Some c' \<Rightarrow> client_run alloc release c' xs)"

definition separate :: "(u32 \<times> nat) list \<Rightarrow> u32 set \<Rightarrow> bool" where
  "separate live A \<longleftrightarrow>
     pairwise (\<lambda>i j. blk (fst (live ! i)) (snd (live ! i)) \<inter> blk (fst (live ! j)) (snd (live ! j)) = {})
       {..<length live} \<and>
     (\<forall>(p, k) \<in> set live. blk p k \<inter> A = {})"

lemma separate_alt:
  "separate live A \<longleftrightarrow>
     sorted_wrt (\<lambda>x y. blk (fst x) (snd x) \<inter> blk (fst y) (snd y) = {}) live \<and>
     (\<forall>x \<in> set live. blk (fst x) (snd x) \<inter> A = {})"
proof -
  let ?D = "\<lambda>i j. blk (fst (live ! i)) (snd (live ! i)) \<inter> blk (fst (live ! j)) (snd (live ! j)) = {}"
  have sym: "?D i j = ?D j i" for i j by (simp add: Int_commute)
  have "pairwise ?D {..<length live} \<longleftrightarrow> (\<forall>j < length live. \<forall>i < j. ?D i j)" (is "?l = ?r")
  proof
    show "?l \<Longrightarrow> ?r" by (simp add: pairwise_def)
  next
    assume r: ?r
    show ?l
      unfolding pairwise_def
    proof (intro ballI impI)
      fix i j assume "i \<in> {..<length live}" "j \<in> {..<length live}" "i \<noteq> j"
      then show "?D i j"
        using r sym [of i j] by (cases i j rule: linorder_cases) auto
    qed
  qed
  then show ?thesis
    by (simp add: separate_def sorted_wrt_iff_nth_less split_beta) blast
qed

lemma separate_mono: "separate live A \<Longrightarrow> A' \<subseteq> A \<Longrightarrow> separate live A'"
  by (auto simp: separate_alt)

lemma separate_push:
  "separate live A \<Longrightarrow> A' \<subseteq> A \<Longrightarrow> blk p k \<subseteq> A - A' \<Longrightarrow> separate ((p, k) # live) A'"
  by (fastforce simp: separate_alt)

lemma separate_drop_nth:
  assumes "separate live A" and "i < length live" and "live ! i = (p, k)"
    and "A' \<subseteq> A \<union> blk p k"
  shows "separate (take i live @ drop (Suc i) live) A'"
proof -
  have live: "live = take i live @ (p, k) # drop (Suc i) live"
    using id_take_nth_drop [OF assms(2)] assms(3) by simp
  have "separate (take i live @ (p, k) # drop (Suc i) live) A"
    using assms(1) live by simp
  then show ?thesis
    using assms(4) unfolding separate_alt
    by (simp add: sorted_wrt_append) blast
qed

locale page_allocator =
  fixes alloc :: "'s \<Rightarrow> nat \<Rightarrow> (u32 \<times> 's) option"
    and release :: "'s \<Rightarrow> u32 \<Rightarrow> nat \<Rightarrow> 's option"
    and avail :: "'s \<Rightarrow> u32 set \<Rightarrow> bool"
  assumes avail_aligned: "avail s A \<Longrightarrow> x \<in> A \<Longrightarrow> page_aligned x"
    and alloc_sound:
      "avail s A \<Longrightarrow> alloc s k = Some (p, s') \<Longrightarrow>
         \<exists>A'. avail s' A' \<and> A' \<subseteq> A \<and> (p \<noteq> 0 \<longrightarrow> blk p k \<subseteq> A - A')"
    and release_sound:
      "avail s A \<Longrightarrow> page_aligned p \<Longrightarrow> blk p k \<inter> A = {} \<Longrightarrow> release s p k = Some s' \<Longrightarrow>
         \<exists>A'. avail s' A' \<and> A' \<subseteq> A \<union> blk p k"
begin

definition client_safe :: "'s \<times> (u32 \<times> nat) list \<Rightarrow> bool" where
  "client_safe c \<longleftrightarrow>
     (\<exists>A. avail (fst c) A \<and> separate (snd c) A) \<and> (\<forall>(p, k) \<in> set (snd c). page_aligned p)"

lemma client_step_sound:
  assumes safe: "client_safe (s, live)" and step: "client_step alloc release (s, live) x = Some (s', live')"
  shows "client_safe (s', live')"
proof -
  obtain A where A: "avail s A" "separate live A" and al: "\<forall>(p, k) \<in> set live. page_aligned p"
    using safe by (auto simp: client_safe_def)
  show ?thesis
  proof (cases x)
    case (Alloc k)
    with step obtain p where a: "alloc s k = Some (p, s')"
      and l: "live' = (if p = 0 then live else (p, k) # live)"
      by (auto split: option.splits)
    obtain A' where A': "avail s' A'" "A' \<subseteq> A" "p \<noteq> 0 \<longrightarrow> blk p k \<subseteq> A - A'"
      using alloc_sound [OF A(1) a] by blast
    then have "separate live' A'" using A(2) l by (auto intro: separate_mono separate_push)
    moreover have "page_aligned p" if "p \<noteq> 0"
      using avail_aligned [OF A(1), of p] A'(3) that blk_base [of p k] by blast
    ultimately show ?thesis using A' al l by (auto simp: client_safe_def)
  next
    case (Free i)
    show ?thesis
    proof (cases "i < length live")
      case False
      with Free step safe show ?thesis by auto
    next
      case True
      obtain p k where pk: "live ! i = (p, k)" by fastforce
      with True Free step have r: "release s p k = Some s'"
        and l: "live' = take i live @ drop (Suc i) live"
        by (auto split: option.splits)
      have mem: "(p, k) \<in> set live" using True pk by (metis nth_mem)
      then have "blk p k \<inter> A = {}" and "page_aligned p"
        using A(2) al by (auto simp: separate_def)
      then obtain A' where "avail s' A'" "A' \<subseteq> A \<union> blk p k"
        using release_sound [OF A(1) _ _ r] by blast
      then have "avail s' A' \<and> separate live' A'"
        using separate_drop_nth [OF A(2) True pk] l by blast
      moreover have "\<forall>(p, k) \<in> set live'. page_aligned p"
        using al l by (auto dest: in_set_takeD in_set_dropD)
      ultimately show ?thesis by (auto simp: client_safe_def)
    qed
  qed
qed

lemma client_run_sound:
  "client_safe c \<Longrightarrow> client_run alloc release c xs = Some c' \<Longrightarrow> client_safe c'"
proof (induction xs arbitrary: c)
  case Nil
  then show ?case by auto
next
  case (Cons x xs)
  then obtain c1 where st: "client_step alloc release c x = Some c1"
    and run: "client_run alloc release c1 xs = Some c'"
    by (auto split: option.splits)
  have "client_safe c1"
    using client_step_sound [of "fst c" "snd c" x "fst c1" "snd c1"] Cons.prems(1) st by simp
  then show ?case using Cons.IH run by blast
qed

theorem live_blocks_disjoint:
  assumes "avail s A" and "client_run alloc release (s, []) xs = Some (s', live)"
    and "i < length live" and "j < length live" and "i \<noteq> j"
  shows "blk (fst (live ! i)) (snd (live ! i)) \<inter> blk (fst (live ! j)) (snd (live ! j)) = {}"
proof -
  have "client_safe (s, [])" using assms(1) by (auto simp: client_safe_def separate_def)
  from client_run_sound [OF this assms(2)] obtain A' where "separate live A'"
    by (auto simp: client_safe_def)
  with assms(3-) show ?thesis by (auto simp: separate_def pairwise_def)
qed

end

section \<open>The exact contract\<close>

text \<open>
  Over a region whose every page has a descriptor the allocator promises more: no
  operation leaves defined behaviour, a failing allocation changes nothing, and no page
  is lost. \<open>pool\<close> is the set of pages the allocator manages.
\<close>

definition held :: "(u32 \<times> nat) list \<Rightarrow> u32 set" where
  "held live = (\<Union>(p, k) \<in> set live. blk p k)"

lemma held_simps [simp]: "held [] = {}" "held ((p, k) # live) = blk p k \<union> held live"
  "held (xs @ ys) = held xs \<union> held ys"
  by (auto simp: held_def)

lemma separate_held: "separate live A \<Longrightarrow> held live \<inter> A = {}"
  by (fastforce simp: separate_def held_def)

locale exact_page_allocator =
  fixes alloc :: "'s \<Rightarrow> nat \<Rightarrow> (u32 \<times> 's) option"
    and release :: "'s \<Rightarrow> u32 \<Rightarrow> nat \<Rightarrow> 's option"
    and avail :: "'s \<Rightarrow> u32 set \<Rightarrow> bool"
    and pool :: "'s \<Rightarrow> u32 set"
    and max_order :: nat
  assumes avail_pool: "avail s A \<Longrightarrow> A \<subseteq> pool s"
    and alloc_exact:
      "avail s A \<Longrightarrow> \<exists>p s' A'. alloc s k = Some (p, s') \<and> pool s' = pool s \<and> avail s' A' \<and>
         (if p = 0 then A' = A
          else k \<le> max_order \<and> blk p k \<inter> A' = {} \<and> A' \<union> blk p k = A)"
    and release_exact:
      "avail s A \<Longrightarrow> k \<le> max_order \<Longrightarrow> blk p k \<subseteq> pool s - A \<Longrightarrow>
         \<exists>s'. release s p k = Some s' \<and> pool s' = pool s \<and> avail s' (A \<union> blk p k)"
begin

definition client_ok :: "u32 set \<Rightarrow> 's \<times> (u32 \<times> nat) list \<Rightarrow> bool" where
  "client_ok A0 c \<longleftrightarrow>
     (\<exists>A. avail (fst c) A \<and> separate (snd c) A \<and> A \<union> held (snd c) = A0 \<and> A0 \<subseteq> pool (fst c) \<and>
        (\<forall>(p, k) \<in> set (snd c). k \<le> max_order))"

lemma client_step_exact:
  assumes "client_ok A0 (s, live)"
  shows "\<exists>c. client_step alloc release (s, live) x = Some c \<and> client_ok A0 c"
proof -
  obtain A where A: "avail s A" "separate live A" "A \<union> held live = A0" "A0 \<subseteq> pool s"
    and ord: "\<forall>(p, k) \<in> set live. k \<le> max_order"
    using assms by (auto simp: client_ok_def)
  show ?thesis
  proof (cases x)
    case (Alloc k)
    obtain p s' A' where p: "alloc s k = Some (p, s')" "pool s' = pool s" "avail s' A'"
      "if p = 0 then A' = A else k \<le> max_order \<and> blk p k \<inter> A' = {} \<and> A' \<union> blk p k = A"
      using alloc_exact [OF A(1)] by blast
    have "separate ((p, k) # live) A'" if "p \<noteq> 0"
      using A(2) p(4) that by (intro separate_push [of live A]) auto
    then have "client_ok A0 (s', if p = 0 then live else (p, k) # live)"
      unfolding client_ok_def using A ord p
      by (intro exI [of _ A']) (auto split: if_splits)
    then show ?thesis using Alloc p(1) by simp
  next
    case (Free i)
    show ?thesis
    proof (cases "i < length live")
      case False
      then show ?thesis using Free assms by simp
    next
      case True
      obtain p k where pk: "live ! i = (p, k)" by fastforce
      have live: "live = take i live @ (p, k) # drop (Suc i) live"
        using id_take_nth_drop [OF True] pk by simp
      have mem: "(p, k) \<in> set live" using True pk by (metis nth_mem)
      have "held live = held (take i live @ drop (Suc i) live) \<union> blk p k"
        by (subst live) auto
      then have un: "A \<union> blk p k \<union> held (take i live @ drop (Suc i) live) = A0"
        and sub: "blk p k \<subseteq> held live" using A(3) by auto
      have "blk p k \<subseteq> pool s - A"
        using A(3,4) sub separate_held [OF A(2)] by blast
      moreover have "k \<le> max_order" using ord mem by auto
      ultimately obtain s' where s': "release s p k = Some s'" "pool s' = pool s"
        "avail s' (A \<union> blk p k)"
        using release_exact [OF A(1)] by blast
      have "separate (take i live @ drop (Suc i) live) (A \<union> blk p k)"
        using separate_drop_nth [OF A(2) True pk] by blast
      moreover have "\<forall>(p, k) \<in> set (take i live @ drop (Suc i) live). k \<le> max_order"
        using ord by (auto dest: in_set_takeD in_set_dropD)
      ultimately have "client_ok A0 (s', take i live @ drop (Suc i) live)"
        unfolding client_ok_def using un s' A(4) by auto
      then show ?thesis using Free True pk s'(1) by simp
    qed
  qed
qed

lemma client_run_exact:
  "client_ok A0 c \<Longrightarrow> \<exists>c'. client_run alloc release c xs = Some c' \<and> client_ok A0 c'"
proof (induction xs arbitrary: c)
  case (Cons x xs)
  obtain c1 where "client_step alloc release c x = Some c1" "client_ok A0 c1"
    using client_step_exact [of A0 "fst c" "snd c" x] Cons.prems by (auto simp del: split_paired_Ex)
  then show ?case using Cons.IH by simp
qed simp

theorem run_conserves_pages:
  assumes "avail s A"
  shows "\<exists>s' live A'. client_run alloc release (s, []) xs = Some (s', live) \<and>
           avail s' A' \<and> separate live A' \<and> A' \<union> held live = A"
proof -
  have "client_ok A (s, [])"
    using assms avail_pool by (auto simp: client_ok_def separate_def)
  from client_run_exact [OF this, of xs] show ?thesis by (auto simp: client_ok_def)
qed

end

end
