(* ===== verification/Buddy.thy ===== *)
theory Buddy
  imports SList PagePool
begin

text \<open>
  The buddy allocator, \<open>kernel/memory/buddy_allocator.cpp\<close>. Free blocks are addressed by
  their virtual address in the direct mapping and linked through their own first words,
  so the state has, besides the fields of the class, the contents of the two header words
  of every block: \<open>fb_next\<close> and \<open>fb_size\<close>. The array \<open>page_info\<close> has as many entries as
  \<open>init\<close> reserves and clears space for; an access beyond them is undefined.
  Orders are \<open>nat\<close>: every caller bounds them by 20 before a shift, or the access to
  \<open>free_lists\<close> is undefined.
\<close>

section \<open>State\<close>

record PageInfo =
  ref_count :: u32
  is_cow :: bool
  is_compound :: bool
  compound_order :: u32
  compound_head :: u32

record BuddyAllocator =
  free_lists :: "u32 list"
  fb_next :: "u32 \<Rightarrow> u32"
  fb_size :: "u32 \<Rightarrow> u32"
  real_start :: u32
  memory_start :: u32
  memory_size :: u32
  page_info :: "PageInfo list"
  page_count :: u32

abbreviation (input) MAX_ORDER :: nat where
  "MAX_ORDER \<equiv> 20"

abbreviation (input) sizeof_PageInfo :: u32 where "sizeof_PageInfo \<equiv> 16"

definition zero_PageInfo :: PageInfo where
  "zero_PageInfo = \<lparr>ref_count = 0, is_cow = False, is_compound = False,
     compound_order = 0, compound_head = 0\<rparr>"

section \<open>Operations\<close>

definition get_buddy_address :: "u32 \<Rightarrow> u32 \<Rightarrow> u32" where
  "get_buddy_address addr sz = addr XOR (sz * PAGE_SIZE)"

function block_order_loop :: "u32 \<Rightarrow> nat \<Rightarrow> nat" where
  "block_order_loop num_pages order =
     (if num_pages > 0 then block_order_loop (drop_bit 1 num_pages) (order + 1) else order)"
  by pat_completeness auto
termination
proof (relation "measure (\<lambda>(n, _). unat n)")
  fix n :: u32 and k :: nat
  assume "n > 0"
  then have "unat n > 0" by (simp add: word_greater_zero_iff unat_gt_0)
  then show "((drop_bit 1 n, k + 1), n, k) \<in> measure (\<lambda>(n, _). unat n)"
    by (simp add: drop_bit_eq_div unat_div)
qed simp

declare block_order_loop.simps [simp del]

definition get_block_order :: "u32 \<Rightarrow> nat" where
  "get_block_order num_pages = block_order_loop (num_pages - 1) 0"

text \<open>The three statements that put a block at the head of a free list.\<close>

definition push_block :: "BuddyAllocator \<Rightarrow> u32 \<Rightarrow> nat \<Rightarrow> BuddyAllocator" where
  "push_block b block order =
     b\<lparr>fb_size := (fb_size b)(block := push_bit order 1),
       fb_next := (fb_next b)(block := free_lists b ! order),
       free_lists := (free_lists b)[order := block]\<rparr>"

text \<open>
  \<open>init\<close>: the descriptors are put at the start of the region, the rest becomes one block.
\<close>

definition info_bytes_of :: "u32 \<Rightarrow> u32" where
  "info_bytes_of sz =
     (let info_bytes = (sz div PAGE_SIZE) * sizeof_PageInfo
      in (info_bytes + PAGE_SIZE - 1) AND NOT (PAGE_SIZE - 1))"

definition init :: "BuddyAllocator \<Rightarrow> u32 \<Rightarrow> u32 \<Rightarrow> BuddyAllocator option" where
  "init b start_addr sz =
     (let info_bytes = info_bytes_of sz;
          b1 = b\<lparr>page_count := sz div PAGE_SIZE,
                 real_start := start_addr,
                 memory_start := start_addr + info_bytes,
                 memory_size := sz - info_bytes,
                 page_info := replicate (unat (info_bytes div sizeof_PageInfo)) zero_PageInfo,
                 free_lists := replicate (MAX_ORDER + 1) 0\<rparr>;
          total_pages = memory_size b1 div PAGE_SIZE;
          order = get_block_order total_pages;
          block = phys2Virt (memory_start b1)
      in if order \<le> MAX_ORDER
         then Some (b1\<lparr>fb_next := (fb_next b1)(block := 0),
                       fb_size := (fb_size b1)(block := push_bit order 1),
                       free_lists := (free_lists b1)[order := block]\<rparr>)
         else None)"

primrec update_pages ::
  "(PageInfo \<Rightarrow> PageInfo) \<Rightarrow> nat \<Rightarrow> nat \<Rightarrow> PageInfo list \<Rightarrow> PageInfo list option" where
  "update_pages f start 0 pis = Some pis"
| "update_pages f start (Suc n) pis =
     do { e \<leftarrow> arr_get pis start;
          pis' \<leftarrow> arr_set pis start (f e);
          update_pages f (Suc start) n pis' }"

definition mark_compound :: "nat \<Rightarrow> u32 \<Rightarrow> PageInfo \<Rightarrow> PageInfo" where
  "mark_compound order head e =
     e\<lparr>is_compound := True, compound_order := of_nat order, compound_head := head\<rparr>"

definition clear_compound :: "PageInfo \<Rightarrow> PageInfo" where
  "clear_compound e =
     e\<lparr>is_compound := False, compound_order := 0, compound_head := 0, ref_count := 0\<rparr>"

definition inc_ref :: "PageInfo \<Rightarrow> PageInfo" where
  "inc_ref e = e\<lparr>ref_count := ref_count e + 1\<rparr>"

text \<open>\<open>page_info[i] = f(page_info[i])\<close>\<close>

definition modify_page :: "(PageInfo \<Rightarrow> PageInfo) \<Rightarrow> nat \<Rightarrow> BuddyAllocator \<Rightarrow> BuddyAllocator option" where
  "modify_page f i b =
     do { pis \<leftarrow> update_pages f i 1 (page_info b); Some (b\<lparr>page_info := pis\<rparr>) }"

abbreviation (input) outside :: "BuddyAllocator \<Rightarrow> u32 \<Rightarrow> u32 \<Rightarrow> bool" where
  "outside b lo phys \<equiv> phys < lo \<or> phys \<ge> memory_start b + memory_size b \<or> phys mod PAGE_SIZE \<noteq> 0"

definition increment_ref_count :: "BuddyAllocator \<Rightarrow> u32 \<Rightarrow> nat \<Rightarrow> BuddyAllocator option" where
  "increment_ref_count b phys order =
     (if outside b (real_start b) phys then Some b
      else let index = unat (phys div PAGE_SIZE) in
        do { e \<leftarrow> arr_get (page_info b) index;
             if is_compound e
             then modify_page inc_ref (unat (compound_head e div PAGE_SIZE)) b
             else if order > 0
             then do { pis \<leftarrow> update_pages (mark_compound order phys) index (2 ^ order) (page_info b);
                       modify_page inc_ref index (b\<lparr>page_info := pis\<rparr>) }
             else modify_page inc_ref index b })"

function find_order :: "BuddyAllocator \<Rightarrow> nat \<Rightarrow> nat" where
  "find_order b current_order =
     (if current_order \<le> MAX_ORDER \<and> free_lists b ! current_order = 0
      then find_order b (current_order + 1) else current_order)"
  by pat_completeness auto
termination
  by (relation "measure (\<lambda>(b, k). Suc MAX_ORDER - k)") auto

declare find_order.simps [simp del]

fun split_loop :: "BuddyAllocator \<Rightarrow> u32 \<Rightarrow> nat \<Rightarrow> nat \<Rightarrow> BuddyAllocator" where
  "split_loop b block current_order order =
     (if order < current_order
      then let co = current_order - 1;
               buddy_addr = block + push_bit co 1 * PAGE_SIZE;
               b1 = b\<lparr>fb_size := (fb_size b)(block := push_bit co 1)\<rparr>
           in split_loop (push_block b1 buddy_addr co) block co order
      else b)"

declare split_loop.simps [simp del]

definition allocate_pages :: "BuddyAllocator \<Rightarrow> u32 \<Rightarrow> nat \<Rightarrow> (u32 \<times> BuddyAllocator) option" where
  "allocate_pages b gfp_mask order =
     (if order > MAX_ORDER then Some (0, b)
      else let num_pages = 2 ^ order; current_order = find_order b order in
        if current_order > MAX_ORDER then Some (0, b)
        else let block = free_lists b ! current_order in
          if block = 0 then Some (0, b)
          else let b1 = b\<lparr>free_lists := (free_lists b)[current_order := fb_next b block]\<rparr>;
                   b2 = split_loop b1 block current_order order;
                   block_phys = virt2Phys block;
                   start_index = unat ((block_phys - memory_start b) div PAGE_SIZE)
               in do { pis \<leftarrow> update_pages (mark_compound order block_phys) start_index num_pages
                                (page_info b2);
                       b3 \<leftarrow> increment_ref_count (b2\<lparr>page_info := pis\<rparr>) block_phys 0;
                       Some (block_phys, b3) })"

definition split_block :: "BuddyAllocator \<Rightarrow> u32 \<Rightarrow> nat \<Rightarrow> BuddyAllocator option" where
  "split_block b addr order =
     (if order = 0 then Some b
      else let buddy_addr = addr + push_bit (order - 1) 1 * PAGE_SIZE in
        if order - 1 \<le> MAX_ORDER then Some (push_block b buddy_addr (order - 1)) else None)"

definition try_merge_buddy :: "BuddyAllocator \<Rightarrow> u32 \<Rightarrow> nat \<Rightarrow> (bool \<times> BuddyAllocator) option" where
  "try_merge_buddy b addr order =
     (let buddy_addr = get_buddy_address addr (push_bit order 1) in
      do { h \<leftarrow> arr_get (free_lists b) order;
           (found, h', nxt') \<leftarrow> unlink_loop (\<lambda>p. p = buddy_addr) h (fb_next b) Slot_head;
           Some (found \<noteq> None, b\<lparr>free_lists := (free_lists b)[order := h'], fb_next := nxt'\<rparr>) })"

function merge_loop :: "BuddyAllocator \<Rightarrow> u32 \<Rightarrow> nat \<Rightarrow> (BuddyAllocator \<times> u32 \<times> nat) option" where
  "merge_loop b virt current_order =
     (if current_order < MAX_ORDER
      then let buddy_addr = get_buddy_address virt (push_bit current_order 1) in
        case try_merge_buddy b virt current_order of
          None \<Rightarrow> None
        | Some (merged, b') \<Rightarrow>
            if \<not> merged then Some (b', virt, current_order)
            else merge_loop b' (if virt < buddy_addr then virt else buddy_addr) (current_order + 1)
      else Some (b, virt, current_order))"
  by pat_completeness auto
termination
  by (relation "measure (\<lambda>(b, v, k). MAX_ORDER - k)") auto

declare merge_loop.simps [simp del]

definition free_pages :: "BuddyAllocator \<Rightarrow> u32 \<Rightarrow> nat \<Rightarrow> BuddyAllocator option" where
  "free_pages b phys order =
     (if outside b (memory_start b) phys then Some b
      else let start_index = unat ((phys - memory_start b) div PAGE_SIZE) in
        do { pis \<leftarrow> update_pages clear_compound start_index (2 ^ order) (page_info b);
             (b', virt, current_order) \<leftarrow> merge_loop (b\<lparr>page_info := pis\<rparr>) (phys2Virt phys) order;
             if current_order \<le> MAX_ORDER then Some (push_block b' virt current_order) else None })"

definition dec_ref_and_free :: "BuddyAllocator \<Rightarrow> u32 \<Rightarrow> nat \<Rightarrow> nat \<Rightarrow> BuddyAllocator option" where
  "dec_ref_and_free b phys index order =
     do { b1 \<leftarrow> modify_page (\<lambda>e. e\<lparr>ref_count := ref_count e - 1\<rparr>) index b;
          e \<leftarrow> arr_get (page_info b1) index;
          if ref_count e = 0 then free_pages b1 phys order else Some b1 }"

definition decrement_ref_count :: "BuddyAllocator \<Rightarrow> u32 \<Rightarrow> nat \<Rightarrow> BuddyAllocator option" where
  "decrement_ref_count b phys order =
     (if outside b (real_start b) phys then Some b
      else let index = unat (phys div PAGE_SIZE) in
        do { e \<leftarrow> arr_get (page_info b) index;
             if order > 0
             then if \<not> is_compound e \<or> compound_head e \<noteq> phys then Some b
                  else dec_ref_and_free b phys index order
             else if is_compound e
             then do { b1 \<leftarrow> modify_page (\<lambda>e. (clear_compound e)\<lparr>ref_count := 1\<rparr>) index b;
                       dec_ref_and_free b1 phys index 0 }
             else dec_ref_and_free b phys index 0 })"

section \<open>The free lists as lists of blocks\<close>

text \<open>
  \<open>buddy_rep b ls\<close>: the free list of order \<open>k\<close> holds the blocks \<open>ls k\<close>. The invariant
  \<open>buddy_inv\<close> adds that all free blocks are page aligned and that no two of them share a
  page. \<open>free_set\<close> is the set of free pages, by virtual address.
\<close>

definition buddy_rep :: "BuddyAllocator \<Rightarrow> (nat \<Rightarrow> u32 list) \<Rightarrow> bool" where
  "buddy_rep b ls \<longleftrightarrow> length (free_lists b) = Suc MAX_ORDER \<and>
     (\<forall>k \<le> MAX_ORDER. sll (fb_next b) (free_lists b ! k) (ls k))"

definition free_set :: "(nat \<Rightarrow> u32 list) \<Rightarrow> u32 set" where
  "free_set ls = (\<Union>k \<in> {..MAX_ORDER}. \<Union>a \<in> set (ls k). blk a k)"

definition disjoint_blocks :: "(nat \<Rightarrow> u32 list) \<Rightarrow> bool" where
  "disjoint_blocks ls \<longleftrightarrow>
     (\<forall>k \<le> MAX_ORDER. \<forall>a \<in> set (ls k). page_aligned a \<and>
        (\<forall>k' \<le> MAX_ORDER. \<forall>a' \<in> set (ls k'). (a, k) \<noteq> (a', k') \<longrightarrow> blk a k \<inter> blk a' k' = {}))"

definition buddy_inv :: "BuddyAllocator \<Rightarrow> (nat \<Rightarrow> u32 list) \<Rightarrow> bool" where
  "buddy_inv b ls \<longleftrightarrow> buddy_rep b ls \<and> disjoint_blocks ls"

lemma free_set_iff:
  "x \<in> free_set ls \<longleftrightarrow> (\<exists>k a. k \<le> MAX_ORDER \<and> a \<in> set (ls k) \<and> x \<in> blk a k)"
  by (auto simp: free_set_def)

lemma in_free_set: "k \<le> MAX_ORDER \<Longrightarrow> a \<in> set (ls k) \<Longrightarrow> blk a k \<subseteq> free_set ls"
  unfolding subset_iff free_set_iff by blast

lemma head_in_free_set: "k \<le> MAX_ORDER \<Longrightarrow> a \<in> set (ls k) \<Longrightarrow> a \<in> free_set ls"
  using in_free_set blk_base by blast

lemma free_set_upd:
  "k \<le> MAX_ORDER \<Longrightarrow>
   x \<in> free_set (ls(k := xs)) \<longleftrightarrow> (\<exists>a \<in> set xs. x \<in> blk a k) \<or>
     (\<exists>j a. j \<le> MAX_ORDER \<and> j \<noteq> k \<and> a \<in> set (ls j) \<and> x \<in> blk a j)"
  unfolding free_set_iff by (metis fun_upd_apply)

lemma free_set_split:
  "k \<le> MAX_ORDER \<Longrightarrow>
   x \<in> free_set ls \<longleftrightarrow> (\<exists>a \<in> set (ls k). x \<in> blk a k) \<or>
     (\<exists>j a. j \<le> MAX_ORDER \<and> j \<noteq> k \<and> a \<in> set (ls j) \<and> x \<in> blk a j)"
  using free_set_upd [of k x ls "ls k"] by simp

lemma free_set_mono:
  assumes "k \<le> MAX_ORDER" and "set xs \<subseteq> set (ls k)"
  shows "free_set (ls(k := xs)) \<subseteq> free_set ls"
proof
  fix x assume "x \<in> free_set (ls(k := xs))"
  then have "(\<exists>a \<in> set (ls k). x \<in> blk a k) \<or>
     (\<exists>j a. j \<le> MAX_ORDER \<and> j \<noteq> k \<and> a \<in> set (ls j) \<and> x \<in> blk a j)"
    using assms(2) unfolding free_set_upd [OF assms(1)] by blast
  then show "x \<in> free_set ls"
    using assms(1) unfolding free_set_iff by blast
qed

lemma free_set_insert:
  assumes "k \<le> MAX_ORDER"
  shows "free_set (ls(k := a # ls k)) = free_set ls \<union> blk a k"
proof (rule set_eqI)
  fix x
  show "x \<in> free_set (ls(k := a # ls k)) \<longleftrightarrow> x \<in> free_set ls \<union> blk a k"
    unfolding Un_iff free_set_upd [OF assms] free_set_split [OF assms, of x ls] by auto
qed

lemma disjoint_blocks_sub:
  assumes "disjoint_blocks ls" and "set xs \<subseteq> set (ls k)"
  shows "disjoint_blocks (ls(k := xs))"
  using assms unfolding disjoint_blocks_def by (auto split: if_splits) blast+

lemma disjoint_blocks_insert:
  assumes "disjoint_blocks ls" and "k \<le> MAX_ORDER" and "page_aligned a"
    and "blk a k \<inter> free_set ls = {}"
  shows "disjoint_blocks (ls(k := a # ls k))"
proof -
  have d: "blk a k \<inter> blk a' k' = {}" if "k' \<le> MAX_ORDER" "a' \<in> set (ls k')" for a' k'
    using in_free_set [of k' a' ls] that assms(4) by blast
  show ?thesis
    using assms(1-3) d unfolding disjoint_blocks_def
    by (auto split: if_splits simp: Int_commute)
qed

lemma removed_disjoint:
  assumes "disjoint_blocks ls" and "k \<le> MAX_ORDER" and "a \<in> set (ls k)" and "distinct (ls k)"
  shows "blk a k \<inter> free_set (ls(k := remove1 a (ls k))) = {}"
    and "free_set ls = free_set (ls(k := remove1 a (ls k))) \<union> blk a k"
proof -
  have sub: "set (remove1 a (ls k)) = set (ls k) - {a}"
    using assms(4) by (rule set_remove1_eq)
  show "blk a k \<inter> free_set (ls(k := remove1 a (ls k))) = {}"
  proof -
    have "x \<notin> free_set (ls(k := remove1 a (ls k)))" if "x \<in> blk a k" for x
    proof
      assume "x \<in> free_set (ls(k := remove1 a (ls k)))"
      then obtain j a' where "j \<le> MAX_ORDER" "a' \<in> set (ls j)" "(a, k) \<noteq> (a', j)" "x \<in> blk a' j"
        using assms(2) unfolding free_set_upd [OF assms(2)] sub by blast
      then show False using assms(1-3) that unfolding disjoint_blocks_def by blast
    qed
    then show ?thesis by blast
  qed
  show "free_set ls = free_set (ls(k := remove1 a (ls k))) \<union> blk a k"
  proof (rule set_eqI)
    fix x
    show "x \<in> free_set ls \<longleftrightarrow> x \<in> free_set (ls(k := remove1 a (ls k))) \<union> blk a k"
      using assms(3)
      unfolding Un_iff free_set_upd [OF assms(2)] free_set_split [OF assms(2), of x ls] sub by blast
  qed
qed

section \<open>The list operations keep the invariant\<close>

lemma push_block_inv:
  assumes inv: "buddy_inv b ls" and k: "k \<le> MAX_ORDER" and al: "page_aligned a"
    and dis: "blk a k \<inter> free_set ls = {}"
  shows "buddy_inv (push_block b a k) (ls(k := (if a = 0 then [] else a # ls k)))"
proof -
  have notin: "a \<notin> set (ls j)" if "j \<le> MAX_ORDER" for j
    using head_in_free_set [OF that] dis by blast
  have rep: "buddy_rep (push_block b a k) (ls(k := (if a = 0 then [] else a # ls k)))"
    using inv k notin by (auto simp: buddy_inv_def buddy_rep_def push_block_def nth_list_update)
  have "disjoint_blocks (ls(k := a # ls k))"
    using inv k al dis by (auto simp: buddy_inv_def intro: disjoint_blocks_insert)
  moreover have "disjoint_blocks (ls(k := []))"
    using inv by (auto simp: buddy_inv_def intro: disjoint_blocks_sub)
  ultimately show ?thesis using rep by (simp add: buddy_inv_def)
qed

lemma unlink_inv:
  assumes inv: "buddy_inv b ls" and k: "k \<le> MAX_ORDER"
  shows "\<exists>h' nxt'. unlink_loop (\<lambda>p. p = a) (free_lists b ! k) (fb_next b) Slot_head =
            Some (if a \<in> set (ls k) then Some a else None, h', nxt') \<and>
          buddy_inv (b\<lparr>free_lists := (free_lists b)[k := h'], fb_next := nxt'\<rparr>)
            (ls(k := remove1 a (ls k)))"
proof -
  have sl: "sll (fb_next b) (free_lists b ! j) (ls j)" if "j \<le> MAX_ORDER" for j
    using inv that by (auto simp: buddy_inv_def buddy_rep_def)
  obtain h' nxt' where u: "unlink_loop (\<lambda>p. p = a) (free_lists b ! k) (fb_next b) Slot_head =
        Some (find (\<lambda>p. p = a) (ls k), h', nxt')"
    and s: "sll nxt' h' (remove_first (\<lambda>p. p = a) (ls k))"
    and fr: "\<And>y. y \<notin> set (ls k) \<Longrightarrow> nxt' y = fb_next b y"
    using unlink_loop_sll [OF sl [OF k]] by blast
  have f: "find (\<lambda>p. p = a) xs = (if a \<in> set xs then Some a else None)" for xs
    by (induction xs) auto
  have oth: "sll nxt' (free_lists b ! j) (ls j)" if j: "j \<le> MAX_ORDER" "j \<noteq> k" for j
  proof -
    have "x \<notin> set (ls k)" if "x \<in> set (ls j)" for x
    proof
      assume "x \<in> set (ls k)"
      then have "blk x j \<inter> blk x k = {}"
        using inv j k that by (auto simp: buddy_inv_def disjoint_blocks_def)
      then show False using blk_base by blast
    qed
    then have "sll nxt' (free_lists b ! j) (ls j) = sll (fb_next b) (free_lists b ! j) (ls j)"
      by (intro lseg_frame) (auto intro: fr)
    then show ?thesis using sl j by simp
  qed
  have "buddy_rep (b\<lparr>free_lists := (free_lists b)[k := h'], fb_next := nxt'\<rparr>)
            (ls(k := remove1 a (ls k)))"
    using inv s k oth by (auto simp: buddy_inv_def buddy_rep_def nth_list_update remove_first_eq)
  moreover have "disjoint_blocks (ls(k := remove1 a (ls k)))"
    using inv disjoint_blocks_sub [OF _ set_remove1_subset] by (simp add: buddy_inv_def)
  ultimately show ?thesis using u f by (auto simp: buddy_inv_def)
qed

lemma pop_inv:
  assumes inv: "buddy_inv b ls" and k: "k \<le> MAX_ORDER" and ne: "free_lists b ! k \<noteq> 0"
  defines "a \<equiv> free_lists b ! k"
  defines "ls' \<equiv> ls(k := tl (ls k))"
  shows "buddy_inv (b\<lparr>free_lists := (free_lists b)[k := fb_next b a]\<rparr>) ls'"
    and "blk a k \<inter> free_set ls' = {}" and "free_set ls = free_set ls' \<union> blk a k"
    and "page_aligned a"
proof -
  have sl: "sll (fb_next b) (free_lists b ! k) (ls k)"
    using inv k by (auto simp: buddy_inv_def buddy_rep_def)
  then obtain xs where xs: "ls k = a # xs" "sll (fb_next b) (fb_next b a) xs"
    using ne unfolding a_def by (auto simp: sll_nonnull)
  have tl: "tl (ls k) = remove1 a (ls k)" using xs by simp
  have d: "disjoint_blocks ls" using inv by (simp add: buddy_inv_def)
  show "buddy_inv (b\<lparr>free_lists := (free_lists b)[k := fb_next b a]\<rparr>) ls'"
    using inv k xs disjoint_blocks_sub [OF d, of "tl (ls k)" k]
    by (auto simp: buddy_inv_def buddy_rep_def nth_list_update ls'_def)
  have "a \<in> set (ls k)" using xs by simp
  then show "blk a k \<inter> free_set ls' = {}" and "free_set ls = free_set ls' \<union> blk a k"
    using removed_disjoint [OF d k _ sll_distinct [OF sl]] unfolding ls'_def tl by blast+
  show "page_aligned a" using \<open>a \<in> set (ls k)\<close> d k by (auto simp: disjoint_blocks_def)
qed

lemma buddy_inv_irrelevant [simp]:
  "buddy_inv (b\<lparr>page_info := pis\<rparr>) ls = buddy_inv b ls"
  "buddy_inv (b\<lparr>fb_size := sz\<rparr>) ls = buddy_inv b ls"
  by (simp_all add: buddy_inv_def buddy_rep_def)

lemma push_block_sel [simp]:
  "page_info (push_block b a k) = page_info b"
  "memory_start (push_block b a k) = memory_start b"
  "memory_size (push_block b a k) = memory_size b"
  "real_start (push_block b a k) = real_start b"
  by (simp_all add: push_block_def)

lemma push_bit_page: "push_bit k 1 * PAGE_SIZE = 0x1000 * (2 :: u32) ^ k"
  by (simp add: mult.commute)

lemma push_block_free_set:
  assumes "k \<le> MAX_ORDER"
  shows "free_set (ls(k := (if a = 0 then [] else a # ls k))) \<subseteq> free_set ls \<union> blk a k"
    and "a \<noteq> 0 \<Longrightarrow> free_set (ls(k := (if a = 0 then [] else a # ls k))) = free_set ls \<union> blk a k"
  using free_set_insert [OF assms, of ls a] free_set_mono [OF assms, of "[]" ls] by auto

lemma split_loop_inv:
  assumes "buddy_inv b ls" and "page_aligned block" and "co \<le> MAX_ORDER" and "order \<le> co"
    and "blk block co \<inter> free_set ls = {}"
  shows "\<exists>ls'. buddy_inv (split_loop b block co order) ls' \<and>
           free_set ls' \<inter> blk block order = {} \<and>
           free_set ls' \<union> blk block order \<subseteq> free_set ls \<union> blk block co \<and>
           (0 \<notin> blk block co \<longrightarrow>
              free_set ls' \<union> blk block order = free_set ls \<union> blk block co)"
  using assms
proof (induction b block co order arbitrary: ls rule: split_loop.induct)
  case (1 b block co order)
  show ?case
  proof (cases "order < co")
    case False
    then have "order = co" using 1(5) by simp
    moreover have "split_loop b block co order = b"
      using False by (simp add: split_loop.simps [of b block co order])
    ultimately show ?thesis using 1(2,3,4,6) by (intro exI [of _ ls]) auto
  next
    case True
    define k where "k = co - 1"
    have co: "co = Suc k" and k: "k \<le> MAX_ORDER" "k < 20" "order \<le> k"
      using True "1.prems"(3) by (auto simp: k_def)
    define a where "a = block + 0x1000 * (2 :: u32) ^ k"
    define b1 where "b1 = push_block (b\<lparr>fb_size := (fb_size b)(block := push_bit k 1)\<rparr>) a k"
    define ls1 where "ls1 = ls(k := (if a = 0 then [] else a # ls k))"
    have step: "split_loop b block co order = split_loop b1 block k order"
      using True unfolding split_loop.simps [of b block co order] b1_def a_def k_def
      by (simp add: Let_def push_bit_page del: push_bit_of_1)
    have al: "page_aligned a" unfolding a_def by (rule page_aligned_add) (fact "1.prems")
    have un: "blk block co = blk block k \<union> blk a k"
      unfolding co a_def by (rule blk_Suc)
    have dis: "blk block k \<inter> blk a k = {}"
      unfolding a_def by (rule blk_halves_disjoint) (fact k)
    have i1: "buddy_inv b1 ls1"
      unfolding b1_def ls1_def using "1.prems"(1,5) un by (intro push_block_inv k al) auto
    have fs: "free_set ls1 \<subseteq> free_set ls \<union> blk a k"
      "a \<noteq> 0 \<Longrightarrow> free_set ls1 = free_set ls \<union> blk a k"
      unfolding ls1_def using push_block_free_set [OF k(1)] by blast+
    have "blk block k \<inter> free_set ls1 = {}" using fs(1) dis un "1.prems"(5) by blast
    then obtain ls' where ls': "buddy_inv (split_loop b1 block k order) ls'"
      "free_set ls' \<inter> blk block order = {}"
      "free_set ls' \<union> blk block order \<subseteq> free_set ls1 \<union> blk block k"
      "0 \<notin> blk block k \<longrightarrow> free_set ls' \<union> blk block order = free_set ls1 \<union> blk block k"
      using "1.IH" [OF True refl refl refl, of ls1] i1 k "1.prems"(2)
      unfolding b1_def a_def k_def by (auto simp: push_bit_page simp del: push_bit_of_1)
    have "a \<noteq> 0" if "0 \<notin> blk block co" using that un blk_base [of a k] by auto
    then show ?thesis
      unfolding step using ls' fs un by (intro exI [of _ ls']) blast
  qed
qed

lemma split_loop_same:
  "page_info (split_loop b block co order) = page_info b \<and>
   memory_start (split_loop b block co order) = memory_start b \<and>
   memory_size (split_loop b block co order) = memory_size b \<and>
   real_start (split_loop b block co order) = real_start b"
proof (induction b block co order rule: split_loop.induct)
  case (1 b block co order)
  show ?case
    using 1 [OF _ refl refl refl] by (cases "order < co") (simp_all add: split_loop.simps [of b block co order] Let_def)
qed

lemmas split_loop_sel [simp] =
  split_loop_same [THEN conjunct1]
  split_loop_same [THEN conjunct2, THEN conjunct1]
  split_loop_same [THEN conjunct2, THEN conjunct2, THEN conjunct1]
  split_loop_same [THEN conjunct2, THEN conjunct2, THEN conjunct2]

section \<open>Merging\<close>

lemma get_buddy_address_eq: "get_buddy_address a (push_bit k 1) = a XOR 2 ^ (k + 12)"
  by (simp add: get_buddy_address_def power_add)

lemma merged_block:
  assumes "k < 20" and "page_aligned v"
  defines "a \<equiv> get_buddy_address v (push_bit k 1)"
  defines "m \<equiv> (if v < a then v else a)"
  shows "blk m (Suc k) = blk v k \<union> blk a k" and "page_aligned m"
proof -
  have p: "(2 :: u32) ^ (k + 12) = 0x1000 * 2 ^ k" by (simp add: power_add)
  have a: "a = v XOR 2 ^ (k + 12)" unfolding a_def by (rule get_buddy_address_eq)
  have lt: "v < a \<longleftrightarrow> \<not> bit v (k + 12)"
    unfolding a by (rule less_xor_two_power_iff) (use assms(1) in simp)
  have "blk m (Suc k) = blk v k \<union> blk a k \<and> page_aligned m"
  proof (cases "bit v (k + 12)")
    case False
    then have "a = v + 0x1000 * 2 ^ k"
      using xor_two_power_unset [OF False] by (simp only: a p)
    then show ?thesis using False lt assms(2) by (simp add: m_def blk_Suc)
  next
    case True
    then have "a = v - 0x1000 * 2 ^ k"
      using xor_two_power_set [OF True] by (simp only: a p)
    then have "v = a + 0x1000 * 2 ^ k" and "page_aligned a"
      using page_aligned_diff [OF assms(2)] by simp_all
    then show ?thesis using True lt by (auto simp: m_def blk_Suc)
  qed
  then show "blk m (Suc k) = blk v k \<union> blk a k" and "page_aligned m" by simp_all
qed

lemma try_merge_buddy_inv:
  fixes v :: u32
  assumes inv: "buddy_inv b ls" and k: "k \<le> MAX_ORDER"
  defines "a \<equiv> get_buddy_address v (push_bit k 1)"
  shows "\<exists>b'. try_merge_buddy b v k = Some (a \<in> set (ls k), b') \<and>
           buddy_inv b' (ls(k := remove1 a (ls k))) \<and>
           page_info b' = page_info b \<and> memory_start b' = memory_start b \<and>
           memory_size b' = memory_size b \<and> real_start b' = real_start b"
proof -
  have len: "k < length (free_lists b)"
    using inv k by (simp add: buddy_inv_def buddy_rep_def)
  obtain h' nxt' where
    "unlink_loop (\<lambda>p. p = a) (free_lists b ! k) (fb_next b) Slot_head =
       Some (if a \<in> set (ls k) then Some a else None, h', nxt')"
    "buddy_inv (b\<lparr>free_lists := (free_lists b)[k := h'], fb_next := nxt'\<rparr>)
       (ls(k := remove1 a (ls k)))"
    using unlink_inv [OF inv k] by blast
  then show ?thesis
    using len unfolding try_merge_buddy_def a_def by (simp add: Let_def)
qed

lemma merge_loop_inv:
  assumes "buddy_inv b ls" and "page_aligned v" and "k \<le> MAX_ORDER"
    and "blk v k \<inter> free_set ls = {}"
  shows "\<exists>b' v' k' ls'. merge_loop b v k = Some (b', v', k') \<and> buddy_inv b' ls' \<and>
           page_aligned v' \<and> k \<le> k' \<and> k' \<le> MAX_ORDER \<and> blk v' k' \<inter> free_set ls' = {} \<and>
           free_set ls' \<union> blk v' k' = free_set ls \<union> blk v k \<and>
           page_info b' = page_info b \<and> memory_start b' = memory_start b \<and>
           memory_size b' = memory_size b \<and> real_start b' = real_start b"
  using assms
proof (induction b v k arbitrary: ls rule: merge_loop.induct)
  case (1 b v k)
  note prems = "1.prems"
  define a where "a = get_buddy_address v (push_bit k 1)"
  obtain b1 where t: "try_merge_buddy b v k = Some (a \<in> set (ls k), b1)"
    and i1: "buddy_inv b1 (ls(k := remove1 a (ls k)))"
    and same: "page_info b1 = page_info b" "memory_start b1 = memory_start b"
      "memory_size b1 = memory_size b" "real_start b1 = real_start b"
    using try_merge_buddy_inv [OF prems(1,3), of v] unfolding a_def by blast
  note step = merge_loop.simps [of b v k, unfolded Let_def, folded a_def, unfolded t option.case prod.case]
  show ?case
  proof (cases "k < MAX_ORDER \<and> a \<in> set (ls k)")
    case False
    show ?thesis
    proof (cases "k < MAX_ORDER")
      case True
      with False have "a \<notin> set (ls k)" by simp
      then have "ls(k := remove1 a (ls k)) = ls" by (simp add: remove1_idem)
      then have "buddy_inv b1 ls" using i1 by simp
      moreover have "merge_loop b v k = Some (b1, v, k)" using step True \<open>a \<notin> _\<close> by simp
      ultimately show ?thesis using prems same by blast
    next
      case False
      then have "merge_loop b v k = Some (b, v, k)" using step by simp
      then show ?thesis using prems by blast
    qed
  next
    case True
    define m where "m = (if v < a then v else a)"
    define ls1 where "ls1 = ls(k := remove1 a (ls k))"
    have k: "k < 20" using True by simp
    have m: "blk m (Suc k) = blk v k \<union> blk a k" "page_aligned m"
      using merged_block [OF k prems(2)] by (simp_all only: m_def a_def)
    have "disjoint_blocks ls" and "distinct (ls k)"
      using prems(1,3) by (auto simp: buddy_inv_def buddy_rep_def dest: sll_distinct)
    with True have fs: "blk a k \<inter> free_set ls1 = {}" "free_set ls = free_set ls1 \<union> blk a k"
      unfolding ls1_def by (intro removed_disjoint; simp)+
    then have dis: "blk m (k + 1) \<inter> free_set ls1 = {}"
      and un: "free_set ls1 \<union> blk m (k + 1) = free_set ls \<union> blk v k"
      using prems(4) m by auto
    have go: "merge_loop b v k = merge_loop b1 m (k + 1)"
      using step True by (simp add: m_def)
    have "\<exists>b' v' k' ls'. merge_loop b1 m (k + 1) = Some (b', v', k') \<and> buddy_inv b' ls' \<and>
           page_aligned v' \<and> k + 1 \<le> k' \<and> k' \<le> MAX_ORDER \<and> blk v' k' \<inter> free_set ls' = {} \<and>
           free_set ls' \<union> blk v' k' = free_set ls1 \<union> blk m (k + 1) \<and>
           page_info b' = page_info b1 \<and> memory_start b' = memory_start b1 \<and>
           memory_size b' = memory_size b1 \<and> real_start b' = real_start b1"
      unfolding m_def a_def
    proof (rule "1.IH" [OF _ refl _ refl])
      show "k < MAX_ORDER" "k + 1 \<le> MAX_ORDER" using True by auto
      show "try_merge_buddy b v k = Some (True, b1)" using t True by simp
      show "\<not> \<not> True" by simp
      show "buddy_inv b1 ls1" using i1 by (simp add: ls1_def)
      show "page_aligned (if v < get_buddy_address v (push_bit k 1) then v
              else get_buddy_address v (push_bit k 1))"
        using m(2) by (simp only: m_def a_def)
      show "blk (if v < get_buddy_address v (push_bit k 1) then v
              else get_buddy_address v (push_bit k 1)) (k + 1) \<inter> free_set ls1 = {}"
        using dis by (simp only: m_def a_def)
    qed
    then show ?thesis
      unfolding go un same by (meson Suc_leD Suc_eq_plus1 add_leE)
  qed
qed

section \<open>The page descriptors\<close>

lemma update_pages_spec:
  "start + n \<le> length pis \<Longrightarrow>
   \<exists>pis'. update_pages f start n pis = Some pis' \<and> length pis' = length pis \<and>
     (\<forall>i < length pis. pis' ! i = (if start \<le> i \<and> i < start + n then f (pis ! i) else pis ! i))"
proof (induction n arbitrary: start pis)
  case 0
  then show ?case by (intro exI [of _ pis]) auto
next
  case (Suc n)
  let ?p = "pis[start := f (pis ! start)]"
  from Suc.prems have "Suc start + n \<le> length ?p" by simp
  from Suc.IH [OF this] obtain pis' where
    "update_pages f (Suc start) n ?p = Some pis'" "length pis' = length ?p"
    "\<forall>i < length ?p. pis' ! i = (if Suc start \<le> i \<and> i < Suc start + n then f (?p ! i) else ?p ! i)"
    by blast
  then show ?case
    using Suc.prems by (intro exI [of _ pis']) (auto simp: nth_list_update)
qed

lemma update_pages_length: "update_pages f start n pis = Some pis' \<Longrightarrow> length pis' = length pis"
  by (induction n arbitrary: start pis)
    (auto split: bind_splits simp: arr_set_def split: if_splits)

definition same_but_info :: "BuddyAllocator \<Rightarrow> BuddyAllocator \<Rightarrow> bool" where
  "same_but_info b b' \<longleftrightarrow>
     (\<exists>pis. b' = b\<lparr>page_info := pis\<rparr> \<and> length pis = length (page_info b))"

lemma same_but_info_refl [simp]: "same_but_info b b"
  unfolding same_but_info_def by (rule exI [of _ "page_info b"]) simp

lemma same_but_info_step:
  "length pis = length (page_info b) \<Longrightarrow> same_but_info (b\<lparr>page_info := pis\<rparr>) b' \<Longrightarrow> same_but_info b b'"
  by (auto simp: same_but_info_def)

lemma same_but_infoD:
  assumes "same_but_info b b'"
  shows "buddy_inv b' ls = buddy_inv b ls" and "length (page_info b') = length (page_info b)"
    and "memory_start b' = memory_start b" and "memory_size b' = memory_size b"
    and "real_start b' = real_start b"
  using assms by (auto simp: same_but_info_def)

lemma modify_page_same: "modify_page f i b = Some b' \<Longrightarrow> same_but_info b b'"
  unfolding modify_page_def same_but_info_def
  by (auto simp del: update_pages.simps split: bind_splits dest!: update_pages_length)

lemma modify_page_defined: "i < length (page_info b) \<Longrightarrow> modify_page f i b \<noteq> None"
  using update_pages_spec [of i 1 "page_info b" f] by (auto simp: modify_page_def)

lemma increment_ref_count_same:
  assumes "increment_ref_count b phys k = Some b'"
  shows "same_but_info b b'"
  using assms unfolding increment_ref_count_def Let_def
  by (auto split: if_splits bind_splits dest!: update_pages_length modify_page_same
      intro: same_but_info_step)

section \<open>Allocation\<close>

lemma find_order_spec:
  assumes "k \<le> Suc MAX_ORDER"
  shows "k \<le> find_order b k \<and> find_order b k \<le> Suc MAX_ORDER \<and>
    (\<forall>j. k \<le> j \<longrightarrow> j < find_order b k \<longrightarrow> free_lists b ! j = 0) \<and>
    (find_order b k \<le> MAX_ORDER \<longrightarrow> free_lists b ! find_order b k \<noteq> 0)"
  using assms
proof (induction b k rule: find_order.induct)
  case (1 b k)
  show ?case
  proof (cases "k \<le> MAX_ORDER \<and> free_lists b ! k = 0")
    case True
    then have "find_order b k = find_order b (k + 1)" by (simp add: find_order.simps [of b k])
    then show ?thesis using "1.IH" [OF True] True by (auto simp: Suc_le_eq nat_less_le)
  next
    case False
    then have "find_order b k = k" by (simp only: find_order.simps [of b k] if_False)
    then show ?thesis using False "1.prems" by auto
  qed
qed

text \<open>What \<open>allocate_pages\<close> does with the free lists, by virtual address.\<close>

lemma take_block:
  assumes inv: "buddy_inv b ls" and k: "k \<le> MAX_ORDER" and co: "find_order b k \<le> MAX_ORDER"
  defines "co \<equiv> find_order b k"
  defines "v \<equiv> free_lists b ! co"
  defines "b2 \<equiv> split_loop (b\<lparr>free_lists := (free_lists b)[co := fb_next b v]\<rparr>) v co k"
  shows "\<exists>ls'. buddy_inv b2 ls' \<and> free_set ls' \<inter> blk v k = {} \<and>
           free_set ls' \<union> blk v k \<subseteq> free_set ls \<and>
           (0 \<notin> free_set ls \<longrightarrow> free_set ls' \<union> blk v k = free_set ls)"
    and "page_aligned v" and "v \<noteq> 0"
proof -
  have f: "k \<le> co" "v \<noteq> 0"
    using find_order_spec [of k b] k co unfolding co_def v_def by auto
  note pop = pop_inv [OF inv co [folded co_def] f(2) [unfolded v_def], folded v_def]
  show "page_aligned v" "v \<noteq> 0" by fact+
  obtain ls' where "buddy_inv b2 ls'" "free_set ls' \<inter> blk v k = {}"
    "free_set ls' \<union> blk v k \<subseteq> free_set (ls(co := tl (ls co))) \<union> blk v co"
    "0 \<notin> blk v co \<longrightarrow> free_set ls' \<union> blk v k = free_set (ls(co := tl (ls co))) \<union> blk v co"
    using split_loop_inv [OF pop(1,4) co [folded co_def] f(1) pop(2)] unfolding b2_def by blast
  then show "\<exists>ls'. buddy_inv b2 ls' \<and> free_set ls' \<inter> blk v k = {} \<and>
           free_set ls' \<union> blk v k \<subseteq> free_set ls \<and>
           (0 \<notin> free_set ls \<longrightarrow> free_set ls' \<union> blk v k = free_set ls)"
    using pop(3) by (intro exI [of _ ls']) blast
qed

lemma allocate_pages_found:
  assumes "k \<le> MAX_ORDER" and "find_order b k \<le> MAX_ORDER"
  defines "co \<equiv> find_order b k"
  defines "v \<equiv> free_lists b ! co"
  defines "b2 \<equiv> split_loop (b\<lparr>free_lists := (free_lists b)[co := fb_next b v]\<rparr>) v co k"
  shows "allocate_pages b g k =
     do { pis \<leftarrow> update_pages (mark_compound k (virt2Phys v))
                  (unat ((virt2Phys v - memory_start b) div PAGE_SIZE)) (2 ^ k) (page_info b);
          b3 \<leftarrow> increment_ref_count (b2\<lparr>page_info := pis\<rparr>) (virt2Phys v) 0;
          Some (virt2Phys v, b3) }"
proof -
  have "v \<noteq> 0" using find_order_spec [of k b] assms(1,2) unfolding co_def v_def by auto
  then show ?thesis
    using assms(1,2) unfolding allocate_pages_def Let_def b2_def v_def co_def by simp
qed

lemma allocate_pages_fails:
  assumes "k > MAX_ORDER \<or> find_order b k > MAX_ORDER"
  shows "allocate_pages b g k = Some (0, b)"
  using assms by (auto simp: allocate_pages_def)

section \<open>The free pages, by physical address\<close>

definition buddy_avail :: "BuddyAllocator \<Rightarrow> u32 set \<Rightarrow> bool" where
  "buddy_avail b A \<longleftrightarrow> (\<exists>ls. buddy_inv b ls \<and> A = virt2Phys ` free_set ls)"

lemma inj_virt2Phys: "inj virt2Phys"
  by (rule inj_on_inverseI [of _ phys2Virt]) simp

lemma virt2Phys_blocks:
  "virt2Phys ` S \<inter> blk (virt2Phys v) k = {} \<longleftrightarrow> S \<inter> blk v k = {}"
  "virt2Phys ` S \<union> blk (virt2Phys v) k = virt2Phys ` (S \<union> blk v k)"
  by (simp_all add: blk_virt2Phys image_Un image_Int [OF inj_virt2Phys, symmetric])

lemma phys2Virt_blocks:
  "blk (phys2Virt p) k \<inter> S = {} \<longleftrightarrow> blk p k \<inter> virt2Phys ` S = {}"
proof -
  have "blk p k = virt2Phys ` blk (phys2Virt p) k" by (simp add: blk_virt2Phys [symmetric])
  then show ?thesis by (simp add: image_Int [OF inj_virt2Phys, symmetric])
qed

lemma allocate_pages_sound:
  assumes "buddy_avail b A" and "allocate_pages b g k = Some (p, b')"
  shows "\<exists>A'. buddy_avail b' A' \<and> A' \<subseteq> A \<and> (p \<noteq> 0 \<longrightarrow> blk p k \<subseteq> A - A')"
proof (cases "k \<le> MAX_ORDER \<and> find_order b k \<le> MAX_ORDER")
  case False
  then have "p = 0" "b' = b" using assms(2) allocate_pages_fails [of k b g] by auto
  then show ?thesis using assms(1) by blast
next
  case True
  obtain ls where inv: "buddy_inv b ls" and A: "A = virt2Phys ` free_set ls"
    using assms(1) by (auto simp: buddy_avail_def)
  let ?v = "free_lists b ! find_order b k"
  obtain ls' where ls': "buddy_inv (split_loop (b\<lparr>free_lists := (free_lists b)[find_order b k :=
        fb_next b ?v]\<rparr>) ?v (find_order b k) k) ls'"
    and fs: "free_set ls' \<inter> blk ?v k = {}" "free_set ls' \<union> blk ?v k \<subseteq> free_set ls"
    using take_block(1) [OF inv] True by blast
  have "p = virt2Phys ?v" and "buddy_inv b' ls'"
    using assms(2) ls' True unfolding allocate_pages_found [OF True [THEN conjunct1] True [THEN conjunct2]]
    by (auto split: bind_splits dest!: increment_ref_count_same simp: same_but_infoD(1))
  then show ?thesis
    unfolding A buddy_avail_def using fs
    by (intro exI [of _ "virt2Phys ` free_set ls'"]) (auto simp: blk_virt2Phys dest!: injD [OF inj_virt2Phys])
qed

lemma free_pages_step:
  assumes inv: "buddy_inv b ls" and al: "page_aligned v" and k: "k \<le> MAX_ORDER"
    and dis: "blk v k \<inter> free_set ls = {}"
  shows "\<exists>b' v' k' ls'. merge_loop b v k = Some (b', v', k') \<and> k' \<le> MAX_ORDER \<and>
           buddy_inv (push_block b' v' k') ls' \<and>
           free_set ls' \<subseteq> free_set ls \<union> blk v k \<and>
           (0 \<notin> free_set ls \<union> blk v k \<longrightarrow> free_set ls' = free_set ls \<union> blk v k) \<and>
           page_info b' = page_info b \<and> memory_start b' = memory_start b \<and>
           memory_size b' = memory_size b \<and> real_start b' = real_start b"
proof -
  obtain b' v' k' ls1 where m: "merge_loop b v k = Some (b', v', k')" "buddy_inv b' ls1"
    "page_aligned v'" "k' \<le> MAX_ORDER" "blk v' k' \<inter> free_set ls1 = {}"
    and un: "free_set ls1 \<union> blk v' k' = free_set ls \<union> blk v k"
    and same: "page_info b' = page_info b" "memory_start b' = memory_start b"
      "memory_size b' = memory_size b" "real_start b' = real_start b"
    using merge_loop_inv [OF assms] by blast
  let ?ls = "ls1(k' := (if v' = 0 then [] else v' # ls1 k'))"
  have "buddy_inv (push_block b' v' k') ?ls" by (rule push_block_inv) (use m in auto)
  moreover have "free_set ?ls \<subseteq> free_set ls \<union> blk v k"
    using push_block_free_set(1) [OF m(4)] un by metis
  moreover have "free_set ?ls = free_set ls \<union> blk v k" if "0 \<notin> free_set ls \<union> blk v k"
  proof -
    have "v' \<noteq> 0" using that un blk_base [of v' k'] by auto
    then show ?thesis using push_block_free_set(2) [OF m(4)] un by metis
  qed
  ultimately show ?thesis using m same by blast
qed

lemma free_pages_sound:
  assumes "buddy_avail b A" and "blk p k \<inter> A = {}" and "free_pages b p k = Some b'"
  shows "\<exists>A'. buddy_avail b' A' \<and> A' \<subseteq> A \<union> blk p k"
proof (cases "outside b (memory_start b) p")
  case True
  then show ?thesis using assms by (auto simp: free_pages_def)
next
  case False
  obtain ls where inv: "buddy_inv b ls" and A: "A = virt2Phys ` free_set ls"
    using assms(1) by (auto simp: buddy_avail_def)
  from assms(3) False obtain pis b1 v' k' where
    m: "merge_loop (b\<lparr>page_info := pis\<rparr>) (phys2Virt p) k = Some (b1, v', k')"
    and b': "b' = push_block b1 v' k'" "k' \<le> MAX_ORDER"
    by (auto simp: free_pages_def Let_def split: bind_splits if_splits)
  have k: "k \<le> MAX_ORDER"
  proof (rule ccontr)
    assume "\<not> k \<le> MAX_ORDER"
    then have "k' = k" using m by (simp add: merge_loop.simps)
    then show False using b' \<open>\<not> k \<le> MAX_ORDER\<close> by simp
  qed
  have "page_aligned (phys2Virt p)"
    using False by (simp add: page_aligned_def [of p])
  moreover have "buddy_inv (b\<lparr>page_info := pis\<rparr>) ls" using inv by simp
  moreover have "blk (phys2Virt p) k \<inter> free_set ls = {}"
    using assms(2) A by (simp add: phys2Virt_blocks)
  ultimately obtain ls' where "buddy_inv b' ls'" and "free_set ls' \<subseteq> free_set ls \<union> blk (phys2Virt p) k"
    using free_pages_step [of "b\<lparr>page_info := pis\<rparr>" ls "phys2Virt p" k] k m b' by auto
  moreover from this(2) have "virt2Phys ` free_set ls' \<subseteq> A \<union> blk p k"
    unfolding A by (auto simp: blk_phys2Virt)
  ultimately show ?thesis unfolding buddy_avail_def by blast
qed

lemma buddy_avail_aligned: "buddy_avail b A \<Longrightarrow> x \<in> A \<Longrightarrow> page_aligned x"
proof -
  assume "buddy_avail b A" and "x \<in> A"
  then obtain ls k a y where "disjoint_blocks ls" "k \<le> MAX_ORDER" "a \<in> set (ls k)" "y \<in> blk a k"
    and x: "x = virt2Phys y"
    by (auto simp: buddy_avail_def buddy_inv_def free_set_iff)
  then have "page_aligned y" by (auto simp: disjoint_blocks_def intro: blk_aligned)
  then have "page_aligned (phys2Virt x)" using x by simp
  then show ?thesis by simp
qed

interpretation buddy_safe: page_allocator "\<lambda>b k. allocate_pages b g k" free_pages buddy_avail
proof unfold_locales
  fix s :: BuddyAllocator and A k p s' x
  show "buddy_avail s A \<Longrightarrow> x \<in> A \<Longrightarrow> page_aligned x" by (rule buddy_avail_aligned)
  show "buddy_avail s A \<Longrightarrow> allocate_pages s g k = Some (p, s') \<Longrightarrow>
      \<exists>A'. buddy_avail s' A' \<and> A' \<subseteq> A \<and> (p \<noteq> 0 \<longrightarrow> blk p k \<subseteq> A - A')"
    by (rule allocate_pages_sound)
  show "buddy_avail s A \<Longrightarrow> blk p k \<inter> A = {} \<Longrightarrow> free_pages s p k = Some s' \<Longrightarrow>
      \<exists>A'. buddy_avail s' A' \<and> A' \<subseteq> A \<union> blk p k"
    by (rule free_pages_sound)
qed

section \<open>The exact behaviour over a described region\<close>

text \<open>
  The pages the allocator can manage: inside the region, with a descriptor under the
  index the reference counts use, and not at virtual address 0, which the free lists
  cannot hold.
\<close>

definition pool :: "BuddyAllocator \<Rightarrow> u32 set" where
  "pool b = {x. page_aligned x \<and> memory_start b \<le> x \<and> x < memory_start b + memory_size b \<and>
       unat (x div PAGE_SIZE) < length (page_info b) \<and> phys2Virt x \<noteq> 0}"

definition heads_ok :: "PageInfo list \<Rightarrow> bool" where
  "heads_ok pis \<longleftrightarrow> (\<forall>e \<in> set pis. unat (compound_head e div PAGE_SIZE) < length pis)"

definition buddy_exact :: "BuddyAllocator \<Rightarrow> u32 set \<Rightarrow> bool" where
  "buddy_exact b A \<longleftrightarrow> buddy_avail b A \<and> A \<subseteq> pool b \<and> 0 < memory_start b \<and> heads_ok (page_info b)"

lemma pool_index:
  assumes "blk p k \<subseteq> pool b" and "0 < memory_start b"
  shows "unat ((p - memory_start b) div PAGE_SIZE) + 2 ^ k \<le> length (page_info b)"
    and "unat (p div PAGE_SIZE) < length (page_info b)" and "page_aligned p"
    and "\<not> outside b (memory_start b) p"
proof -
  have p: "p \<in> pool b" using assms(1) by blast
  then show al: "page_aligned p" and "unat (p div PAGE_SIZE) < length (page_info b)"
    by (simp_all add: pool_def)
  show "\<not> outside b (memory_start b) p"
    using p by (auto simp: pool_def page_aligned_def)
  have "0 \<notin> blk p k" using assms by (auto simp: pool_def)
  with al obtain z where z: "z \<in> blk p k" "unat z = unat p + 4096 * (2 ^ k - 1)"
    by (rule blk_last)
  have "unat z div 4096 < length (page_info b)"
    using assms(1) z(1) by (auto simp: pool_def unat_div)
  then have "unat p div 4096 + (2 ^ k - 1) < length (page_info b)"
    unfolding z(2) by (simp add: div_mult_self2)
  moreover have "unat (p - memory_start b) \<le> unat p"
    using p by (simp add: pool_def unat_sub)
  then have "unat (p - memory_start b) div 4096 \<le> unat p div 4096" by (rule div_le_mono)
  ultimately show "unat ((p - memory_start b) div PAGE_SIZE) + 2 ^ k \<le> length (page_info b)"
    by (simp add: unat_div)
qed

lemma update_pages_heads:
  assumes "heads_ok pis" and "start + n \<le> length pis"
    and "\<And>e. e \<in> set pis \<Longrightarrow> unat (compound_head (f e) div PAGE_SIZE) < length pis"
  obtains pis' where "update_pages f start n pis = Some pis'" and "length pis' = length pis"
    and "heads_ok pis'"
proof -
  obtain pis' where p: "update_pages f start n pis = Some pis'" "length pis' = length pis"
    "\<forall>i < length pis. pis' ! i = (if start \<le> i \<and> i < start + n then f (pis ! i) else pis ! i)"
    using update_pages_spec [OF assms(2)] by blast
  have "heads_ok pis'"
    using assms(1) assms(3) [OF nth_mem] p(2,3) by (auto simp: heads_ok_def all_set_conv_all_nth)
  then show thesis using p that by blast
qed

lemma modify_page_heads:
  assumes "heads_ok (page_info b)" and "i < length (page_info b)"
    and "\<And>e. compound_head (f e) = compound_head e"
  obtains b' where "modify_page f i b = Some b'" and "heads_ok (page_info b')"
proof -
  obtain pis' where "update_pages f i 1 (page_info b) = Some pis'" "heads_ok pis'"
    using update_pages_heads [OF assms(1), of i 1 f] assms by (auto simp: heads_ok_def)
  then show thesis using that by (simp add: modify_page_def del: update_pages.simps)
qed

lemma increment_ref_count_exact:
  assumes "heads_ok (page_info b)" and "unat (p div PAGE_SIZE) < length (page_info b)"
  obtains b' where "increment_ref_count b p 0 = Some b'" and "heads_ok (page_info b')"
proof -
  let ?e = "page_info b ! unat (p div PAGE_SIZE)"
  have h: "unat (compound_head ?e div PAGE_SIZE) < length (page_info b)"
    using assms by (simp add: heads_ok_def)
  have "\<exists>b'. increment_ref_count b p 0 = Some b' \<and> heads_ok (page_info b')"
  proof (cases "outside b (real_start b) p")
    case True
    then show ?thesis using assms by (simp add: increment_ref_count_def)
  next
    case False
    define i where "i = (if is_compound ?e then unat (compound_head ?e div PAGE_SIZE) else unat (p div PAGE_SIZE))"
    have "increment_ref_count b p 0 = modify_page inc_ref i b"
      using False assms by (simp add: increment_ref_count_def Let_def i_def)
    moreover obtain b' where "modify_page inc_ref i b = Some b'" "heads_ok (page_info b')"
      by (rule modify_page_heads [OF assms(1), of i inc_ref])
        (use h assms(2) in \<open>auto simp: i_def inc_ref_def\<close>)
    ultimately show ?thesis by simp
  qed
  then show thesis using that by blast
qed

lemma pool_same: "same_but_info b b' \<Longrightarrow> pool b' = pool b"
  by (auto simp: pool_def same_but_infoD)

lemma pool_no_virt_0: "virt2Phys ` S \<subseteq> pool b \<Longrightarrow> 0 \<notin> S"
  by (force simp: pool_def)

lemma buddy_alloc_exact:
  assumes ex: "buddy_exact b A"
  shows "\<exists>p b' A'. allocate_pages b g k = Some (p, b') \<and> pool b' = pool b \<and> buddy_exact b' A' \<and>
     (if p = 0 then A' = A else k \<le> MAX_ORDER \<and> blk p k \<inter> A' = {} \<and> A' \<union> blk p k = A)"
proof (cases "k \<le> MAX_ORDER \<and> find_order b k \<le> MAX_ORDER")
  case False
  then show ?thesis using ex allocate_pages_fails [of k b g] by (auto simp: not_le)
next
  case True
  note ko = True [THEN conjunct1] True [THEN conjunct2]
  obtain ls where inv: "buddy_inv b ls" and A: "A = virt2Phys ` free_set ls"
    and sub: "A \<subseteq> pool b" and ms: "0 < memory_start b" and hd: "heads_ok (page_info b)"
    using ex by (auto simp: buddy_exact_def buddy_avail_def)
  let ?v = "free_lists b ! find_order b k"
  let ?b2 = "split_loop (b\<lparr>free_lists := (free_lists b)[find_order b k := fb_next b ?v]\<rparr>)
        ?v (find_order b k) k"
  have "0 \<notin> free_set ls" using sub unfolding A by (rule pool_no_virt_0)
  then obtain ls' where ls': "buddy_inv ?b2 ls'"
    and fs: "free_set ls' \<inter> blk ?v k = {}" "free_set ls' \<union> blk ?v k = free_set ls"
    using take_block(1) [OF inv ko] by blast
  let ?p = "virt2Phys ?v"
  have A': "virt2Phys ` free_set ls' \<union> blk ?p k = A" "virt2Phys ` free_set ls' \<inter> blk ?p k = {}"
    using fs by (simp_all add: virt2Phys_blocks A)
  then have "blk ?p k \<subseteq> pool b" using sub by blast
  note ix = pool_index [OF this ms]
  have "unat (compound_head (mark_compound k ?p e) div PAGE_SIZE) < length (page_info b)" for e
    using ix(2) by (simp add: mark_compound_def)
  then obtain pis where pis: "update_pages (mark_compound k ?p)
        (unat ((?p - memory_start b) div PAGE_SIZE)) (2 ^ k) (page_info b) = Some pis"
    "length pis = length (page_info b)" "heads_ok pis"
    using update_pages_heads [OF hd ix(1)] by blast
  let ?b2' = "?b2\<lparr>page_info := pis\<rparr>"
  obtain b3 where b3: "increment_ref_count ?b2' ?p 0 = Some b3" "heads_ok (page_info b3)"
    by (rule increment_ref_count_exact [of ?b2' ?p]) (use pis ix in auto)
  have al: "allocate_pages b g k = Some (?p, b3)"
    unfolding allocate_pages_found [OF ko] using pis b3 by simp
  have same: "same_but_info ?b2' b3" by (rule increment_ref_count_same) (fact b3)
  have pool: "pool b3 = pool b"
    unfolding pool_same [OF same] using pis(2) by (simp add: pool_def)
  have "buddy_avail b3 (virt2Phys ` free_set ls')"
    using ls' same_but_infoD(1) [OF same] unfolding buddy_avail_def by auto
  moreover have "0 < memory_start b3" using ms same_but_infoD(3) [OF same] by simp
  ultimately have "buddy_exact b3 (virt2Phys ` free_set ls')"
    using A' sub pool b3(2) unfolding buddy_exact_def by blast
  moreover have "?p \<noteq> 0" using ms \<open>blk ?p k \<subseteq> pool b\<close> blk_base [of ?p k] by (auto simp: pool_def)
  ultimately show ?thesis using al pool A' ko by (intro exI conjI) (auto simp: Int_commute)
qed

lemma buddy_release_exact:
  assumes ex: "buddy_exact b A" and k: "k \<le> MAX_ORDER" and blk: "blk p k \<subseteq> pool b - A"
  shows "\<exists>b'. free_pages b p k = Some b' \<and> pool b' = pool b \<and> buddy_exact b' (A \<union> blk p k)"
proof -
  obtain ls where inv: "buddy_inv b ls" and A: "A = virt2Phys ` free_set ls"
    and sub: "A \<subseteq> pool b" and ms: "0 < memory_start b" and hd: "heads_ok (page_info b)"
    using ex by (auto simp: buddy_exact_def buddy_avail_def)
  have "blk p k \<subseteq> pool b" using blk by blast
  note ix = pool_index [OF this ms]
  have "page_info b \<noteq> []" using ix(2) by auto
  then have "unat (compound_head (clear_compound e) div PAGE_SIZE) < length (page_info b)" for e
    by (simp add: clear_compound_def)
  then obtain pis where pis: "update_pages clear_compound
        (unat ((p - memory_start b) div PAGE_SIZE)) (2 ^ k) (page_info b) = Some pis"
    "length pis = length (page_info b)" "heads_ok pis"
    using update_pages_heads [OF hd ix(1)] by blast
  have un: "A \<union> blk p k = virt2Phys ` (free_set ls \<union> blk (phys2Virt p) k)"
    by (simp add: A image_Un blk_virt2Phys [symmetric])
  then have z: "0 \<notin> free_set ls \<union> blk (phys2Virt p) k"
    using blk sub by (intro pool_no_virt_0 [of _ b]) auto
  have "buddy_inv (b\<lparr>page_info := pis\<rparr>) ls" "page_aligned (phys2Virt p)"
    "blk (phys2Virt p) k \<inter> free_set ls = {}"
    using inv ix(3) blk A by (auto simp: phys2Virt_blocks)
  from free_pages_step [OF this(1,2) k this(3)] z obtain b' v' k' ls' where
    m: "merge_loop (b\<lparr>page_info := pis\<rparr>) (phys2Virt p) k = Some (b', v', k')" "k' \<le> MAX_ORDER"
    "buddy_inv (push_block b' v' k') ls'" "free_set ls' = free_set ls \<union> blk (phys2Virt p) k"
    and same: "page_info b' = pis" "memory_start b' = memory_start b" "memory_size b' = memory_size b"
    by auto
  have f: "free_pages b p k = Some (push_block b' v' k')"
    using ix(4) pis(1) m by (simp add: free_pages_def Let_def)
  have "pool (push_block b' v' k') = pool b"
    using same pis(2) by (simp add: pool_def)
  moreover have "buddy_exact (push_block b' v' k') (A \<union> blk p k)"
    using m(3,4) un same pis(3) ms calculation blk sub
    unfolding buddy_exact_def buddy_avail_def by auto
  ultimately show ?thesis using f by blast
qed

interpretation buddy_total: exact_page_allocator
  "\<lambda>b k. allocate_pages b g k" free_pages buddy_exact pool MAX_ORDER
proof unfold_locales
  fix b :: BuddyAllocator and A k p
  show "buddy_exact b A \<Longrightarrow> A \<subseteq> pool b" by (simp add: buddy_exact_def)
  show "buddy_exact b A \<Longrightarrow> \<exists>p b' A'. allocate_pages b g k = Some (p, b') \<and> pool b' = pool b \<and>
      buddy_exact b' A' \<and>
      (if p = 0 then A' = A else k \<le> MAX_ORDER \<and> blk p k \<inter> A' = {} \<and> A' \<union> blk p k = A)"
    by (rule buddy_alloc_exact)
  show "buddy_exact b A \<Longrightarrow> k \<le> MAX_ORDER \<Longrightarrow> blk p k \<subseteq> pool b - A \<Longrightarrow>
      \<exists>b'. free_pages b p k = Some b' \<and> pool b' = pool b \<and> buddy_exact b' (A \<union> blk p k)"
    by (rule buddy_release_exact)
qed

section \<open>The order of a request\<close>

lemma block_order_loop_eq:
  "block_order_loop n k = k + (LEAST j. unat n < 2 ^ j)"
proof (induction n k rule: block_order_loop.induct)
  case (1 n k)
  show ?case
  proof (cases "n > 0")
    case False
    then have "n = 0" by (simp add: word_gt_0_no not_less)
    moreover have "(LEAST j. (0 :: nat) < 2 ^ j) = 0" by (rule Least_equality) auto
    ultimately show ?thesis by (simp add: block_order_loop.simps)
  next
    case True
    then have pos: "unat n > 0" by (simp add: unat_gt_0)
    have half: "unat (drop_bit 1 n) = unat n div 2"
      by (simp add: drop_bit_eq_div unat_div)
    have "(LEAST j. unat n < 2 ^ j) = Suc (LEAST j. unat n < 2 ^ Suc j)"
    proof (rule Least_Suc)
      show "unat n < 2 ^ unat n" by (rule less_exp)
      show "\<not> unat n < 2 ^ 0" using pos by simp
    qed
    also have "(LEAST j. unat n < 2 ^ Suc j) = (LEAST j. unat n div 2 < 2 ^ j)"
      by (rule arg_cong [of _ _ Least]) (auto simp: fun_eq_iff)
    finally show ?thesis
      using True "1.IH" [OF True] by (simp add: block_order_loop.simps [of n] half [unfolded One_nat_def])
  qed
qed

lemma get_block_order_least:
  assumes "n \<noteq> 0"
  shows "get_block_order n = (LEAST j. unat n \<le> 2 ^ j)"
proof -
  have "unat (n - 1) = unat n - 1" "unat n > 0"
    using assms by (simp_all add: unat_minus_one unat_gt_0)
  then have "unat (n - 1) < 2 ^ j \<longleftrightarrow> unat n \<le> 2 ^ j" for j by auto
  then show ?thesis by (simp add: get_block_order_def block_order_loop_eq)
qed

lemma get_block_order_le: "n \<noteq> 0 \<Longrightarrow> unat n \<le> 2 ^ get_block_order n"
  unfolding get_block_order_least by (rule LeastI [of _ "unat n"]) (simp add: less_imp_le less_exp)

lemma get_block_order_min: "n \<noteq> 0 \<Longrightarrow> unat n \<le> 2 ^ j \<Longrightarrow> get_block_order n \<le> j"
  unfolding get_block_order_least by (rule Least_le)

section \<open>Initialisation\<close>

lemma init_Some:
  assumes "init b start sz = Some b'"
  defines "t \<equiv> (sz - info_bytes_of sz) div PAGE_SIZE"
  shows "memory_start b' = start + info_bytes_of sz" and "memory_size b' = sz - info_bytes_of sz"
    and "real_start b' = start"
    and "page_info b' = replicate (unat (info_bytes_of sz div sizeof_PageInfo)) zero_PageInfo"
    and "get_block_order t \<le> MAX_ORDER"
    and "free_lists b' = (replicate (MAX_ORDER + 1) 0)[get_block_order t := phys2Virt (memory_start b')]"
    and "fb_next b' (phys2Virt (memory_start b')) = 0"
  using assms by (auto simp: init_def Let_def simp del: replicate_Suc split: if_splits)

lemma init_inv:
  assumes i: "init b start sz = Some b'" and al: "page_aligned (memory_start b')"
    and nz: "phys2Virt (memory_start b') \<noteq> 0"
  shows "buddy_avail b' (blk (memory_start b') (get_block_order (memory_size b' div PAGE_SIZE)))"
proof -
  let ?o = "get_block_order (memory_size b' div PAGE_SIZE)"
  let ?v = "phys2Virt (memory_start b')"
  have o: "?o \<le> MAX_ORDER" using init_Some(2,5) [OF i] by simp
  define ls where "ls = (\<lambda>k. if k = ?o then [?v] else [])"
  have "buddy_rep b' ls"
    using o nz init_Some [OF i]
    by (auto simp: buddy_rep_def ls_def nth_list_update simp del: replicate_Suc)
  moreover have "disjoint_blocks ls"
    using al by (auto simp: disjoint_blocks_def ls_def split: if_splits)
  moreover have "free_set ls = blk ?v ?o"
    using o by (auto simp: free_set_iff ls_def split: if_splits)
  ultimately show ?thesis
    unfolding buddy_avail_def buddy_inv_def
    by (intro exI [of _ ls]) (simp add: blk_virt2Phys [symmetric])
qed

lemma region_eq_blk:
  assumes al: "page_aligned a" and sz: "unat a + 4096 * 2 ^ k < 2 ^ 32"
  shows "blk a k = {x. page_aligned x \<and> a \<le> x \<and> unat x < unat a + 4096 * 2 ^ k}"
proof (intro set_eqI iffI)
  fix x assume "x \<in> blk a k"
  then obtain i where i: "i < 2 ^ k" and x: "x = a + 0x1000 * of_nat i" by (auto simp: blk_def)
  have "i * 4096 < 4096 * 2 ^ k" using i by simp
  then have lt: "unat a + 4096 * i < 2 ^ 32" using sz by linarith
  have "unat x = unat a + 4096 * i"
  proof -
    have "unat x = (unat a + 4096 * i) mod 2 ^ 32"
      unfolding x by (simp add: unat_word_ariths unat_of_nat mod_simps)
    then show ?thesis using lt by simp
  qed
  moreover from this have "a \<le> x" by (simp add: word_le_nat_alt)
  ultimately show "x \<in> {x. page_aligned x \<and> a \<le> x \<and> unat x < unat a + 4096 * 2 ^ k}"
    using i page_aligned_add [OF al] x by simp
next
  fix x assume "x \<in> {x. page_aligned x \<and> a \<le> x \<and> unat x < unat a + 4096 * 2 ^ k}"
  then have x: "unat x mod 4096 = 0" "unat a \<le> unat x" "unat x < unat a + 4096 * 2 ^ k"
    by (auto simp: page_aligned_unat word_le_nat_alt)
  have a: "unat a mod 4096 = 0" using al by (simp add: page_aligned_unat)
  define i where "i = (unat x - unat a) div 4096"
  have "4096 dvd unat x - unat a" using a x(1) by (simp add: mod_eq_0_iff_dvd dvd_diff_nat)
  then have d: "unat x = unat a + 4096 * i" using x(2) by (simp add: i_def)
  then have "i < 2 ^ k" using x(3) by simp
  moreover have "x = a + 0x1000 * of_nat i"
  proof -
    have "x = of_nat (unat x)" by simp
    also have "\<dots> = of_nat (unat a + 4096 * i)" by (simp only: d)
    finally show ?thesis by simp
  qed
  ultimately show "x \<in> blk a k" by (auto simp: blk_def)
qed

lemma info_bytes_of_unat:
  assumes "sz \<le> 0x40000000"
  shows "unat (info_bytes_of sz) = (unat sz div 4096 * 16 + 4095) div 4096 * 4096"
proof -
  have "unat sz \<le> 0x40000000" using assms by (simp add: word_le_nat_alt)
  then have n: "unat sz div 4096 \<le> 0x40000" by (simp add: div_le_mono [of _ "0x40000000", simplified])
  have "unat (sz div PAGE_SIZE * sizeof_PageInfo) = unat sz div 4096 * 16"
    using n by (simp add: unat_word_ariths unat_div)
  then have "unat (sz div PAGE_SIZE * sizeof_PageInfo + 0xFFF) = unat sz div 4096 * 16 + 4095"
    using n by (simp add: unat_word_ariths)
  moreover have "info_bytes_of sz = (sz div PAGE_SIZE * sizeof_PageInfo + 0xFFF) AND NOT 0xFFF"
    by (simp add: info_bytes_of_def Let_def add.commute)
  ultimately show ?thesis by (simp only: unat_and_not_FFF)
qed

lemma info_bytes_of_bounds:
  assumes al: "page_aligned sz" and z: "0 < sz" and max: "sz \<le> 0x40000000"
  shows "page_aligned (info_bytes_of sz)" and "0 < info_bytes_of sz" and "info_bytes_of sz \<le> sz"
    and "unat sz div 4096 \<le> unat (info_bytes_of sz div sizeof_PageInfo)"
proof -
  obtain n where n: "unat sz = 4096 * n" using al by (auto simp: page_aligned_unat mod_eq_0_iff_dvd)
  have n0: "0 < n" using z n by (simp add: word_less_nat_alt)
  have um: "unat (info_bytes_of sz) = (n * 16 + 4095) div 4096 * 4096"
    using info_bytes_of_unat [OF max] n by simp
  have q: "1 \<le> (n * 16 + 4095) div 4096" "(n * 16 + 4095) div 4096 \<le> n"
    "n * 16 \<le> (n * 16 + 4095) div 4096 * 4096"
    using n0 by linarith+
  show "page_aligned (info_bytes_of sz)" by (simp add: page_aligned_unat um)
  show "0 < info_bytes_of sz" "info_bytes_of sz \<le> sz"
    using q by (simp_all add: word_less_nat_alt word_le_nat_alt um n)
  show "unat sz div 4096 \<le> unat (info_bytes_of sz div sizeof_PageInfo)"
    using q(3) by (simp add: n unat_div um)
qed

lemma init_exact:
  assumes i: "init b 0 sz = Some b'" and al: "page_aligned sz" and z: "0 < sz"
    and max: "sz \<le> 0x40000000"
    and pw: "unat ((sz - info_bytes_of sz) div PAGE_SIZE) = 2 ^ k"
  shows "buddy_exact b' {x. page_aligned x \<and> info_bytes_of sz \<le> x \<and> x < sz}"
proof -
  note in_ = init_Some [OF i]
  let ?m = "info_bytes_of sz"
  note ial = info_bytes_of_bounds(1) [OF al z max]
    and pos = info_bytes_of_bounds(2,3) [OF al z max] max
    and desc = info_bytes_of_bounds(4) [OF al z max]
  define t where "t = (sz - ?m) div PAGE_SIZE"
  have t: "unat t = 2 ^ k" using pw by (simp add: t_def)
  have "t \<noteq> 0" using t by auto
  then have ord: "get_block_order t = k"
    unfolding get_block_order_least [OF \<open>t \<noteq> 0\<close>] t by (intro Least_equality) auto
  have us: "unat (sz - ?m) = unat sz - unat ?m" using pos(2) by (simp add: unat_sub)
  have dvd: "4096 dvd unat sz" "4096 dvd unat ?m"
    using al ial by (auto simp: page_aligned_unat mod_eq_0_iff_dvd)
  have lem: "unat ?m \<le> unat sz" using pos(2) by (simp add: word_le_nat_alt)
  have "4096 dvd unat sz - unat ?m" using dvd by (rule dvd_diff_nat)
  then have "4096 * 2 ^ k = unat sz - unat ?m"
    using pw us by (auto simp: unat_div)
  then have end_: "unat ?m + 4096 * 2 ^ k = unat sz" using lem by simp
  have lt: "unat sz \<le> 0x40000000" using pos(3) by (simp add: word_le_nat_alt)
  have reg: "blk ?m k = {x. page_aligned x \<and> ?m \<le> x \<and> x < sz}"
    using region_eq_blk [OF ial, of k] end_ lt by (simp add: word_less_nat_alt)
  have "phys2Virt x \<noteq> 0" if "x < sz" for x
  proof
    assume "phys2Virt x = 0"
    then have "x = 0x40000000"
      by (simp add: phys2Virt_def eq_neg_iff_add_eq_0 [symmetric])
    then show False using that pos(3) by simp
  qed
  moreover have "unat (x div PAGE_SIZE) < length (page_info b')" if "x < sz" for x
  proof -
    have "unat x < unat sz" using that by (simp add: word_less_nat_alt)
    then have "unat x div 4096 < unat sz div 4096" using dvd(1) by auto
    then show ?thesis using desc in_(4) by (simp add: unat_div)
  qed
  ultimately have sub: "{x. page_aligned x \<and> ?m \<le> x \<and> x < sz} \<subseteq> pool b'"
    using in_(1,2) by (auto simp: pool_def)
  have "?m < sz"
    using end_ by (simp add: word_less_nat_alt) (metis less_add_same_cancel1 nat_0_less_mult_iff zero_less_numeral zero_less_power)
  then have "?m \<in> pool b'" using sub ial by auto
  then have "heads_ok (page_info b')"
    unfolding heads_ok_def in_(4) by (auto simp: zero_PageInfo_def pool_def in_(4))
  moreover have "buddy_avail b' (blk ?m k)"
    using init_inv [OF i] in_(1,2) ial \<open>?m < sz\<close> \<open>\<And>x. x < sz \<Longrightarrow> phys2Virt x \<noteq> 0\<close> ord
    by (simp add: t_def)
  ultimately show ?thesis using reg sub pos(1) in_(1) by (simp add: buddy_exact_def)
qed

section \<open>Properties\<close>

text \<open>
  C1. Over a region all of whose pages have descriptors, no sequence of allocations and
  releases leaves defined behaviour, no page is ever lost or handed out twice: the free
  pages and the pages of the live blocks always make up the initial free pages, and
  blocks that are live together, and the free pages, are disjoint.
\<close>

theorem buddy_conserves_pages:
  assumes "buddy_exact b A"
  shows "\<exists>b' live A'. client_run (\<lambda>b k. allocate_pages b g k) free_pages (b, []) ops = Some (b', live) \<and>
           buddy_exact b' A' \<and> separate live A' \<and> A' \<union> held live = A"
  using assms by (rule buddy_total.run_conserves_pages)

definition fresh :: BuddyAllocator where
  "fresh = \<lparr>free_lists = replicate (MAX_ORDER + 1) 0, fb_next = (\<lambda>_. 0), fb_size = (\<lambda>_. 0),
     real_start = 0, memory_start = 0, memory_size = 0, page_info = [], page_count = 0\<rparr>"

lemma fresh_init:
  "init fresh 0 0x5000 = Some (the (init fresh 0 0x5000))"
  "buddy_exact (the (init fresh 0 0x5000)) {x. page_aligned x \<and> 0x1000 \<le> x \<and> x < 0x5000}"
proof -
  have ib: "info_bytes_of 0x5000 = 0x1000"
    by (simp add: info_bytes_of_def)
  have o: "get_block_order 4 = 2"
    by (simp add: get_block_order_def block_order_loop.simps)
  show i: "init fresh 0 0x5000 = Some (the (init fresh 0 0x5000))"
    by (simp add: init_def Let_def ib o fresh_def)
  show "buddy_exact (the (init fresh 0 0x5000)) {x. page_aligned x \<and> 0x1000 \<le> x \<and> x < 0x5000}"
    using init_exact [OF i, of 2] by (simp add: ib page_aligned_def)
qed

theorem buddy_conserves_pages_witness:
  "\<exists>b' live A'. client_run (\<lambda>b k. allocate_pages b 0 k) free_pages (the (init fresh 0 0x5000), [])
       [Alloc 0, Alloc 1, Free 1, Alloc 0] = Some (b', live) \<and>
     buddy_exact b' A' \<and> separate live A' \<and>
     A' \<union> held live = {x. page_aligned x \<and> 0x1000 \<le> x \<and> x < 0x5000}"
  by (rule buddy_conserves_pages [OF fresh_init(2)])

text \<open>
  C16. Whatever the region and its descriptors, as long as the program has not left
  defined behaviour, two blocks that are live at the same time never share a page. The
  hypothesis is only that the free lists are well formed, which \<open>init\<close> always
  establishes.
\<close>

theorem buddy_live_blocks_disjoint:
  assumes "buddy_avail b A"
    and "client_run (\<lambda>b k. allocate_pages b g k) free_pages (b, []) ops = Some (b', live)"
    and "i < length live" and "j < length live" and "i \<noteq> j"
  shows "blk (fst (live ! i)) (snd (live ! i)) \<inter> blk (fst (live ! j)) (snd (live ! j)) = {}"
  using assms by (rule buddy_safe.live_blocks_disjoint)

definition two_pages_live :: "(BuddyAllocator \<times> (u32 \<times> nat) list) option" where
  "two_pages_live = client_run (\<lambda>b k. allocate_pages b 0 k) free_pages
     (the (init fresh 0 0x5000), []) [Alloc 0, Alloc 1]"

lemma two_pages_live_blocks: "map_option snd two_pages_live = Some [(0x3000, 1), (0x1000, 0)]"
  by code_simp

theorem buddy_live_blocks_disjoint_witness: "blk 0x3000 1 \<inter> blk 0x1000 0 = {}"
proof -
  obtain b' where r: "two_pages_live = Some (b', [(0x3000, 1), (0x1000, 0)])"
    using two_pages_live_blocks by (cases two_pages_live) auto
  have "buddy_avail (the (init fresh 0 0x5000)) {x. page_aligned x \<and> 0x1000 \<le> x \<and> x < 0x5000}"
    using fresh_init(2) by (simp add: buddy_exact_def)
  from buddy_live_blocks_disjoint [OF this r [unfolded two_pages_live_def], of 0 1]
  show ?thesis by simp
qed

text \<open>
  Over such a region an allocation fails (returns 0) exactly when no free block of
  the requested order or of a larger one exists, and then changes nothing.
\<close>

theorem allocate_pages_fails_iff:
  assumes "buddy_exact b A" and "k \<le> MAX_ORDER" and "allocate_pages b g k = Some (p, b')"
  shows "(p = 0) = (\<forall>j. k \<le> j \<and> j \<le> MAX_ORDER \<longrightarrow> free_lists b ! j = 0) \<and> (p = 0 \<longrightarrow> b' = b)"
    (is "_ = ?empty \<and> _")
proof -
  note f = find_order_spec [of k b]
  have e: "?empty \<longleftrightarrow> find_order b k > MAX_ORDER"
    using f assms(2) by (metis Suc_leI le_SucI le_less_trans not_le_imp_less order_refl)
  have nz: "p \<noteq> 0" if "find_order b k \<le> MAX_ORDER"
  proof -
    let ?v = "free_lists b ! find_order b k"
    obtain ls where inv: "buddy_inv b ls" and A: "virt2Phys ` free_set ls \<subseteq> pool b" and ms: "0 < memory_start b"
      using assms(1) by (auto simp: buddy_exact_def buddy_avail_def)
    have "?v \<in> free_set ls" using take_block(1) [OF inv assms(2) that] blk_base by blast
    then have "virt2Phys ?v \<noteq> 0" using A ms by (fastforce simp: pool_def)
    moreover have "p = virt2Phys ?v"
      using assms(3) unfolding allocate_pages_found [OF assms(2) that] by (auto split: bind_splits)
    ultimately show ?thesis by simp
  qed
  show ?thesis
    using nz assms(3) e allocate_pages_fails [of k b g] by (metis Pair_inject not_le option.inject)
qed

lemma fresh_alloc_3: "map_option fst (allocate_pages (the (init fresh 0 0x5000)) 0 3) = Some 0"
  by code_simp

theorem allocate_pages_fails_iff_witness:
  "map_option fst (allocate_pages (the (init fresh 0 0x5000)) 0 3) = Some 0 \<and>
   free_lists (the (init fresh 0 0x5000)) ! 3 = 0"
proof -
  obtain b' where "allocate_pages (the (init fresh 0 0x5000)) 0 3 = Some (0, b')"
    using fresh_alloc_3 by (cases "allocate_pages (the (init fresh 0 0x5000)) 0 3") auto
  then show ?thesis
    using allocate_pages_fails_iff [OF fresh_init(2), of 3 0 0 b'] by auto
qed

text \<open>
  \<open>init\<close> on a region that starts at physical address 0 and whose pages, less those of
  the descriptors, are a power of two: the free pages are exactly the pages of the region
  after the descriptors, and the exact contract holds.
\<close>

theorem init_establishes_pool:
  assumes "page_aligned sz" and "0 < sz" and "sz \<le> 0x40000000" and "k \<le> MAX_ORDER"
    and "unat ((sz - info_bytes_of sz) div PAGE_SIZE) = 2 ^ k"
  shows "\<exists>b'. init b 0 sz = Some b' \<and>
           buddy_exact b' {x. page_aligned x \<and> info_bytes_of sz \<le> x \<and> x < sz}"
proof -
  let ?t = "(sz - info_bytes_of sz) div PAGE_SIZE"
  have "?t \<noteq> 0" using assms(5) by (metis power_not_zero unat_0 zero_neq_numeral)
  then have "get_block_order ?t \<le> k" using assms(5) by (intro get_block_order_min) auto
  then have "\<exists>b'. init b 0 sz = Some b'" using assms(4) by (simp add: init_def Let_def)
  then show ?thesis using init_exact assms by blast
qed

theorem init_establishes_pool_witness:
  "\<exists>b'. init fresh 0 0x5000 = Some b' \<and>
     buddy_exact b' {x. page_aligned x \<and> 0x1000 \<le> x \<and> x < 0x5000}"
proof -
  have ib: "info_bytes_of 0x5000 = 0x1000"
    by (simp add: info_bytes_of_def)
  show ?thesis
    using init_establishes_pool [of "0x5000" 2 fresh]
    by (simp add: ib page_aligned_def)
qed

text \<open>
  On any other region the initial block is larger than the region: when the number
  of pages is not a power of two, the page just after the region is free and will be
  handed out.
\<close>

theorem init_overshoots:
  assumes "init b start sz = Some b'" and "page_aligned (memory_start b')"
    and "phys2Virt (memory_start b') \<noteq> 0"
    and "memory_size b' div PAGE_SIZE \<noteq> 0" and "\<forall>j. unat (memory_size b' div PAGE_SIZE) \<noteq> 2 ^ j"
  shows "\<exists>A. buddy_avail b' A \<and>
           memory_start b' + PAGE_SIZE * (memory_size b' div PAGE_SIZE) \<in> A"
proof -
  let ?t = "memory_size b' div PAGE_SIZE"
  have "unat ?t < 2 ^ get_block_order ?t"
    using get_block_order_le [OF assms(4)] assms(5) by (simp add: order.strict_iff_order)
  then have "memory_start b' + 0x1000 * of_nat (unat ?t) \<in> blk (memory_start b') (get_block_order ?t)"
    unfolding blk_def by blast
  then show ?thesis using init_inv [OF assms(1-3)] by auto
qed

lemma not_two_power: "(\<forall>j. (3 :: nat) \<noteq> 2 ^ j)"
proof
  fix j :: nat
  show "3 \<noteq> (2 :: nat) ^ j" by (cases j; cases "j - 1") (auto simp: odd_numeral dest: arg_cong [of _ _ even])
qed

theorem init_overshoots_witness:
  "\<exists>A. buddy_avail (the (init fresh 0 0x4000)) A \<and> 0x4000 \<in> A"
proof -
  have ib: "info_bytes_of 0x4000 = 0x1000"
    by (simp add: info_bytes_of_def)
  have o: "get_block_order 3 = 2"
    by (simp add: get_block_order_def block_order_loop.simps)
  have i: "init fresh 0 0x4000 = Some (the (init fresh 0 0x4000))"
    by (simp add: init_def Let_def ib o fresh_def)
  show ?thesis
    using init_overshoots [OF i] init_Some(1,2) [OF i] not_two_power
    by (simp add: ib page_aligned_def phys2Virt_def)
qed

text \<open>
  The reference counts of a zone that does not start at 0 index the descriptors by
  page frame number instead of by page of the zone: an in-range page whose frame number
  is not below the number of descriptors reads beyond the array.
\<close>

lemma increment_ref_count_out_of_range:
  assumes "\<not> outside b (real_start b) p" and "length (page_info b) \<le> unat (p div PAGE_SIZE)"
  shows "increment_ref_count b p k = None"
  using assms by (simp add: increment_ref_count_def Let_def arr_get_def)

lemma increment_ref_count_out_of_range_example:
  "increment_ref_count (the (init fresh 0x1000000 0x5000)) 0x1002000 0 = None"
proof -
  have ib: "info_bytes_of 0x5000 = 0x1000"
    by (simp add: info_bytes_of_def)
  have o: "get_block_order 4 = 2"
    by (simp add: get_block_order_def block_order_loop.simps)
  have i: "init fresh 0x1000000 0x5000 = Some (the (init fresh 0x1000000 0x5000))"
    by (simp add: init_def Let_def ib o fresh_def)
  show ?thesis
    by (rule increment_ref_count_out_of_range)
      (simp_all add: init_Some [OF i] ib)
qed

end
