(* ===== verification/Zone.thy ===== *)
theory Zone
  imports Buddy
begin

text \<open>
  Memory zones, \<open>kernel/memory/zone.cpp\<close>, and the physical pages of the kernel, the part of
  \<open>kernel/memory/kernel_memory.cpp\<close> that chooses a zone and calls it. A zone counts its
  free pages beside the buddy allocator that hands them out. Shifts by an order of 32 or
  more are undefined.
\<close>

section \<open>Zones\<close>

datatype ZoneType = ZONE_DMA | ZONE_NORMAL | ZONE_HIGH

datatype WatermarkLevel = WMARK_MIN | WMARK_LOW | WMARK_HIGH

record Zone =
  zone_type :: ZoneType
  nr_free_pages :: u32
  zone_num :: u32
  zone_start_pfn :: u32
  zone_end_pfn :: u32
  zone_size :: u32
  watermark :: "WatermarkLevel \<Rightarrow> u32"
  buddy_allocator :: BuddyAllocator

definition zone_init :: "Zone \<Rightarrow> ZoneType \<Rightarrow> u32 \<Rightarrow> u32 \<Rightarrow> Zone option" where
  "zone_init z ty start_pfn end_pfn =
     (let sz = end_pfn - start_pfn in
      do { b \<leftarrow> init (buddy_allocator z) (start_pfn * 4096) (sz * 4096);
           Some (z\<lparr>zone_type := ty, zone_start_pfn := start_pfn, zone_end_pfn := end_pfn,
                   zone_size := sz, nr_free_pages := sz,
                   watermark := (watermark z)(WMARK_MIN := sz div 16, WMARK_LOW := sz div 8,
                                              WMARK_HIGH := sz div 4),
                   buddy_allocator := b\<rparr>) })"

definition allocPages :: "Zone \<Rightarrow> u32 \<Rightarrow> nat \<Rightarrow> (u32 \<times> Zone) option" where
  "allocPages z gfp_mask order =
     (if order \<ge> 32 then None
      else let count = push_bit order 1 in
        if count > nr_free_pages z then Some (0, z)
        else do { (addr, b) \<leftarrow> allocate_pages (buddy_allocator z) gfp_mask order;
                  if addr = 0 then Some (0, z\<lparr>buddy_allocator := b\<rparr>)
                  else Some (addr div 4096,
                         z\<lparr>buddy_allocator := b, nr_free_pages := nr_free_pages z - count\<rparr>) })"

definition freePages :: "Zone \<Rightarrow> u32 \<Rightarrow> nat \<Rightarrow> Zone option" where
  "freePages z pfn order =
     (if order \<ge> 32 then None
      else let count = push_bit order 1 in
        if pfn < zone_start_pfn z \<or> pfn + count > zone_end_pfn z then Some z
        else do { b \<leftarrow> free_pages (buddy_allocator z) (pfn * 4096) order;
                  Some (z\<lparr>buddy_allocator := b, nr_free_pages := nr_free_pages z + count\<rparr>) })"

definition decRefPage :: "Zone \<Rightarrow> u32 \<Rightarrow> Zone option" where
  "decRefPage z pfn =
     (if pfn < zone_start_pfn z \<or> pfn \<ge> zone_end_pfn z then Some z
      else do { b \<leftarrow> decrement_ref_count (buddy_allocator z) (pfn * 4096) 0;
                Some (z\<lparr>buddy_allocator := b\<rparr>) })"

definition zone_increment_ref_count :: "Zone \<Rightarrow> u32 \<Rightarrow> Zone option" where
  "zone_increment_ref_count z pfn =
     (if pfn < zone_start_pfn z \<or> pfn \<ge> zone_end_pfn z then Some z
      else do { b \<leftarrow> increment_ref_count (buddy_allocator z) (pfn * 4096) 0;
                Some (z\<lparr>buddy_allocator := b\<rparr>) })"

abbreviation (input) getFreePages :: "Zone \<Rightarrow> u32" where
  "getFreePages z \<equiv> nr_free_pages z"

definition setWatermark :: "Zone \<Rightarrow> WatermarkLevel \<Rightarrow> u32 \<Rightarrow> Zone" where
  "setWatermark z level v =
     (let v' = if v > zone_size z then zone_size z else v
      in z\<lparr>watermark := (watermark z)(level := v')\<rparr>)"

abbreviation (input) getWatermark :: "Zone \<Rightarrow> WatermarkLevel \<Rightarrow> u32" where
  "getWatermark z level \<equiv> watermark z level"

definition isWatermarkReached :: "Zone \<Rightarrow> WatermarkLevel \<Rightarrow> bool" where
  "isWatermarkReached z level \<longleftrightarrow> nr_free_pages z \<le> watermark z level"

text \<open>The search for the order in \<open>migratePagesTo\<close>; a shift by 32 is undefined.\<close>

function migrate_order :: "u32 \<Rightarrow> nat \<Rightarrow> nat option" where
  "migrate_order count order =
     (if order \<ge> 32 then None
      else if push_bit order 1 < count then migrate_order count (order + 1)
      else Some order)"
  by pat_completeness auto
termination
  by (relation "measure (\<lambda>(_, k). 32 - k)") auto

declare migrate_order.simps [simp del]

text \<open>The target is a pointer to another zone, \<open>None\<close> for null.\<close>

definition migratePagesTo :: "Zone \<Rightarrow> Zone option \<Rightarrow> u32 \<Rightarrow> (bool \<times> Zone \<times> Zone option) option" where
  "migratePagesTo z target count =
     (if zone_type z = ZONE_NORMAL then Some (False, z, target)
      else do {
        t \<leftarrow> target;
        if zone_type t = ZONE_NORMAL then Some (False, z, target)
        else if count > nr_free_pages z \<or> count > zone_size t - nr_free_pages t
        then Some (False, z, target)
        else do {
          order \<leftarrow> migrate_order count 0;
          (source_pfn, z1) \<leftarrow> allocPages z 0 order;
          if source_pfn = 0 then Some (False, z1, target)
          else do {
            (target_pfn, t1) \<leftarrow> allocPages t 0 order;
            if target_pfn = 0
            then do { z2 \<leftarrow> freePages z1 source_pfn order; Some (False, z2, Some t1) }
            else Some (True, z1, Some t1) } } })"

section \<open>The physical pages of the kernel\<close>

record PhysMemory =
  dma_zone :: Zone
  normal_zone :: Zone
  high_zone :: Zone

definition get_zone_for_allocation :: "PhysMemory \<Rightarrow> u32 \<Rightarrow> ZoneType option" where
  "get_zone_for_allocation km sz =
     (if getFreePages (normal_zone km) * PAGE_SIZE \<ge> sz then Some ZONE_NORMAL else None)"

definition get_zone :: "PhysMemory \<Rightarrow> ZoneType \<Rightarrow> Zone" where
  "get_zone km ty = (case ty of ZONE_DMA \<Rightarrow> dma_zone km | ZONE_NORMAL \<Rightarrow> normal_zone km
                     | ZONE_HIGH \<Rightarrow> high_zone km)"

definition set_zone :: "PhysMemory \<Rightarrow> ZoneType \<Rightarrow> Zone \<Rightarrow> PhysMemory" where
  "set_zone km ty z = (case ty of ZONE_DMA \<Rightarrow> km\<lparr>dma_zone := z\<rparr> | ZONE_NORMAL \<Rightarrow> km\<lparr>normal_zone := z\<rparr>
                       | ZONE_HIGH \<Rightarrow> km\<lparr>high_zone := z\<rparr>)"

definition alloc_pages :: "PhysMemory \<Rightarrow> u32 \<Rightarrow> nat \<Rightarrow> (u32 \<times> PhysMemory) option" where
  "alloc_pages km gfp_mask order =
     (if order > 20 then Some (0, km)
      else case get_zone_for_allocation km (push_bit order 1 * PAGE_SIZE) of
        None \<Rightarrow> Some (0, km)
      | Some ty \<Rightarrow>
          do { (pfn, z) \<leftarrow> allocPages (get_zone km ty) gfp_mask order;
               let km' = set_zone km ty z in
               if pfn = 0 then Some (0, km') else Some (pfn * PAGE_SIZE, km') })"

definition zone_of_pfn :: "u32 \<Rightarrow> ZoneType" where
  "zone_of_pfn pfn =
     (if pfn < DMA_ZONE_END then ZONE_DMA
      else if pfn < NORMAL_ZONE_END then ZONE_NORMAL else ZONE_HIGH)"

definition km_free_pages :: "PhysMemory \<Rightarrow> u32 \<Rightarrow> nat \<Rightarrow> PhysMemory option" where
  "km_free_pages km phys_addr order =
     (if phys_addr = 0 \<or> order > 20 then Some km
      else let pfn = phys_addr div PAGE_SIZE; ty = zone_of_pfn pfn in
        do { z \<leftarrow> freePages (get_zone km ty) pfn order; Some (set_zone km ty z) })"

definition km_decrement_ref_count :: "PhysMemory \<Rightarrow> u32 \<Rightarrow> PhysMemory option" where
  "km_decrement_ref_count km phys_addr =
     (let pfn = phys_addr div PAGE_SIZE; ty = zone_of_pfn pfn in
      do { z \<leftarrow> decRefPage (get_zone km ty) pfn; Some (set_zone km ty z) })"

definition km_increment_ref_count :: "PhysMemory \<Rightarrow> u32 \<Rightarrow> PhysMemory option" where
  "km_increment_ref_count km phys_addr =
     (let pfn = phys_addr div PAGE_SIZE; ty = zone_of_pfn pfn in
      do { z \<leftarrow> zone_increment_ref_count (get_zone km ty) pfn; Some (set_zone km ty z) })"

text \<open>The zones part of \<open>KernelMemory::init\<close>: only the normal zone is set up.\<close>

definition km_init_zones :: "PhysMemory \<Rightarrow> PhysMemory option" where
  "km_init_zones km =
     do { z \<leftarrow> zone_init (normal_zone km) ZONE_NORMAL NORMAL_ZONE_START NORMAL_ZONE_END;
          Some (km\<lparr>normal_zone := z\<rparr>) }"

section \<open>The pages of the kernel satisfy the allocator contract\<close>

lemma page_aligned_div: "page_aligned p \<Longrightarrow> p div 0x1000 * 0x1000 = p"
proof -
  assume "page_aligned p"
  then have "p mod 0x1000 = 0" by (simp add: page_aligned_def)
  then show ?thesis using div_mult_mod_eq [of p "0x1000"] by simp
qed

lemma page_aligned_mult: "page_aligned (pfn * 0x1000)"
  using page_aligned_add [of 0 pfn] by (simp add: page_aligned_unat mult.commute)

text \<open>A zone that was never initialised: every page is outside it.\<close>

definition idle :: "Zone \<Rightarrow> bool" where
  "idle z \<longleftrightarrow> zone_start_pfn z = 0 \<and> zone_end_pfn z = 0"

definition km_avail :: "PhysMemory \<Rightarrow> u32 set \<Rightarrow> bool" where
  "km_avail km A \<longleftrightarrow> buddy_avail (buddy_allocator (normal_zone km)) A \<and>
     idle (dma_zone km) \<and> idle (high_zone km)"

lemma get_set_zone [simp]: "get_zone (set_zone km ty z) ty = z"
  by (simp add: get_zone_def set_zone_def split: ZoneType.splits)

lemma allocPages_sound:
  assumes "buddy_avail (buddy_allocator z) A" and "allocPages z g k = Some (pfn, z')"
  shows "\<exists>A'. buddy_avail (buddy_allocator z') A' \<and> A' \<subseteq> A \<and>
           (pfn \<noteq> 0 \<longrightarrow> blk (pfn * 0x1000) k \<subseteq> A - A')"
proof (cases "k < 32 \<and> \<not> push_bit k 1 > nr_free_pages z")
  case False
  then show ?thesis
    using assms by (auto simp: allocPages_def Let_def split: if_splits simp del: push_bit_of_1)
next
  case True
  with assms(2) obtain p b where al: "allocate_pages (buddy_allocator z) g k = Some (p, b)"
    and z': "buddy_allocator z' = b" and pfn: "pfn = (if p = 0 then 0 else p div 4096)"
    by (auto simp: allocPages_def Let_def split: if_splits bind_splits prod.splits simp del: push_bit_of_1)
  obtain A' where A': "buddy_avail b A'" "A' \<subseteq> A" "p \<noteq> 0 \<longrightarrow> blk p k \<subseteq> A - A'"
    using allocate_pages_sound [OF assms(1) al] by blast
  have "pfn * 0x1000 = p" if "p \<noteq> 0"
    using A'(3) that buddy_avail_aligned [OF assms(1), of p] blk_base [of p k] pfn page_aligned_div
    by auto
  then show ?thesis using A' z' pfn by (intro exI [of _ A']) auto
qed

lemma freePages_sound:
  assumes "buddy_avail (buddy_allocator z) A" and "blk (pfn * 0x1000) k \<inter> A = {}"
    and "freePages z pfn k = Some z'"
  shows "\<exists>A'. buddy_avail (buddy_allocator z') A' \<and> A' \<subseteq> A \<union> blk (pfn * 0x1000) k"
proof (cases "pfn < zone_start_pfn z \<or> pfn + push_bit k 1 > zone_end_pfn z")
  case True
  then show ?thesis
    using assms by (auto simp: freePages_def Let_def split: if_splits simp del: push_bit_of_1)
next
  case False
  with assms(3) obtain b where "free_pages (buddy_allocator z) (pfn * 0x1000) k = Some b"
    and "buddy_allocator z' = b"
    by (auto simp: freePages_def Let_def split: if_splits bind_splits simp del: push_bit_of_1)
  then show ?thesis using free_pages_sound [OF assms(1,2)] by blast
qed

lemma freePages_idle:
  assumes "idle z" and "k \<le> 20" and "freePages z (p div PAGE_SIZE) k = Some z'"
  shows "z' = z"
proof -
  have "unat (p div PAGE_SIZE) < 2 ^ 20"
    using unat_u32_less [of p] by (simp add: unat_div)
  moreover have "(2 :: nat) ^ k \<le> 2 ^ 20" using assms(2) by (intro power_increasing) auto
  ultimately have "unat (p div PAGE_SIZE + push_bit k 1) = unat (p div PAGE_SIZE) + 2 ^ k"
    using assms(2) by (simp add: unat_word_ariths unat_two_power)
  then have "p div PAGE_SIZE + push_bit k 1 > zone_end_pfn z"
    using assms(1) by (simp add: idle_def word_less_nat_alt)
  then show ?thesis using assms(2,3) by (simp add: freePages_def Let_def del: push_bit_of_1)
qed

lemma alloc_pages_sound:
  assumes av: "km_avail km A" and al: "alloc_pages km g k = Some (p, km')"
  shows "\<exists>A'. km_avail km' A' \<and> A' \<subseteq> A \<and> (p \<noteq> 0 \<longrightarrow> blk p k \<subseteq> A - A')"
proof (cases "k \<le> 20 \<and> get_zone_for_allocation km (push_bit k 1 * PAGE_SIZE) = Some ZONE_NORMAL")
  case False
  then have "p = 0" "km' = km"
    using al by (auto simp: alloc_pages_def get_zone_for_allocation_def split: if_splits simp del: push_bit_of_1)
  then show ?thesis using av by blast
next
  case True
  with al obtain pfn z where z: "allocPages (normal_zone km) g k = Some (pfn, z)"
    and km': "km' = km\<lparr>normal_zone := z\<rparr>" and p: "p = (if pfn = 0 then 0 else pfn * 0x1000)"
    by (auto simp: alloc_pages_def get_zone_def set_zone_def Let_def
        split: if_splits bind_splits simp del: push_bit_of_1)
  obtain A' where "buddy_avail (buddy_allocator z) A'" "A' \<subseteq> A"
    "pfn \<noteq> 0 \<longrightarrow> blk (pfn * 0x1000) k \<subseteq> A - A'"
    using allocPages_sound [OF _ z, of A] av unfolding km_avail_def by blast
  then show ?thesis using av km' p by (intro exI [of _ A']) (auto simp: km_avail_def)
qed

lemma km_free_pages_sound:
  assumes av: "km_avail km A" and pa: "page_aligned p" and dis: "blk p k \<inter> A = {}"
    and fr: "km_free_pages km p k = Some km'"
  shows "\<exists>A'. km_avail km' A' \<and> A' \<subseteq> A \<union> blk p k"
proof (cases "p = 0 \<or> k > 20")
  case True
  then show ?thesis using av fr by (auto simp: km_free_pages_def)
next
  case False
  let ?ty = "zone_of_pfn (p div PAGE_SIZE)"
  from False fr obtain z where z: "freePages (get_zone km ?ty) (p div PAGE_SIZE) k = Some z"
    and km': "km' = set_zone km ?ty z"
    by (auto simp: km_free_pages_def Let_def split: bind_splits)
  have pp: "p div PAGE_SIZE * 0x1000 = p" using page_aligned_div [OF pa] by simp
  show ?thesis
  proof (cases "?ty = ZONE_NORMAL")
    case True
    then have "buddy_avail (buddy_allocator (get_zone km ?ty)) A"
      using av by (simp add: km_avail_def get_zone_def)
    from freePages_sound [OF this _ z] obtain A' where
      "buddy_avail (buddy_allocator z) A'" "A' \<subseteq> A \<union> blk p k"
      using dis pp by auto
    then show ?thesis using True km' av by (auto simp: km_avail_def set_zone_def)
  next
    case ne: False
    then have "idle (get_zone km ?ty)"
      using av by (cases ?ty) (auto simp: km_avail_def get_zone_def)
    then have "z = get_zone km ?ty" by (rule freePages_idle [OF _ _ z]) (use False in simp)
    then have "km' = km" using km' by (cases ?ty) (auto simp: get_zone_def set_zone_def)
    then show ?thesis using av by blast
  qed
qed

interpretation km_safe: page_allocator "\<lambda>km k. alloc_pages km g k" km_free_pages km_avail
proof unfold_locales
  fix s :: PhysMemory and A k p s' x
  show "km_avail s A \<Longrightarrow> x \<in> A \<Longrightarrow> page_aligned x"
    by (auto simp: km_avail_def dest: buddy_avail_aligned)
  show "km_avail s A \<Longrightarrow> alloc_pages s g k = Some (p, s') \<Longrightarrow>
      \<exists>A'. km_avail s' A' \<and> A' \<subseteq> A \<and> (p \<noteq> 0 \<longrightarrow> blk p k \<subseteq> A - A')"
    by (rule alloc_pages_sound)
  show "km_avail s A \<Longrightarrow> page_aligned p \<Longrightarrow> blk p k \<inter> A = {} \<Longrightarrow> km_free_pages s p k = Some s' \<Longrightarrow>
      \<exists>A'. km_avail s' A' \<and> A' \<subseteq> A \<union> blk p k"
    by (rule km_free_pages_sound)
qed

section \<open>Properties\<close>

text \<open>
  C26. The blocks the kernel has allocated with \<open>alloc_pages\<close> and not yet freed with
  \<open>free_pages\<close> never share a page, whatever the order of the calls.
\<close>

theorem km_live_blocks_disjoint:
  assumes "km_avail km A"
    and "client_run (\<lambda>km k. alloc_pages km g k) km_free_pages (km, []) ops = Some (km', live)"
    and "i < length live" and "j < length live" and "i \<noteq> j"
  shows "blk (fst (live ! i)) (snd (live ! i)) \<inter> blk (fst (live ! j)) (snd (live ! j)) = {}"
  using assms by (rule km_safe.live_blocks_disjoint)

definition fresh_zone :: Zone where
  "fresh_zone = \<lparr>zone_type = ZONE_DMA, nr_free_pages = 0, zone_num = 0, zone_start_pfn = 0,
     zone_end_pfn = 0, zone_size = 0, watermark = (\<lambda>_. 0), buddy_allocator = fresh\<rparr>"

definition small_zone :: Zone where
  "small_zone = the (zone_init fresh_zone ZONE_NORMAL 0 5)"

definition small_memory :: PhysMemory where
  "small_memory = \<lparr>dma_zone = fresh_zone, normal_zone = small_zone, high_zone = fresh_zone\<rparr>"

lemma small_zone_buddy: "buddy_allocator small_zone = the (init fresh 0 0x5000)"
  and small_zone_sel: "nr_free_pages small_zone = 5" "zone_start_pfn small_zone = 0"
    "zone_end_pfn small_zone = 5"
proof -
  obtain b where "init fresh 0 0x5000 = Some b" using fresh_init(1) by blast
  then show "buddy_allocator small_zone = the (init fresh 0 0x5000)" "nr_free_pages small_zone = 5"
    "zone_start_pfn small_zone = 0" "zone_end_pfn small_zone = 5"
    by (simp_all add: small_zone_def zone_init_def fresh_zone_def)
qed

lemma small_memory_avail: "km_avail small_memory {x. page_aligned x \<and> 0x1000 \<le> x \<and> x < 0x5000}"
  using fresh_init(2)
  by (simp add: km_avail_def small_memory_def small_zone_buddy buddy_exact_def idle_def fresh_zone_def)

lemma small_memory_run:
  "map_option snd (client_run (\<lambda>km k. alloc_pages km 0 k) km_free_pages (small_memory, []) [Alloc 0, Alloc 1]) =
     Some [(0x3000, 1), (0x1000, 0)]"
  by code_simp

theorem km_live_blocks_disjoint_witness: "blk 0x3000 1 \<inter> blk 0x1000 0 = {}"
proof -
  let ?run = "client_run (\<lambda>km k. alloc_pages km 0 k) km_free_pages (small_memory, []) [Alloc 0, Alloc 1]"
  obtain km' where "?run = Some (km', [(0x3000, 1), (0x1000, 0)])"
    using small_memory_run by (cases ?run) auto
  from km_live_blocks_disjoint [OF small_memory_avail this, of 0 1] show ?thesis by simp
qed

text \<open>
  The state after \<open>KernelMemory::init\<close> satisfies the hypothesis of C8: \<open>init\<close> is
  defined and the free lists of the normal zone are well formed. The free pages are the
  order-18 block at 0x1370000, which begins after the descriptors.
\<close>

theorem km_boot_avail:
  assumes "idle (dma_zone km)" and "idle (high_zone km)"
  shows "\<exists>km'. km_init_zones km = Some km' \<and> km_avail km' (blk 0x1370000 18)"
proof -
  let ?b = "buddy_allocator (normal_zone km)"
  have ib: "info_bytes_of 0x37000000 = 0x370000"
    by (simp add: info_bytes_of_def)
  have o: "get_block_order 0x36C90 = 18"
    by (simp add: get_block_order_def block_order_loop.simps)
  obtain b' where i: "init ?b 0x1000000 0x37000000 = Some b'"
    by (simp add: init_def Let_def ib o)
  note s = init_Some [OF i]
  have "buddy_avail b' (blk 0x1370000 18)"
    using init_inv [OF i] s(1,2)
    by (simp add: ib o page_aligned_def phys2Virt_def)
  then show ?thesis
    using i assms by (simp add: km_init_zones_def zone_init_def Let_def layout_defs km_avail_def)
qed

theorem km_boot_avail_witness:
  "\<exists>km'. km_init_zones small_memory = Some km' \<and> km_avail km' (blk 0x1370000 18)"
  by (rule km_boot_avail) (simp_all add: small_memory_def idle_def fresh_zone_def)

definition zone_covers :: "Zone \<Rightarrow> bool" where
  "zone_covers z \<longleftrightarrow> (\<forall>x \<in> pool (buddy_allocator z).
     zone_start_pfn z \<le> x div 4096 \<and> x div 4096 < zone_end_pfn z)"

lemma zone_covers_block:
  assumes "zone_covers z" and "blk p k \<subseteq> pool (buddy_allocator z)" and "page_aligned p"
    and "0 \<notin> blk p k"
  shows "zone_start_pfn z \<le> p div 4096" and "\<not> p div 4096 + push_bit k 1 > zone_end_pfn z"
proof -
  have "p \<in> pool (buddy_allocator z)" using assms(2) by blast
  then show "zone_start_pfn z \<le> p div 4096" using assms(1) by (auto simp: zone_covers_def)
  obtain y where y: "y \<in> blk p k" "unat y = unat p + 4096 * (2 ^ k - 1)"
    using blk_last [OF assms(3,4)] by blast
  then have "unat (y div 4096) < unat (zone_end_pfn z)"
    using assms(1,2) by (auto simp: zone_covers_def word_less_nat_alt)
  then have "unat p div 4096 + 2 ^ k \<le> unat (zone_end_pfn z)"
    unfolding unat_div by (simp add: y(2))
  moreover have "unat (p div 4096 + push_bit k 1) \<le> unat p div 4096 + 2 ^ k"
  proof -
    have "unat (of_nat (2 ^ k) :: u32) \<le> 2 ^ k"
      by (simp only: unat_of_nat mod_less_eq_dividend)
    then have "unat (push_bit k 1 :: u32) \<le> 2 ^ k" by simp
    moreover have "unat (p div 4096 + push_bit k 1) \<le> unat (p div 4096) + unat (push_bit k 1 :: u32)"
      by (simp only: unat_word_ariths) (rule mod_less_eq_dividend)
    ultimately show ?thesis by (simp add: unat_div del: push_bit_of_1)
  qed
  ultimately show "\<not> p div 4096 + push_bit k 1 > zone_end_pfn z"
    by (simp add: not_less word_le_nat_alt del: push_bit_of_1)
qed

text \<open>
  A zone whose pages are all described: freeing what was just allocated restores
  the count of free pages and the set of free pages. In particular the allocation
  took exactly its pages off the count, which did not underflow.
\<close>

theorem zone_alloc_free_roundtrip:
  assumes ex: "buddy_exact (buddy_allocator z) A" and cov: "zone_covers z"
    and al: "allocPages z g k = Some (pfn, z')" and nz: "pfn \<noteq> 0"
  shows "2 ^ k \<le> unat (nr_free_pages z) \<and> unat (nr_free_pages z') = unat (nr_free_pages z) - 2 ^ k \<and>
    (\<exists>z''. freePages z' pfn k = Some z'' \<and> nr_free_pages z'' = nr_free_pages z \<and>
       buddy_exact (buddy_allocator z'') A)"
proof -
  let ?b = "buddy_allocator z" and ?c = "push_bit k 1 :: u32"
  from al nz have k: "k < 32" and enough: "?c \<le> nr_free_pages z"
    by (auto simp: allocPages_def Let_def not_less simp del: push_bit_of_1 split: if_splits)
  from al nz k enough obtain p b' where a: "allocate_pages ?b g k = Some (p, b')" and p: "p \<noteq> 0"
    and pfn: "pfn = p div 4096" and z': "z' = z\<lparr>buddy_allocator := b', nr_free_pages := nr_free_pages z - ?c\<rparr>"
    by (auto simp: allocPages_def Let_def simp del: push_bit_of_1 split: if_splits bind_splits)
  obtain A' where pl: "pool b' = pool ?b" and ex': "buddy_exact b' A'" and ko: "k \<le> MAX_ORDER"
    and A': "blk p k \<inter> A' = {}" "A' \<union> blk p k = A"
    using buddy_alloc_exact [OF ex, of g k] a p by auto
  have sub: "blk p k \<subseteq> pool ?b" using ex A' by (auto simp: buddy_exact_def)
  then have "page_aligned p" and "0 \<notin> blk p k"
    using ex blk_base [of p k] by (auto simp: pool_def buddy_exact_def)
  note rng = zone_covers_block [OF cov sub this]
  have pp: "p div 4096 * 4096 = p" using page_aligned_div [OF \<open>page_aligned p\<close>] by simp
  have "blk p k \<subseteq> pool b' - A'" using sub pl A'(1) by blast
  then obtain b'' where b'': "free_pages b' p k = Some b''" and ex'': "buddy_exact b'' (A' \<union> blk p k)"
    using buddy_release_exact [OF ex' ko] by blast
  have fr: "freePages z' pfn k = Some (z'\<lparr>buddy_allocator := b'', nr_free_pages := nr_free_pages z' + ?c\<rparr>)"
    using k rng b'' by (simp add: freePages_def Let_def pfn z' pp not_less [symmetric] del: push_bit_of_1)
  have "unat ?c = 2 ^ k" using k by (simp add: unat_two_power)
  moreover have "unat (nr_free_pages z - ?c) = unat (nr_free_pages z) - unat ?c"
    by (rule unat_sub) (fact enough)
  moreover have "unat ?c \<le> unat (nr_free_pages z)" using enough by (simp add: word_le_nat_alt del: push_bit_of_1)
  ultimately show ?thesis using fr ex'' A' by (simp add: z' del: push_bit_of_1)
qed

lemma small_zone_covers: "zone_covers small_zone"
proof -
  obtain b where i: "init fresh 0 0x5000 = Some b" using fresh_init(1) by blast
  have ib: "info_bytes_of 0x5000 = 0x1000"
    by (simp add: info_bytes_of_def)
  have "x div 4096 < 5" if "x < 0x5000" for x :: u32
  proof -
    have "unat x < 20480" using that by (simp add: word_less_nat_alt)
    then have "unat x div 4096 < 5" by simp
    then show ?thesis by (simp add: word_less_nat_alt unat_div)
  qed
  then show ?thesis
    using init_Some(1,2) [OF i] i ib
    by (auto simp: zone_covers_def small_zone_sel small_zone_buddy pool_def)
qed

lemma small_zone_alloc: "map_option fst (allocPages small_zone 0 1) = Some 1"
  by code_simp

theorem zone_alloc_free_roundtrip_witness:
  "2 ^ 1 \<le> unat (nr_free_pages small_zone) \<and>
   (\<exists>z' z''. allocPages small_zone 0 1 = Some (1, z') \<and> freePages z' 1 1 = Some z'' \<and>
      nr_free_pages z'' = nr_free_pages small_zone \<and>
      buddy_exact (buddy_allocator z'') {x. page_aligned x \<and> 0x1000 \<le> x \<and> x < 0x5000})"
proof -
  obtain z' where a: "allocPages small_zone 0 1 = Some (1, z')"
    using small_zone_alloc by (cases "allocPages small_zone 0 1") auto
  have "buddy_exact (buddy_allocator small_zone) {x. page_aligned x \<and> 0x1000 \<le> x \<and> x < 0x5000}"
    using fresh_init(2) by (simp add: small_zone_buddy)
  from zone_alloc_free_roundtrip [OF this small_zone_covers a] show ?thesis using a by auto
qed

end
