(* ===== verification/Slab.thy ===== *)
theory Slab
  imports SList Zone
begin

text \<open>
  The slab allocator, \<open>kernel/memory/slab_allocator.cpp\<close>. A slab is one page: a header of 24
  bytes, then the objects. The heap has the headers by page address (\<open>slab_at\<close>), the link
  word of every object (\<open>obj_next\<close>) and the physical pages. A cache holds three lists of
  slabs. The global spin lock and the log output are left out.
\<close>

section \<open>State\<close>

record Slab =
  objects :: u32
  inuse :: u32
  free_count :: u32
  freelist :: u32
  slab_next :: u32
  slab_cache :: "nat option"

record SlabCache =
  object_size :: u32
  object_align :: u32
  objects_per_slab :: u32
  slabs_full :: u32
  slabs_partial :: u32
  slabs_free :: u32

record SlabHeap =
  slab_at :: "u32 \<Rightarrow> Slab"
  obj_next :: "u32 \<Rightarrow> u32"
  phys :: PhysMemory

abbreviation (input) sizeof_Slab :: u32 where "sizeof_Slab \<equiv> 24"

section \<open>Caches\<close>

definition new_cache :: "u32 \<Rightarrow> u32 \<Rightarrow> SlabCache" where
  "new_cache sz align =
     \<lparr>object_size = sz, object_align = align,
      objects_per_slab = (PAGE_SIZE - sizeof_Slab) div sz,
      slabs_full = 0, slabs_partial = 0, slabs_free = 0\<rparr>"

definition upd_slab :: "u32 \<Rightarrow> (Slab \<Rightarrow> Slab) \<Rightarrow> SlabHeap \<Rightarrow> SlabHeap" where
  "upd_slab s f h = h\<lparr>slab_at := (slab_at h)(s := f (slab_at h s))\<rparr>"

definition set_obj_next :: "u32 \<Rightarrow> u32 \<Rightarrow> SlabHeap \<Rightarrow> SlabHeap" where
  "set_obj_next p q h = h\<lparr>obj_next := (obj_next h)(p := q)\<rparr>"

text \<open>The loop that links the objects of a new slab; \<open>n\<close> links remain.\<close>

primrec link_objects :: "u32 \<Rightarrow> nat \<Rightarrow> u32 \<Rightarrow> SlabHeap \<Rightarrow> SlabHeap" where
  "link_objects sz 0 obj h = set_obj_next obj 0 h"
| "link_objects sz (Suc n) obj h = link_objects sz n (obj + sz) (set_obj_next obj (obj + sz) h)"

definition create_slab :: "nat \<Rightarrow> SlabCache \<Rightarrow> SlabHeap \<Rightarrow> (u32 \<times> SlabHeap) option" where
  "create_slab self c h =
     do { (pa, km) \<leftarrow> alloc_pages (phys h) 0 0;
          let page = phys2Virt pa in
          if page = 0 then Some (0, h\<lparr>phys := km\<rparr>)
          else let obj = page + sizeof_Slab;
                   h1 = upd_slab page (\<lambda>s. s\<lparr>inuse := 0, free_count := objects_per_slab c,
                          slab_next := 0, slab_cache := Some self, objects := obj,
                          freelist := obj\<rparr>) (h\<lparr>phys := km\<rparr>)
               in if obj = 0 then Some (0, h1)
                  else Some (page, link_objects (object_size c) (unat (objects_per_slab c - 1)) obj h1) }"

definition destroy_slab :: "u32 \<Rightarrow> SlabHeap \<Rightarrow> SlabHeap option" where
  "destroy_slab slab h =
     do { km \<leftarrow> km_free_pages (phys h) (virt2Phys slab) 0; Some (h\<lparr>phys := km\<rparr>) }"

text \<open>One of the three loops of the destructor.\<close>

partial_function (option) destroy_list :: "u32 \<Rightarrow> SlabHeap \<Rightarrow> SlabHeap option" where
  [code]: "destroy_list slab h =
     (if slab = 0 then Some h
      else Option.bind (destroy_slab slab h) (\<lambda>h'. destroy_list (slab_next (slab_at h slab)) h'))"

definition destroy_cache :: "SlabCache \<Rightarrow> SlabHeap \<Rightarrow> (SlabCache \<times> SlabHeap) option" where
  "destroy_cache c h =
     do { h1 \<leftarrow> destroy_list (slabs_full c) h;
          h2 \<leftarrow> destroy_list (slabs_partial c) h1;
          h3 \<leftarrow> destroy_list (slabs_free c) h2;
          Some (c\<lparr>slabs_full := 0, slabs_partial := 0, slabs_free := 0\<rparr>, h3) }"

text \<open>
  The part of \<open>alloc\<close> after a slab has been found. The list of the slab is updated from
  the counters; reading \<open>obj->next\<close> of a null object is undefined.
\<close>

definition take_object :: "u32 \<Rightarrow> SlabCache \<Rightarrow> SlabHeap \<Rightarrow> (u32 \<times> SlabCache \<times> SlabHeap) option" where
  "take_object slab c h =
     (let obj = freelist (slab_at h slab) in
      if obj = 0 then None
      else let h1 = upd_slab slab (\<lambda>s. s\<lparr>freelist := obj_next h obj, inuse := inuse s + 1,
                      free_count := free_count s - 1\<rparr>) h;
               s1 = slab_at h1 slab
           in if free_count s1 = 0
              then let c1 = if slab = slabs_partial c
                            then c\<lparr>slabs_partial := slab_next s1\<rparr>
                            else c\<lparr>slabs_free := slab_next s1\<rparr>
                   in Some (obj, c1\<lparr>slabs_full := slab\<rparr>,
                            upd_slab slab (\<lambda>s. s\<lparr>slab_next := slabs_full c1\<rparr>) h1)
              else if slab = slabs_free c
              then Some (obj, c\<lparr>slabs_free := slab_next s1, slabs_partial := slab\<rparr>,
                         upd_slab slab (\<lambda>s. s\<lparr>slab_next := slabs_partial c\<rparr>) h1)
              else Some (obj, c, h1))"

definition cache_alloc ::
  "nat \<Rightarrow> SlabCache \<Rightarrow> SlabHeap \<Rightarrow> (u32 \<times> SlabCache \<times> SlabHeap) option" where
  "cache_alloc self c h =
     (let slab = if slabs_partial c \<noteq> 0 then slabs_partial c else slabs_free c in
      if slab \<noteq> 0 then take_object slab c h
      else do { (slab', h') \<leftarrow> create_slab self c h;
                if slab' = 0 then Some (0, c, h')
                else take_object slab' (c\<lparr>slabs_free := slab'\<rparr>) h' })"

definition page_base :: "u32 \<Rightarrow> u32" where
  "page_base p = p AND NOT (PAGE_SIZE - 1)"

text \<open>The search through a list of slabs with a pointer to the link, and the unlinking.\<close>

definition unlink_slab :: "u32 \<Rightarrow> u32 \<Rightarrow> SlabHeap \<Rightarrow> (bool \<times> u32 \<times> SlabHeap) option" where
  "unlink_slab slab first h =
     do { (found, first', nxt') \<leftarrow>
            unlink_loop (\<lambda>p. p = slab) first (\<lambda>s. slab_next (slab_at h s)) Slot_head;
          Some (found \<noteq> None, first',
                h\<lparr>slab_at := (\<lambda>s. (slab_at h s)\<lparr>slab_next := nxt' s\<rparr>)\<rparr>) }"

definition cache_free :: "u32 \<Rightarrow> SlabCache \<Rightarrow> SlabHeap \<Rightarrow> (SlabCache \<times> SlabHeap) option" where
  "cache_free ptr c h =
     (let slab = page_base ptr;
          h1 = upd_slab slab (\<lambda>s. s\<lparr>freelist := ptr, inuse := inuse s - 1,
                 free_count := free_count s + 1\<rparr>)
               (set_obj_next ptr (freelist (slab_at h slab)) h);
          s1 = slab_at h1 slab
      in if inuse s1 = 0
         then do { (c2, h2) \<leftarrow>
                     (if slab = slabs_full c then Some (c\<lparr>slabs_full := slab_next s1\<rparr>, h1)
                      else do { (_, first, h') \<leftarrow> unlink_slab slab (slabs_partial c) h1;
                                Some (c\<lparr>slabs_partial := first\<rparr>, h') });
                   Some (c2\<lparr>slabs_free := slab\<rparr>,
                         upd_slab slab (\<lambda>s. s\<lparr>slab_next := slabs_free c2\<rparr>) h2) }
         else if free_count s1 = 1
         then do { (found, first, h') \<leftarrow> unlink_slab slab (slabs_full c) h1;
                   if found
                   then Some (c\<lparr>slabs_full := first, slabs_partial := slab\<rparr>,
                              upd_slab slab (\<lambda>s. s\<lparr>slab_next := slabs_partial c\<rparr>) h')
                   else Some (c\<lparr>slabs_full := first\<rparr>, h') }
         else Some (c, h1))"

section \<open>The allocator\<close>

abbreviation (input) cache_sizes :: "u32 list" where
  "cache_sizes \<equiv> [8, 16, 32, 64, 128, 256, 512, 1024, 2048]"

record SlabAllocator =
  general_caches :: "SlabCache list"
  heap :: SlabHeap

definition slab_init :: "SlabAllocator \<Rightarrow> SlabAllocator" where
  "slab_init a = a\<lparr>general_caches := map (\<lambda>sz. new_cache sz 8) cache_sizes\<rparr>"

fun general_cache_index :: "u32 \<Rightarrow> u32 list \<Rightarrow> nat \<Rightarrow> nat option" where
  "general_cache_index sz [] i = None"
| "general_cache_index sz (x # xs) i =
     (if sz \<le> x then Some i else general_cache_index sz xs (i + 1))"

definition get_general_cache :: "u32 \<Rightarrow> nat option" where
  "get_general_cache sz = general_cache_index sz cache_sizes 0"

definition kmalloc_pages :: "u32 \<Rightarrow> nat option" where
  "kmalloc_pages sz = migrate_order ((sz + PAGE_SIZE - 1) div PAGE_SIZE) 0"

definition kmalloc :: "u32 \<Rightarrow> SlabAllocator \<Rightarrow> (u32 \<times> SlabAllocator) option" where
  "kmalloc sz a =
     (if sz = 0 then Some (0, a)
      else if sz > 2048
      then do { order \<leftarrow> kmalloc_pages sz;
                (pa, km) \<leftarrow> alloc_pages (phys (heap a)) 0 order;
                Some (if pa = 0 then 0 else phys2Virt pa, a\<lparr>heap := (heap a)\<lparr>phys := km\<rparr>\<rparr>) }
      else case get_general_cache sz of
             None \<Rightarrow> Some (0, a)
           | Some i \<Rightarrow>
               do { c \<leftarrow> arr_get (general_caches a) i;
                    (p, c', h') \<leftarrow> cache_alloc i c (heap a);
                    Some (p, a\<lparr>general_caches := (general_caches a)[i := c'], heap := h'\<rparr>) })"

definition kfree :: "u32 \<Rightarrow> SlabAllocator \<Rightarrow> SlabAllocator option" where
  "kfree p a =
     (if p = 0 then Some a
      else if p AND (PAGE_SIZE - 1) \<noteq> 0
      then case slab_cache (slab_at (heap a) (page_base p)) of
             None \<Rightarrow> Some a
           | Some i \<Rightarrow>
               do { c \<leftarrow> arr_get (general_caches a) i;
                    (c', h') \<leftarrow> cache_free p c (heap a);
                    Some (a\<lparr>general_caches := (general_caches a)[i := c'], heap := h'\<rparr>) }
      else do { km \<leftarrow> km_free_pages (phys (heap a)) (virt2Phys p) 0;
                Some (a\<lparr>heap := (heap a)\<lparr>phys := km\<rparr>\<rparr>) })"

section \<open>Objects of a slab\<close>

text \<open>The addresses of the objects of slab \<open>s\<close>; the geometry of a cache.\<close>

definition objs :: "SlabCache \<Rightarrow> u32 \<Rightarrow> u32 set" where
  "objs c s = (\<lambda>i. s + sizeof_Slab + of_nat i * object_size c) ` {..<unat (objects_per_slab c)}"

definition cache_ok :: "SlabCache \<Rightarrow> bool" where
  "cache_ok c \<longleftrightarrow> 0 < object_size c \<and> 2 \<le> unat (objects_per_slab c) \<and>
     24 + unat (objects_per_slab c) * unat (object_size c) \<le> 4096"

lemma new_cache_ok: "x \<in> set cache_sizes \<Longrightarrow> x \<noteq> 2048 \<Longrightarrow> cache_ok (new_cache x 8)"
  by (auto simp: cache_ok_def new_cache_def)

lemma objects_per_slab_le: "cache_ok c \<Longrightarrow> unat (objects_per_slab c) \<le> 4096"
proof -
  assume ck: "cache_ok c"
  then have "0 < unat (object_size c)" by (auto simp: cache_ok_def unat_gt_0)
  then have "unat (objects_per_slab c) * 1 \<le> unat (objects_per_slab c) * unat (object_size c)"
    by (intro mult_le_mono2) simp
  then show ?thesis using ck unfolding cache_ok_def by linarith
qed

lemma page_base_offset:
  assumes "page_aligned s" and "n < 4096"
  shows "page_base (s + of_nat n) = s"
proof -
  have "unat s mod 4096 = 0" using assms(1) by (simp add: page_aligned_unat)
  moreover have "unat (page_base (s + of_nat n)) = unat (s + of_nat n) div 4096 * 4096"
    unfolding page_base_def using unat_and_not_FFF [of "s + of_nat n"] by simp
  ultimately have "unat (page_base (s + of_nat n)) = unat s"
    unfolding unat_page_offset [OF assms] using assms(2) by auto
  then show ?thesis by (simp add: word_unat_eq_iff)
qed

lemma obj_offset:
  assumes "cache_ok c" and "i < unat (objects_per_slab c)"
  shows "sizeof_Slab + of_nat i * object_size c = of_nat (24 + i * unat (object_size c))"
    and "24 + i * unat (object_size c) < 4096"
proof -
  show "sizeof_Slab + of_nat i * object_size c = of_nat (24 + i * unat (object_size c))"
    by simp
  have "Suc i * unat (object_size c) \<le> unat (objects_per_slab c) * unat (object_size c)"
    using assms(2) by (intro mult_right_mono) auto
  moreover have "0 < unat (object_size c)" using assms(1) by (auto simp: cache_ok_def unat_gt_0)
  ultimately show "24 + i * unat (object_size c) < 4096"
    using assms(1) by (simp add: cache_ok_def)
qed

lemma objs_page_base:
  assumes "cache_ok c" and "page_aligned s" and "x \<in> objs c s"
  shows "page_base x = s"
proof -
  obtain i where i: "i < unat (objects_per_slab c)" and x: "x = s + (sizeof_Slab + of_nat i * object_size c)"
    using assms(3) by (auto simp: objs_def add.assoc)
  show ?thesis
    unfolding x obj_offset(1) [OF assms(1) i]
    by (rule page_base_offset [OF assms(2) obj_offset(2) [OF assms(1) i]])
qed

lemma objs_nonzero:
  assumes "cache_ok c" and "page_aligned s" and "s \<noteq> 0" and "x \<in> objs c s"
  shows "x \<noteq> 0"
  using objs_page_base [OF assms(1,2,4)] assms(3) by (auto simp: page_base_def)

lemma objs_disjoint:
  assumes "cache_ok c" and "page_aligned s" and "page_aligned s'" and "s \<noteq> s'"
  shows "objs c s \<inter> objs c s' = {}"
  using objs_page_base assms by blast

lemma objs_inj:
  assumes "cache_ok c" and "page_aligned s"
  shows "inj_on (\<lambda>i. s + sizeof_Slab + of_nat i * object_size c) {..<unat (objects_per_slab c)}"
proof (rule inj_onI)
  fix i j
  assume ij: "i \<in> {..<unat (objects_per_slab c)}" "j \<in> {..<unat (objects_per_slab c)}"
    and eq: "s + sizeof_Slab + of_nat i * object_size c = s + sizeof_Slab + of_nat j * object_size c"
  note oi = obj_offset [OF assms(1), of i] and oj = obj_offset [OF assms(1), of j]
  have "s + of_nat (24 + i * unat (object_size c)) = s + of_nat (24 + j * unat (object_size c))"
    using eq oi(1) oj(1) ij by (simp only: add.assoc lessThan_iff)
  then have "unat s + (24 + i * unat (object_size c)) = unat s + (24 + j * unat (object_size c))"
    using unat_page_offset [OF assms(2) oi(2)] unat_page_offset [OF assms(2) oj(2)] ij
    by (simp only: lessThan_iff simp_thms)
  then show "i = j" using assms(1) by (auto simp: cache_ok_def unat_eq_0)
qed

lemma card_objs:
  assumes "cache_ok c" and "page_aligned s"
  shows "card (objs c s) = unat (objects_per_slab c)"
  unfolding objs_def by (simp add: card_image [OF objs_inj [OF assms]])

section \<open>The state of a cache\<close>

text \<open>
  The ghost state: the slabs in each list and the free objects \<open>fl s\<close> of each slab. A
  slab agrees with its free objects; the three lists hold the slabs with no, some and
  only free objects.
\<close>

abbreviation slab_link :: "SlabHeap \<Rightarrow> u32 \<Rightarrow> u32" where
  "slab_link h \<equiv> (\<lambda>s. slab_next (slab_at h s))"

definition slab_ok :: "SlabCache \<Rightarrow> SlabHeap \<Rightarrow> u32 list \<Rightarrow> u32 \<Rightarrow> bool" where
  "slab_ok c h xs s \<longleftrightarrow>
     page_aligned s \<and> s \<noteq> 0 \<and> sll (obj_next h) (freelist (slab_at h s)) xs \<and> set xs \<subseteq> objs c s \<and>
     unat (free_count (slab_at h s)) = length xs \<and>
     unat (inuse (slab_at h s)) + length xs = unat (objects_per_slab c)"

definition slabs_in :: "SlabCache \<Rightarrow> SlabHeap \<Rightarrow> u32 list \<times> u32 list \<times> u32 list \<Rightarrow> bool" where
  "slabs_in c h = (\<lambda>(fs, ps, es).
     sll (slab_link h) (slabs_full c) fs \<and> sll (slab_link h) (slabs_partial c) ps \<and>
     sll (slab_link h) (slabs_free c) es \<and> distinct (fs @ ps @ es))"

definition all_slabs :: "u32 list \<times> u32 list \<times> u32 list \<Rightarrow> u32 set" where
  "all_slabs = (\<lambda>(fs, ps, es). set fs \<union> set ps \<union> set es)"

definition sorted_slabs :: "SlabCache \<Rightarrow> (u32 \<Rightarrow> u32 list) \<Rightarrow> u32 list \<times> u32 list \<times> u32 list \<Rightarrow> bool" where
  "sorted_slabs c fl = (\<lambda>(fs, ps, es).
     (\<forall>s \<in> set fs. fl s = []) \<and>
     (\<forall>s \<in> set ps. fl s \<noteq> [] \<and> length (fl s) < unat (objects_per_slab c)) \<and>
     (\<forall>s \<in> set es. length (fl s) = unat (objects_per_slab c)))"

definition cache_inv ::
  "SlabCache \<Rightarrow> SlabHeap \<Rightarrow> u32 list \<times> u32 list \<times> u32 list \<Rightarrow> (u32 \<Rightarrow> u32 list) \<Rightarrow> bool" where
  "cache_inv c h L fl \<longleftrightarrow> cache_ok c \<and> slabs_in c h L \<and> sorted_slabs c fl L \<and>
     (\<forall>s \<in> all_slabs L. slab_ok c h (fl s) s)"

text \<open>The objects in use.\<close>

definition live :: "SlabCache \<Rightarrow> u32 list \<times> u32 list \<times> u32 list \<Rightarrow> (u32 \<Rightarrow> u32 list) \<Rightarrow> u32 set" where
  "live c L fl = (\<Union>s \<in> all_slabs L. objs c s - set (fl s))"

definition same_geometry :: "SlabCache \<Rightarrow> SlabCache \<Rightarrow> bool" where
  "same_geometry c c' \<longleftrightarrow> object_size c' = object_size c \<and> objects_per_slab c' = objects_per_slab c"

lemma same_geometryD:
  assumes "same_geometry c c'"
  shows "objs c' s = objs c s" and "cache_ok c' = cache_ok c"
    and "slab_ok c' h xs s = slab_ok c h xs s" and "sorted_slabs c' fl L = sorted_slabs c fl L"
    and "live c' L fl = live c L fl"
  using assms
  by (auto simp: same_geometry_def objs_def cache_ok_def slab_ok_def sorted_slabs_def live_def)

text \<open>A slab does not notice changes of links and of the objects of other slabs.\<close>

lemma slab_ok_frame:
  assumes "slab_ok c h xs s" and "\<And>x. x \<in> objs c s \<Longrightarrow> obj_next h' x = obj_next h x"
    and "freelist (slab_at h' s) = freelist (slab_at h s)"
    and "inuse (slab_at h' s) = inuse (slab_at h s)"
    and "free_count (slab_at h' s) = free_count (slab_at h s)"
  shows "slab_ok c h' xs s"
proof -
  have "sll (obj_next h') p xs = sll (obj_next h) p xs" for p
    using assms(1,2) by (intro lseg_frame) (auto simp: slab_ok_def)
  then show ?thesis using assms by (simp add: slab_ok_def)
qed

lemma slab_okD:
  assumes "cache_ok c" and "slab_ok c h xs s"
  shows "distinct xs" and "length xs \<le> unat (objects_per_slab c)"
    and "set xs = objs c s \<longleftrightarrow> length xs = unat (objects_per_slab c)"
proof -
  show d: "distinct xs" using assms(2) by (auto simp: slab_ok_def dest: sll_distinct)
  show "length xs \<le> unat (objects_per_slab c)" using assms(2) by (simp add: slab_ok_def)
  have "card (objs c s) = unat (objects_per_slab c)" and "set xs \<subseteq> objs c s"
    using card_objs [OF assms(1)] assms(2) by (auto simp: slab_ok_def)
  moreover have "finite (objs c s)" by (simp add: objs_def)
  ultimately show "set xs = objs c s \<longleftrightarrow> length xs = unat (objects_per_slab c)"
    using distinct_card [OF d] by (metis card_subset_eq)
qed

lemma live_upd_take:
  assumes "cache_inv c h L fl" and "s \<in> all_slabs L" and "fl s = x # xs"
  shows "x \<notin> live c L fl" and "live c L (fl(s := xs)) = insert x (live c L fl)"
proof -
  have ok: "cache_ok c" "\<And>t. t \<in> all_slabs L \<Longrightarrow> slab_ok c h (fl t) t"
    using assms(1) by (auto simp: cache_inv_def)
  have x: "x \<in> objs c s" "x \<notin> set xs"
    using slab_okD(1) [OF ok(1) ok(2) [OF assms(2)]] ok(2) [OF assms(2)] assms(3)
    by (auto simp: slab_ok_def)
  have oth: "x \<notin> objs c t" if "t \<in> all_slabs L" "t \<noteq> s" for t
    using objs_disjoint [OF ok(1), of t s] ok(2) [OF that(1)] ok(2) [OF assms(2)] that(2) x(1)
    by (auto simp: slab_ok_def)
  have at_s: "t = s" if "t \<in> all_slabs L" "x \<in> objs c t" for t using oth that by blast
  show "x \<notin> live c L fl" using assms(3) by (auto simp: live_def dest!: at_s)
  show "live c L (fl(s := xs)) = insert x (live c L fl)"
    using oth assms(2,3) x by (auto simp: live_def split: if_splits)
qed

section \<open>Allocation from a cache\<close>

lemma upd_slab_sel [simp]:
  "obj_next (upd_slab s f h) = obj_next h" "phys (upd_slab s f h) = phys h"
  "slab_at (upd_slab s f h) = (slab_at h)(s := f (slab_at h s))"
  by (simp_all add: upd_slab_def)

lemma set_obj_next_sel [simp]:
  "slab_at (set_obj_next p q h) = slab_at h" "phys (set_obj_next p q h) = phys h"
  "obj_next (set_obj_next p q h) = (obj_next h)(p := q)"
  by (simp_all add: set_obj_next_def)

lemma slab_link_upd:
  "slab_link (upd_slab s (\<lambda>r. r\<lparr>slab_next := v\<rparr>) h) = (slab_link h)(s := v)"
  by (auto simp: fun_eq_iff)

text \<open>Moving a slab from the head of one list to the head of another.\<close>

lemma slabs_in_move:
  assumes "slabs_in c h (fs, ps, es)"
  defines "to v s \<equiv> upd_slab s (\<lambda>r. r\<lparr>slab_next := v\<rparr>) h"
  shows "ps = s # ps' \<Longrightarrow>
      slabs_in (c\<lparr>slabs_partial := slab_next (slab_at h s), slabs_full := s\<rparr>) (to (slabs_full c) s)
        (s # fs, ps', es)"
    and "es = s # es' \<Longrightarrow>
      slabs_in (c\<lparr>slabs_free := slab_next (slab_at h s), slabs_full := s\<rparr>) (to (slabs_full c) s)
        (s # fs, ps, es')"
    and "es = s # es' \<Longrightarrow>
      slabs_in (c\<lparr>slabs_free := slab_next (slab_at h s), slabs_partial := s\<rparr>) (to (slabs_partial c) s)
        (fs, s # ps, es')"
  using assms(1) unfolding slabs_in_def to_def prod.case slab_link_upd by auto

lemma take_slab_ok:
  assumes inv: "cache_inv c h L fl" and s: "s \<in> all_slabs L" and fl: "fl s = x # xs"
  defines "h1 \<equiv> upd_slab s (\<lambda>r. r\<lparr>freelist := obj_next h x, inuse := inuse r + 1,
                      free_count := free_count r - 1\<rparr>) h"
  shows "\<forall>t \<in> all_slabs L. slab_ok c h1 ((fl(s := xs)) t) t"
    and "freelist (slab_at h s) = x" and "x \<noteq> 0"
    and "free_count (slab_at h1 s) = 0 \<longleftrightarrow> xs = []"
proof -
  have ok: "slab_ok c h (fl t) t" if "t \<in> all_slabs L" for t
    using inv that by (auto simp: cache_inv_def)
  note s_ok = ok [OF s, unfolded fl slab_ok_def]
  have n: "unat (objects_per_slab c) \<le> 4096"
    using inv objects_per_slab_le by (simp add: cache_inv_def)
  show "freelist (slab_at h s) = x" "x \<noteq> 0"
    using s_ok by (auto split: if_splits)
  have fc: "unat (free_count (slab_at h s) - 1) = length xs"
    using s_ok by (simp add: unat_minus_one unat_gt_0 [symmetric])
  show "free_count (slab_at h1 s) = 0 \<longleftrightarrow> xs = []"
    using fc by (simp add: h1_def unat_eq_0 [symmetric])
  have ic: "unat (inuse (slab_at h s) + 1) = unat (inuse (slab_at h s)) + 1"
    using s_ok n by (simp add: unat_word_ariths)
  show "\<forall>t \<in> all_slabs L. slab_ok c h1 ((fl(s := xs)) t) t"
  proof
    fix t assume t: "t \<in> all_slabs L"
    show "slab_ok c h1 ((fl(s := xs)) t) t"
    proof (cases "t = s")
      case True
      then show ?thesis using s_ok fc ic by (simp add: slab_ok_def h1_def)
    next
      case False
      then show ?thesis using slab_ok_frame [OF ok [OF t], of h1] by (simp add: h1_def)
    qed
  qed
qed

text \<open>What one step of a cache does to its objects in use; the slabs are \<open>S\<close>.\<close>

definition cache_step ::
  "SlabCache \<Rightarrow> SlabHeap \<Rightarrow> u32 set \<Rightarrow> SlabCache \<Rightarrow> SlabHeap \<Rightarrow> u32 set \<Rightarrow> u32 set \<Rightarrow> bool" where
  "cache_step c h S c' h' S' U' \<longleftrightarrow>
     same_geometry c c' \<and> (\<forall>t. t \<notin> S' - S \<longrightarrow> slab_cache (slab_at h' t) = slab_cache (slab_at h t)) \<and>
     (\<exists>L' fl'. cache_inv c' h' L' fl' \<and> all_slabs L' = S' \<and> live c' L' fl' = U')"

lemma slab_ok_link:
  "slab_ok c (upd_slab t (\<lambda>r. r\<lparr>slab_next := v\<rparr>) h) xs s = slab_ok c h xs s"
  by (simp add: slab_ok_def)

lemma cache_invI:
  assumes "same_geometry c c'" and "cache_ok c" and "slabs_in c' h' L'" and "sorted_slabs c fl' L'"
    and "\<forall>s \<in> all_slabs L'. slab_ok c h' (fl' s) s"
  shows "cache_inv c' h' L' fl'"
  using assms by (simp add: cache_inv_def same_geometryD)

definition without_first :: "u32 \<Rightarrow> u32 \<Rightarrow> SlabHeap \<Rightarrow> SlabHeap" where
  "without_first s x h = upd_slab s (\<lambda>r. r\<lparr>freelist := obj_next h x, inuse := inuse r + 1,
                      free_count := free_count r - 1\<rparr>) h"

lemmas take_slab_ok' = take_slab_ok [folded without_first_def]

lemma without_first_sel:
  "slab_link (without_first s x h) = slab_link h" "phys (without_first s x h) = phys h"
  "slab_cache (slab_at (without_first s x h) t) = slab_cache (slab_at h t)"
  by (auto simp: without_first_def)

lemma cache_step_take:
  assumes inv: "cache_inv c h L fl" and s: "s \<in> all_slabs L" and fl: "fl s = x # xs"
    and g: "same_geometry c c'" and sl: "slabs_in c' h' L'" and so: "sorted_slabs c (fl(s := xs)) L'"
    and al: "all_slabs L' = all_slabs L"
    and h': "h' = without_first s x h \<or>
             h' = upd_slab s (\<lambda>r. r\<lparr>slab_next := v\<rparr>) (without_first s x h)"
  shows "cache_step c h (all_slabs L) c' h' (all_slabs L) (insert x (live c L fl))"
proof -
  have "\<forall>t \<in> all_slabs L'. slab_ok c h' ((fl(s := xs)) t) t"
    using take_slab_ok' (1) [OF inv s fl] h' al by (auto simp: slab_ok_link)
  with g sl so inv have "cache_inv c' h' L' (fl(s := xs))"
    by (intro cache_invI [OF g]) (auto simp: cache_inv_def)
  moreover have "live c' L' (fl(s := xs)) = insert x (live c L fl)"
    using live_upd_take(2) [OF inv s fl] al g by (simp add: same_geometryD live_def)
  moreover have "slab_cache (slab_at h' t) = slab_cache (slab_at h t)" for t
    using h' by (auto simp: without_first_sel)
  ultimately show ?thesis using g al unfolding cache_step_def by blast
qed

lemma take_object_eq:
  assumes inv: "cache_inv c h L fl" and s: "s \<in> all_slabs L" and fl: "fl s = x # xs"
  defines "h1 \<equiv> without_first s x h"
  shows "take_object s c h =
      (if xs = []
       then let c1 = if s = slabs_partial c then c\<lparr>slabs_partial := slab_next (slab_at h1 s)\<rparr>
                     else c\<lparr>slabs_free := slab_next (slab_at h1 s)\<rparr>
            in Some (x, c1\<lparr>slabs_full := s\<rparr>, upd_slab s (\<lambda>r. r\<lparr>slab_next := slabs_full c1\<rparr>) h1)
       else if s = slabs_free c
       then Some (x, c\<lparr>slabs_free := slab_next (slab_at h1 s), slabs_partial := s\<rparr>,
              upd_slab s (\<lambda>r. r\<lparr>slab_next := slabs_partial c\<rparr>) h1)
       else Some (x, c, h1))"
  unfolding take_object_def Let_def take_slab_ok' (2) [OF inv s fl] without_first_def [symmetric]
    h1_def [symmetric]
  using take_slab_ok' (3,4) [OF inv s fl, folded h1_def] by simp

lemma first_slab:
  assumes "slabs_in c h (fs, ps, es)" and "sorted_slabs c fl (fs, ps, es)"
    and "s = (if slabs_partial c \<noteq> 0 then slabs_partial c else slabs_free c)" and "s \<noteq> 0"
  obtains (part) ps' where "ps = s # ps'" "s = slabs_partial c" "s \<noteq> slabs_free c" "s \<notin> set fs"
      "s \<notin> set ps'" "s \<notin> set es"
    | (free) es' where "es = s # es'" "ps = []" "s = slabs_free c" "s \<noteq> slabs_partial c" "s \<notin> set fs"
      "s \<notin> set es'"
proof (cases "slabs_partial c = 0")
  case True
  then have "s = slabs_free c" "ps = []" using assms by (auto simp: slabs_in_def)
  moreover from this obtain es' where "es = s # es'"
    using assms(1,4) by (auto simp: slabs_in_def sll_nonnull)
  ultimately show thesis using free assms(1,4) True by (auto simp: slabs_in_def)
next
  case False
  then have s: "s = slabs_partial c" using assms by simp
  moreover from this obtain ps' where ps: "ps = s # ps'"
    using assms(1) False by (auto simp: slabs_in_def sll_nonnull)
  moreover have "s \<noteq> slabs_free c"
  proof
    assume "s = slabs_free c"
    then have "s \<in> set es" using assms(1,4) by (auto simp: slabs_in_def sll_nonnull)
    then show False using assms(1) ps by (auto simp: slabs_in_def)
  qed
  ultimately show thesis using part assms(1) by (auto simp: slabs_in_def)
qed

lemma take_object_inv:
  assumes inv: "cache_inv c h (fs, ps, es) fl"
    and s: "s = (if slabs_partial c \<noteq> 0 then slabs_partial c else slabs_free c)" "s \<noteq> 0"
  shows "\<exists>x c' h'. take_object s c h = Some (x, c', h') \<and> x \<notin> live c (fs, ps, es) fl \<and> x \<noteq> 0 \<and>
           phys h' = phys h \<and>
           cache_step c h (all_slabs (fs, ps, es)) c' h' (all_slabs (fs, ps, es))
             (insert x (live c (fs, ps, es) fl))"
proof -
  have sl: "slabs_in c h (fs, ps, es)" and so: "sorted_slabs c fl (fs, ps, es)" and ck: "cache_ok c"
    using inv by (auto simp: cache_inv_def)
  have n2: "2 \<le> unat (objects_per_slab c)" using ck by (simp add: cache_ok_def)
  have ex: "s \<in> all_slabs (fs, ps, es) \<and> fl s \<noteq> []"
    by (rule first_slab [OF sl so s]) (use so n2 in \<open>auto simp: all_slabs_def sorted_slabs_def\<close>)
  then obtain x xs where S: "s \<in> all_slabs (fs, ps, es)" and fl: "fl s = x # xs"
    by (cases "fl s") auto
  define h1 where "h1 = without_first s x h"
  have sl1: "slabs_in c h1 (fs, ps, es)"
    using sl by (simp add: slabs_in_def h1_def without_first_sel)
  have lens: "length xs < unat (objects_per_slab c)"
    using slab_okD(2) [OF ck, of h "fl s" s] inv S fl by (auto simp: cache_inv_def)
  note mv = slabs_in_move [OF sl1]
  note step = cache_step_take [OF inv S fl, folded h1_def]
  note eq = take_object_eq [OF inv S fl, folded h1_def]
  note x = live_upd_take(1) [OF inv S fl] take_slab_ok' (3) [OF inv S fl]
  have ph: "phys h1 = phys h" by (simp add: h1_def without_first_sel)
  show ?thesis
  proof (rule first_slab [OF sl so s])
    fix ps' assume p: "ps = s # ps'" "s = slabs_partial c" "s \<noteq> slabs_free c" "s \<notin> set fs"
      "s \<notin> set ps'" "s \<notin> set es"
    show ?thesis
    proof (cases "xs = []")
      case True
      have "take_object s c h = Some (x, c\<lparr>slabs_partial := slab_next (slab_at h1 s), slabs_full := s\<rparr>,
          upd_slab s (\<lambda>r. r\<lparr>slab_next := slabs_full c\<rparr>) h1)"
        using eq True p(2) [symmetric] by (simp add: Let_def)
      moreover have "sorted_slabs c (fl(s := xs)) (s # fs, ps', es)"
        using so True p by (auto simp: sorted_slabs_def)
      note st = step [OF _ mv(1) [OF p(1)] this]
      ultimately show ?thesis
        using x ph by (intro exI conjI) (assumption | rule st | auto simp: same_geometry_def all_slabs_def p(1))+
    next
      case False
      have "take_object s c h = Some (x, c, h1)" using eq False p(3) by simp
      moreover have "sorted_slabs c (fl(s := xs)) (fs, ps, es)"
        using so False p lens by (auto simp: sorted_slabs_def)
      note st = step [OF _ sl1 this]
      ultimately show ?thesis
        using x ph by (intro exI conjI) (assumption | rule st | auto simp: same_geometry_def)+
    qed
  next
    fix es' assume e: "es = s # es'" "ps = []" "s = slabs_free c" "s \<noteq> slabs_partial c" "s \<notin> set fs"
      "s \<notin> set es'"
    show ?thesis
    proof (cases "xs = []")
      case True
      have "take_object s c h = Some (x, c\<lparr>slabs_free := slab_next (slab_at h1 s), slabs_full := s\<rparr>,
          upd_slab s (\<lambda>r. r\<lparr>slab_next := slabs_full c\<rparr>) h1)"
        using eq True e(4) by (simp add: Let_def)
      moreover have "sorted_slabs c (fl(s := xs)) (s # fs, ps, es')"
        using so True e by (auto simp: sorted_slabs_def)
      note st = step [OF _ mv(2) [OF e(1)] this]
      ultimately show ?thesis
        using x ph by (intro exI conjI) (assumption | rule st | auto simp: same_geometry_def all_slabs_def e(1))+
    next
      case False
      have "take_object s c h = Some (x, c\<lparr>slabs_free := slab_next (slab_at h1 s), slabs_partial := s\<rparr>,
          upd_slab s (\<lambda>r. r\<lparr>slab_next := slabs_partial c\<rparr>) h1)"
        using eq False e(3) [symmetric] by simp
      moreover have "sorted_slabs c (fl(s := xs)) (fs, s # ps, es')"
        using so False e lens by (auto simp: sorted_slabs_def)
      note st = step [OF _ mv(3) [OF e(1)] this]
      ultimately show ?thesis
        using x ph by (intro exI conjI) (assumption | rule st | auto simp: same_geometry_def all_slabs_def e(1))+
    qed
  qed
qed

section \<open>A new slab\<close>

lemma link_objects_sel [simp]:
  "slab_at (link_objects sz n obj h) = slab_at h" "phys (link_objects sz n obj h) = phys h"
  by (induction n arbitrary: obj h) auto

abbreviation obj_list :: "u32 \<Rightarrow> u32 \<Rightarrow> nat \<Rightarrow> u32 list" where
  "obj_list sz obj n \<equiv> map (\<lambda>i. obj + of_nat i * sz) [0..<n]"

lemma obj_list_Suc: "obj_list sz obj (Suc n) = obj # obj_list sz (obj + sz) n"
  unfolding upt_conv_Cons [OF zero_less_Suc] map_Suc_upt [symmetric]
  by (simp add: algebra_simps)

lemma link_objects_spec:
  assumes "distinct (obj_list sz obj (Suc n))" and "0 \<notin> set (obj_list sz obj (Suc n))"
  shows "sll (obj_next (link_objects sz n obj h)) obj (obj_list sz obj (Suc n)) \<and>
     (\<forall>y. y \<notin> set (obj_list sz obj (Suc n)) \<longrightarrow> obj_next (link_objects sz n obj h) y = obj_next h y)"
  using assms
proof (induction n arbitrary: obj h)
  case 0
  then show ?case by simp
next
  case (Suc n)
  let ?h = "set_obj_next obj (obj + sz) h"
  have l: "obj_list sz obj (Suc (Suc n)) = obj # obj_list sz (obj + sz) (Suc n)"
    by (rule obj_list_Suc)
  have ih: "sll (obj_next (link_objects sz n (obj + sz) ?h)) (obj + sz) (obj_list sz (obj + sz) (Suc n))"
    "\<And>y. y \<notin> set (obj_list sz (obj + sz) (Suc n)) \<Longrightarrow>
        obj_next (link_objects sz n (obj + sz) ?h) y = obj_next ?h y"
    using Suc.IH [of "obj + sz" ?h] Suc.prems unfolding l by auto
  have no: "obj \<notin> set (obj_list sz (obj + sz) (Suc n))" "obj \<noteq> 0"
    using Suc.prems unfolding l by auto
  have "obj_next (link_objects sz (Suc n) obj h) obj = obj + sz"
    using ih(2) [OF no(1)] by simp
  then show ?case
    using ih no unfolding l by (simp del: upt_Suc)
qed

lemma obj_list_objs:
  assumes "cache_ok c" and "page_aligned s" and "s \<noteq> 0"
  defines "xs \<equiv> obj_list (object_size c) (s + sizeof_Slab) (unat (objects_per_slab c))"
  shows "distinct xs" and "0 \<notin> set xs" and "set xs = objs c s" and "length xs = unat (objects_per_slab c)"
proof -
  show set: "set xs = objs c s"
    by (auto simp: xs_def objs_def add.assoc)
  show "distinct xs"
    using objs_inj [OF assms(1,2)] by (simp add: xs_def distinct_map atLeast0LessThan)
  show "0 \<notin> set xs" unfolding set using objs_nonzero [OF assms(1-3)] by blast
  show "length xs = unat (objects_per_slab c)" by (simp add: xs_def)
qed

lemma create_slab_inv:
  assumes inv: "cache_inv c h (fs, [], []) fl" and al: "alloc_pages (phys h) 0 0 = Some (pa, km)"
    and s: "page_aligned s" "s \<noteq> 0" "s \<notin> set fs" "s = phys2Virt pa"
  shows "\<exists>h' fl'. create_slab self c h = Some (s, h') \<and>
           cache_inv (c\<lparr>slabs_free := s\<rparr>) h' (fs, [], [s]) fl' \<and>
           live (c\<lparr>slabs_free := s\<rparr>) (fs, [], [s]) fl' = live c (fs, [], []) fl \<and>
           phys h' = km \<and> (\<forall>t. t \<noteq> s \<longrightarrow> slab_cache (slab_at h' t) = slab_cache (slab_at h t))"
proof -
  have ck: "cache_ok c" and ok: "\<And>t. t \<in> set fs \<Longrightarrow> slab_ok c h (fl t) t"
    and sl: "slabs_in c h (fs, [], [])" and so: "sorted_slabs c fl (fs, [], [])"
    using inv by (auto simp: cache_inv_def all_slabs_def)
  define n where "n = unat (objects_per_slab c)"
  let ?obj = "s + sizeof_Slab"
  define xs where "xs = obj_list (object_size c) ?obj n"
  note xs = obj_list_objs [OF ck s(1,2), folded n_def, folded xs_def]
  have n: "0 < n" using ck by (simp add: cache_ok_def n_def)
  then have n1: "unat (objects_per_slab c - 1) = n - 1" and xsn: "xs = obj_list (object_size c) ?obj (Suc (n - 1))"
    by (simp_all add: n_def unat_minus_one unat_gt_0 [symmetric] xs_def)
  have "xs = ?obj # obj_list (object_size c) (?obj + object_size c) (n - 1)"
    unfolding xsn by (rule obj_list_Suc)
  then have "?obj \<in> set xs" by (simp only: list.set_intros)
  then have o: "?obj \<noteq> 0" using xs(2) by metis
  define h1 where "h1 = upd_slab s (\<lambda>s. s\<lparr>inuse := 0, free_count := objects_per_slab c,
                          slab_next := 0, slab_cache := Some self, objects := ?obj,
                          freelist := ?obj\<rparr>) (h\<lparr>phys := km\<rparr>)"
  define h' where "h' = link_objects (object_size c) (n - 1) ?obj h1"
  have cr: "create_slab self c h = Some (s, h')"
    using al s(2,4) o by (simp add: create_slab_def h'_def h1_def n1 Let_def)
  have lk: "sll (obj_next h') ?obj xs" "\<And>y. y \<notin> set xs \<Longrightarrow> obj_next h' y = obj_next h y"
    using link_objects_spec [where sz = "object_size c" and obj = ?obj and n = "n - 1" and h = h1,
        folded xsn h'_def, OF xs(1,2)]
    by (auto simp: h1_def)
  have at: "slab_at h' = slab_at h1" by (simp add: h'_def)
  have "slab_ok c h' xs s"
    using s xs lk(1) by (simp add: slab_ok_def at h1_def n_def)
  moreover have "slab_ok c h' (fl t) t" if t: "t \<in> set fs" for t
  proof (rule slab_ok_frame [OF ok [OF t]])
    have "t \<noteq> s" using t s(3) by blast
    then show "freelist (slab_at h' t) = freelist (slab_at h t)" "inuse (slab_at h' t) = inuse (slab_at h t)"
      "free_count (slab_at h' t) = free_count (slab_at h t)"
      by (simp_all add: at h1_def)
    fix x assume "x \<in> objs c t"
    then have "x \<notin> set xs"
      using objs_disjoint [OF ck _ s(1) \<open>t \<noteq> s\<close>] ok [OF t] xs(3) by (auto simp: slab_ok_def)
    then show "obj_next h' x = obj_next h x" by (rule lk(2))
  qed
  moreover have "slabs_in (c\<lparr>slabs_free := s\<rparr>) h' (fs, [], [s])"
  proof -
    have "sll (slab_link h') (slabs_full c) fs = sll (slab_link h) (slabs_full c) fs"
      using s(3) by (intro lseg_frame) (auto simp: at h1_def)
    then show ?thesis using sl s by (simp add: slabs_in_def at h1_def)
  qed
  moreover have "sorted_slabs c (fl(s := xs)) (fs, [], [s])"
    using so s(3) xs(4) by (auto simp: sorted_slabs_def n_def)
  ultimately have "cache_inv (c\<lparr>slabs_free := s\<rparr>) h' (fs, [], [s]) (fl(s := xs))"
    using s(3) by (intro cache_invI [of c]) (auto simp: same_geometry_def ck all_slabs_def)
  moreover have "live (c\<lparr>slabs_free := s\<rparr>) (fs, [], [s]) (fl(s := xs)) = live c (fs, [], []) fl"
  proof -
    have "same_geometry c (c\<lparr>slabs_free := s\<rparr>)" by (simp add: same_geometry_def)
    moreover have "(\<Union>t \<in> set fs. objs c t - set ((fl(s := xs)) t)) = (\<Union>t \<in> set fs. objs c t - set (fl t))"
      by (rule SUP_cong) (use s(3) in auto)
    ultimately show ?thesis
      using xs(3) by (simp add: same_geometryD(1) live_def all_slabs_def)
  qed
  moreover have "\<forall>t. t \<noteq> s \<longrightarrow> slab_cache (slab_at h' t) = slab_cache (slab_at h t)" "phys h' = km"
    by (simp_all add: at h1_def h'_def)
  ultimately show ?thesis using cr by blast
qed

lemma cache_alloc_inv:
  assumes inv: "cache_inv c h L fl" and av: "km_avail (phys h) A"
    and sep: "virt2Phys ` all_slabs L \<inter> A = {}"
    and enough: "slabs_partial c = 0 \<and> slabs_free c = 0 \<Longrightarrow>
      \<exists>pa km. alloc_pages (phys h) 0 0 = Some (pa, km) \<and> pa \<noteq> 0 \<and> phys2Virt pa \<noteq> 0"
  shows "\<exists>x c' h' S A'. cache_alloc self c h = Some (x, c', h') \<and> x \<noteq> 0 \<and> x \<notin> live c L fl \<and>
           cache_step c h (all_slabs L) c' h' S (insert x (live c L fl)) \<and>
           all_slabs L \<subseteq> S \<and> km_avail (phys h') A' \<and> A' \<subseteq> A \<and> virt2Phys ` S \<inter> A' = {}"
proof -
  obtain fs ps es where L: "L = (fs, ps, es)" by (cases L)
  show ?thesis
  proof (cases "slabs_partial c = 0 \<and> slabs_free c = 0")
    case False
    let ?s = "if slabs_partial c \<noteq> 0 then slabs_partial c else slabs_free c"
    have "?s \<noteq> 0" using False by auto
    then have ca: "cache_alloc self c h = take_object ?s c h" by (simp add: cache_alloc_def Let_def)
    from take_object_inv [OF inv [unfolded L] refl \<open>?s \<noteq> 0\<close>] obtain x c' h' where
      "take_object ?s c h = Some (x, c', h')" "x \<notin> live c L fl" "x \<noteq> 0" "phys h' = phys h"
      "cache_step c h (all_slabs L) c' h' (all_slabs L) (insert x (live c L fl))"
      unfolding L by blast
    then show ?thesis using ca av sep
      by (intro exI [of _ x] exI [of _ c'] exI [of _ h'] exI [of _ "all_slabs L"] exI [of _ A]) simp
  next
    case True
    then have emp: "ps = []" "es = []" using inv by (auto simp: L cache_inv_def slabs_in_def)
    obtain pa km where al: "alloc_pages (phys h) 0 0 = Some (pa, km)" "pa \<noteq> 0" "phys2Virt pa \<noteq> 0"
      using enough [OF True] by blast
    obtain A' where A': "km_avail km A'" "A' \<subseteq> A" "pa \<in> A" "pa \<notin> A'"
      using alloc_pages_sound [OF av al(1)] al(2) blk_base [of pa 0] by blast
    define s where "s = phys2Virt pa"
    have nf: "s \<notin> set fs" using sep A'(3) by (force simp: L all_slabs_def s_def)
    have "page_aligned s"
      using av A'(3) by (auto simp: s_def km_avail_def dest: buddy_avail_aligned)
    with nf obtain h1 fl1 where cr: "create_slab self c h = Some (s, h1)"
      and i1: "cache_inv (c\<lparr>slabs_free := s\<rparr>) h1 (fs, [], [s]) fl1"
      and l1: "live (c\<lparr>slabs_free := s\<rparr>) (fs, [], [s]) fl1 = live c L fl"
      and p1: "phys h1 = km" and sc: "\<forall>t. t \<noteq> s \<longrightarrow> slab_cache (slab_at h1 t) = slab_cache (slab_at h t)"
      using create_slab_inv [of c h fs fl pa km s self] inv al emp by (auto simp: L s_def)
    let ?c = "c\<lparr>slabs_free := s\<rparr>" and ?S = "all_slabs (fs, [], [s])"
    have s0: "s \<noteq> 0" using al(3) by (simp add: s_def)
    have "s = (if slabs_partial ?c \<noteq> 0 then slabs_partial ?c else slabs_free ?c)" using True by simp
    from take_object_inv [OF i1 this s0, unfolded l1] obtain x c' h' where
      tk: "take_object s ?c h1 = Some (x, c', h')" "x \<notin> live c L fl" "x \<noteq> 0" "phys h' = phys h1"
      and st: "cache_step ?c h1 ?S c' h' ?S (insert x (live c L fl))"
      by blast
    have "cache_alloc self c h = Some (x, c', h')"
      using True cr tk(1) s0 by (simp add: cache_alloc_def)
    moreover have "cache_step c h (all_slabs L) c' h' ?S (insert x (live c L fl))"
      using st sc emp nf unfolding cache_step_def same_geometry_def L all_slabs_def by auto
    moreover have "all_slabs L \<subseteq> ?S" using emp by (auto simp: L all_slabs_def)
    moreover have "virt2Phys ` ?S \<inter> A' = {}"
      using sep A' emp by (auto simp: L all_slabs_def s_def)
    ultimately show ?thesis using tk A' p1
      by (intro exI [of _ x] exI [of _ c'] exI [of _ h'] exI [of _ ?S] exI [of _ A']) simp
  qed
qed

section \<open>Release to a cache\<close>

definition with_first :: "u32 \<Rightarrow> u32 \<Rightarrow> SlabHeap \<Rightarrow> SlabHeap" where
  "with_first s x h = upd_slab s (\<lambda>r. r\<lparr>freelist := x, inuse := inuse r - 1,
       free_count := free_count r + 1\<rparr>) (set_obj_next x (freelist (slab_at h s)) h)"

lemma with_first_sel:
  "slab_link (with_first s x h) = slab_link h" "phys (with_first s x h) = phys h"
  "slab_cache (slab_at (with_first s x h) t) = slab_cache (slab_at h t)"
  by (auto simp: with_first_def)

lemma live_upd_give:
  assumes "cache_inv c h L fl" and "s \<in> all_slabs L" and "x \<in> objs c s"
  shows "live c L (fl(s := x # fl s)) = live c L fl - {x}"
proof -
  have ok: "cache_ok c" "\<And>t. t \<in> all_slabs L \<Longrightarrow> slab_ok c h (fl t) t"
    using assms(1) by (auto simp: cache_inv_def)
  have "x \<notin> objs c t" if "t \<in> all_slabs L" "t \<noteq> s" for t
    using objs_disjoint [OF ok(1), of t s] ok(2) [OF that(1)] ok(2) [OF assms(2)] that(2) assms(3)
    by (auto simp: slab_ok_def)
  then show ?thesis using assms(2) by (auto simp: live_def split: if_splits)
qed

lemma give_slab_ok:
  assumes inv: "cache_inv c h L fl" and s: "s \<in> all_slabs L" and x: "x \<in> objs c s" "x \<notin> set (fl s)"
  shows "\<forall>t \<in> all_slabs L. slab_ok c (with_first s x h) ((fl(s := x # fl s)) t) t"
    and "inuse (slab_at (with_first s x h) s) = 0 \<longleftrightarrow> Suc (length (fl s)) = unat (objects_per_slab c)"
    and "free_count (slab_at (with_first s x h) s) = 1 \<longleftrightarrow> fl s = []"
    and "length (fl s) < unat (objects_per_slab c)"
proof -
  let ?h = "with_first s x h"
  have ck: "cache_ok c" and ok: "\<And>t. t \<in> all_slabs L \<Longrightarrow> slab_ok c h (fl t) t"
    using inv by (auto simp: cache_inv_def)
  note s_ok = ok [OF s, unfolded slab_ok_def]
  have x0: "x \<noteq> 0" using objs_nonzero [OF ck _ _ x(1)] s_ok by blast
  show lt: "length (fl s) < unat (objects_per_slab c)"
    using slab_okD(2,3) [OF ck ok [OF s]] x by (auto simp: order.strict_iff_order)
  note n = objects_per_slab_le [OF ck]
  have fc: "unat (free_count (slab_at h s) + 1) = Suc (length (fl s))"
    using s_ok n by (simp add: unat_word_ariths)
  have "inuse (slab_at h s) \<noteq> 0" using s_ok lt by (auto simp: unat_eq_0 [symmetric])
  then have ic: "unat (inuse (slab_at h s) - 1) + Suc (length (fl s)) = unat (objects_per_slab c)"
    using s_ok lt by (simp add: unat_minus_one)
  show "inuse (slab_at ?h s) = 0 \<longleftrightarrow> Suc (length (fl s)) = unat (objects_per_slab c)"
    using ic by (simp add: with_first_def unat_eq_0 [symmetric]) linarith
  have "free_count (slab_at ?h s) = 1 \<longleftrightarrow> unat (free_count (slab_at ?h s)) = 1"
    by (simp add: word_unat_eq_iff)
  then show "free_count (slab_at ?h s) = 1 \<longleftrightarrow> fl s = []"
    using fc by (simp add: with_first_def)
  show "\<forall>t \<in> all_slabs L. slab_ok c ?h ((fl(s := x # fl s)) t) t"
  proof
    fix t assume t: "t \<in> all_slabs L"
    show "slab_ok c ?h ((fl(s := x # fl s)) t) t"
    proof (cases "t = s")
      case True
      then show ?thesis using s_ok fc ic x x0 by (simp add: slab_ok_def with_first_def)
    next
      case False
      then have "objs c t \<inter> objs c s = {}"
        using objs_disjoint [OF ck] ok [OF t] s_ok by (simp add: slab_ok_def)
      then have "x \<notin> objs c t" using x by blast
      then have "slab_ok c ?h (fl t) t"
        using False by (intro slab_ok_frame [OF ok [OF t], of ?h]) (auto simp: with_first_def)
      then show ?thesis using False by simp
    qed
  qed
qed

lemma unlink_slab_spec:
  assumes "sll (slab_link h) p xs"
  obtains p' h' where "unlink_slab s p h = Some (s \<in> set xs, p', h')"
    and "sll (slab_link h') p' (remove1 s xs)"
    and "\<And>y. y \<notin> set xs \<Longrightarrow> slab_link h' y = slab_link h y"
    and "\<And>c ys t. slab_ok c h' ys t = slab_ok c h ys t"
    and "\<And>t. slab_cache (slab_at h' t) = slab_cache (slab_at h t)" and "phys h' = phys h"
proof -
  obtain p' nxt' where u: "unlink_loop (\<lambda>p. p = s) p (slab_link h) Slot_head =
        Some (find (\<lambda>p. p = s) xs, p', nxt')"
    and l: "sll nxt' p' (remove_first (\<lambda>p. p = s) xs)"
    and f: "\<And>y. y \<notin> set xs \<Longrightarrow> nxt' y = slab_link h y"
    using unlink_loop_sll [OF assms] by blast
  let ?h = "h\<lparr>slab_at := (\<lambda>s. (slab_at h s)\<lparr>slab_next := nxt' s\<rparr>)\<rparr>"
  have "(find (\<lambda>p. p = s) xs \<noteq> None) = (s \<in> set xs)" by (auto simp: find_None_iff)
  then have "unlink_slab s p h = Some (s \<in> set xs, p', ?h)"
    using u by (simp add: unlink_slab_def)
  then show thesis
    by (rule that) (use l f in \<open>auto simp: remove_first_eq slab_ok_def\<close>)
qed

lemma cache_step_give:
  assumes inv: "cache_inv c h L fl" and s: "s \<in> all_slabs L" and x: "x \<in> objs c s" "x \<notin> set (fl s)"
    and g: "same_geometry c c'" and sl: "slabs_in c' h' L'"
    and so: "sorted_slabs c (fl(s := x # fl s)) L'" and al: "all_slabs L' = all_slabs L"
    and ok: "\<And>ys t. slab_ok c h' ys t = slab_ok c (with_first s x h) ys t"
    and sc: "\<And>t. slab_cache (slab_at h' t) = slab_cache (slab_at h t)"
  shows "cache_step c h (all_slabs L) c' h' (all_slabs L) (live c L fl - {x})"
proof -
  have "\<forall>t \<in> all_slabs L'. slab_ok c h' ((fl(s := x # fl s)) t) t"
    using give_slab_ok(1) [OF inv s x] al ok by simp
  with g sl so inv have "cache_inv c' h' L' (fl(s := x # fl s))"
    by (intro cache_invI [OF g]) (auto simp: cache_inv_def)
  moreover have "live c' L' (fl(s := x # fl s)) = live c L fl - {x}"
    using live_upd_give [OF inv s x(1)] al g by (simp add: same_geometryD live_def)
  ultimately show ?thesis using g al sc unfolding cache_step_def by blast
qed

text \<open>Moving a slab out of the middle of one list to the head of another.\<close>

lemma slabs_in_unlinked:
  assumes "slabs_in c h (fs, ps, es)" and "s \<noteq> 0"
  defines "to v k \<equiv> upd_slab s (\<lambda>r. r\<lparr>slab_next := v\<rparr>) k"
  shows "s \<in> set ps \<Longrightarrow> sll (slab_link h') p' (remove1 s ps) \<Longrightarrow>
      (\<And>y. y \<notin> set ps \<Longrightarrow> slab_link h' y = slab_link h y) \<Longrightarrow>
      slabs_in (c\<lparr>slabs_partial := p', slabs_free := s\<rparr>) (to (slabs_free c) h') (fs, remove1 s ps, s # es)"
    and "s \<in> set fs \<Longrightarrow> sll (slab_link h') p' (remove1 s fs) \<Longrightarrow>
      (\<And>y. y \<notin> set fs \<Longrightarrow> slab_link h' y = slab_link h y) \<Longrightarrow>
      slabs_in (c\<lparr>slabs_full := p', slabs_partial := s\<rparr>) (to (slabs_partial c) h') (remove1 s fs, s # ps, es)"
proof -
  have d: "distinct (fs @ ps @ es)" and l: "sll (slab_link h) (slabs_full c) fs"
    "sll (slab_link h) (slabs_partial c) ps" "sll (slab_link h) (slabs_free c) es"
    using assms(1) by (auto simp: slabs_in_def)
  { assume s: "s \<in> set ps" and l': "sll (slab_link h') p' (remove1 s ps)"
      and f: "\<And>y. y \<notin> set ps \<Longrightarrow> slab_link h' y = slab_link h y"
    have dj: "set fs \<inter> set ps = {}" "set es \<inter> set ps = {}" using d by auto
    have fr: "sll ((slab_link h')(s := v)) q xs = sll (slab_link h) q xs" if "set xs \<inter> set ps = {}" for v q xs
      using that s f by (intro lseg_frame) auto
    have in_rm: "sll ((slab_link h')(s := v)) p' (remove1 s ps)" for v
      using l' d by simp
    show "slabs_in (c\<lparr>slabs_partial := p', slabs_free := s\<rparr>) (to (slabs_free c) h') (fs, remove1 s ps, s # es)"
      using s l d assms(2) fr [OF dj(1)] fr [OF dj(2)] in_rm
      unfolding slabs_in_def prod.case to_def slab_link_upd
      by (auto simp: distinct_remove1 dest: set_remove1_subset [THEN subsetD]) }
  { assume s: "s \<in> set fs" and l': "sll (slab_link h') p' (remove1 s fs)"
      and f: "\<And>y. y \<notin> set fs \<Longrightarrow> slab_link h' y = slab_link h y"
    have dj: "set ps \<inter> set fs = {}" "set es \<inter> set fs = {}" using d by auto
    have fr: "sll ((slab_link h')(s := v)) q xs = sll (slab_link h) q xs" if "set xs \<inter> set fs = {}" for v q xs
      using that s f by (intro lseg_frame) auto
    have in_rm: "sll ((slab_link h')(s := v)) p' (remove1 s fs)" for v
      using l' d by simp
    show "slabs_in (c\<lparr>slabs_full := p', slabs_partial := s\<rparr>) (to (slabs_partial c) h') (remove1 s fs, s # ps, es)"
      using s l d assms(2) fr [OF dj(1)] fr [OF dj(2)] in_rm
      unfolding slabs_in_def prod.case to_def slab_link_upd
      by (auto simp: distinct_remove1 dest: set_remove1_subset [THEN subsetD]) }
qed

lemma cache_free_eq:
  assumes inv: "cache_inv c h L fl" and s: "s \<in> all_slabs L" and x: "x \<in> objs c s" "x \<notin> set (fl s)"
  defines "h1 \<equiv> with_first s x h"
  shows "cache_free x c h =
     (if Suc (length (fl s)) = unat (objects_per_slab c)
      then do { (c2, h2) \<leftarrow>
                     (if s = slabs_full c then Some (c\<lparr>slabs_full := slab_next (slab_at h1 s)\<rparr>, h1)
                      else do { (_, first, h') \<leftarrow> unlink_slab s (slabs_partial c) h1;
                                Some (c\<lparr>slabs_partial := first\<rparr>, h') });
                Some (c2\<lparr>slabs_free := s\<rparr>, upd_slab s (\<lambda>r. r\<lparr>slab_next := slabs_free c2\<rparr>) h2) }
      else if fl s = []
      then do { (found, first, h') \<leftarrow> unlink_slab s (slabs_full c) h1;
                if found
                then Some (c\<lparr>slabs_full := first, slabs_partial := s\<rparr>,
                           upd_slab s (\<lambda>r. r\<lparr>slab_next := slabs_partial c\<rparr>) h')
                else Some (c\<lparr>slabs_full := first\<rparr>, h') }
      else Some (c, h1))"
proof -
  have "page_base x = s"
    using objs_page_base [of c s x] inv s x(1) by (auto simp: cache_inv_def slab_ok_def)
  then show ?thesis
    unfolding cache_free_def Let_def with_first_def [symmetric] h1_def [symmetric]
    using give_slab_ok(2,3) [OF inv s x, folded h1_def]
    by (simp only: with_first_def [symmetric] h1_def [symmetric])
qed

lemma cache_free_inv:
  assumes inv: "cache_inv c h L fl" and x: "x \<in> live c L fl"
  shows "\<exists>c' h'. cache_free x c h = Some (c', h') \<and> phys h' = phys h \<and>
           cache_step c h (all_slabs L) c' h' (all_slabs L) (live c L fl - {x})"
proof -
  obtain fs ps es where L: "L = (fs, ps, es)" by (cases L)
  obtain s where S: "s \<in> all_slabs L" and xs: "x \<in> objs c s" "x \<notin> set (fl s)"
    using x by (auto simp: live_def)
  define h1 where "h1 = with_first s x h"
  have sl: "slabs_in c h1 (fs, ps, es)" and so: "sorted_slabs c fl (fs, ps, es)" and ck: "cache_ok c"
    and s0: "s \<noteq> 0"
    using inv S by (auto simp: cache_inv_def L slabs_in_def h1_def with_first_sel slab_ok_def)
  have n2: "2 \<le> unat (objects_per_slab c)" using ck by (simp add: cache_ok_def)
  note eq = cache_free_eq [OF inv S xs, folded h1_def]
  note step = cache_step_give [OF inv S xs, folded h1_def]
  note lt = give_slab_ok(4) [OF inv S xs]
  have ph: "phys h1 = phys h" and sc: "\<And>t. slab_cache (slab_at h1 t) = slab_cache (slab_at h t)"
    by (simp_all add: h1_def with_first_sel)
  have lists: "sll (slab_link h1) (slabs_full c) fs" "sll (slab_link h1) (slabs_partial c) ps"
    and d: "distinct (fs @ ps @ es)" using sl by (auto simp: slabs_in_def)
  consider (empty) "Suc (length (fl s)) = unat (objects_per_slab c)" "s \<in> set ps"
    | (full) "Suc (length (fl s)) \<noteq> unat (objects_per_slab c)" "fl s = []" "s \<in> set fs"
    | (mid) "Suc (length (fl s)) \<noteq> unat (objects_per_slab c)" "fl s \<noteq> []" "s \<in> set ps"
    using S so lt n2 by (fastforce simp: L all_slabs_def sorted_slabs_def)
  then show ?thesis
  proof cases
    case empty
    have ne: "s \<noteq> slabs_full c"
    proof
      assume "s = slabs_full c"
      then have "s \<in> set fs" using lists(1) s0 by (auto simp: sll_nonnull)
      then show False using empty(2) d by auto
    qed
    obtain p' h' where u: "unlink_slab s (slabs_partial c) h1 = Some (s \<in> set ps, p', h')"
      and l: "sll (slab_link h') p' (remove1 s ps)" "\<And>y. y \<notin> set ps \<Longrightarrow> slab_link h' y = slab_link h1 y"
      and ok: "\<And>c ys t. slab_ok c h' ys t = slab_ok c h1 ys t"
      and c': "\<And>t. slab_cache (slab_at h' t) = slab_cache (slab_at h1 t)" and p': "phys h' = phys h1"
      using unlink_slab_spec [OF lists(2)] by blast
    have "sorted_slabs c (fl(s := x # fl s)) (fs, remove1 s ps, s # es)"
      using so empty d by (auto simp: sorted_slabs_def set_remove1_eq)
    note st = step [OF _ slabs_in_unlinked(1) [OF sl s0 empty(2) l] this]
    show ?thesis
      unfolding eq using empty(1) ne u p' ph
      by (simp, intro st)
        (use d empty(2) in \<open>auto simp: same_geometry_def L all_slabs_def set_remove1_eq slab_ok_link ok c' sc\<close>)
  next
    case full
    obtain p' h' where u: "unlink_slab s (slabs_full c) h1 = Some (s \<in> set fs, p', h')"
      and l: "sll (slab_link h') p' (remove1 s fs)" "\<And>y. y \<notin> set fs \<Longrightarrow> slab_link h' y = slab_link h1 y"
      and ok: "\<And>c ys t. slab_ok c h' ys t = slab_ok c h1 ys t"
      and c': "\<And>t. slab_cache (slab_at h' t) = slab_cache (slab_at h1 t)" and p': "phys h' = phys h1"
      using unlink_slab_spec [OF lists(1)] by blast
    have "sorted_slabs c (fl(s := x # fl s)) (remove1 s fs, s # ps, es)"
      using so full d lt n2 by (auto simp: sorted_slabs_def set_remove1_eq)
    note st = step [OF _ slabs_in_unlinked(2) [OF sl s0 full(3) l] this]
    show ?thesis
      unfolding eq using full u p' ph
      by (simp, intro st)
        (use d full(3) in \<open>auto simp: same_geometry_def L all_slabs_def set_remove1_eq slab_ok_link ok c' sc\<close>)
  next
    case mid
    have "sorted_slabs c (fl(s := x # fl s)) (fs, ps, es)"
      using so mid d lt by (auto simp: sorted_slabs_def)
    note st = step [OF _ sl this]
    show ?thesis
      unfolding eq using mid ph by (simp, intro st) (auto simp: same_geometry_def L sc)
  qed
qed

section \<open>The order of a large allocation\<close>

lemma migrate_order_least:
  assumes "\<exists>j < 32. n \<le> push_bit j 1" and "k < 32" and "\<forall>j < k. push_bit j 1 < n"
  shows "\<exists>j < 32. migrate_order n k = Some j \<and> k \<le> j \<and> n \<le> push_bit j 1 \<and> (\<forall>i < j. push_bit i 1 < n)"
  using assms
proof (induction n k rule: migrate_order.induct)
  case (1 n k)
  show ?case
  proof (cases "push_bit k 1 < n")
    case False
    then have "migrate_order n k = Some k"
      using "1.prems"(2) by (simp add: migrate_order.simps [of n k] del: push_bit_of_1)
    moreover have "n \<le> push_bit k 1" using False by (simp add: not_less del: push_bit_of_1)
    ultimately show ?thesis using "1.prems"(2,3) by blast
  next
    case True
    then have all: "\<forall>j < k + 1. push_bit j 1 < n" using "1.prems"(3) by (auto simp: less_Suc_eq simp del: push_bit_of_1)
    have k: "k + 1 < 32"
    proof (rule ccontr)
      assume "\<not> k + 1 < 32"
      then have "\<forall>j < 32. push_bit j 1 < n" using all by (auto simp del: push_bit_of_1)
      then show False using "1.prems"(1) by (meson leD)
    qed
    have eq: "migrate_order n k = migrate_order n (k + 1)"
      using True "1.prems"(2) by (simp add: migrate_order.simps [of n k] del: push_bit_of_1)
    have "\<not> 32 \<le> k" using "1.prems"(2) by simp
    from "1.IH" [OF this True "1.prems"(1) k all] show ?thesis
      unfolding eq by (meson add_leD1)
  qed
qed

lemma add_page_minus: "unat (sz + PAGE_SIZE - 1) = (unat sz + 4095) mod 2 ^ 32"
proof -
  have "sz + PAGE_SIZE - 1 = sz + 0xFFF" by simp
  then have "unat (sz + PAGE_SIZE - 1) = unat (sz + 0xFFF)" by (rule arg_cong)
  then show ?thesis by (simp add: unat_word_ariths)
qed

lemma unat_pages: "sz \<le> 0xFFFFF000 \<Longrightarrow>
    unat ((sz + PAGE_SIZE - 1) div PAGE_SIZE) = (unat sz + 4095) div 4096"
proof -
  assume "sz \<le> 0xFFFFF000"
  then have "unat sz \<le> 0xFFFFF000" by (simp add: word_le_nat_alt)
  then have "unat (sz + PAGE_SIZE - 1) = unat sz + 4095" by (simp add: unat_word_ariths)
  then show ?thesis unfolding unat_div by simp
qed

section \<open>Properties\<close>

text \<open>
  C6. Allocation from a cache returns an object that is not in use, keeps every other
  object in use, and keeps the cache well formed; a new slab takes a page that no slab
  uses. The hypothesis on the page allocator is needed because a failing page
  allocation is not detected.
\<close>

theorem cache_alloc_fresh:
  assumes "cache_inv c h L fl" and "km_avail (phys h) A" and "virt2Phys ` all_slabs L \<inter> A = {}"
    and "slabs_partial c = 0 \<and> slabs_free c = 0 \<Longrightarrow>
      \<exists>pa km. alloc_pages (phys h) 0 0 = Some (pa, km) \<and> pa \<noteq> 0 \<and> phys2Virt pa \<noteq> 0"
  shows "\<exists>x c' h' S A'. cache_alloc self c h = Some (x, c', h') \<and> x \<noteq> 0 \<and> x \<notin> live c L fl \<and>
           cache_step c h (all_slabs L) c' h' S (insert x (live c L fl)) \<and>
           all_slabs L \<subseteq> S \<and> km_avail (phys h') A' \<and> A' \<subseteq> A \<and> virt2Phys ` S \<inter> A' = {}"
  using assms by (rule cache_alloc_inv)

definition small_heap :: SlabHeap where
  "small_heap = \<lparr>slab_at = (\<lambda>_. \<lparr>objects = 0, inuse = 0, free_count = 0, freelist = 0, slab_next = 0,
     slab_cache = None\<rparr>), obj_next = (\<lambda>_. 0), phys = small_memory\<rparr>"

lemma empty_cache_inv: "cache_inv (new_cache 64 8) h ([], [], []) (\<lambda>_. [])"
  using new_cache_ok [of 64]
  by (simp add: cache_inv_def slabs_in_def sorted_slabs_def all_slabs_def) (simp add: new_cache_def)

lemma small_heap_page:
  "map_option fst (alloc_pages (phys small_heap) 0 0) = Some 0x1000" "phys2Virt 0x1000 \<noteq> 0"
  by code_simp+

lemma small_heap_enough:
  "\<exists>pa km. alloc_pages (phys small_heap) 0 0 = Some (pa, km) \<and> pa \<noteq> 0 \<and> phys2Virt pa \<noteq> 0"
  using small_heap_page by (cases "alloc_pages (phys small_heap) 0 0") auto

lemma small_heap_avail:
  "km_avail (phys small_heap) {x. page_aligned x \<and> 0x1000 \<le> x \<and> x < 0x5000}"
  using small_memory_avail by (simp add: small_heap_def)

theorem cache_alloc_fresh_witness:
  "\<exists>x c' h' S. cache_alloc 3 (new_cache 64 8) small_heap = Some (x, c', h') \<and> x \<noteq> 0 \<and>
     cache_step (new_cache 64 8) small_heap {} c' h' S {x}"
  using cache_alloc_fresh [OF empty_cache_inv small_heap_avail _ small_heap_enough, of 3]
  by (auto simp: all_slabs_def live_def)

text \<open>
  C31. Releasing an object in use removes exactly it from the objects in use and keeps
  the cache well formed: the slab moves to the list that fits its counters. This needs
  two or more objects per slab.
\<close>

theorem cache_free_returns:
  assumes "cache_inv c h L fl" and "x \<in> live c L fl"
  shows "\<exists>c' h'. cache_free x c h = Some (c', h') \<and> phys h' = phys h \<and>
           cache_step c h (all_slabs L) c' h' (all_slabs L) (live c L fl - {x})"
  using assms by (rule cache_free_inv)

theorem cache_free_returns_witness:
  "\<exists>x c h c' h' S. cache_alloc 3 (new_cache 64 8) small_heap = Some (x, c, h) \<and>
     cache_free x c h = Some (c', h') \<and> cache_step c h S c' h' S {}"
proof -
  obtain x c h S where al: "cache_alloc 3 (new_cache 64 8) small_heap = Some (x, c, h)"
    and st: "cache_step (new_cache 64 8) small_heap {} c h S {x}"
    using cache_alloc_inv [OF empty_cache_inv small_heap_avail _ small_heap_enough, of 3]
    by (auto simp: all_slabs_def live_def)
  then obtain L fl where "cache_inv c h L fl" and "live c L fl = {x}"
    unfolding cache_step_def by blast
  from cache_free_returns [OF this(1), of x] this(2) al show ?thesis by auto
qed

text \<open>
  The number of pages of a large allocation: below 4 GiB less a page, the order is
  the least whose block holds the request; above, the rounding wraps around and a single
  page is allocated for a request of almost 4 GiB.
\<close>

theorem kmalloc_pages_order:
  "if sz \<le> 0xFFFFF000
   then (\<exists>k \<le> 20. kmalloc_pages sz = Some k \<and> unat sz \<le> 4096 * 2 ^ k \<and> (\<forall>j < k. 4096 * 2 ^ j < unat sz))
   else kmalloc_pages sz = Some 0"
proof (cases "sz \<le> 0xFFFFF000")
  case True
  let ?n = "(sz + PAGE_SIZE - 1) div PAGE_SIZE"
  have n: "unat ?n = (unat sz + 4095) div 4096" using True by (rule unat_pages)
  have pb: "unat (push_bit j 1 :: u32) = 2 ^ j" if "j < 32" for j
    using that by (simp add: unat_two_power)
  have "unat ?n \<le> 2 ^ 20" unfolding n using unat_u32_less [of sz] by simp
  then have le20: "?n \<le> push_bit 20 1" using pb [of 20] by (simp add: word_le_nat_alt)
  then have "\<exists>j < 32. ?n \<le> push_bit j 1" by (intro exI [of _ 20]) simp
  then obtain k where k: "k < 32" "migrate_order ?n 0 = Some k" "?n \<le> push_bit k 1"
    "\<forall>i < k. push_bit i 1 < ?n"
    using migrate_order_least [of ?n 0] by auto
  have "k \<le> 20" using k(4) le20 by (meson leD not_le)
  moreover have "unat ?n \<le> 2 ^ k" using k(1,3) pb by (metis word_le_nat_alt)
  then have "unat sz \<le> 4096 * 2 ^ k" unfolding n by linarith
  moreover have "4096 * 2 ^ j < unat sz" if "j < k" for j
  proof -
    have "push_bit j 1 < ?n" using k(4) that by blast
    then have "unat (push_bit j 1 :: u32) < unat ?n" by (simp only: word_less_nat_alt)
    then have "2 ^ j < unat ?n" using pb [of j] that k(1) by simp
    then show ?thesis unfolding n by linarith
  qed
  ultimately show ?thesis using True k(2) by (auto simp: kmalloc_pages_def)
next
  case False
  then have "unat sz > 0xFFFFF000" by (simp add: word_le_nat_alt)
  then have "unat (sz + PAGE_SIZE - 1) < 4096"
    unfolding add_page_minus using unat_u32_less [of sz] by (simp add: le_mod_geq)
  then have "unat ((sz + PAGE_SIZE - 1) div PAGE_SIZE) = 0"
    unfolding unat_div by simp
  then have "(sz + PAGE_SIZE - 1) div PAGE_SIZE = 0" by (simp add: unat_eq_0)
  then show ?thesis using False by (simp add: kmalloc_pages_def migrate_order.simps)
qed

theorem kmalloc_pages_order_witness:
  "kmalloc_pages 0xFFFFF001 = Some 0 \<and> (\<exists>k. kmalloc_pages 0x2001 = Some k \<and> (0x2001 :: nat) \<le> 4096 * 2 ^ k)"
  using kmalloc_pages_order [of "0xFFFFF001"] kmalloc_pages_order [of "0x2001"] by auto

text \<open>
  A cache with one object per slab, the 2048-byte cache: releasing an object whose
  slab is not the first full slab leaves the slab in the list of full slabs and also
  puts it into the list of free slabs.
\<close>

definition two_big_objects :: "(u32 \<times> u32 \<times> u32) option" where
  "two_big_objects =
     do { (p, c1, h1) \<leftarrow> cache_alloc 8 (new_cache 2048 8) small_heap;
          (q, c2, h2) \<leftarrow> cache_alloc 8 c1 h1;
          (c3, h3) \<leftarrow> cache_free p c2 h2;
          Some (page_base p, slabs_free c3, slab_next (slab_at h3 (slabs_full c3))) }"

theorem big_slab_in_two_lists:
  "two_big_objects = Some (0xC0001000, 0xC0001000, 0xC0001000)"
  by code_simp

lemma create_slab_unchecked:
  assumes "alloc_pages (phys h) 0 0 = Some (0, km)"
  shows "\<exists>h'. create_slab self c h = Some (0xC0000000, h')"
  using assms by (simp add: create_slab_def phys2Virt_def Let_def)

end
