(* ===== verification/VmTree.thy ===== *)
theory VmTree
  imports Prelude
begin

text \<open>
  The tree of virtual areas, \<open>kernel/memory/virtual_memory_tree.cpp\<close>, at the level of its
  pointers: nodes live in a heap from addresses to areas, null is 0 and never allocated,
  and every access to a missing node is undefined. \<open>new\<close> takes the next fresh address.
\<close>

section \<open>State\<close>

datatype Color = RED | BLACK

record VmArea =
  va_start :: u32
  va_size :: u32
  va_color :: Color
  va_parent :: u32
  va_left :: u32
  va_right :: u32

record VirtualMemoryTree =
  vt_root :: u32
  vt_start :: u32
  vt_end :: u32
  total_size :: u32
  allocated_size :: u32
  vt_heap :: "u32 \<Rightarrow> VmArea option"
  vt_fresh :: u32

abbreviation (input) sizeof_VmArea :: u32 where "sizeof_VmArea \<equiv> 24"

definition new_VmArea :: "u32 \<Rightarrow> u32 \<Rightarrow> VmArea" where
  "new_VmArea start sz = \<lparr>va_start = start, va_size = sz, va_color = RED,
     va_parent = 0, va_left = 0, va_right = 0\<rparr>"

definition alloc_area :: "VirtualMemoryTree \<Rightarrow> VmArea \<Rightarrow> u32 \<times> VirtualMemoryTree" where
  "alloc_area t a = (vt_fresh t, t\<lparr>vt_heap := (vt_heap t)(vt_fresh t \<mapsto> a),
     vt_fresh := vt_fresh t + sizeof_VmArea\<rparr>)"

definition delete_area :: "VirtualMemoryTree \<Rightarrow> u32 \<Rightarrow> VirtualMemoryTree" where
  "delete_area t p = t\<lparr>vt_heap := (vt_heap t)(p := None)\<rparr>"

definition upd_area :: "u32 \<Rightarrow> (VmArea \<Rightarrow> VmArea) \<Rightarrow> VirtualMemoryTree \<Rightarrow> VirtualMemoryTree option" where
  "upd_area p f t = do { a \<leftarrow> vt_heap t p; Some (t\<lparr>vt_heap := (vt_heap t)(p \<mapsto> f a)\<rparr>) }"

definition set_parent :: "u32 \<Rightarrow> u32 \<Rightarrow> VirtualMemoryTree \<Rightarrow> VirtualMemoryTree option" where
  "set_parent p q = upd_area p (\<lambda>a. a\<lparr>va_parent := q\<rparr>)"

definition set_left :: "u32 \<Rightarrow> u32 \<Rightarrow> VirtualMemoryTree \<Rightarrow> VirtualMemoryTree option" where
  "set_left p q = upd_area p (\<lambda>a. a\<lparr>va_left := q\<rparr>)"

definition set_right :: "u32 \<Rightarrow> u32 \<Rightarrow> VirtualMemoryTree \<Rightarrow> VirtualMemoryTree option" where
  "set_right p q = upd_area p (\<lambda>a. a\<lparr>va_right := q\<rparr>)"

definition set_color :: "u32 \<Rightarrow> Color \<Rightarrow> VirtualMemoryTree \<Rightarrow> VirtualMemoryTree option" where
  "set_color p k = upd_area p (\<lambda>a. a\<lparr>va_color := k\<rparr>)"

definition get_parent :: "VirtualMemoryTree \<Rightarrow> u32 \<Rightarrow> u32 option" where
  "get_parent t p = map_option va_parent (vt_heap t p)"

definition get_left :: "VirtualMemoryTree \<Rightarrow> u32 \<Rightarrow> u32 option" where
  "get_left t p = map_option va_left (vt_heap t p)"

definition get_right :: "VirtualMemoryTree \<Rightarrow> u32 \<Rightarrow> u32 option" where
  "get_right t p = map_option va_right (vt_heap t p)"

definition get_color :: "VirtualMemoryTree \<Rightarrow> u32 \<Rightarrow> Color option" where
  "get_color t p = map_option va_color (vt_heap t p)"

section \<open>Tree operations\<close>

definition make_tree :: "u32 \<Rightarrow> u32 \<Rightarrow> u32 \<Rightarrow> VirtualMemoryTree" where
  "make_tree fresh_addr start end =
     \<lparr>vt_root = fresh_addr, vt_start = start, vt_end = end, total_size = end - start,
      allocated_size = 0,
      vt_heap = [fresh_addr \<mapsto> (new_VmArea start (end - start))\<lparr>va_color := BLACK\<rparr>],
      vt_fresh = fresh_addr + sizeof_VmArea\<rparr>"

text \<open>The three-way link of the parent of \<open>u\<close> to \<open>v\<close>, in the rotations, \<open>transplant\<close> and \<open>allocate\<close>.\<close>

definition relink :: "VirtualMemoryTree \<Rightarrow> u32 \<Rightarrow> u32 \<Rightarrow> VirtualMemoryTree option" where
  "relink t u v =
     do { p \<leftarrow> get_parent t u;
          if p = 0 then Some (t\<lparr>vt_root := v\<rparr>)
          else do { l \<leftarrow> get_left t p; if u = l then set_left p v t else set_right p v t } }"

definition left_rotate :: "VirtualMemoryTree \<Rightarrow> u32 \<Rightarrow> VirtualMemoryTree option" where
  "left_rotate t x =
     do { y \<leftarrow> get_right t x;
          yl \<leftarrow> get_left t y;
          t \<leftarrow> set_right x yl t;
          t \<leftarrow> (if yl \<noteq> 0 then set_parent yl x t else Some t);
          xp \<leftarrow> get_parent t x;
          t \<leftarrow> set_parent y xp t;
          t \<leftarrow> relink t x y;
          t \<leftarrow> set_left y x t;
          set_parent x y t }"

definition right_rotate :: "VirtualMemoryTree \<Rightarrow> u32 \<Rightarrow> VirtualMemoryTree option" where
  "right_rotate t y =
     do { x \<leftarrow> get_left t y;
          xr \<leftarrow> get_right t x;
          t \<leftarrow> set_left y xr t;
          t \<leftarrow> (if xr \<noteq> 0 then set_parent xr y t else Some t);
          yp \<leftarrow> get_parent t y;
          t \<leftarrow> set_parent x yp t;
          t \<leftarrow> relink t y x;
          t \<leftarrow> set_right x y t;
          set_parent y x t }"

text \<open>
  One turn of the loop of \<open>insert_fixup\<close>, for \<open>z\<close> with a red parent \<open>p\<close>: the new tree and
  the new \<open>z\<close>.
\<close>

definition insert_fixup_step :: "VirtualMemoryTree \<Rightarrow> u32 \<Rightarrow> u32 \<Rightarrow> (VirtualMemoryTree \<times> u32) option" where
  "insert_fixup_step t z p =
     do { g \<leftarrow> get_parent t p;
          gl \<leftarrow> get_left t g;
          if p = gl
          then do { y \<leftarrow> get_right t g;
                    red \<leftarrow> (if y = 0 then Some False else map_option (\<lambda>c. c = RED) (get_color t y));
                    if red
                    then do { t \<leftarrow> set_color p BLACK t; t \<leftarrow> set_color y BLACK t;
                              t \<leftarrow> set_color g RED t; Some (t, g) }
                    else do { pr \<leftarrow> get_right t p;
                              (t, z) \<leftarrow> (if z = pr then do { t \<leftarrow> left_rotate t p; Some (t, p) }
                                         else Some (t, z));
                              p \<leftarrow> get_parent t z; t \<leftarrow> set_color p BLACK t;
                              g \<leftarrow> get_parent t p; t \<leftarrow> set_color g RED t;
                              t \<leftarrow> right_rotate t g; Some (t, z) } }
          else do { y \<leftarrow> get_left t g;
                    red \<leftarrow> (if y = 0 then Some False else map_option (\<lambda>c. c = RED) (get_color t y));
                    if red
                    then do { t \<leftarrow> set_color p BLACK t; t \<leftarrow> set_color y BLACK t;
                              t \<leftarrow> set_color g RED t; Some (t, g) }
                    else do { pl \<leftarrow> get_left t p;
                              (t, z) \<leftarrow> (if z = pl then do { t \<leftarrow> right_rotate t p; Some (t, p) }
                                         else Some (t, z));
                              p \<leftarrow> get_parent t z; t \<leftarrow> set_color p BLACK t;
                              g \<leftarrow> get_parent t p; t \<leftarrow> set_color g RED t;
                              t \<leftarrow> left_rotate t g; Some (t, z) } } }"

partial_function (option) insert_fixup :: "VirtualMemoryTree \<Rightarrow> u32 \<Rightarrow> VirtualMemoryTree option" where
  [code]: "insert_fixup t z =
     Option.bind (get_parent t z) (\<lambda>p.
       if p = 0 then set_color (vt_root t) BLACK t
       else Option.bind (get_color t p) (\<lambda>c.
         if c = RED
         then Option.bind (insert_fixup_step t z p) (\<lambda>(t', z'). insert_fixup t' z')
         else set_color (vt_root t) BLACK t))"

partial_function (option) minimum :: "VirtualMemoryTree \<Rightarrow> u32 \<Rightarrow> u32 option" where
  [code]: "minimum t node =
     Option.bind (get_left t node) (\<lambda>l. if l = 0 then Some node else minimum t l)"

definition transplant :: "VirtualMemoryTree \<Rightarrow> u32 \<Rightarrow> u32 \<Rightarrow> VirtualMemoryTree option" where
  "transplant t u v =
     do { t \<leftarrow> relink t u v;
          if v = 0 then Some t else do { p \<leftarrow> get_parent t u; set_parent v p t } }"

text \<open>A child is black when it is null or coloured black.\<close>

abbreviation (input) black :: "VirtualMemoryTree \<Rightarrow> u32 \<Rightarrow> bool option" where
  "black t p \<equiv> (if p = 0 then Some True else map_option (\<lambda>c. c = BLACK) (get_color t p))"

abbreviation (input) blacken :: "u32 \<Rightarrow> VirtualMemoryTree \<Rightarrow> VirtualMemoryTree option" where
  "blacken p t \<equiv> (if p = 0 then Some t else set_color p BLACK t)"

text \<open>
  One turn of the loop of \<open>delete_fixup\<close>; the two halves mirror each other, \<open>near\<close> being
  the side of \<open>x\<close>.
\<close>

definition delete_fixup_side ::
  "(VirtualMemoryTree \<Rightarrow> u32 \<Rightarrow> u32 option) \<Rightarrow> (VirtualMemoryTree \<Rightarrow> u32 \<Rightarrow> u32 option) \<Rightarrow>
   (VirtualMemoryTree \<Rightarrow> u32 \<Rightarrow> VirtualMemoryTree option) \<Rightarrow>
   (VirtualMemoryTree \<Rightarrow> u32 \<Rightarrow> VirtualMemoryTree option) \<Rightarrow>
   VirtualMemoryTree \<Rightarrow> u32 \<Rightarrow> (VirtualMemoryTree \<times> u32) option" where
  "delete_fixup_side near far rot_near rot_far t x =
     do { p \<leftarrow> get_parent t x;
          w \<leftarrow> far t p;
          wc \<leftarrow> get_color t w;
          (t, w) \<leftarrow> (if wc = RED
                     then do { t \<leftarrow> set_color w BLACK t; t \<leftarrow> set_color p RED t;
                               t \<leftarrow> rot_near t p; p' \<leftarrow> get_parent t x; w' \<leftarrow> far t p'; Some (t, w') }
                     else Some (t, w));
          wn \<leftarrow> near t w; wf \<leftarrow> far t w;
          bn \<leftarrow> black t wn;
          bf \<leftarrow> (if bn then black t wf else Some False);
          if bn \<and> bf
          then do { t \<leftarrow> set_color w RED t; p \<leftarrow> get_parent t x; Some (t, p) }
          else do { bf \<leftarrow> black t wf;
                    (t, w) \<leftarrow> (if bf
                               then do { t \<leftarrow> blacken wn t; t \<leftarrow> set_color w RED t;
                                         t \<leftarrow> rot_far t w; p \<leftarrow> get_parent t x; w' \<leftarrow> far t p; Some (t, w') }
                               else Some (t, w));
                    p \<leftarrow> get_parent t x; pc \<leftarrow> get_color t p;
                    t \<leftarrow> set_color w pc t; t \<leftarrow> set_color p BLACK t;
                    wf \<leftarrow> far t w; t \<leftarrow> blacken wf t;
                    t \<leftarrow> rot_near t p; Some (t, vt_root t) } }"

partial_function (option) delete_fixup :: "VirtualMemoryTree \<Rightarrow> u32 \<Rightarrow> VirtualMemoryTree option" where
  [code]: "delete_fixup t x =
     (if x = vt_root t then blacken x t
      else Option.bind (black t x) (\<lambda>b.
        if b
        then Option.bind (get_parent t x) (\<lambda>p. Option.bind (get_left t p) (\<lambda>l.
               Option.bind (if x = l then delete_fixup_side get_left get_right left_rotate right_rotate t x
                            else delete_fixup_side get_right get_left right_rotate left_rotate t x)
                 (\<lambda>(t', x'). delete_fixup t' x')))
        else blacken x t))"

section \<open>Allocation\<close>

partial_function (option) find_free_loop ::
  "VirtualMemoryTree \<Rightarrow> u32 \<Rightarrow> u32 \<Rightarrow> u32 \<Rightarrow> u32 option" where
  [code]: "find_free_loop t sz best_fit current =
     (if current = 0 then Some best_fit
      else Option.bind (vt_heap t current) (\<lambda>a.
        if va_size a \<ge> sz
        then if best_fit = 0 then find_free_loop t sz current (va_left a)
             else Option.bind (vt_heap t best_fit) (\<lambda>b.
               find_free_loop t sz (if va_size a < va_size b then current else best_fit) (va_left a))
        else find_free_loop t sz best_fit (va_right a)))"

definition find_free_area :: "VirtualMemoryTree \<Rightarrow> u32 \<Rightarrow> u32 option" where
  "find_free_area t sz = find_free_loop t sz 0 (vt_root t)"

definition vt_allocate :: "VirtualMemoryTree \<Rightarrow> u32 \<Rightarrow> (u32 \<times> VirtualMemoryTree) option" where
  "vt_allocate t sz =
     do { area \<leftarrow> find_free_area t sz;
          if area = 0 then Some (0, t)
          else do { a \<leftarrow> vt_heap t area;
                    t' \<leftarrow> (if va_size a > sz
                          then (let (new_area, t1) = alloc_area t (new_VmArea (va_start a + sz) (va_size a - sz))
                                in do { t2 \<leftarrow> upd_area area (\<lambda>a. a\<lparr>va_size := sz\<rparr>) t1;
                                        p \<leftarrow> get_parent t2 area;
                                        t3 \<leftarrow> set_parent new_area p t2;
                                        t4 \<leftarrow> relink t3 area new_area;
                                        insert_fixup t4 new_area })
                          else Some t);
                    Some (va_start a, t'\<lparr>allocated_size := allocated_size t' + sz\<rparr>) } }"

definition free_at :: "VirtualMemoryTree \<Rightarrow> u32 \<Rightarrow> VirtualMemoryTree option" where
  "free_at t area =
     do { a \<leftarrow> vt_heap t area;
          t \<leftarrow> Some (t\<lparr>allocated_size := allocated_size t - va_size a\<rparr>);
          t \<leftarrow> (if va_right a = 0 then Some t
                else do { n \<leftarrow> vt_heap t (va_right a);
                          if va_start a + va_size a = va_start n
                          then do { t \<leftarrow> upd_area area (\<lambda>a. a\<lparr>va_size := va_size a + va_size n\<rparr>) t;
                                    t \<leftarrow> transplant t (va_right a) (va_right n);
                                    Some (delete_area t (va_right a)) }
                          else Some t });
          a \<leftarrow> vt_heap t area;
          if va_left a = 0 then Some t
          else do { p \<leftarrow> vt_heap t (va_left a);
                    if va_start p + va_size p = va_start a
                    then do { t \<leftarrow> upd_area (va_left a) (\<lambda>p. p\<lparr>va_size := va_size p + va_size a\<rparr>) t;
                              t \<leftarrow> transplant t area (va_right a);
                              Some (delete_area t area) }
                    else Some t } }"

partial_function (option) free_loop :: "VirtualMemoryTree \<Rightarrow> u32 \<Rightarrow> u32 \<Rightarrow> VirtualMemoryTree option" where
  [code]: "free_loop t addr area =
     (if area = 0 then Some t
      else Option.bind (vt_heap t area) (\<lambda>a.
        if va_start a = addr then free_at t area
        else free_loop t addr (if addr < va_start a then va_left a else va_right a)))"

definition vt_free :: "VirtualMemoryTree \<Rightarrow> u32 \<Rightarrow> VirtualMemoryTree option" where
  "vt_free t addr = free_loop t addr (vt_root t)"

definition get_free_size :: "VirtualMemoryTree \<Rightarrow> u32" where
  "get_free_size t = total_size t - allocated_size t"

partial_function (option) cleanup :: "VirtualMemoryTree \<Rightarrow> u32 \<Rightarrow> VirtualMemoryTree option" where
  [code]: "cleanup t node =
     (if node = 0 then Some t
      else Option.bind (vt_heap t node) (\<lambda>a.
        Option.bind (cleanup t (va_left a)) (\<lambda>t1.
          Option.bind (vt_heap t1 node) (\<lambda>b.
            Option.bind (cleanup t1 (va_right b)) (\<lambda>t2.
              if vt_heap t2 node = None then None else Some (delete_area t2 node))))))"

section \<open>A tree of one area\<close>

text \<open>
  Allocation splits an area by putting the remainder in the place of the area, so a
  tree that starts with one area always has one: the remainder. The areas that were
  split off stay in the heap, below the next fresh address, but not in the tree.
\<close>

definition single :: "VirtualMemoryTree \<Rightarrow> u32 \<Rightarrow> u32 \<Rightarrow> bool" where
  "single t start sz \<longleftrightarrow>
     (\<exists>c. vt_heap t (vt_root t) = Some \<lparr>va_start = start, va_size = sz, va_color = c,
        va_parent = 0, va_left = 0, va_right = 0\<rparr>) \<and>
     vt_root t \<noteq> 0 \<and> (\<forall>p \<in> dom (vt_heap t). p < vt_fresh t)"

lemma make_tree_single:
  "f \<noteq> 0 \<Longrightarrow> f < f + sizeof_VmArea \<Longrightarrow> single (make_tree f start end) start (end - start)"
  by (auto simp: single_def make_tree_def new_VmArea_def split: if_splits)

lemma find_single:
  assumes "single t start sz"
  shows "find_free_area t n = Some (if n \<le> sz then vt_root t else 0)"
  using assms
  by (auto simp: find_free_area_def single_def find_free_loop.simps)

lemma insert_fixup_root:
  assumes "vt_heap t z = Some a" and "va_parent a = 0" and "vt_root t = z"
  shows "insert_fixup t z = Some (t\<lparr>vt_heap := (vt_heap t)(z \<mapsto> a\<lparr>va_color := BLACK\<rparr>)\<rparr>)"
  using assms by (simp add: insert_fixup.simps get_parent_def set_color_def upd_area_def)

lemma allocate_single_split:
  assumes "single t start sz" and "n < sz" and "vt_fresh t < vt_fresh t + sizeof_VmArea"
  shows "\<exists>t'. vt_allocate t n = Some (start, t') \<and> single t' (start + n) (sz - n) \<and>
           vt_fresh t' = vt_fresh t + sizeof_VmArea \<and> allocated_size t' = allocated_size t + n"
proof -
  let ?f = "vt_fresh t"
  obtain c where r: "vt_heap t (vt_root t) = Some \<lparr>va_start = start, va_size = sz, va_color = c,
        va_parent = 0, va_left = 0, va_right = 0\<rparr>" "vt_root t \<noteq> 0"
    and d: "\<And>p. p \<in> dom (vt_heap t) \<Longrightarrow> p < ?f"
    using assms(1) by (auto simp: single_def)
  have "vt_root t < ?f" using assms(1) r(1) by (auto simp: single_def)
  then have ne: "vt_root t \<noteq> ?f" and f0: "?f \<noteq> 0" by auto
  have "find_free_area t n = Some (vt_root t)"
    using find_single [OF assms(1), of n] order.strict_implies_order [OF assms(2)] by simp
  then show ?thesis
    using r ne f0 d assms(2,3)
    by (auto simp: vt_allocate_def alloc_area_def upd_area_def get_parent_def set_parent_def relink_def
        insert_fixup_root new_VmArea_def single_def dest: order.strict_trans)
qed

lemma allocate_single_exact:
  assumes "single t start sz"
  shows "vt_allocate t sz = Some (start, t\<lparr>allocated_size := allocated_size t + sz\<rparr>)"
  using assms find_single [OF assms, of sz]
  by (auto simp: vt_allocate_def single_def)

lemma allocate_single_fails:
  assumes "single t start sz" and "sz < n"
  shows "vt_allocate t n = Some (0, t)"
proof -
  have "\<not> n \<le> sz" using assms(2) by simp
  then show ?thesis using find_single [OF assms(1), of n] by (simp add: vt_allocate_def)
qed

fun allocate_all :: "VirtualMemoryTree \<Rightarrow> u32 list \<Rightarrow> (u32 list \<times> VirtualMemoryTree) option" where
  "allocate_all t [] = Some ([], t)"
| "allocate_all t (n # ns) =
     (case vt_allocate t n of None \<Rightarrow> None
      | Some (a, t') \<Rightarrow> map_option (\<lambda>(as, t''). (a # as, t'')) (allocate_all t' ns))"

fun bump :: "u32 \<Rightarrow> u32 list \<Rightarrow> u32 list" where
  "bump a [] = []"
| "bump a (n # ns) = a # bump (a + n) ns"

lemma allocate_all_single:
  assumes "single t start sz" and "sum_list (map unat ns) < unat sz"
    and "unat (vt_fresh t) + 24 * length ns < 2 ^ 32"
  shows "\<exists>t'. allocate_all t ns = Some (bump start ns, t') \<and>
           single t' (start + sum_list ns) (sz - sum_list ns)"
  using assms
proof (induction ns arbitrary: t start sz)
  case Nil
  then show ?case by simp
next
  case (Cons n ns)
  have n: "unat n < unat sz" using Cons.prems(2) by simp
  have uf: "unat (vt_fresh t + sizeof_VmArea) = unat (vt_fresh t) + 24"
    using Cons.prems(3) by (simp add: unat_word_ariths)
  have "n < sz" "vt_fresh t < vt_fresh t + sizeof_VmArea"
    using n uf by (simp_all add: word_less_nat_alt)
  from allocate_single_split [OF Cons.prems(1) this] obtain t' where
    t': "vt_allocate t n = Some (start, t')" "single t' (start + n) (sz - n)"
    "vt_fresh t' = vt_fresh t + sizeof_VmArea" by blast
  have "unat (sz - n) = unat sz - unat n" using n by (simp add: unat_sub word_le_nat_alt)
  then have "\<exists>t''. allocate_all t' ns = Some (bump (start + n) ns, t'') \<and>
      single t'' (start + n + sum_list ns) (sz - n - sum_list ns)"
    using Cons.prems(2,3) t'(3) uf by (intro Cons.IH [OF t'(2)]) simp_all
  then show ?case using t'(1) by (auto simp: algebra_simps diff_diff_eq)
qed

section \<open>Properties\<close>

text \<open>
  As long as the requests stay below the size of the region, successive
  allocations return consecutive areas from its start: every one is defined, they lie in
  the region and do not overlap.
\<close>

theorem allocate_consecutive:
  assumes "f \<noteq> 0" and "unat f + 24 * (length ns + 1) < 2 ^ 32"
    and "sum_list (map unat ns) < unat (end - start)"
  shows "\<exists>t'. allocate_all (make_tree f start end) ns = Some (bump start ns, t') \<and>
           single t' (start + sum_list ns) (end - start - sum_list ns)"
proof -
  have uf: "unat (f + sizeof_VmArea) = unat f + 24"
    using assms(2) by (simp add: unat_word_ariths)
  then have "f < f + sizeof_VmArea" by (simp add: word_less_nat_alt)
  from allocate_all_single [OF make_tree_single [OF assms(1) this] assms(3)] uf assms(2)
  show ?thesis by (simp add: make_tree_def)
qed

theorem allocate_consecutive_witness:
  "\<exists>t'. allocate_all (make_tree 0x100 0x8000 0x9000) [0x100, 0x200] = Some ([0x8000, 0x8100], t') \<and>
     single t' 0x8300 0xD00"
  using allocate_consecutive [of "0x100" "[0x100, 0x200]" "0x9000" "0x8000"] by simp

text \<open>
  An area that fits exactly stays in the tree: the next request for the same size
  returns the same address again. And an area that was split off cannot be freed: the
  tree no longer holds it.
\<close>

theorem allocate_twice_same_address:
  assumes "single t start sz"
  shows "\<exists>t' t''. vt_allocate t sz = Some (start, t') \<and> vt_allocate t' sz = Some (start, t'')"
proof -
  have "single (t\<lparr>allocated_size := allocated_size t + sz\<rparr>) start sz"
    using assms by (simp add: single_def)
  then show ?thesis using allocate_single_exact assms by blast
qed

theorem allocate_twice_same_address_witness:
  "\<exists>t' t''. vt_allocate (make_tree 0x100 0x8000 0x9000) 0x1000 = Some (0x8000, t') \<and>
     vt_allocate t' 0x1000 = Some (0x8000, t'')"
proof -
  have "single (make_tree 0x100 0x8000 0x9000) 0x8000 0x1000"
    using make_tree_single [of "0x100" "0x8000" "0x9000"] by simp
  then show ?thesis by (rule allocate_twice_same_address)
qed

lemma free_does_nothing:
  assumes "single t start sz" and "addr \<noteq> start"
  shows "vt_free t addr = Some t"
  using assms by (auto simp: vt_free_def single_def free_loop.simps)

end
