(* ===== verification/Paging.thy ===== *)
theory Paging
  imports Zone
begin

text \<open>
  Page tables, \<open>kernel/memory/paging.cpp\<close>. The memory of the directories and tables is a
  function from the addresses the code uses to 32-bit words. \<open>mapPage\<close> and the copy of an
  address space reach a table through the direct mapping, the other operations through
  its physical address, as the source does. The registers CR0 and CR3 are state; the
  functions that only print are left out.
\<close>

section \<open>State and entries\<close>

record PageManager =
  curPgdVirt :: u32
  mem :: "u32 \<Rightarrow> u32"
  page_phys :: PhysMemory
  cr0 :: u32
  cr3 :: u32

definition entry_addr :: "u32 \<Rightarrow> u32 \<Rightarrow> u32" where
  "entry_addr table i = table + 4 * i"

definition pd_index :: "u32 \<Rightarrow> u32" where
  "pd_index virt_addr = drop_bit 22 virt_addr"

definition pt_index :: "u32 \<Rightarrow> u32" where
  "pt_index virt_addr = drop_bit 12 virt_addr AND 0x3FF"

definition write_entry :: "u32 \<Rightarrow> u32 \<Rightarrow> u32 \<Rightarrow> PageManager \<Rightarrow> PageManager" where
  "write_entry table i e pm = pm\<lparr>mem := (mem pm)(entry_addr table i := e)\<rparr>"

abbreviation read_entry :: "PageManager \<Rightarrow> u32 \<Rightarrow> u32 \<Rightarrow> u32" where
  "read_entry pm table i \<equiv> mem pm (entry_addr table i)"

abbreviation frame :: "u32 \<Rightarrow> u32" where
  "frame e \<equiv> e AND 0xFFFFF000"

section \<open>Mapping\<close>

definition mapPage :: "PageManager \<Rightarrow> u32 \<Rightarrow> u32 \<Rightarrow> u32 \<Rightarrow> PageManager option" where
  "mapPage pm virt_addr phys_addr flags =
     (if curPgdVirt pm = 0 then Some pm
      else let pde = read_entry pm (curPgdVirt pm) (pd_index virt_addr) in
        do { (pt, pm1) \<leftarrow>
               (if pde AND 0x1 = 0
                then do { (pt, km) \<leftarrow> alloc_pages (page_phys pm) 0 0;
                          Some (pt, write_entry (curPgdVirt pm) (pd_index virt_addr) (pt OR 3)
                                      (pm\<lparr>page_phys := km\<rparr>)) }
                else Some (frame pde, pm));
             Some (write_entry (phys2Virt pt) (pt_index virt_addr)
                     (frame phys_addr OR (flags AND 0xFFF) OR 0x1) pm1) })"

definition unmapPage :: "PageManager \<Rightarrow> u32 \<Rightarrow> PageManager" where
  "unmapPage pm virt_addr =
     (let pde = read_entry pm (curPgdVirt pm) (pd_index virt_addr) in
      if curPgdVirt pm = 0 \<or> pde AND 0x1 = 0 then pm
      else write_entry (frame pde) (pt_index virt_addr) 0x00000002 pm)"

definition switchPageDirectory :: "PageManager \<Rightarrow> u32 \<Rightarrow> u32 \<Rightarrow> PageManager" where
  "switchPageDirectory pm dirVirt dirPhys = pm\<lparr>curPgdVirt := dirVirt, cr3 := dirPhys\<rparr>"

definition getPageFlags :: "PageManager \<Rightarrow> u32 \<Rightarrow> u32" where
  "getPageFlags pm virt_addr =
     (let pde = read_entry pm (curPgdVirt pm) (pd_index virt_addr) in
      if curPgdVirt pm = 0 \<or> pde AND 0x1 = 0 then 0
      else read_entry pm (frame pde) (pt_index virt_addr) AND 0xFFF)"

definition setPageFlags :: "PageManager \<Rightarrow> u32 \<Rightarrow> u32 \<Rightarrow> PageManager" where
  "setPageFlags pm virt_addr flags =
     (let pde = read_entry pm (curPgdVirt pm) (pd_index virt_addr) in
      if curPgdVirt pm = 0 \<or> pde AND 0x1 = 0 then pm
      else let e = read_entry pm (frame pde) (pt_index virt_addr) in
        if e AND 0x1 = 0 then pm
        else write_entry (frame pde) (pt_index virt_addr) (frame e OR (flags AND 0xFFF)) pm)"

definition enablePaging :: "PageManager \<Rightarrow> PageManager" where
  "enablePaging pm = pm\<lparr>cr0 := cr0 pm OR 0x80000000\<rparr>"

definition disablePaging :: "PageManager \<Rightarrow> PageManager" where
  "disablePaging pm = pm\<lparr>cr0 := cr0 pm AND NOT 0x80000000\<rparr>"

section \<open>The kernel space\<close>

text \<open>\<open>for(i = 0; i < n; i++) body(i)\<close>\<close>

definition for_upto :: "nat \<Rightarrow> (u32 \<Rightarrow> 's \<Rightarrow> 's) \<Rightarrow> 's \<Rightarrow> 's" where
  "for_upto n body s = fold (\<lambda>i. body (of_nat i)) [0..<n] s"

definition map_apic_page :: "u32 \<Rightarrow> PageManager \<Rightarrow> PageManager" where
  "map_apic_page addr pm =
     (let pdi = drop_bit 22 addr; pti = drop_bit 12 addr AND 0x3FF;
          pde = read_entry pm PAGE_DIRECTORY_ADDR pdi;
          pm1 = (if pde AND 0x1 = 0
                 then write_entry PAGE_DIRECTORY_ADDR pdi ((K_PAGE_TABLE_START + pdi * 4096) OR 3) pm
                 else pm)
      in write_entry (frame (read_entry pm1 PAGE_DIRECTORY_ADDR pdi)) pti (addr OR 0x13) pm1)"

definition map_kernel_table :: "u32 \<Rightarrow> PageManager \<Rightarrow> PageManager" where
  "map_kernel_table j pm =
     (let table = K_PAGE_TABLE_START + j * 4096
      in write_entry PAGE_DIRECTORY_ADDR (j + drop_bit 22 0xC0000000) (table OR 3)
           (for_upto 1024 (\<lambda>i. write_entry table i ((i * 4096 + j * 1024 * 4096) OR 3)) pm))"

definition mapKernelSpace :: "PageManager \<Rightarrow> PageManager" where
  "mapKernelSpace pm =
     (let pm1 = write_entry PAGE_DIRECTORY_ADDR 0 (K_FIRST_4M_PT OR 7) pm;
          pm2 = for_upto 1024 (\<lambda>i. write_entry K_FIRST_4M_PT i ((i * 4096) OR 7)) pm1;
          pm3 = for_upto (unat K_PAGE_TABLE_COUNT) map_kernel_table pm2
      in for_upto 0x300 (\<lambda>k. map_apic_page (0xFEC00000 + k * 0x1000)) pm3)"

definition pm_init :: "PageManager \<Rightarrow> PageManager" where
  "pm_init pm =
     (let pm1 = for_upto 1024 (\<lambda>i. write_entry PAGE_DIRECTORY_ADDR i 0x00000002) pm;
          pm2 = enablePaging ((mapKernelSpace pm1)\<lparr>cr3 := PAGE_DIRECTORY_ADDR\<rparr>)
      in pm2\<lparr>curPgdVirt := PAGE_DIRECTORY_ADDR + KERNEL_DIRECT_MAP_START\<rparr>)"

section \<open>Copy on write\<close>

definition cow_entry :: "u32 \<Rightarrow> u32" where
  "cow_entry e = (if e AND PAGE_WRITE \<noteq> 0 then (e AND NOT PAGE_WRITE) OR PAGE_COW else e)"

text \<open>The copy of one entry, and the loop over a table; \<open>None\<close> from the reference count.\<close>

definition cow_copy_entry :: "u32 \<Rightarrow> u32 \<Rightarrow> u32 \<Rightarrow> PageManager \<Rightarrow> PageManager option" where
  "cow_copy_entry src_pt dst_pt i pm =
     (let e = read_entry pm src_pt i in
      do { pm1 \<leftarrow> (if e AND PAGE_WRITE \<noteq> 0
                   then do { km \<leftarrow> km_increment_ref_count (page_phys pm) (frame (cow_entry e));
                             Some ((write_entry src_pt i (cow_entry e) pm)\<lparr>page_phys := km\<rparr>) }
                   else Some pm);
           Some (write_entry dst_pt i (read_entry pm1 src_pt i) pm1) })"

primrec cow_copy_table :: "nat \<Rightarrow> u32 \<Rightarrow> u32 \<Rightarrow> PageManager \<Rightarrow> PageManager option" where
  "cow_copy_table 0 src_pt dst_pt pm = Some pm"
| "cow_copy_table (Suc n) src_pt dst_pt pm =
     do { pm1 \<leftarrow> cow_copy_table n src_pt dst_pt pm;
          cow_copy_entry src_pt dst_pt (of_nat n) pm1 }"

abbreviation (input) copy_page :: "u32 \<Rightarrow> u32 \<Rightarrow> PageManager \<Rightarrow> PageManager" where
  "copy_page dst src pm \<equiv> for_upto 1024 (\<lambda>i pm. write_entry dst i (read_entry pm src i) pm) pm"

definition cow_copy_pde :: "u32 \<Rightarrow> u32 \<Rightarrow> u32 \<Rightarrow> PageManager \<Rightarrow> PageManager option" where
  "cow_copy_pde src dstPgd pde_idx pm =
     (let pde = read_entry pm src pde_idx;
          pm1 = write_entry dstPgd pde_idx pde pm
      in if read_entry pm1 src pde_idx AND PAGE_PRESENT = 0 then Some pm1
         else let src_pt_paddr = frame (read_entry pm1 src pde_idx) in
           if src_pt_paddr > 896 * 1024 * 1024 then Some pm1
           else do { (dst_pt_paddr, km) \<leftarrow> alloc_pages (page_phys pm1) 0 0;
                     pm2 \<leftarrow> cow_copy_table 1024 (phys2Virt src_pt_paddr) (phys2Virt dst_pt_paddr)
                             (pm1\<lparr>page_phys := km\<rparr>);
                     Some (write_entry dstPgd pde_idx
                             (dst_pt_paddr OR (read_entry pm2 src pde_idx AND 0xFFF)) pm2) })"

fun cow_copy_pdes :: "u32 list \<Rightarrow> u32 \<Rightarrow> u32 \<Rightarrow> PageManager \<Rightarrow> PageManager option" where
  "cow_copy_pdes [] src dstPgd pm = Some pm"
| "cow_copy_pdes (i # is) src dstPgd pm =
     do { pm1 \<leftarrow> cow_copy_pde src dstPgd i pm; cow_copy_pdes is src dstPgd pm1 }"

definition copyMemorySpaceCOW :: "u32 \<Rightarrow> u32 \<Rightarrow> PageManager \<Rightarrow> PageManager option" where
  "copyMemorySpaceCOW src dstPgd pm =
     (let pm1 = for_upto 1024 (\<lambda>i. write_entry dstPgd i 0) pm;
          pm2 = write_entry dstPgd 0 (read_entry pm1 src 0) pm1;
          kernelPteStart = drop_bit 22 0xC0000000;
          pm3 = for_upto (unat K_PAGE_TABLE_COUNT)
                  (\<lambda>j pm. write_entry dstPgd (kernelPteStart + j)
                             (read_entry pm src (kernelPteStart + j)) pm) pm2;
          apic = drop_bit 22 0xFEC00000;
          src_pt_paddr = frame (read_entry pm3 src apic)
      in do { (dst_pt_paddr, km) \<leftarrow> alloc_pages (page_phys pm3) 0 0;
              let pm4 = write_entry dstPgd apic (dst_pt_paddr OR 0x3)
                          (copy_page (phys2Virt dst_pt_paddr) (phys2Virt src_pt_paddr)
                             (pm3\<lparr>page_phys := km\<rparr>)) in
              cow_copy_pdes (map of_nat [unat (drop_bit 22 USER_START)..<unat (drop_bit 22 USER_END)])
                src dstPgd pm4 })"

section \<open>Addresses of entries\<close>

lemma unat_entry_addr:
  assumes "page_aligned t" and "i < 1024"
  shows "unat (entry_addr t i) = unat t + 4 * unat i"
proof -
  have i: "unat i < 1024" using assms(2) by (simp add: word_less_nat_alt)
  have "entry_addr t i = t + of_nat (4 * unat i)" by (simp add: entry_addr_def)
  then show ?thesis using unat_page_offset [OF assms(1), of "4 * unat i"] i by simp
qed

lemma entry_addr_eq [simp]:
  assumes "page_aligned t" and "page_aligned t'" and "i < 1024" and "i' < 1024"
  shows "entry_addr t i = entry_addr t' i' \<longleftrightarrow> t = t' \<and> i = i'"
proof
  assume "entry_addr t i = entry_addr t' i'"
  then have eq: "unat t + 4 * unat i = unat t' + 4 * unat i'"
    using unat_entry_addr assms by metis
  have lt: "4 * unat i < 4096" "4 * unat i' < 4096"
    using assms(3,4) by (simp_all add: word_less_nat_alt)
  have "4096 dvd unat t" "4096 dvd unat t'"
    using assms(1,2) by (simp_all add: page_aligned_unat mod_eq_0_iff_dvd)
  then obtain q q' where q: "unat t = 4096 * q" "unat t' = 4096 * q'"
    by (elim dvdE)
  have "q = q'" using eq lt q by linarith
  then have "unat t = unat t'" "unat i = unat i'" using eq q by auto
  then show "t = t' \<and> i = i'" by (simp add: word_unat_eq_iff)
qed simp

lemma pd_index_less: "pd_index va < 1024"
proof -
  have "unat (pd_index va) = unat va div 2 ^ 22"
    by (simp add: pd_index_def drop_bit_eq_div unat_div)
  then show ?thesis using unat_u32_less [of va] by (simp add: word_less_nat_alt)
qed

lemma unat_pt_index: "unat (pt_index va) = unat va div 4096 mod 1024"
proof -
  have "pt_index va = take_bit 10 (drop_bit 12 va)"
    by (simp add: pt_index_def take_bit_eq_mask mask_eq_exp_minus_1)
  then have "pt_index va = va div 4096 mod 1024" by (simp add: take_bit_eq_mod drop_bit_eq_div)
  then show ?thesis by (simp add: unat_div unat_mod)
qed

lemma pt_index_less: "pt_index va < 1024"
  by (simp add: word_less_nat_alt unat_pt_index)

lemma frame_mask: "(0xFFFFF000 :: u32) = NOT 0xFFF"
  by simp

lemma unat_frame: "unat (frame e) = unat e div 4096 * 4096"
  unfolding frame_mask by (rule unat_and_not_FFF)

lemma frame_aligned: "page_aligned t \<Longrightarrow> frame t = t"
proof -
  assume "page_aligned t"
  then have "unat t mod 4096 = 0" by (simp add: page_aligned_unat)
  then have "unat t div 4096 * 4096 = unat t" by auto
  then have "unat (frame t) = unat t" by (simp only: unat_frame)
  then show ?thesis by (simp only: word_unat_eq_iff)
qed

lemma frame_page_aligned: "page_aligned (frame e)"
  by (simp only: page_aligned_unat unat_frame mod_mult_self2_is_0)

lemma frame_or: "page_aligned t \<Longrightarrow> frame f = 0 \<Longrightarrow> frame (t OR f) = t"
  by (simp add: bit.conj_disj_distrib2 frame_aligned)

lemma or_low_bit: "(x OR 3) AND 1 \<noteq> (0 :: u32)" "(x OR 7) AND 1 \<noteq> (0 :: u32)" "(x OR 1) AND 1 \<noteq> (0 :: u32)"
  "(x OR 0x13) AND 1 \<noteq> (0 :: u32)"
  by (simp_all add: and_one_eq odd_iff_mod_2_eq_one [symmetric] even_or_iff)

section \<open>The translation the processor performs\<close>

text \<open>
  \<open>mmu m acc dir va\<close> is the two-level walk of the x86 architecture, reading a table at
  physical address \<open>p\<close> as \<open>m\<close> at \<open>acc p\<close>: \<open>acc\<close> is the identity for physical memory, and
  \<open>phys2Virt\<close> for the view through the direct mapping.
\<close>

definition mmu :: "(u32 \<Rightarrow> u32) \<Rightarrow> (u32 \<Rightarrow> u32) \<Rightarrow> u32 \<Rightarrow> u32 \<Rightarrow> u32 option" where
  "mmu m acc dir va =
     (let pde = m (entry_addr dir (pd_index va)) in
      if pde AND 1 = 0 then None
      else let pte = m (entry_addr (acc (frame pde)) (pt_index va)) in
        if pte AND 1 = 0 then None else Some (frame pte OR (va AND 0xFFF)))"

lemma mem_write_entry [simp]:
  "mem (write_entry t i e pm) = (mem pm)(entry_addr t i := e)"
  "curPgdVirt (write_entry t i e pm) = curPgdVirt pm"
  "page_phys (write_entry t i e pm) = page_phys pm"
  by (simp_all add: write_entry_def)

lemma page_index_eq:
  assumes "pd_index va = pd_index va'" and "pt_index va = pt_index va'"
  shows "unat va div 4096 = unat va' div 4096"
proof -
  have d: "unat (pd_index v) = unat v div 4096 div 1024" for v
    by (simp add: pd_index_def drop_bit_eq_div unat_div div_mult2_eq [symmetric])
  have "unat va div 4096 div 1024 = unat va' div 4096 div 1024"
    and "unat va div 4096 mod 1024 = unat va' div 4096 mod 1024"
    using assms d unat_pt_index by metis+
  then show ?thesis by (metis div_mult_mod_eq)
qed

lemma frame_flags: "frame (frame p OR (f AND 0xFFF) OR 1) = frame p"
proof -
  have "frame (f AND 0xFFF) = 0" by (simp add: and.assoc)
  then show ?thesis
    by (simp add: bit.conj_disj_distrib2 and.assoc)
qed

lemma mapPage_present:
  assumes "curPgdVirt pm \<noteq> 0" and "read_entry pm (curPgdVirt pm) (pd_index va) AND 1 \<noteq> 0"
  shows "mapPage pm va pa fl = Some (write_entry (phys2Virt (frame (read_entry pm (curPgdVirt pm) (pd_index va))))
     (pt_index va) (frame pa OR (fl AND 0xFFF) OR 1) pm)"
  using assms by (simp add: mapPage_def Let_def)

section \<open>The tables of the kernel space\<close>

lemma for_upto_simps [simp]:
  "for_upto 0 body s = s" "for_upto (Suc n) body s = body (of_nat n) (for_upto n body s)"
  by (simp_all add: for_upto_def)

lemma of_nat_less_1024: "n < 1024 \<Longrightarrow> (of_nat n :: u32) < 1024"
  by (simp add: word_less_nat_alt unat_of_nat)

lemma fill_table_read:
  assumes "page_aligned t" and "page_aligned t'" and "i < 1024" and "n \<le> 1024"
  shows "read_entry (for_upto n (\<lambda>i. write_entry t i (g i)) pm) t' i =
     (if t' = t \<and> unat i < n then g i else read_entry pm t' i)"
  using assms(4)
proof (induction n)
  case (Suc n)
  have "i = of_nat n \<longleftrightarrow> unat i = n"
    using Suc.prems by (auto simp: word_unat_eq_iff unat_of_nat)
  then show ?case
    using Suc assms(1-3) of_nat_less_1024 [of n] by (auto simp: less_Suc_eq)
qed simp

definition ktable :: "nat \<Rightarrow> u32" where
  "ktable j = K_PAGE_TABLE_START + of_nat j * 4096"

lemma ktable_aligned [simp]: "page_aligned (ktable j)"
proof -
  have "page_aligned K_PAGE_TABLE_START"
    by (simp add: page_aligned_def)
  then show ?thesis using page_aligned_add by (simp add: ktable_def mult.commute)
qed

lemma unat_ktable: "j < 1024 \<Longrightarrow> unat (ktable j) = 0x402000 + 4096 * j"
  by (simp add: ktable_def unat_word_ariths unat_of_nat)

lemma ktable_eq [simp]: "j < 1024 \<Longrightarrow> j' < 1024 \<Longrightarrow> ktable j = ktable j' \<longleftrightarrow> j = j'"
  by (metis add_left_cancel mult_left_cancel unat_ktable zero_neq_numeral)

lemma dir_aligned [simp]: "page_aligned PAGE_DIRECTORY_ADDR" "page_aligned K_FIRST_4M_PT"
  by (simp_all add: page_aligned_def)

lemma ktable_neq [simp]:
  "j < 1024 \<Longrightarrow> ktable j \<noteq> PAGE_DIRECTORY_ADDR" "j < 1024 \<Longrightarrow> ktable j \<noteq> K_FIRST_4M_PT"
  "j < 1024 \<Longrightarrow> PAGE_DIRECTORY_ADDR \<noteq> ktable j" "j < 1024 \<Longrightarrow> K_FIRST_4M_PT \<noteq> ktable j"
  "PAGE_DIRECTORY_ADDR \<noteq> K_FIRST_4M_PT" "K_FIRST_4M_PT \<noteq> PAGE_DIRECTORY_ADDR"
  by (auto simp: word_unat_eq_iff unat_ktable)

text \<open>
  The part of the memory the kernel's translation uses: \<open>n\<close> tables of the direct mapping
  and the table of the first 4 MiB, and the entry of the directory for the APIC.
\<close>

definition kernel_tables :: "nat \<Rightarrow> PageManager \<Rightarrow> bool" where
  "kernel_tables n pm \<longleftrightarrow>
     read_entry pm PAGE_DIRECTORY_ADDR 0 = K_FIRST_4M_PT OR 7 \<and>
     (\<forall>i < 1024. read_entry pm K_FIRST_4M_PT i = (i * 4096) OR 7) \<and>
     (\<forall>j < n. read_entry pm PAGE_DIRECTORY_ADDR (of_nat j + 768) = ktable j OR 3) \<and>
     (\<forall>j < n. \<forall>i < 1024. read_entry pm (ktable j) i = (i * 4096 + of_nat j * 1024 * 4096) OR 3)"

lemma map_kernel_table_read:
  assumes "page_aligned t" and "i < 1024" and "j < 224"
  shows "read_entry (map_kernel_table (of_nat j) pm) t i =
     (if t = PAGE_DIRECTORY_ADDR \<and> i = of_nat j + 768 then ktable j OR 3
      else if t = ktable j then (i * 4096 + of_nat j * 1024 * 4096) OR 3 else read_entry pm t i)"
proof -
  have j: "(of_nat j :: u32) + 768 < 1024"
    using assms(3) by (simp add: word_less_nat_alt unat_word_ariths unat_of_nat)
  have k: "K_PAGE_TABLE_START + of_nat j * 4096 = ktable j" by (simp add: ktable_def)
  have d: "drop_bit 22 (0xC0000000 :: u32) = 768" by simp
  have lt: "unat i < 1024" using assms(2) by (simp add: word_less_nat_alt)
  show ?thesis
    unfolding map_kernel_table_def Let_def k d
    using assms j lt by (simp add: fill_table_read)
qed

lemma kernel_tables_loop:
  assumes "kernel_tables 0 pm" and "n \<le> 224"
  shows "kernel_tables n (for_upto n map_kernel_table pm) \<and>
    read_entry (for_upto n map_kernel_table pm) PAGE_DIRECTORY_ADDR 1019 = read_entry pm PAGE_DIRECTORY_ADDR 1019"
  using assms(2)
proof (induction n)
  case 0
  then show ?case using assms(1) by simp
next
  case (Suc n)
  then have ih: "kernel_tables n (for_upto n map_kernel_table pm)" and n: "n < 224"
    and apic: "read_entry (for_upto n map_kernel_table pm) PAGE_DIRECTORY_ADDR 1019 = read_entry pm PAGE_DIRECTORY_ADDR 1019"
    by auto
  have lt: "(of_nat j :: u32) + 768 < 1024" if "j < 224" for j
    using that by (simp add: word_less_nat_alt unat_word_ariths unat_of_nat)
  have ne: "(of_nat j :: u32) + 768 \<noteq> 0" "(of_nat j :: u32) + 768 \<noteq> 1019" "1019 \<noteq> (of_nat j :: u32) + 768"
    "0 \<noteq> (of_nat j :: u32) + 768" if "j < 224" for j
    using that by (auto simp: word_unat_eq_iff unat_word_ariths unat_of_nat)
  have eq: "(of_nat j :: u32) = of_nat n \<longleftrightarrow> j = n" if "j < 224" for j
    using that n by (auto simp: word_unat_eq_iff unat_of_nat)
  show ?case
    using ih n apic ne [OF n] eq
    by (auto simp: kernel_tables_def map_kernel_table_read lt less_Suc_eq)
qed

lemma apic_pd_index:
  assumes "k < 0x300"
  shows "drop_bit 22 (0xFEC00000 + of_nat k * 0x1000 :: u32) = 1019"
proof -
  have "unat (0xFEC00000 + of_nat k * 0x1000 :: u32) = 0xFEC00000 + k * 0x1000"
    using assms by (simp add: unat_word_ariths unat_of_nat)
  then have "unat (drop_bit 22 (0xFEC00000 + of_nat k * 0x1000 :: u32)) = (0xFEC00000 + k * 0x1000) div 0x400000"
    by (simp add: drop_bit_eq_div unat_div)
  also have "\<dots> = 1019" using assms by simp
  finally show ?thesis by (simp add: word_unat_eq_iff)
qed

lemma kernel_tables_write:
  assumes "kernel_tables n pm" and "n \<le> 224" and "i < 1024"
    and "t = PAGE_DIRECTORY_ADDR \<and> i = 1019 \<or> t = ktable 1019"
  shows "kernel_tables n (write_entry t i e pm)"
proof -
  have lt: "(of_nat j :: u32) + 768 < 1024" if "j < 224" for j
    using that by (simp add: word_less_nat_alt unat_word_ariths unat_of_nat)
  have ne: "(of_nat j :: u32) + 768 \<noteq> 1019" if "j < 224" for j
    using that by (auto simp: word_unat_eq_iff unat_word_ariths unat_of_nat)
  show ?thesis using assms lt ne by (auto simp: kernel_tables_def)
qed

lemma map_apic_page_tables:
  assumes kt: "kernel_tables n pm" and n: "n \<le> 224" and k: "k < 0x300"
    and d: "read_entry pm PAGE_DIRECTORY_ADDR 1019 = 2 \<or> read_entry pm PAGE_DIRECTORY_ADDR 1019 = ktable 1019 OR 3"
  shows "kernel_tables n (map_apic_page (0xFEC00000 + of_nat k * 0x1000) pm) \<and>
    read_entry (map_apic_page (0xFEC00000 + of_nat k * 0x1000) pm) PAGE_DIRECTORY_ADDR 1019 = ktable 1019 OR 3"
proof -
  let ?a = "0xFEC00000 + of_nat k * 0x1000 :: u32"
  define pm1 where "pm1 = (if read_entry pm PAGE_DIRECTORY_ADDR 1019 AND 1 = 0
      then write_entry PAGE_DIRECTORY_ADDR 1019 (ktable 1019 OR 3) pm else pm)"
  have pti: "drop_bit 12 ?a AND 0x3FF < 1024" using pt_index_less [of ?a] by (simp add: pt_index_def)
  have e: "read_entry pm1 PAGE_DIRECTORY_ADDR 1019 = ktable 1019 OR 3"
    using d by (auto simp: pm1_def)
  have kt1: "kernel_tables n pm1"
    using kt n kernel_tables_write [OF kt n] by (simp add: pm1_def)
  have fr: "frame (ktable 1019 OR 3) = ktable 1019" by (rule frame_or) simp_all
  have k1019: "K_PAGE_TABLE_START + 1019 * 4096 = ktable 1019" by (simp add: ktable_def)
  have eq: "map_apic_page ?a pm = write_entry (ktable 1019) (drop_bit 12 ?a AND 0x3FF) (?a OR 0x13) pm1"
    unfolding map_apic_page_def Let_def apic_pd_index [OF k] k1019 pm1_def [symmetric] e fr by simp
  show ?thesis
    unfolding eq using kernel_tables_write [OF kt1 n pti] pti e by simp
qed

lemma apic_loop:
  assumes "kernel_tables n pm" and "n \<le> 224" and "k \<le> 0x300"
    and "read_entry pm PAGE_DIRECTORY_ADDR 1019 = 2"
  shows "kernel_tables n (for_upto k (\<lambda>k. map_apic_page (0xFEC00000 + k * 0x1000)) pm) \<and>
     (let e = read_entry (for_upto k (\<lambda>k. map_apic_page (0xFEC00000 + k * 0x1000)) pm) PAGE_DIRECTORY_ADDR 1019
      in e = 2 \<or> e = ktable 1019 OR 3)"
  using assms(3)
proof (induction k)
  case (Suc k)
  then show ?case using map_apic_page_tables [OF _ assms(2), of _ k] by (simp add: Let_def)
qed (use assms in simp)

lemma pm_init_tables:
  "kernel_tables 224 (pm_init pm)" "cr3 (pm_init pm) = PAGE_DIRECTORY_ADDR"
proof -
  define pm1 where "pm1 = for_upto 1024 (\<lambda>i. write_entry PAGE_DIRECTORY_ADDR i 0x00000002) pm"
  define pm2 where "pm2 = for_upto 1024 (\<lambda>i. write_entry K_FIRST_4M_PT i ((i * 4096) OR 7))
      (write_entry PAGE_DIRECTORY_ADDR 0 (K_FIRST_4M_PT OR 7) pm1)"
  have lt: "unat i < 1024" if "i < 1024" for i :: u32 using that by (simp add: word_less_nat_alt)
  have "read_entry pm1 PAGE_DIRECTORY_ADDR i = 2" if "i < 1024" for i
    using that lt unfolding pm1_def by (simp add: fill_table_read)
  then have d: "read_entry pm2 PAGE_DIRECTORY_ADDR 1019 = 2" and "kernel_tables 0 pm2"
    using lt unfolding pm2_def kernel_tables_def by (simp_all add: fill_table_read)
  from kernel_tables_loop [OF this(2), of 224] d
  have "kernel_tables 224 (for_upto 224 map_kernel_table pm2)"
    "read_entry (for_upto 224 map_kernel_table pm2) PAGE_DIRECTORY_ADDR 1019 = 2" by auto
  from apic_loop [OF this(1) _ _ this(2), of "0x300"]
  have "kernel_tables 224 (mapKernelSpace pm1)"
    unfolding mapKernelSpace_def Let_def pm2_def [symmetric] by simp
  then show "kernel_tables 224 (pm_init pm)"
    unfolding pm_init_def Let_def pm1_def [symmetric] by (simp add: kernel_tables_def enablePaging_def)
  show "cr3 (pm_init pm) = PAGE_DIRECTORY_ADDR"
    by (simp add: pm_init_def Let_def enablePaging_def)
qed

lemma or_offset:
  assumes "page_aligned t"
  shows "t OR (w AND 0xFFF) = t + (w AND 0xFFF)"
proof -
  have "(t AND 0xFFFFF000) AND (w AND 0xFFF) = (t AND w) AND ((0xFFFFF000 :: u32) AND 0xFFF)"
    by (simp only: ac_simps)
  also have "\<dots> = 0" by simp
  finally have "t AND (w AND 0xFFF) = 0" using frame_aligned [OF assms] by simp
  then show ?thesis by (simp add: disjunctive_add_eq_or)
qed

lemma unat_and_FFF: "unat ((w :: u32) AND 0xFFF) = unat w mod 4096"
proof -
  have "w AND 0xFFF = take_bit 12 w" by (simp add: take_bit_eq_mask mask_eq_exp_minus_1)
  then have "w AND 0xFFF = w mod 4096" by (simp add: take_bit_eq_mod)
  then show ?thesis by (simp add: unat_mod)
qed

lemma split_two_levels: "(n :: nat) div 4096 mod 1024 * 4096 + n div 0x400000 * 0x400000 + n mod 4096 = n"
proof -
  define q where "q = n div 4096"
  have d: "n div 0x400000 = q div 1024" by (simp add: q_def div_mult2_eq [symmetric])
  have "q div 1024 * 1024 + q mod 1024 = q" by (rule div_mult_mod_eq)
  then have "q mod 1024 * 4096 + q div 1024 * 0x400000 = q * 4096" by linarith
  moreover have "q * 4096 + n mod 4096 = n" unfolding q_def by (rule div_mult_mod_eq)
  ultimately show ?thesis unfolding d q_def [symmetric] by simp
qed

lemma kernel_page_index: "((n :: nat) + 0xC0000000) div 4096 mod 1024 = n div 4096 mod 1024"
proof -
  have "n + 0xC0000000 = n + 786432 * 4096" by simp
  then have "(n + 0xC0000000) div 4096 = 786432 + n div 4096" by (simp only: div_mult_self1)
  moreover have "(768 * 1024 + n div 4096) mod 1024 = n div 4096 mod 1024" by (rule mod_mult_self3)
  ultimately show ?thesis by simp
qed

text \<open>The address that table \<open>j\<close>, entry \<open>i\<close> and an offset make up.\<close>

lemma page_split:
  fixes v :: u32
  assumes "unat v < 0x38000000" and "unat i = unat v div 4096 mod 1024" and "j = unat v div 0x400000"
    and "unat w mod 4096 = unat v mod 4096" and "frame f = 0"
  shows "frame ((i * 4096 + of_nat j * 1024 * 4096) OR f) OR (w AND 0xFFF) = v"
proof -
  let ?t = "i * 4096 + of_nat j * 1024 * 4096"
  have "?t = 0 + 0x1000 * (i + of_nat j * 1024)" by (simp add: algebra_simps)
  moreover have "page_aligned (0 + 0x1000 * (i + of_nat j * 1024))"
    by (rule page_aligned_add) (simp add: page_aligned_unat)
  ultimately have al: "page_aligned ?t" by (simp only:)
  have j: "j < 224" using assms(1,3) by simp
  have i: "unat i < 1024" using assms(2) by simp
  have "unat ?t = unat i * 4096 + j * 0x400000"
    using i j by (simp add: unat_word_ariths unat_of_nat)
  moreover have "unat (?t + (w AND 0xFFF)) = unat ?t + unat (w AND 0xFFF)"
    using calculation i j unat_and_FFF [of w] by (simp add: unat_word_ariths)
  moreover have "unat i * 4096 + j * 0x400000 + unat v mod 4096 = unat v"
    unfolding assms(2,3) by (rule split_two_levels)
  ultimately have "unat (?t + (w AND 0xFFF)) = unat v" using assms(4) unat_and_FFF [of w] by simp
  then have "?t + (w AND 0xFFF) = v" by (simp only: word_unat_eq_iff)
  then show ?thesis by (simp only: frame_or [OF al assms(5)] or_offset [OF al])
qed

lemma direct_map_translation:
  assumes kt: "kernel_tables 224 pm" and v: "v < 0x38000000"
  shows "mmu (mem pm) (\<lambda>p. p) PAGE_DIRECTORY_ADDR (phys2Virt v) = Some v"
proof -
  let ?va = "phys2Virt v"
  define j where "j = unat v div 0x400000"
  have uv: "unat v < 0x38000000" using v by (simp add: word_less_nat_alt)
  then have j: "j < 224" by (simp add: j_def)
  have uva: "unat ?va = unat v + 0xC0000000"
    using uv by (simp add: phys2Virt_def unat_word_ariths)
  have "unat (pd_index ?va) = j + 768"
    by (simp add: pd_index_def drop_bit_eq_div unat_div uva j_def)
  moreover have "unat (of_nat j + 768 :: u32) = j + 768"
    using j by (simp add: unat_word_ariths unat_of_nat)
  ultimately have pdi: "pd_index ?va = of_nat j + 768" by (simp add: word_unat_eq_iff)
  have pti: "unat (pt_index ?va) = unat v div 4096 mod 1024"
    unfolding unat_pt_index uva by (rule kernel_page_index)
  have pde: "read_entry pm PAGE_DIRECTORY_ADDR (pd_index ?va) = ktable j OR 3"
    and pte: "read_entry pm (ktable j) (pt_index ?va) = (pt_index ?va * 4096 + of_nat j * 1024 * 4096) OR 3"
    using kt j pt_index_less pdi by (auto simp: kernel_tables_def)
  have fr: "frame (ktable j OR 3) = ktable j" by (rule frame_or) simp_all
  have "frame ((pt_index ?va * 4096 + of_nat j * 1024 * 4096) OR 3) OR (?va AND 0xFFF) = v"
  proof (rule page_split [OF uv pti j_def])
    have "(unat v + 786432 * 4096) mod 4096 = unat v mod 4096" by (rule mod_mult_self1)
    then show "unat ?va mod 4096 = unat v mod 4096" unfolding uva by simp
  qed simp
  then show ?thesis
    unfolding mmu_def Let_def pde fr pte using or_low_bit(1) by simp
qed

section \<open>Copied tables\<close>

lemma cow_entry_facts:
  "frame (cow_entry e) = frame e" "cow_entry e AND PAGE_WRITE = 0"
  "cow_entry e AND PAGE_PRESENT = e AND PAGE_PRESENT" "cow_entry e AND PAGE_USER = e AND PAGE_USER"
  "e AND PAGE_WRITE \<noteq> 0 \<Longrightarrow> cow_entry e AND PAGE_COW \<noteq> 0"
proof -
  have m: "((e AND -3) OR 0x200) AND k = (e AND (-3 AND k)) OR (0x200 AND k)" for k :: u32
    by (simp only: bit.conj_disj_distrib bit.conj_disj_distrib2 ac_simps)
  note d = cow_entry_def
  show "frame (cow_entry e) = frame e" "cow_entry e AND PAGE_PRESENT = e AND PAGE_PRESENT"
    "cow_entry e AND PAGE_USER = e AND PAGE_USER" "cow_entry e AND PAGE_WRITE = 0"
    "e AND PAGE_WRITE \<noteq> 0 \<Longrightarrow> cow_entry e AND PAGE_COW \<noteq> 0"
    by (simp_all add: d m or_eq_0_iff)
qed

lemma cow_copy_entry_mem:
  assumes "cow_copy_entry src dst i pm = Some pm'" and "entry_addr src i \<noteq> entry_addr dst i"
  shows "mem pm' = (mem pm)(entry_addr src i := cow_entry (read_entry pm src i),
      entry_addr dst i := cow_entry (read_entry pm src i))"
  using assms by (auto simp: cow_copy_entry_def Let_def cow_entry_def split: if_splits bind_splits)

lemma cow_copy_table_mem:
  assumes al: "page_aligned src" "page_aligned dst" "page_aligned t" and ne: "src \<noteq> dst"
    and i: "i < 1024" and n: "n \<le> 1024" and run: "cow_copy_table n src dst pm = Some pm'"
  shows "read_entry pm' t i =
     (if (t = src \<or> t = dst) \<and> unat i < n then cow_entry (read_entry pm src i) else read_entry pm t i)"
  using n run i al(3)
proof (induction n arbitrary: pm' t i)
  case 0
  then show ?case by simp
next
  case (Suc n)
  then obtain pm1 where r: "cow_copy_table n src dst pm = Some pm1"
    and e: "cow_copy_entry src dst (of_nat n) pm1 = Some pm'" by (auto split: bind_splits)
  have n: "(of_nat n :: u32) < 1024" "unat (of_nat n :: u32) = n"
    using Suc.prems(1) of_nat_less_1024 [of n] by (simp_all add: unat_of_nat)
  have ih: "read_entry pm1 t' k = (if (t' = src \<or> t' = dst) \<and> unat k < n
      then cow_entry (read_entry pm src k) else read_entry pm t' k)" if "k < 1024" "page_aligned t'" for t' k
    using Suc.IH [OF _ r] Suc.prems(1) that by simp
  have "mem pm' = (mem pm1)(entry_addr src (of_nat n) := cow_entry (read_entry pm1 src (of_nat n)),
      entry_addr dst (of_nat n) := cow_entry (read_entry pm1 src (of_nat n)))"
    by (rule cow_copy_entry_mem [OF e]) (use ne al n in simp)
  moreover have "i = of_nat n \<longleftrightarrow> unat i = n" using n(2) by (auto simp: word_unat_eq_iff)
  ultimately show ?case
    using ih [of i t] ih [of "of_nat n" src] Suc.prems(3,4) al n ne by (auto simp: less_Suc_eq)
qed

section \<open>Mapping a page\<close>

lemma page_index_iff: "unat v div 4096 = unat va div 4096 \<longleftrightarrow> pd_index v = pd_index va \<and> pt_index v = pt_index va"
proof
  assume "unat v div 4096 = unat va div 4096"
  moreover have "unat (pd_index w) = unat w div 4096 div 1024" for w
    by (simp add: pd_index_def drop_bit_eq_div unat_div div_mult2_eq [symmetric])
  ultimately show "pd_index v = pd_index va \<and> pt_index v = pt_index va"
    by (simp add: word_unat_eq_iff unat_pt_index)
qed (use page_index_eq in blast)

text \<open>What a write into a page table does to the translation through any directory.\<close>

lemma mmu_write_table:
  assumes "page_aligned dir" and "page_aligned t" and "phys2Virt t \<noteq> dir" and "i < 1024"
  shows "mmu (m(entry_addr (phys2Virt t) i := e)) phys2Virt dir v =
    (let pde = m (entry_addr dir (pd_index v)) in
     if pde AND 1 \<noteq> 0 \<and> frame pde = t \<and> pt_index v = i
     then if e AND 1 = 0 then None else Some (frame e OR (v AND 0xFFF))
     else mmu m phys2Virt dir v)"
proof -
  let ?pde = "m (entry_addr dir (pd_index v))"
  have "entry_addr dir (pd_index v) \<noteq> entry_addr (phys2Virt t) i"
    using assms pd_index_less [of v] by simp
  moreover have "entry_addr (phys2Virt (frame ?pde)) (pt_index v) = entry_addr (phys2Virt t) i \<longleftrightarrow> frame ?pde = t \<and> pt_index v = i"
    using assms frame_page_aligned [of ?pde] pt_index_less [of v] by simp
  ultimately show ?thesis by (simp add: mmu_def Let_def)
qed

lemma mapPage_mmu_dir:
  assumes d: "curPgdVirt pm \<noteq> 0" "read_entry pm (curPgdVirt pm) (pd_index va) AND 1 \<noteq> 0"
    and dir: "page_aligned dir" "phys2Virt tab \<noteq> dir" "tab = frame (read_entry pm (curPgdVirt pm) (pd_index va))"
    and shared: "read_entry pm dir (pd_index va) AND 1 \<noteq> 0" "frame (read_entry pm dir (pd_index va)) = tab"
    and inj: "\<forall>i < 1024. i \<noteq> pd_index va \<longrightarrow> read_entry pm dir i AND 1 \<noteq> 0 \<longrightarrow> frame (read_entry pm dir i) \<noteq> tab"
  shows "\<exists>pm'. mapPage pm va pa fl = Some pm' \<and> curPgdVirt pm' = curPgdVirt pm \<and>
     (\<forall>v. mmu (mem pm') phys2Virt dir v =
        (if unat v div 4096 = unat va div 4096 then Some (frame pa OR (v AND 0xFFF))
         else mmu (mem pm) phys2Virt dir v))"
proof -
  let ?e = "frame pa OR (fl AND 0xFFF) OR 1"
  have al: "page_aligned tab" unfolding dir(3) by (rule frame_page_aligned)
  have "mmu ((mem pm)(entry_addr (phys2Virt tab) (pt_index va) := ?e)) phys2Virt dir v =
      (if unat v div 4096 = unat va div 4096 then Some (frame pa OR (v AND 0xFFF)) else mmu (mem pm) phys2Virt dir v)" for v
    using shared inj pd_index_less [of v] or_low_bit(3) [of "frame pa OR (fl AND 0xFFF)"]
    by (cases "pd_index v = pd_index va")
      (auto simp: mmu_write_table [OF dir(1) al dir(2) pt_index_less] page_index_iff Let_def frame_flags or.assoc)
  then show ?thesis using mapPage_present [OF d] dir(3) by simp
qed

lemma mapPage_mmu:
  assumes d: "curPgdVirt pm \<noteq> 0" "page_aligned (curPgdVirt pm)"
    and pr: "read_entry pm (curPgdVirt pm) (pd_index va) AND 1 \<noteq> 0"
    and sep: "\<forall>i < 1024. phys2Virt (frame (read_entry pm (curPgdVirt pm) i)) \<noteq> curPgdVirt pm"
    and inj: "\<forall>i < 1024. i \<noteq> pd_index va \<longrightarrow>
       frame (read_entry pm (curPgdVirt pm) i) \<noteq> frame (read_entry pm (curPgdVirt pm) (pd_index va))"
  shows "\<exists>pm'. mapPage pm va pa fl = Some pm' \<and> curPgdVirt pm' = curPgdVirt pm \<and>
     (\<forall>v. mmu (mem pm') phys2Virt (curPgdVirt pm') v =
        (if unat v div 4096 = unat va div 4096 then Some (frame pa OR (v AND 0xFFF))
         else mmu (mem pm) phys2Virt (curPgdVirt pm) v))"
  using mapPage_mmu_dir [OF d(1) pr d(2) _ refl pr refl] sep inj pd_index_less by metis

lemma mapPage_mmu_new:
  assumes d: "curPgdVirt pm \<noteq> 0" "page_aligned (curPgdVirt pm)"
    and absent: "read_entry pm (curPgdVirt pm) (pd_index va) AND 1 = 0"
    and new: "alloc_pages (page_phys pm) 0 0 = Some (tab, km)" "page_aligned tab"
    and sep: "phys2Virt tab \<noteq> curPgdVirt pm"
    and inj: "\<forall>i < 1024. i \<noteq> pd_index va \<longrightarrow> read_entry pm (curPgdVirt pm) i AND 1 \<noteq> 0 \<longrightarrow>
       frame (read_entry pm (curPgdVirt pm) i) \<noteq> tab \<and> phys2Virt (frame (read_entry pm (curPgdVirt pm) i)) \<noteq> curPgdVirt pm"
  shows "\<exists>pm'. mapPage pm va pa fl = Some pm' \<and> curPgdVirt pm' = curPgdVirt pm \<and>
     (\<forall>v. mmu (mem pm') phys2Virt (curPgdVirt pm) v =
        (if unat v div 4096 = unat va div 4096 then Some (frame pa OR (v AND 0xFFF))
         else if pd_index v = pd_index va
         then let stale = read_entry pm (phys2Virt tab) (pt_index v) in
           if stale AND 1 = 0 then None else Some (frame stale OR (v AND 0xFFF))
         else mmu (mem pm) phys2Virt (curPgdVirt pm) v))"
proof -
  let ?dir = "curPgdVirt pm" and ?e = "frame pa OR (fl AND 0xFFF) OR 1"
  let ?m = "(mem pm)(entry_addr (curPgdVirt pm) (pd_index va) := tab OR 3)"
  have al: "page_aligned tab" and al': "page_aligned (phys2Virt tab)" and f: "frame (tab OR 3) = tab" and p: "(tab OR 3) AND 1 \<noteq> 0"
    using new frame_or [of tab 3] or_low_bit(1) [of tab] by simp_all
  have table: "mmu ?m phys2Virt ?dir v = (let stale = read_entry pm (phys2Virt tab) (pt_index v) in
      if stale AND 1 = 0 then None else Some (frame stale OR (v AND 0xFFF)))" if "pd_index v = pd_index va" for v
    using that d(2) al' sep f p pd_index_less [of va] pt_index_less [of v] by (simp add: mmu_def Let_def)
  have other: "mmu ?m phys2Virt ?dir v = mmu (mem pm) phys2Virt ?dir v" if "pd_index v \<noteq> pd_index va" for v
  proof -
    let ?pde = "read_entry pm ?dir (pd_index v)"
    have "entry_addr ?dir (pd_index v) \<noteq> entry_addr ?dir (pd_index va)"
      using that d(2) pd_index_less by simp
    moreover have "entry_addr (phys2Virt (frame ?pde)) (pt_index v) \<noteq> entry_addr ?dir (pd_index va)" if "?pde AND 1 \<noteq> 0"
      using that \<open>pd_index v \<noteq> pd_index va\<close> d(2) inj pd_index_less [of v] pd_index_less [of va] pt_index_less [of v] frame_page_aligned [of ?pde]
      by simp
    ultimately show ?thesis by (simp add: mmu_def Let_def)
  qed
  have "mmu (?m(entry_addr (phys2Virt tab) (pt_index va) := ?e)) phys2Virt ?dir v =
     (if unat v div 4096 = unat va div 4096 then Some (frame pa OR (v AND 0xFFF))
      else if pd_index v = pd_index va
      then let stale = read_entry pm (phys2Virt tab) (pt_index v) in
        if stale AND 1 = 0 then None else Some (frame stale OR (v AND 0xFFF))
      else mmu (mem pm) phys2Virt ?dir v)" for v
  proof (cases "pd_index v = pd_index va")
    case True
    then show ?thesis
      using f p table [OF True] or_low_bit(3) [of "frame pa OR (fl AND 0xFFF)"]
      by (simp add: mmu_write_table [OF d(2) al sep pt_index_less] page_index_iff Let_def frame_flags or.assoc)
  next
    case False
    then show ?thesis
      using inj d(2) other [OF False] pd_index_less [of v] pd_index_less [of va]
      by (auto simp: mmu_write_table [OF d(2) al sep pt_index_less] page_index_iff Let_def)
  qed
  then show ?thesis using d absent new by (simp add: mapPage_def Let_def)
qed

section \<open>Properties\<close>


text \<open>A directory with one table, for a page of that table and for a page that needs a new one.\<close>

definition small_pm :: PageManager where
  "small_pm = \<lparr>curPgdVirt = 0xC0400000, mem = (\<lambda>_. 0)(entry_addr 0xC0400000 256 := 0x500003, entry_addr 0xC0001000 1 := 1),
     page_phys = small_memory, cr0 = 0, cr3 = 0\<rparr>"

lemma small_pm_entry:
  "i < 1024 \<Longrightarrow> read_entry small_pm 0xC0400000 i = (if i = 256 then 0x500003 else 0)"
  by (simp add: small_pm_def page_aligned_def)

lemma small_memory_first: "map_option fst (alloc_pages small_memory 0 0) = Some 0x1000"
  by code_simp


text \<open>
  C24. After \<open>PageManager::init\<close> the processor translates the direct mapping the way
  \<open>virt2Phys\<close> and \<open>phys2Virt\<close> assume: for every physical address below 896 MiB, the
  address \<open>phys2Virt\<close> gives is mapped to it.
\<close>

theorem direct_map_correct:
  assumes "v < 0x38000000"
  shows "mmu (mem (pm_init pm)) (\<lambda>p. p) (cr3 (pm_init pm)) (phys2Virt v) = Some v"
  unfolding pm_init_tables(2) by (rule direct_map_translation [OF pm_init_tables(1) assms])

theorem direct_map_correct_witness:
  "mmu (mem (pm_init small_pm)) (\<lambda>p. p) (cr3 (pm_init small_pm)) 0xC1234567 = Some 0x1234567"
  using direct_map_correct [of "0x1234567" small_pm]
  by (simp add: phys2Virt_def)

text \<open>
  C35. The copy of a page table on fork: both tables end up with the same entries, each
  with the frame, the present and the user bit it had, none writable, and the entries
  that were writable marked for copy on write. No other table changes.
\<close>

theorem cow_copy_table_shares:
  assumes "page_aligned src" and "page_aligned dst" and "src \<noteq> dst"
    and "cow_copy_table 1024 src dst pm = Some pm'"
  shows "(\<forall>i < 1024. read_entry pm' dst i = read_entry pm' src i \<and>
       frame (read_entry pm' src i) = frame (read_entry pm src i) \<and>
       read_entry pm' src i AND PAGE_PRESENT = read_entry pm src i AND PAGE_PRESENT \<and>
       read_entry pm' src i AND PAGE_USER = read_entry pm src i AND PAGE_USER \<and>
       read_entry pm' src i AND PAGE_WRITE = 0 \<and>
       (read_entry pm src i AND PAGE_WRITE \<noteq> 0 \<longrightarrow> read_entry pm' src i AND PAGE_COW \<noteq> 0)) \<and>
     (\<forall>t i. page_aligned t \<longrightarrow> i < 1024 \<longrightarrow> t \<noteq> src \<longrightarrow> t \<noteq> dst \<longrightarrow> read_entry pm' t i = read_entry pm t i)"
proof -
  note r = cow_copy_table_mem [OF assms(1,2) _ assms(3) _ _ assms(4)]
  have lt: "unat i < 1024" if "i < 1024" for i :: u32 using that by (simp add: word_less_nat_alt)
  have "read_entry pm' src i = cow_entry (read_entry pm src i)"
    "read_entry pm' dst i = cow_entry (read_entry pm src i)" if "i < 1024" for i
    using r [of src i] r [of dst i] assms(1,2) that lt [OF that] by auto
  moreover have "read_entry pm' t i = read_entry pm t i"
    if "page_aligned t" "i < 1024" "t \<noteq> src" "t \<noteq> dst" for t i
    using r [of t i] that by auto
  ultimately show ?thesis using cow_entry_facts by auto
qed

lemma cow_copy_table_idle:
  assumes "idle (dma_zone (page_phys pm))" and "idle (normal_zone (page_phys pm))"
    and "idle (high_zone (page_phys pm))"
  shows "\<exists>pm'. cow_copy_table n src dst pm = Some pm' \<and> page_phys pm' = page_phys pm"
proof (induction n)
  case (Suc n)
  then obtain pm1 where pm1: "cow_copy_table n src dst pm = Some pm1" "page_phys pm1 = page_phys pm"
    by blast
  have "km_increment_ref_count (page_phys pm) p = Some (page_phys pm)" for p
    using assms
    by (cases "zone_of_pfn (p div PAGE_SIZE)")
      (simp_all add: km_increment_ref_count_def Let_def zone_increment_ref_count_def idle_def get_zone_def set_zone_def)
  then show ?case using pm1 by (simp add: cow_copy_entry_def Let_def)
qed simp

definition cow_pm :: PageManager where
  "cow_pm = small_pm\<lparr>mem := (\<lambda>_. 0)(entry_addr 0xC0500000 5 := 0x123007),
     page_phys := \<lparr>dma_zone = fresh_zone, normal_zone = fresh_zone, high_zone = fresh_zone\<rparr>\<rparr>"

theorem cow_copy_table_shares_witness:
  "\<exists>pm'. cow_copy_table 1024 0xC0500000 0xC0600000 cow_pm = Some pm' \<and>
     read_entry pm' 0xC0600000 5 = read_entry pm' 0xC0500000 5 \<and>
     frame (read_entry pm' 0xC0500000 5) = 0x123000 \<and> read_entry pm' 0xC0500000 5 AND PAGE_WRITE = 0 \<and>
     read_entry pm' 0xC0500000 5 AND PAGE_COW \<noteq> 0"
proof -
  obtain pm' where r: "cow_copy_table 1024 0xC0500000 0xC0600000 cow_pm = Some pm'"
    using cow_copy_table_idle [of cow_pm 1024 "0xC0500000" "0xC0600000"]
    by (auto simp: cow_pm_def idle_def fresh_zone_def)
  have e: "read_entry cow_pm 0xC0500000 5 = 0x123007" by (simp add: cow_pm_def)
  have five: "(5 :: u32) < 1024" by simp
  have "page_aligned 0xC0500000" "page_aligned 0xC0600000" "(0xC0500000 :: u32) \<noteq> 0xC0600000"
    by (simp_all add: page_aligned_def)
  from cow_copy_table_shares [OF this r] five e r show ?thesis by auto
qed

text \<open>
  \<open>unmapPage\<close> reaches the table through its physical address instead of the direct
  mapping: wherever that address is not itself a table or the directory, no translation
  changes, so the page stays mapped.
\<close>

theorem unmapPage_keeps_mapping:
  assumes "page_aligned (curPgdVirt pm)"
    and "curPgdVirt pm \<noteq> frame (read_entry pm (curPgdVirt pm) (pd_index va))"
    and "\<forall>i < 1024. phys2Virt (frame (read_entry pm (curPgdVirt pm) i)) \<noteq>
           frame (read_entry pm (curPgdVirt pm) (pd_index va))"
  shows "mmu (mem (unmapPage pm va)) phys2Virt (curPgdVirt pm) v = mmu (mem pm) phys2Virt (curPgdVirt pm) v"
proof -
  let ?dir = "curPgdVirt pm"
  let ?t = "frame (read_entry pm ?dir (pd_index va))"
  let ?m = "(mem pm)(entry_addr ?t (pt_index va) := 2)"
  have al: "page_aligned ?t" "page_aligned (phys2Virt (frame x))" for x by (simp_all add: frame_page_aligned)
  have "?m (entry_addr ?dir (pd_index v)) = read_entry pm ?dir (pd_index v)"
    using assms(1,2) al pd_index_less pt_index_less by (metis entry_addr_eq fun_upd_apply)
  moreover have "entry_addr (phys2Virt (frame (read_entry pm ?dir (pd_index v)))) (pt_index v) \<noteq>
      entry_addr ?t (pt_index va)"
    using assms(3) al pd_index_less pt_index_less by (metis entry_addr_eq)
  ultimately have "mmu ?m phys2Virt ?dir v = mmu (mem pm) phys2Virt ?dir v"
    by (simp add: mmu_def Let_def)
  then show ?thesis by (simp add: unmapPage_def Let_def)
qed

theorem unmapPage_keeps_mapping_witness:
  "mmu (mem (unmapPage small_pm 0x40001000)) phys2Virt 0xC0400000 0x40001234 =
   mmu (mem small_pm) phys2Virt 0xC0400000 0x40001234"
proof -
  have pdi: "pd_index 0x40001000 = 256" by (simp add: pd_index_def)
  have cur: "curPgdVirt small_pm = 0xC0400000" by (simp add: small_pm_def)
  show ?thesis
    by (rule unmapPage_keeps_mapping [of small_pm "0x40001000", unfolded cur])
      (auto simp: pdi small_pm_entry page_aligned_def phys2Virt_def)
qed

end
