(* ===== verification/KernelMem.thy ===== *)
theory KernelMem
  imports Slab VmTree Paging
begin

text \<open>
  The kernel's memory object, \<open>kernel/memory/kernel_memory.cpp\<close>: the zones, the page
  manager, the slab allocator and the tree of the vmalloc region put together, with
  \<open>kmalloc\<close>, \<open>vmalloc\<close> and \<open>kmap\<close>. The zones are shared: an operation of the page manager
  or of the slab allocator runs on the zones of this object and puts them back.
\<close>

section \<open>State\<close>

record KernelMemory =
  zones :: PhysMemory
  page_manager :: PageManager
  slab_allocator :: SlabAllocator
  vmalloc_tree :: VirtualMemoryTree
  next_kmap_addr :: u32

definition on_paging :: "(PageManager \<Rightarrow> PageManager option) \<Rightarrow> KernelMemory \<Rightarrow> KernelMemory option" where
  "on_paging f k =
     do { pm \<leftarrow> f ((page_manager k)\<lparr>page_phys := zones k\<rparr>);
          Some (k\<lparr>page_manager := pm, zones := page_phys pm\<rparr>) }"

definition on_slab ::
  "(SlabAllocator \<Rightarrow> ('a \<times> SlabAllocator) option) \<Rightarrow> KernelMemory \<Rightarrow> ('a \<times> KernelMemory) option" where
  "on_slab f k =
     do { (r, a) \<leftarrow> f ((slab_allocator k)\<lparr>heap := (heap (slab_allocator k))\<lparr>phys := zones k\<rparr>\<rparr>);
          Some (r, k\<lparr>slab_allocator := a, zones := phys (heap a)\<rparr>) }"

section \<open>Operations\<close>

definition km_init :: "KernelMemory \<Rightarrow> KernelMemory option" where
  "km_init k =
     do { k1 \<leftarrow> on_paging (\<lambda>pm. Some (pm_init pm)) k;
          zs \<leftarrow> km_init_zones (zones k1);
          Some (k1\<lparr>zones := zs, slab_allocator := slab_init (slab_allocator k1)\<rparr>) }"

definition km_kmalloc :: "KernelMemory \<Rightarrow> u32 \<Rightarrow> (u32 \<times> KernelMemory) option" where
  "km_kmalloc k sz = on_slab (kmalloc sz) k"

definition km_kfree :: "KernelMemory \<Rightarrow> u32 \<Rightarrow> KernelMemory option" where
  "km_kfree k addr = map_option snd (on_slab (\<lambda>a. map_option (Pair ()) (kfree addr a)) k)"

text \<open>The roll back of \<open>vmalloc\<close>: the pages before the one that failed.\<close>

primrec vmalloc_undo :: "u32 \<Rightarrow> nat \<Rightarrow> KernelMemory \<Rightarrow> KernelMemory option" where
  "vmalloc_undo virt_addr 0 k = Some k"
| "vmalloc_undo virt_addr (Suc j) k =
     do { k1 \<leftarrow> vmalloc_undo virt_addr j k;
          let prev_virt = virt_addr + of_nat j * PAGE_SIZE;
              prev_phys = virt2Phys prev_virt;
              ty = if prev_phys < getWatermark (normal_zone (zones k1)) WMARK_HIGH
                   then ZONE_NORMAL else ZONE_HIGH
          in do { k2 \<leftarrow> on_paging (\<lambda>pm. Some (unmapPage pm prev_virt)) k1;
                  z \<leftarrow> freePages (get_zone (zones k2) ty) (drop_bit 12 prev_phys) 1;
                  Some (k2\<lparr>zones := set_zone (zones k2) ty z\<rparr>) } }"

text \<open>A page for \<open>vmalloc\<close>, from the normal zone and then from the high one.\<close>

definition vmalloc_page :: "KernelMemory \<Rightarrow> (u32 \<times> KernelMemory) option" where
  "vmalloc_page k =
     do { (pfn, z) \<leftarrow> allocPages (normal_zone (zones k)) 0 0;
          let k1 = k\<lparr>zones := (zones k)\<lparr>normal_zone := z\<rparr>\<rparr> in
          if pfn \<noteq> 0 then Some (pfn, k1)
          else do { (pfn, z) \<leftarrow> allocPages (high_zone (zones k1)) 0 0;
                    Some (pfn, k1\<lparr>zones := (zones k1)\<lparr>high_zone := z\<rparr>\<rparr>) } }"

text \<open>Page \<open>i\<close> and the ones after it; \<open>n\<close> remain.\<close>

primrec vmalloc_loop :: "u32 \<Rightarrow> nat \<Rightarrow> nat \<Rightarrow> KernelMemory \<Rightarrow> (u32 \<times> KernelMemory) option" where
  "vmalloc_loop virt_addr i 0 k = Some (virt_addr, k)"
| "vmalloc_loop virt_addr i (Suc n) k =
     do { (pfn, k1) \<leftarrow> vmalloc_page k;
          if pfn = 0
          then do { k2 \<leftarrow> vmalloc_undo virt_addr i k1;
                    t \<leftarrow> vt_free (vmalloc_tree k2) virt_addr;
                    Some (0, k2\<lparr>vmalloc_tree := t\<rparr>) }
          else do { k2 \<leftarrow> on_paging (\<lambda>pm. mapPage pm (virt_addr + of_nat i * PAGE_SIZE) (push_bit 12 pfn) 3) k1;
                    vmalloc_loop virt_addr (i + 1) n k2 } }"

definition vmalloc :: "KernelMemory \<Rightarrow> u32 \<Rightarrow> (u32 \<times> KernelMemory) option" where
  "vmalloc k sz =
     (if sz = 0 then Some (0, k)
      else let pages = drop_bit 12 (sz + PAGE_SIZE - 1) in
        do { (virt_addr, t) \<leftarrow> vt_allocate (vmalloc_tree k) (pages * PAGE_SIZE);
             let k1 = k\<lparr>vmalloc_tree := t\<rparr> in
             if virt_addr = 0 then Some (0, k1)
             else vmalloc_loop virt_addr 0 (unat pages) k1 })"

text \<open>The loop of \<open>vfree\<close>, which ends at the page whose physical address would be 0.\<close>

partial_function (option) vfree_loop :: "u32 \<Rightarrow> KernelMemory \<Rightarrow> KernelMemory option" where
  [code]: "vfree_loop current_addr k =
     (let phys_addr = virt2Phys current_addr in
      if phys_addr = 0 then Some k
      else Option.bind (on_paging (\<lambda>pm. Some (unmapPage pm current_addr)) k) (\<lambda>k1.
        Option.bind
          (case get_zone_for_allocation (zones k1) PAGE_SIZE of
             None \<Rightarrow> Some k1
           | Some ty \<Rightarrow>
               map_option (\<lambda>z. k1\<lparr>zones := set_zone (zones k1) ty z\<rparr>)
                 (freePages (get_zone (zones k1) ty) (drop_bit 12 phys_addr) 0))
          (vfree_loop (current_addr + PAGE_SIZE))))"

definition vfree :: "KernelMemory \<Rightarrow> u32 \<Rightarrow> KernelMemory option" where
  "vfree k virt_addr =
     (if virt_addr = 0 then Some k
      else if virt_addr < VMALLOC_START \<or> virt_addr \<ge> VMALLOC_END then Some k
      else do { k1 \<leftarrow> vfree_loop virt_addr k;
                t \<leftarrow> vt_free (vmalloc_tree k1) virt_addr;
                Some (k1\<lparr>vmalloc_tree := t\<rparr>) })"

definition kmap :: "KernelMemory \<Rightarrow> u32 \<Rightarrow> (u32 \<times> KernelMemory) option" where
  "kmap k phys_addr =
     (let virt_addr = next_kmap_addr k;
          k1 = k\<lparr>next_kmap_addr := next_kmap_addr k + PAGE_SIZE\<rparr>
      in do { k2 \<leftarrow> on_paging (\<lambda>pm. mapPage pm virt_addr (phys_addr AND NOT (PAGE_SIZE - 1)) 3) k1;
              Some (virt_addr OR (phys_addr AND 0xFFF), k2) })"

definition kunmap :: "KernelMemory \<Rightarrow> u32 \<Rightarrow> KernelMemory option" where
  "kunmap k addr =
     (if addr = 0 then Some k
      else let virt_addr = addr AND NOT 0xFFF in
        if virt_addr \<ge> KMAP_START \<and> virt_addr < KMAP_END
        then on_paging (\<lambda>pm. Some (unmapPage pm virt_addr)) k
        else Some k)"

section \<open>Pages of a vmalloc request\<close>

lemma vmalloc_bytes:
  assumes "sz \<noteq> 0" and "sz \<le> 0xFFFFF000"
  shows "drop_bit 12 (sz + PAGE_SIZE - 1) * PAGE_SIZE \<noteq> 0"
proof -
  have d: "drop_bit 12 (sz + PAGE_SIZE - 1) = (sz + PAGE_SIZE - 1) div PAGE_SIZE"
    by (simp add: drop_bit_eq_div)
  have n: "unat ((sz + PAGE_SIZE - 1) div PAGE_SIZE) = (unat sz + 4095) div 4096"
    using assms(2) by (rule unat_pages)
  have "0 < unat sz" using assms(1) by (simp add: unat_gt_0)
  moreover have "unat sz \<le> 4294963200" using assms(2) by (simp add: word_le_nat_alt)
  ultimately have "0 < (unat sz + 4095) div 4096" "(unat sz + 4095) div 4096 * 4096 < 4294967296"
    by (simp_all add: div_greater_zero_iff)
  then have "unat ((sz + PAGE_SIZE - 1) div PAGE_SIZE * PAGE_SIZE) \<noteq> 0"
    by (simp only: unat_word_ariths(2) n) simp
  then show ?thesis unfolding d by (metis unat_0)
qed

lemma vmalloc_bytes_wrap:
  assumes "\<not> sz \<le> 0xFFFFF000"
  shows "drop_bit 12 (sz + PAGE_SIZE - 1) = 0"
proof -
  have "4294963200 < unat sz" using assms by (simp add: word_le_nat_alt)
  then have "unat (sz + 4095) < 4096"
    using unat_u32_less [of sz] by (simp add: unat_word_ariths le_mod_geq)
  then have "unat ((sz + 4095) div 4096) = 0" by (simp only: unat_div) simp
  then show ?thesis by (simp add: drop_bit_eq_div unat_eq_0 add.commute)
qed

section \<open>The address kmap returns\<close>

lemma page_offset_zero: "page_aligned n \<Longrightarrow> n AND 0xFFF = 0"
proof -
  assume "page_aligned n"
  then have "frame n = n" by (rule frame_aligned)
  then have "n AND 0xFFF = frame n AND 0xFFF" by simp
  also have "\<dots> = 0" by (simp add: and.assoc)
  finally show ?thesis .
qed

lemma kmap_addr:
  assumes "page_aligned n"
  shows "frame (n OR (pa AND 0xFFF)) = n" and "(n OR (pa AND 0xFFF)) AND 0xFFF = pa AND 0xFFF"
proof -
  show "frame (n OR (pa AND 0xFFF)) = n" using assms by (rule frame_or) (simp add: and.assoc)
  show "(n OR (pa AND 0xFFF)) AND 0xFFF = pa AND 0xFFF"
    using page_offset_zero [OF assms] by (simp add: bit.conj_disj_distrib2 and.assoc)
qed

lemma frame_offset: "frame pa OR (pa AND 0xFFF) = (pa :: u32)"
proof -
  have "frame pa OR (pa AND 0xFFF) = pa AND (0xFFFFF000 OR 0xFFF)" by (rule bit.conj_disj_distrib [symmetric])
  also have "(0xFFFFF000 OR 0xFFF :: u32) = - 1" by simp
  finally show ?thesis by simp
qed

lemma same_page_iff: "page_aligned n \<Longrightarrow> unat w div 4096 = unat n div 4096 \<longleftrightarrow> frame w = n"
proof -
  assume a: "page_aligned n"
  then have "unat n = unat n div 4096 * 4096" by (simp add: page_aligned_unat mod_0_imp_dvd)
  moreover have "unat (frame w) = unat w div 4096 * 4096" by (rule unat_frame)
  ultimately show ?thesis by (metis mult_cancel2 word_unat_eq_iff zero_neq_numeral)
qed

section \<open>Properties\<close>

text \<open>
  The vmalloc region of the layout is empty (it starts where it ends): every request
  fails and changes nothing, except that one within a page of 4 GiB wraps around to no
  pages and gets the start of the region with nothing mapped there; \<open>vfree\<close> never does
  anything.
\<close>

theorem vmalloc_region_empty:
  assumes "single (vmalloc_tree k) VMALLOC_START (VMALLOC_END - VMALLOC_START)"
  shows "vmalloc k sz = Some (if sz \<le> 0xFFFFF000 then 0 else VMALLOC_START, k) \<and> vfree k addr = Some k"
proof -
  have s: "single (vmalloc_tree k) VMALLOC_START 0"
    using assms by (simp add: layout_defs)
  have "vmalloc k sz = Some (if sz \<le> 0xFFFFF000 then 0 else VMALLOC_START, k)"
  proof (cases "sz = 0 \<or> \<not> sz \<le> 0xFFFFF000")
    case True
    then show ?thesis
      using vmalloc_bytes_wrap [of sz] allocate_single_exact [OF s]
      by (auto simp: vmalloc_def Let_def layout_defs)
  next
    case False
    then have "0 < drop_bit 12 (sz + PAGE_SIZE - 1) * PAGE_SIZE"
      using vmalloc_bytes by (simp add: word_gt_0)
    from allocate_single_fails [OF s this] False show ?thesis by (simp add: vmalloc_def Let_def)
  qed
  then show ?thesis by (simp add: vfree_def layout_defs not_less)
qed

text \<open>
  Mapping a physical address temporarily, once the table of the next kmap page
  exists: the address returned is translated to the physical address, every other page is
  translated as before, and the next call uses the next page.
\<close>

theorem kmap_translates:
  assumes d: "curPgdVirt (page_manager k) \<noteq> 0" "page_aligned (curPgdVirt (page_manager k))"
    and n: "page_aligned (next_kmap_addr k)"
    and pr: "read_entry (page_manager k) (curPgdVirt (page_manager k)) (pd_index (next_kmap_addr k)) AND 1 \<noteq> 0"
    and sep: "\<forall>i < 1024. phys2Virt (frame (read_entry (page_manager k) (curPgdVirt (page_manager k)) i)) \<noteq>
       curPgdVirt (page_manager k)"
    and inj: "\<forall>i < 1024. i \<noteq> pd_index (next_kmap_addr k) \<longrightarrow>
       frame (read_entry (page_manager k) (curPgdVirt (page_manager k)) i) \<noteq>
       frame (read_entry (page_manager k) (curPgdVirt (page_manager k)) (pd_index (next_kmap_addr k)))"
  shows "\<exists>v k'. kmap k pa = Some (v, k') \<and> frame v = next_kmap_addr k \<and>
     next_kmap_addr k' = next_kmap_addr k + PAGE_SIZE \<and> zones k' = zones k \<and>
     mmu (mem (page_manager k')) phys2Virt (curPgdVirt (page_manager k')) v = Some pa \<and>
     (\<forall>w. frame w \<noteq> next_kmap_addr k \<longrightarrow>
        mmu (mem (page_manager k')) phys2Virt (curPgdVirt (page_manager k')) w =
        mmu (mem (page_manager k)) phys2Virt (curPgdVirt (page_manager k)) w)"
proof -
  let ?pm = "(page_manager k)\<lparr>page_phys := zones k\<rparr>"
  have f: "frame (frame pa) = frame pa" "pa AND - 4096 = frame pa" by (simp_all add: and.assoc frame_mask)
  obtain pm' where m: "mapPage ?pm (next_kmap_addr k) (frame pa) 3 = Some pm'"
    and cur: "curPgdVirt pm' = curPgdVirt (page_manager k)"
    and tr: "\<forall>v. mmu (mem pm') phys2Virt (curPgdVirt pm') v =
        (if unat v div 4096 = unat (next_kmap_addr k) div 4096 then Some (frame pa OR (v AND 0xFFF))
         else mmu (mem (page_manager k)) phys2Virt (curPgdVirt (page_manager k)) v)"
    using mapPage_mmu [of ?pm "next_kmap_addr k" "frame pa" 3] d pr sep inj by (auto simp: f)
  have "page_phys pm' = zones k"
    using m mapPage_present [of ?pm "next_kmap_addr k"] d(1) pr by auto
  then show ?thesis
    using m tr kmap_addr [OF n] frame_offset [of pa]
    by (simp add: kmap_def on_paging_def Let_def same_page_iff [OF n] f(2))
qed

definition kmap_memory :: KernelMemory where
  "kmap_memory = \<lparr>zones = small_memory, page_manager = small_pm\<lparr>mem := (\<lambda>_. 0)(entry_addr 0xC0400000 992 := 0x500003)\<rparr>,
     slab_allocator = \<lparr>general_caches = [], heap = small_heap\<rparr>,
     vmalloc_tree = make_tree 0xC0600000 VMALLOC_START VMALLOC_END, next_kmap_addr = KMAP_START\<rparr>"

theorem vmalloc_region_empty_witness:
  "vmalloc kmap_memory 0x1000 = Some (0, kmap_memory) \<and> vmalloc kmap_memory 0xFFFFFFFF = Some (0xF8000000, kmap_memory)"
proof -
  have s: "single (vmalloc_tree kmap_memory) VMALLOC_START (VMALLOC_END - VMALLOC_START)"
    unfolding kmap_memory_def KernelMemory.simps by (rule make_tree_single) (simp_all)
  show ?thesis
    using vmalloc_region_empty [OF s, of "0x1000" 0] vmalloc_region_empty [OF s, of "0xFFFFFFFF" 0]
    by (simp add: layout_defs)
qed

lemma kmap_memory_entry:
  "i < 1024 \<Longrightarrow> read_entry (page_manager kmap_memory) 0xC0400000 i = (if i = 992 then 0x500003 else 0)"
  by (simp add: kmap_memory_def page_aligned_def)

theorem kmap_translates_witness:
  "\<exists>v k'. kmap kmap_memory 0x123456 = Some (v, k') \<and> frame v = 0xF8000000 \<and>
     mmu (mem (page_manager k')) phys2Virt (curPgdVirt (page_manager k')) v = Some 0x123456"
proof -
  have c: "curPgdVirt (page_manager kmap_memory) = 0xC0400000" "next_kmap_addr kmap_memory = 0xF8000000"
    "pd_index 0xF8000000 = 992"
    by (simp_all add: kmap_memory_def small_pm_def layout_defs pd_index_def)
  have "\<exists>v k'. kmap kmap_memory 0x123456 = Some (v, k') \<and> frame v = next_kmap_addr kmap_memory \<and>
     next_kmap_addr k' = next_kmap_addr kmap_memory + PAGE_SIZE \<and> zones k' = zones kmap_memory \<and>
     mmu (mem (page_manager k')) phys2Virt (curPgdVirt (page_manager k')) v = Some 0x123456 \<and>
     (\<forall>w. frame w \<noteq> next_kmap_addr kmap_memory \<longrightarrow>
        mmu (mem (page_manager k')) phys2Virt (curPgdVirt (page_manager k')) w =
        mmu (mem (page_manager kmap_memory)) phys2Virt (curPgdVirt (page_manager kmap_memory)) w)"
    by (rule kmap_translates)
      (auto simp: c kmap_memory_entry page_aligned_def phys2Virt_def)
  then show ?thesis unfolding c by blast
qed

end
