(* ===== verification/UserMem.thy ===== *)
theory UserMem
  imports Paging
begin

text \<open>
  The address space of a process, \<open>kernel/memory/user_memory.cpp\<close>: an array of areas and
  the page tables below the directory \<open>pgd\<close>. The three function pointers the class is
  initialised with are fields of the state; they act on the physical pages. Page table
  memory is that of the theory \<open>Paging\<close>.
\<close>

section \<open>State\<close>

record MemoryArea =
  area_start :: u32
  area_end :: u32
  area_flags :: u32
  area_type :: u32

abbreviation MEM_TYPE_STACK :: u32 where
  "MEM_TYPE_STACK \<equiv> 4"

abbreviation (input) MAX_MEMORY_AREAS :: nat where "MAX_MEMORY_AREAS \<equiv> 32"

record UserMemory =
  allocate_physical_page :: "PhysMemory \<Rightarrow> (u32 \<times> PhysMemory) option"
  free_physical_page :: "u32 \<Rightarrow> PhysMemory \<Rightarrow> PhysMemory option"
  phys_to_virt :: "u32 \<Rightarrow> u32"
  pgd_phys :: u32
  pgd :: u32
  start_code :: u32
  end_code :: u32
  start_data :: u32
  end_data :: u32
  start_heap :: u32
  end_heap :: u32
  start_stack :: u32
  end_stack :: u32
  total_vm :: u32
  locked_vm :: u32
  areas :: "MemoryArea list"
  num_areas :: u32

definition zero_area :: MemoryArea where
  "zero_area = \<lparr>area_start = 0, area_end = 0, area_flags = 0, area_type = 0\<rparr>"

definition um_init ::
  "UserMemory \<Rightarrow> u32 \<Rightarrow> u32 \<Rightarrow> (PhysMemory \<Rightarrow> (u32 \<times> PhysMemory) option) \<Rightarrow>
   (u32 \<Rightarrow> PhysMemory \<Rightarrow> PhysMemory option) \<Rightarrow> (u32 \<Rightarrow> u32) \<Rightarrow> UserMemory" where
  "um_init um page_dir_phys page_dir alloc_page free_page ptv =
     um\<lparr>pgd := page_dir, pgd_phys := page_dir_phys, num_areas := 0, total_vm := 0, locked_vm := 0,
        allocate_physical_page := alloc_page, free_physical_page := free_page, phys_to_virt := ptv,
        areas := replicate MAX_MEMORY_AREAS zero_area\<rparr>"

definition um_clone :: "UserMemory \<Rightarrow> UserMemory \<Rightarrow> UserMemory" where
  "um_clone um src =
     um\<lparr>allocate_physical_page := allocate_physical_page src,
        free_physical_page := free_physical_page src, phys_to_virt := phys_to_virt src,
        areas := areas src, num_areas := num_areas src,
        start_code := start_code src, end_code := end_code src,
        start_data := start_data src, end_data := end_data src,
        start_heap := start_heap src, end_heap := end_heap src,
        start_stack := start_stack src, end_stack := end_stack src,
        total_vm := total_vm src, locked_vm := locked_vm src\<rparr>"

section \<open>Areas\<close>

definition round_up :: "u32 \<Rightarrow> u32" where
  "round_up sz = (sz + PAGE_SIZE - 1) AND NOT (PAGE_SIZE - 1)"

text \<open>The loop over the gaps between neighbours, from index \<open>i\<close>, \<open>k\<close> gaps to go.\<close>

primrec find_gap :: "MemoryArea list \<Rightarrow> u32 \<Rightarrow> nat \<Rightarrow> nat \<Rightarrow> u32 option option" where
  "find_gap as sz i 0 = Some None"
| "find_gap as sz i (Suc k) =
     do { a \<leftarrow> arr_get as i;
          b \<leftarrow> arr_get as (Suc i);
          if area_start b - area_end a \<ge> sz then Some (Some (area_end a))
          else find_gap as sz (Suc i) k }"

definition um_find_free_area :: "UserMemory \<Rightarrow> u32 \<Rightarrow> u32 option" where
  "um_find_free_area um sz0 =
     (let sz = round_up sz0 in
      if num_areas um = 0 then Some USER_START
      else do {
        a0 \<leftarrow> arr_get (areas um) 0;
        if area_start a0 > USER_START \<and> area_start a0 - USER_START \<ge> sz then Some USER_START
        else do {
          g \<leftarrow> find_gap (areas um) sz 0 (unat (num_areas um - 1));
          case g of
            Some r \<Rightarrow> Some r
          | None \<Rightarrow>
              do { l \<leftarrow> arr_get (areas um) (unat (num_areas um - 1));
                   if area_end l < USER_END \<and> USER_END - area_end l \<ge> sz
                   then Some (area_end l) else Some 0 } } })"

primrec largest_gap :: "MemoryArea list \<Rightarrow> nat \<Rightarrow> nat \<Rightarrow> u32 \<Rightarrow> u32 option" where
  "largest_gap as i 0 largest = Some largest"
| "largest_gap as i (Suc k) largest =
     do { a \<leftarrow> arr_get as i;
          b \<leftarrow> arr_get as (Suc i);
          let gap = area_start b - area_end a in
          largest_gap as (Suc i) k (if gap > largest then gap else largest) }"

definition find_largest_free_area :: "UserMemory \<Rightarrow> u32 option" where
  "find_largest_free_area um =
     (if num_areas um = 0 then Some (USER_END - USER_START)
      else do {
        a0 \<leftarrow> arr_get (areas um) 0;
        largest \<leftarrow> largest_gap (areas um) 0 (unat (num_areas um - 1))
                    (if area_start a0 > USER_START then area_start a0 - USER_START else 0);
        l \<leftarrow> arr_get (areas um) (unat (num_areas um - 1));
        Some (if area_end l < USER_END \<and> USER_END - area_end l > largest
              then USER_END - area_end l else largest) })"

section \<open>Page tables\<close>

abbreviation (input) zero_page :: "u32 \<Rightarrow> PageManager \<Rightarrow> PageManager" where
  "zero_page page pm \<equiv> for_upto 1024 (\<lambda>i. write_entry page i 0) pm"

text \<open>The table of an address, created when it does not exist.\<close>

definition ensure_table :: "UserMemory \<Rightarrow> u32 \<Rightarrow> PageManager \<Rightarrow> (u32 \<times> PageManager) option" where
  "ensure_table um vaddr pm =
     do { pm1 \<leftarrow> (if read_entry pm (pgd um) (pd_index vaddr) AND PAGE_PRESENT = 0
                  then do { (page_table, km) \<leftarrow> allocate_physical_page um (page_phys pm);
                            Some (zero_page (phys_to_virt um page_table)
                                   (write_entry (pgd um) (pd_index vaddr)
                                     (page_table OR PAGE_PRESENT OR PAGE_WRITE OR PAGE_USER)
                                     (pm\<lparr>page_phys := km\<rparr>))) }
                  else Some pm);
          Some (phys_to_virt um (frame (read_entry pm1 (pgd um) (pd_index vaddr))), pm1) }"

definition area_page :: "UserMemory \<Rightarrow> u32 \<Rightarrow> u32 \<Rightarrow> u32 \<Rightarrow> PageManager \<Rightarrow> PageManager option" where
  "area_page um flags type vaddr pm =
     do { (table, pm1) \<leftarrow> ensure_table um vaddr pm;
          if type = MEM_TYPE_STACK
          then do { (phys, km) \<leftarrow> alloc_pages (page_phys pm1) 0 0;
                    Some (write_entry table (pt_index vaddr)
                           (phys OR flags OR PAGE_USER OR PAGE_WRITE OR PAGE_PRESENT)
                           (pm1\<lparr>page_phys := km\<rparr>)) }
          else Some (write_entry table (pt_index vaddr)
                      ((flags OR PAGE_USER OR PAGE_WRITE) AND NOT PAGE_PRESENT) pm1) }"

primrec area_pages :: "UserMemory \<Rightarrow> u32 \<Rightarrow> u32 \<Rightarrow> u32 \<Rightarrow> nat \<Rightarrow> PageManager \<Rightarrow> PageManager option" where
  "area_pages um flags type start 0 pm = Some pm"
| "area_pages um flags type start (Suc n) pm =
     do { pm1 \<leftarrow> area_pages um flags type start n pm;
          area_page um flags type (start + push_bit 12 (of_nat n)) pm1 }"

abbreviation (input) pages_of :: "u32 \<Rightarrow> nat" where
  "pages_of sz \<equiv> unat (drop_bit 12 (sz + 0xFFF))"

definition allocate_area ::
  "UserMemory \<Rightarrow> u32 \<Rightarrow> u32 \<Rightarrow> u32 \<Rightarrow> PageManager \<Rightarrow> (u32 \<times> UserMemory \<times> PageManager) option" where
  "allocate_area um sz0 flags type pm =
     (if unat (num_areas um) \<ge> MAX_MEMORY_AREAS then Some (0, um, pm)
      else do {
        start \<leftarrow> um_find_free_area um sz0;
        if start = 0 then Some (0, um, pm)
        else let sz = round_up sz0;
                 area = \<lparr>area_start = start, area_end = start + sz, area_flags = flags, area_type = type\<rparr> in
          do { as \<leftarrow> arr_set (areas um) (unat (num_areas um)) area;
               let um1 = um\<lparr>areas := as, num_areas := num_areas um + 1,
                            total_vm := total_vm um + drop_bit 12 sz\<rparr> in
               do { pm' \<leftarrow> area_pages um1 flags type start (pages_of sz) pm;
                    Some (start, um1, pm') } } })"

definition unmap_page :: "UserMemory \<Rightarrow> u32 \<Rightarrow> PageManager \<Rightarrow> PageManager option" where
  "unmap_page um vaddr pm =
     (let pde = read_entry pm (pgd um) (pd_index vaddr) in
      if pde AND PAGE_PRESENT = 0 then Some pm
      else let table = phys_to_virt um (frame pde); pte = read_entry pm table (pt_index vaddr) in
        if pte AND PAGE_PRESENT = 0 then Some pm
        else do { km \<leftarrow> free_physical_page um (frame pte) (page_phys pm);
                  Some (write_entry table (pt_index vaddr) 0 (pm\<lparr>page_phys := km\<rparr>)) })"

primrec unmap_run :: "UserMemory \<Rightarrow> u32 \<Rightarrow> nat \<Rightarrow> PageManager \<Rightarrow> PageManager option" where
  "unmap_run um virt_addr 0 pm = Some pm"
| "unmap_run um virt_addr (Suc n) pm =
     do { pm1 \<leftarrow> unmap_run um virt_addr n pm;
          unmap_page um (virt_addr + push_bit 12 (of_nat n)) pm1 }"

definition unmap_pages :: "UserMemory \<Rightarrow> u32 \<Rightarrow> u32 \<Rightarrow> PageManager \<Rightarrow> PageManager option" where
  "unmap_pages um virt_addr sz pm = unmap_run um virt_addr (pages_of sz) pm"

definition map_page :: "UserMemory \<Rightarrow> u32 \<Rightarrow> u32 \<Rightarrow> u32 \<Rightarrow> PageManager \<Rightarrow> PageManager option" where
  "map_page um vaddr paddr flags pm =
     do { (table, pm1) \<leftarrow> ensure_table um vaddr pm;
          Some (write_entry table (pt_index vaddr) (paddr OR (flags OR PAGE_USER) OR PAGE_PRESENT) pm1) }"

primrec map_run :: "UserMemory \<Rightarrow> u32 \<Rightarrow> u32 \<Rightarrow> u32 \<Rightarrow> nat \<Rightarrow> PageManager \<Rightarrow> PageManager option" where
  "map_run um virt_addr phys_addr flags 0 pm = Some pm"
| "map_run um virt_addr phys_addr flags (Suc n) pm =
     do { pm1 \<leftarrow> map_run um virt_addr phys_addr flags n pm;
          map_page um (virt_addr + push_bit 12 (of_nat n)) (phys_addr + push_bit 12 (of_nat n)) flags pm1 }"

definition map_pages ::
  "UserMemory \<Rightarrow> u32 \<Rightarrow> u32 \<Rightarrow> u32 \<Rightarrow> u32 \<Rightarrow> PageManager \<Rightarrow> (bool \<times> PageManager) option" where
  "map_pages um virt_addr phys_addr sz flags pm =
     do { pm' \<leftarrow> map_run um virt_addr phys_addr flags (pages_of sz) pm; Some (True, pm') }"

section \<open>Release and the heap\<close>

text \<open>The index of the first area with the given start, and the shift that removes it.\<close>

primrec find_area :: "MemoryArea list \<Rightarrow> u32 \<Rightarrow> nat \<Rightarrow> nat \<Rightarrow> nat option option" where
  "find_area as start i 0 = Some None"
| "find_area as start i (Suc k) =
     do { a \<leftarrow> arr_get as i;
          if area_start a = start then Some (Some i) else find_area as start (Suc i) k }"

primrec shift_areas :: "MemoryArea list \<Rightarrow> nat \<Rightarrow> nat \<Rightarrow> MemoryArea list option" where
  "shift_areas as j 0 = Some as"
| "shift_areas as j (Suc k) =
     do { a \<leftarrow> arr_get as (Suc j);
          as' \<leftarrow> arr_set as j a;
          shift_areas as' (Suc j) k }"

definition free_area :: "UserMemory \<Rightarrow> u32 \<Rightarrow> PageManager \<Rightarrow> (UserMemory \<times> PageManager) option" where
  "free_area um start pm =
     do { f \<leftarrow> find_area (areas um) start 0 (unat (num_areas um));
          (sz, um1) \<leftarrow>
            (case f of
               None \<Rightarrow> Some (0, um)
             | Some i \<Rightarrow>
                 do { a \<leftarrow> arr_get (areas um) i;
                      let sz = area_end a - area_start a in
                      do { as \<leftarrow> shift_areas (areas um) i (unat (num_areas um) - 1 - i);
                           Some (sz, um\<lparr>total_vm := total_vm um - drop_bit 12 (sz + 0xFFF),
                                        areas := as, num_areas := num_areas um - 1\<rparr>) } });
          pm' \<leftarrow> unmap_pages um1 start sz pm;
          Some (um1, pm') }"

partial_function (option) brk_loop :: "UserMemory \<Rightarrow> u32 \<Rightarrow> u32 \<Rightarrow> PageManager \<Rightarrow> PageManager option" where
  [code]: "brk_loop um addr new_brk pm =
     (if addr < new_brk
      then Option.bind (allocate_physical_page um (page_phys pm)) (\<lambda>(phys_page, km).
             Option.bind (map_pages um addr phys_page 0x1000 (PAGE_USER OR PAGE_WRITE) (pm\<lparr>page_phys := km\<rparr>))
               (\<lambda>(_, pm'). brk_loop um (addr + 0x1000) new_brk pm'))
      else Some pm)"

definition brk :: "UserMemory \<Rightarrow> u32 \<Rightarrow> PageManager \<Rightarrow> (u32 \<times> UserMemory \<times> PageManager) option" where
  "brk um new_brk pm =
     (if new_brk < start_heap um then Some (end_heap um, um, pm)
      else if new_brk > start_stack um then Some (end_heap um, um, pm)
      else let old_pages = drop_bit 12 (end_heap um - start_heap um + 0xFFF);
               new_pages = drop_bit 12 (new_brk - start_heap um + 0xFFF) in
        do { pm' \<leftarrow> (if sint new_pages > sint old_pages then brk_loop um (end_heap um) new_brk pm
                     else if sint new_pages < sint old_pages
                     then unmap_pages um new_brk (end_heap um - new_brk) pm
                     else Some pm);
             Some (new_brk, um\<lparr>end_heap := new_brk\<rparr>, pm') })"

primrec copy_areas :: "MemoryArea list \<Rightarrow> MemoryArea list \<Rightarrow> nat \<Rightarrow> nat \<Rightarrow> MemoryArea list option" where
  "copy_areas dst src i 0 = Some dst"
| "copy_areas dst src i (Suc k) =
     do { a \<leftarrow> arr_get src i;
          dst' \<leftarrow> (if area_type a = MEM_TYPE_STACK then Some dst else arr_set dst i a);
          copy_areas dst' src (Suc i) k }"

definition copyFrom :: "UserMemory \<Rightarrow> UserMemory \<Rightarrow> (bool \<times> UserMemory) option" where
  "copyFrom um src =
     do { as \<leftarrow> copy_areas (areas um) (areas src) 0 (unat (num_areas src));
          Some (True, um\<lparr>num_areas := num_areas src, areas := as, total_vm := total_vm src,
                        locked_vm := locked_vm src\<rparr>) }"

section \<open>Sorted areas\<close>

text \<open>The areas in use lie in the user space, in ascending order and without overlap.\<close>

definition sorted_areas :: "UserMemory \<Rightarrow> bool" where
  "sorted_areas um \<longleftrightarrow> length (areas um) = MAX_MEMORY_AREAS \<and> unat (num_areas um) \<le> MAX_MEMORY_AREAS \<and>
     (\<forall>i < unat (num_areas um). USER_START \<le> area_start (areas um ! i) \<and>
        area_start (areas um ! i) \<le> area_end (areas um ! i) \<and> area_end (areas um ! i) \<le> USER_END) \<and>
     (\<forall>i. Suc i < unat (num_areas um) \<longrightarrow> area_end (areas um ! i) \<le> area_start (areas um ! Suc i))"

definition disjoint_range :: "u32 \<Rightarrow> u32 \<Rightarrow> MemoryArea \<Rightarrow> bool" where
  "disjoint_range start sz a \<longleftrightarrow>
     unat (area_end a) \<le> unat start \<or> unat start + unat sz \<le> unat (area_start a)"

lemma sorted_areas_trans:
  assumes "sorted_areas um" and "j < unat (num_areas um)" and "i < j"
  shows "area_end (areas um ! i) \<le> area_start (areas um ! j)"
  using assms(3,2)
proof (induction i j rule: less_Suc_induct)
  case (1 i)
  then show ?case using assms(1) by (simp add: sorted_areas_def)
next
  case (2 i j k)
  have "j < unat (num_areas um)" using 2 by simp
  then have "area_start (areas um ! j) \<le> area_end (areas um ! j)"
    using assms(1) by (simp add: sorted_areas_def)
  then show ?case using 2 \<open>j < unat (num_areas um)\<close> by (meson order_trans)
qed

lemma find_gap_Some:
  "find_gap as sz i k = Some (Some r) \<Longrightarrow>
   \<exists>j. i \<le> j \<and> j < i + k \<and> r = area_end (as ! j) \<and> sz \<le> area_start (as ! Suc j) - area_end (as ! j)"
proof (induction k arbitrary: i)
  case (Suc k)
  then obtain a b where ab: "arr_get as i = Some a" "arr_get as (Suc i) = Some b"
    by (auto split: bind_splits)
  show ?case
  proof (cases "area_start b - area_end a \<ge> sz")
    case True
    then show ?thesis using Suc.prems ab by (intro exI [of _ i]) (auto simp: arr_get_def split: if_splits)
  next
    case False
    then have "find_gap as sz (Suc i) k = Some (Some r)" using Suc.prems ab by simp
    from Suc.IH [OF this] show ?thesis by (metis Suc_leD add_Suc_shift)
  qed
qed simp

lemma find_gap_defined: "i + k < length as \<Longrightarrow> \<exists>g. find_gap as sz i k = Some g"
  by (induction k arbitrary: i) auto

lemma gap_fits:
  assumes "a \<le> b" and "sz \<le> b - a"
  shows "unat a + unat sz \<le> unat (b :: u32)"
proof -
  have "unat (b - a) = unat b - unat a" and "unat a \<le> unat b"
    using assms(1) by (simp_all add: unat_sub word_le_nat_alt)
  moreover have "unat sz \<le> unat (b - a)" using assms(2) by (simp add: word_le_nat_alt)
  ultimately show ?thesis by linarith
qed

lemma find_free_area_cases:
  assumes "num_areas um \<noteq> 0" and "unat (num_areas um) \<le> length (areas um)"
    and "um_find_free_area um sz0 = Some r" and "r \<noteq> 0"
  defines "n \<equiv> unat (num_areas um)" and "sz \<equiv> round_up sz0"
  obtains (first) "r = USER_START" "area_start (areas um ! 0) > USER_START"
        "sz \<le> area_start (areas um ! 0) - USER_START"
      | (gap) "find_gap (areas um) sz 0 (n - 1) = Some (Some r)"
      | (last) "r = area_end (areas um ! (n - 1))" "sz \<le> USER_END - area_end (areas um ! (n - 1))"
proof -
  have n: "0 < n" using assms(1) by (simp add: unat_gt_0 n_def)
  have n1: "unat (num_areas um - 1) = n - 1" using assms(1) by (simp add: unat_minus_one n_def)
  have a0: "arr_get (areas um) 0 = Some (areas um ! 0)"
    and al: "arr_get (areas um) (n - 1) = Some (areas um ! (n - 1))"
    using assms(2) n by (auto simp: arr_get_def n_def)
  let ?c = "area_start (areas um ! 0) > USER_START \<and> area_start (areas um ! 0) - USER_START \<ge> sz"
  have eq: "um_find_free_area um sz0 = (if ?c then Some USER_START
      else Option.bind (find_gap (areas um) sz 0 (n - 1)) (\<lambda>g. case g of Some r \<Rightarrow> Some r
        | None \<Rightarrow> if area_end (areas um ! (n - 1)) < USER_END \<and> USER_END - area_end (areas um ! (n - 1)) \<ge> sz
                  then Some (area_end (areas um ! (n - 1))) else Some 0))"
    unfolding um_find_free_area_def Let_def sz_def [symmetric] n1 a0 al using assms(1) by simp
  show thesis
  proof (cases ?c)
    case True
    then show thesis using first eq assms(3) by simp
  next
    case False
    then have b: "Option.bind (find_gap (areas um) sz 0 (n - 1)) (\<lambda>g. case g of Some r \<Rightarrow> Some r
        | None \<Rightarrow> if area_end (areas um ! (n - 1)) < USER_END \<and> USER_END - area_end (areas um ! (n - 1)) \<ge> sz
                  then Some (area_end (areas um ! (n - 1))) else Some 0) = Some r"
      using eq assms(3) by (simp only: if_False)
    show thesis
    proof (cases "find_gap (areas um) sz 0 (n - 1)")
      case None
      then show thesis using b by (simp only: bind_simps) simp
    next
      case (Some g)
      show thesis
      proof (cases g)
        case None
        then show thesis using last b Some assms(4) by (simp only: bind_simps option.case) (simp split: if_splits)
      next
        case (Some r')
        then show thesis using gap b \<open>find_gap _ _ _ _ = Some g\<close> by (simp only: bind_simps option.case) simp
      qed
    qed
  qed
qed

lemma find_free_area_disjoint:
  assumes so: "sorted_areas um" and sz: "round_up sz0 \<le> USER_END - USER_START"
    and r: "um_find_free_area um sz0 = Some r" "r \<noteq> 0"
  shows "USER_START \<le> r \<and> unat r + unat (round_up sz0) \<le> unat USER_END \<and>
     (\<forall>i < unat (num_areas um). disjoint_range r (round_up sz0) (areas um ! i))"
proof -
  let ?n = "unat (num_areas um)" and ?sz = "round_up sz0"
  have us: "USER_START \<le> USER_END" by (simp add: layout_defs)
  note full = gap_fits [OF us sz]
  have rng: "USER_START \<le> area_start (areas um ! i)" "area_start (areas um ! i) \<le> area_end (areas um ! i)"
    "area_end (areas um ! i) \<le> USER_END" if "i < ?n" for i
    using so that by (auto simp: sorted_areas_def)
  have len: "?n \<le> length (areas um)" using so by (simp add: sorted_areas_def)
  have ord: "unat (area_end (areas um ! i)) \<le> unat (area_start (areas um ! j))" if "i < j" "j < ?n" for i j
    using sorted_areas_trans [OF so that(2,1)] by (simp add: word_le_nat_alt)
  have seg: "unat (area_start (areas um ! i)) \<le> unat (area_end (areas um ! i))" if "i < ?n" for i
    using rng(2) [OF that] by (simp add: word_le_nat_alt)
  show ?thesis
  proof (cases "num_areas um = 0")
    case True
    then show ?thesis using r full by (simp add: um_find_free_area_def Let_def)
  next
    case False
    then have n: "0 < ?n" by (simp add: unat_gt_0)
    from False len r show ?thesis
    proof (cases rule: find_free_area_cases)
      case first
      have fit: "unat r + unat ?sz \<le> unat (area_start (areas um ! 0))"
        using gap_fits [of USER_START "area_start (areas um ! 0)" ?sz] first by simp
      have "unat (area_start (areas um ! 0)) \<le> unat (area_start (areas um ! i))" if "i < ?n" for i
        using ord [of 0 i] seg [of 0] that n by (cases i) auto
      then show ?thesis using first fit full by (fastforce simp: disjoint_range_def)
    next
      case gap
      then obtain j where j: "j < ?n - 1" "r = area_end (areas um ! j)"
        "?sz \<le> area_start (areas um ! Suc j) - area_end (areas um ! j)"
        using find_gap_Some [OF gap] by auto
      have jn: "j < ?n" "Suc j < ?n" using j(1) by auto
      have "area_end (areas um ! j) \<le> area_start (areas um ! Suc j)"
        using so jn by (simp add: sorted_areas_def)
      from gap_fits [OF this j(3)] have fit: "unat r + unat ?sz \<le> unat (area_start (areas um ! Suc j))"
        using j(2) by simp
      have "disjoint_range r ?sz (areas um ! i)" if i: "i < ?n" for i
      proof (cases "i \<le> j")
        case True
        then have "unat (area_end (areas um ! i)) \<le> unat r"
          using ord [of i j] seg [OF jn(1)] j(2) jn by (cases "i = j") auto
        then show ?thesis by (simp add: disjoint_range_def)
      next
        case False
        then have "unat (area_start (areas um ! Suc j)) \<le> unat (area_start (areas um ! i))"
          using ord [of "Suc j" i] seg [OF jn(2)] i by (cases "i = Suc j") auto
        then show ?thesis using fit by (simp add: disjoint_range_def)
      qed
      moreover have "unat r + unat ?sz \<le> unat USER_END"
        using fit rng(2,3) [OF jn(2)] by (simp add: word_le_nat_alt)
      moreover have "USER_START \<le> r" unfolding j(2) using rng(1,2) [OF jn(1)] by (rule order_trans)
      ultimately show ?thesis by blast
    next
      case last
      have ln: "?n - 1 < ?n" using n by simp
      have "unat r + unat ?sz \<le> unat USER_END"
        using gap_fits [OF rng(3) [OF ln]] last by simp
      moreover have "unat (area_end (areas um ! i)) \<le> unat r" if "i < ?n" for i
      proof (cases "i = ?n - 1")
        case False
        then have "i < ?n - 1" using that by linarith
        from ord [OF this ln] seg [OF ln] show ?thesis unfolding last(1) by (rule order_trans)
      qed (use last(1) in simp)
      moreover have "USER_START \<le> r" unfolding last(1) using rng(1,2) [OF ln] by (rule order_trans)
      ultimately show ?thesis by (simp add: disjoint_range_def)
    qed
  qed
qed

section \<open>Properties\<close>

text \<open>
  C25. While the areas are sorted, a new area of at most the size of the user space lies
  in the user space and overlaps none of the existing areas, which stay as they are.
\<close>

theorem allocate_area_disjoint:
  assumes "sorted_areas um" and "round_up sz \<le> USER_END - USER_START"
    and "allocate_area um sz flags type pm = Some (start, um', pm')" and "start \<noteq> 0"
  shows "unat (num_areas um') = unat (num_areas um) + 1 \<and>
     areas um' ! unat (num_areas um) = \<lparr>area_start = start, area_end = start + round_up sz,
        area_flags = flags, area_type = type\<rparr> \<and>
     USER_START \<le> start \<and> unat start + unat (round_up sz) \<le> unat USER_END \<and>
     (\<forall>i < unat (num_areas um). areas um' ! i = areas um ! i \<and>
        disjoint_range start (round_up sz) (areas um' ! i))"
proof -
  have n: "unat (num_areas um) < MAX_MEMORY_AREAS" and f: "um_find_free_area um sz = Some start"
    using assms(3,4) by (auto simp: allocate_area_def Let_def split: if_splits bind_splits)
  have len: "length (areas um) = MAX_MEMORY_AREAS" using assms(1) by (simp add: sorted_areas_def)
  have um': "areas um' = (areas um)[unat (num_areas um) := \<lparr>area_start = start, area_end = start + round_up sz,
        area_flags = flags, area_type = type\<rparr>]" "num_areas um' = num_areas um + 1"
    using assms(3,4) f n len by (auto simp: allocate_area_def Let_def arr_set_def split: if_splits bind_splits)
  have "unat (num_areas um + 1) = unat (num_areas um) + 1"
    using n by (simp add: unat_word_ariths)
  then show ?thesis
    using find_free_area_disjoint [OF assms(1,2) f assms(4)] um' n len by simp
qed

definition small_um :: UserMemory where
  "small_um = um_init \<lparr>allocate_physical_page = (\<lambda>km. alloc_pages km 0 0),
     free_physical_page = (\<lambda>p km. km_free_pages km p 0), phys_to_virt = phys2Virt, pgd_phys = 0, pgd = 0,
     start_code = 0, end_code = 0, start_data = 0, end_data = 0, start_heap = 0, end_heap = 0,
     start_stack = 0, end_stack = 0, total_vm = 0, locked_vm = 0, areas = [], num_areas = 0\<rparr>
     0x400000 0xC0400000 (\<lambda>km. alloc_pages km 0 0) (\<lambda>p km. km_free_pages km p 0) phys2Virt"

lemma small_um_alloc: "map_option fst (allocate_area small_um 0x1800 0 1 small_pm) = Some 0x40000000"
  by code_simp

lemma small_um_sorted: "sorted_areas small_um"
  by (simp add: sorted_areas_def small_um_def um_init_def)

theorem allocate_area_disjoint_witness:
  "\<exists>um' pm'. allocate_area small_um 0x1800 0 1 small_pm = Some (0x40000000, um', pm') \<and>
     areas um' ! 0 = \<lparr>area_start = 0x40000000, area_end = 0x40002000, area_flags = 0, area_type = 1\<rparr>"
proof -
  obtain um' pm' where a: "allocate_area small_um 0x1800 0 1 small_pm = Some (0x40000000, um', pm')"
    using small_um_alloc by (cases "allocate_area small_um 0x1800 0 1 small_pm") auto
  have r: "round_up 0x1800 = 0x2000" by (simp add: round_up_def)
  have "unat (num_areas small_um) = 0" by (simp add: small_um_def um_init_def)
  then show ?thesis
    using allocate_area_disjoint [OF small_um_sorted _ a] a by (simp add: r layout_defs)
qed

text \<open>
  A new area always goes to the end of the array, so after an area has been freed
  and its place reused the array is no longer sorted, and the same place is handed out
  again: two of the five areas below overlap completely.
\<close>

definition reuse_areas :: "(u32 \<times> u32) option" where
  "reuse_areas =
     do { (a, um1, pm1) \<leftarrow> allocate_area small_um 0x1000 0 1 small_pm;
          (b, um2, pm2) \<leftarrow> allocate_area um1 0x1000 0 1 pm1;
          (um3, pm3) \<leftarrow> free_area um2 a pm2;
          (c, um4, pm4) \<leftarrow> allocate_area um3 0x1000 0 1 pm3;
          (d, um5, pm5) \<leftarrow> allocate_area um4 0x1000 0 1 pm4;
          Some (c, d) }"

theorem reused_areas_overlap: "reuse_areas = Some (0x40000000, 0x40000000)"
  by code_simp

end
