(* ===== verification/Pid.thy ===== *)
theory Pid
  imports Prelude
begin

text \<open>
  Process identifiers, the class \<open>PidManager\<close> of \<open>kernel/process/process.cpp\<close>: a bitmap of
  32768 identifiers in 1024 words. The bitmap is static, so the managers of process and
  task identifiers share it.
\<close>

section \<open>Operations\<close>

abbreviation (input) MAX_PID :: nat where "MAX_PID \<equiv> 32768"

abbreviation (input) BITMAP_WORDS :: nat where "BITMAP_WORDS \<equiv> (MAX_PID + 31) div 32"

text \<open>The inner loop over the bits of a word, \<open>n\<close> of them left.\<close>

primrec find_clear_bit :: "u32 \<Rightarrow> nat \<Rightarrow> nat \<Rightarrow> nat option" where
  "find_clear_bit w 0 j = None"
| "find_clear_bit w (Suc n) j =
     (let mask = push_bit j 1 in if w AND mask = 0 then Some j else find_clear_bit w n (j + 1))"

text \<open>The outer loop over the words, \<open>n\<close> of them left.\<close>

primrec alloc_word :: "nat \<Rightarrow> nat \<Rightarrow> u32 list \<Rightarrow> (int \<times> u32 list) option" where
  "alloc_word 0 i bm = Some (- 1, bm)"
| "alloc_word (Suc n) i bm =
     do { w \<leftarrow> arr_get bm i;
          if w \<noteq> 0xFFFFFFFF
          then case find_clear_bit w 32 0 of
                 Some j \<Rightarrow> do { bm' \<leftarrow> arr_set bm i (w OR push_bit j 1); Some (int (i * 32 + j), bm') }
               | None \<Rightarrow> alloc_word n (i + 1) bm
          else alloc_word n (i + 1) bm }"

definition pid_alloc :: "u32 list \<Rightarrow> (int \<times> u32 list) option" where
  "pid_alloc bm = alloc_word BITMAP_WORDS 0 bm"

definition pid_free :: "u32 list \<Rightarrow> u32 \<Rightarrow> u32 list option" where
  "pid_free bm pid =
     (if pid = 0 \<or> unat pid > MAX_PID then Some bm
      else let p = pid - 1; i = unat (p div 32); j = unat (p mod 32) in
        do { w \<leftarrow> arr_get bm i; arr_set bm i (w AND NOT (push_bit j 1)) })"

definition pid_initialize :: "u32 list \<Rightarrow> u32 list" where
  "pid_initialize bm = replicate (length bm) 0"

section \<open>The identifiers in use\<close>

definition taken :: "u32 list \<Rightarrow> nat \<Rightarrow> bool" where
  "taken bm p \<longleftrightarrow> bit (bm ! (p div 32)) (p mod 32)"

lemma find_clear_bit_Some:
  "find_clear_bit w n j = Some k \<Longrightarrow> j + n \<le> 32 \<Longrightarrow>
     j \<le> k \<and> k < j + n \<and> \<not> bit w k \<and> (\<forall>i. j \<le> i \<and> i < k \<longrightarrow> bit w i)"
proof (induction n arbitrary: j)
  case (Suc n)
  have b: "w AND push_bit j 1 = 0 \<longleftrightarrow> \<not> bit w j" using two_power_and_zero [of w j] by (simp add: push_bit_eq_mult)
  show ?case
  proof (cases "bit w j")
    case True
    then have "find_clear_bit w n (j + 1) = Some k" using Suc.prems(1) b by (simp add: Let_def)
    from Suc.IH [OF this] Suc.prems(2) True show ?thesis by (auto simp: Suc_le_eq nat_less_le)
  next
    case False
    then show ?thesis using Suc.prems b by (auto simp: Let_def)
  qed
qed simp

lemma find_clear_bit_None:
  "find_clear_bit w n j = None \<Longrightarrow> \<forall>i. j \<le> i \<and> i < j + n \<longrightarrow> bit w i"
proof (induction n arbitrary: j)
  case (Suc n)
  have b: "w AND push_bit j 1 = 0 \<longleftrightarrow> \<not> bit w j" using two_power_and_zero [of w j] by (simp add: push_bit_eq_mult)
  then have "bit w j" "find_clear_bit w n (Suc j) = None"
    using Suc.prems by (auto simp: Let_def split: if_splits)
  then show ?case using Suc.IH [of "Suc j"] by (auto simp: Suc_le_eq nat_less_le)
qed auto

lemma find_clear_bit_word: "find_clear_bit w 32 0 = None \<longleftrightarrow> w = 0xFFFFFFFF"
proof
  assume "find_clear_bit w 32 0 = None"
  then have "\<forall>i < 32. bit w i" using find_clear_bit_None [of w 32 0] by simp
  then have "w = - 1" by (intro bit_word_eqI) simp
  then show "w = 0xFFFFFFFF" by simp
next
  assume w: "w = 0xFFFFFFFF"
  have "w = - 1" using w by simp
  then have "bit w k" if "k < 32" for k using that by simp
  then show "find_clear_bit w 32 0 = None"
    using find_clear_bit_Some [of w 32 0] by (cases "find_clear_bit w 32 0") auto
qed

lemma taken_update:
  assumes "i < length bm" and "j < 32" and "p div 32 < length bm"
  shows "taken (bm[i := bm ! i OR push_bit j 1]) p \<longleftrightarrow> taken bm p \<or> p = i * 32 + j"
    and "taken (bm[i := bm ! i AND NOT (push_bit j 1)]) p \<longleftrightarrow> taken bm p \<and> p \<noteq> i * 32 + j"
proof -
  have m: "p mod 32 < 32" by simp
  have e: "p = i * 32 + j \<longleftrightarrow> p div 32 = i \<and> p mod 32 = j" using assms(2) by auto
  show "taken (bm[i := bm ! i OR push_bit j 1]) p \<longleftrightarrow> taken bm p \<or> p = i * 32 + j"
    using assms m unfolding e taken_def by (auto simp: nth_list_update bit_simps)
  show "taken (bm[i := bm ! i AND NOT (push_bit j 1)]) p \<longleftrightarrow> taken bm p \<and> p \<noteq> i * 32 + j"
    using assms m unfolding e taken_def by (auto simp: nth_list_update bit_simps)
qed

text \<open>What an allocation promises: the least free identifier, or -1 when there is none.\<close>

definition allocates :: "u32 list \<Rightarrow> int \<Rightarrow> u32 list \<Rightarrow> bool" where
  "allocates bm r bm' \<longleftrightarrow> length bm' = length bm \<and>
     (if r = - 1 then bm' = bm \<and> (\<forall>p < MAX_PID. taken bm p)
      else 0 \<le> r \<and> r < int MAX_PID \<and> \<not> taken bm (nat r) \<and> (\<forall>p < nat r. taken bm p) \<and>
        (\<forall>p < MAX_PID. taken bm' p \<longleftrightarrow> taken bm p \<or> p = nat r))"

lemma alloc_word_allocates:
  assumes "length bm = 1024" and "i + n = 1024" and "\<forall>p < i * 32. taken bm p"
  shows "\<exists>r bm'. alloc_word n i bm = Some (r, bm') \<and> allocates bm r bm'"
  using assms(2,3)
proof (induction n arbitrary: i)
  case 0
  then show ?case by (simp add: allocates_def)
next
  case (Suc n)
  let ?w = "bm ! i"
  have i: "i < length bm" using Suc.prems(1) assms(1) by simp
  show ?case
  proof (cases "find_clear_bit ?w 32 0")
    case None
    then have w: "?w = 0xFFFFFFFF" by (simp add: find_clear_bit_word)
    have full: "bit ?w k" if "k < 32" for k using find_clear_bit_None [OF None] that by simp
    have "taken bm p" if "p < Suc i * 32" for p
    proof (cases "p < i * 32")
      case False
      then have "p div 32 = i" using that by simp
      then show ?thesis using full by (simp add: taken_def)
    qed (use Suc.prems(2) in blast)
    then show ?thesis using Suc.IH [of "Suc i"] Suc.prems(1) w i by simp
  next
    case (Some j)
    have j: "j < 32" "\<not> bit ?w j" "\<forall>k < j. bit ?w k" using find_clear_bit_Some [OF Some] by auto
    have ne: "?w \<noteq> 0xFFFFFFFF" using Some find_clear_bit_word [of ?w] by auto
    have below: "taken bm p" if "p < i * 32 + j" for p
    proof (cases "p < i * 32")
      case False
      define k where "k = p - i * 32"
      then have "p = i * 32 + k" "k < j" using False that by simp_all
      then have "p div 32 = i" "p mod 32 < j" using j(1) by auto
      then show ?thesis using j(3) by (simp add: taken_def)
    qed (use Suc.prems(2) in blast)
    let ?bm = "bm[i := ?w OR push_bit j 1]"
    have "\<not> taken bm (i * 32 + j)" using j by (simp add: taken_def)
    moreover have "i * 32 + j < 32768" using i assms(1) j(1) by simp
    moreover have "taken ?bm p \<longleftrightarrow> taken bm p \<or> p = i * 32 + j" if "p < 32768" for p
      by (rule taken_update(1) [OF i j(1)]) (use that assms(1) in simp)
    ultimately have "allocates bm (int (i * 32 + j)) ?bm"
      unfolding allocates_def nat_int using below by simp
    then show ?thesis using Some ne i by simp
  qed
qed

section \<open>Properties\<close>

text \<open>
  Allocation returns the least identifier that is not in use and marks it, and -1
  exactly when all 32768 are in use. So identifiers are distinct as long as none is freed.
\<close>

theorem pid_alloc_least:
  assumes "length bm = 1024"
  shows "\<exists>r bm'. pid_alloc bm = Some (r, bm') \<and> allocates bm r bm'"
  using alloc_word_allocates [of bm 0 1024] assms by (simp add: pid_alloc_def)

theorem pid_alloc_least_witness:
  "\<exists>r bm'. pid_alloc (replicate 1024 0) = Some (r, bm') \<and> allocates (replicate 1024 0) r bm'"
  by (rule pid_alloc_least) simp

text \<open>
  Freeing an identifier that \<open>alloc\<close> returned clears the bit of the identifier below
  it: the freed one stays in use, and the one below becomes free although its owner still
  has it.
\<close>

theorem pid_free_releases_neighbour:
  assumes "length bm = 1024" and "pid_alloc bm = Some (int p, bm')" and "0 < p" and "q < MAX_PID"
  shows "\<exists>bm''. pid_free bm' (of_nat p) = Some bm'' \<and>
    (taken bm'' q \<longleftrightarrow> (taken bm q \<or> q = p) \<and> q \<noteq> p - 1)"
proof -
  have a: "allocates bm (int p) bm'"
    using alloc_word_allocates [of bm 0 1024] assms by (simp add: pid_alloc_def)
  then have p: "p < 32768" "length bm' = 1024" "\<forall>q < 32768. taken bm' q \<longleftrightarrow> taken bm q \<or> q = p"
    using assms(1) by (auto simp: allocates_def)
  have u: "unat (of_nat p :: u32) = p" using p(1) by (simp add: unat_of_nat)
  have u1: "unat (of_nat p - 1 :: u32) = p - 1"
    using u assms(3) by (subst unat_minus_one) (auto simp: unat_eq_0 [symmetric])
  have ij: "unat ((of_nat p - 1 :: u32) div 32) = (p - 1) div 32" "unat ((of_nat p - 1 :: u32) mod 32) = (p - 1) mod 32"
    by (simp_all only: unat_div unat_mod u1) simp_all
  let ?i = "(p - 1) div 32" and ?j = "(p - 1) mod 32"
  have i: "?i < length bm'" using p(1,2) by simp
  have nz: "(of_nat p :: u32) \<noteq> 0" using u assms(3) by (metis not_less0 unat_0)
  have "pid_free bm' (of_nat p) = Some (bm'[?i := bm' ! ?i AND NOT (push_bit ?j 1)])"
    unfolding pid_free_def using i u nz p(1) by (simp add: ij Let_def del: push_bit_of_1)
  moreover have "q div 32 < length bm'" using assms(4) p(2) by simp
  ultimately show ?thesis
    using taken_update(2) [OF i, of ?j q] p(3) assms(4) by (simp add: div_mult_mod_eq)
qed

theorem pid_free_releases_neighbour_witness:
  "\<exists>bm'' . pid_free ((replicate 1024 0)[0 := 3]) 1 = Some bm'' \<and> taken bm'' 1 \<and> \<not> taken bm'' 0"
proof -
  let ?bm = "(replicate 1024 0)[0 := 1 :: u32]"
  have f: "find_clear_bit 1 32 0 = Some 1" by code_simp
  have w: "BITMAP_WORDS = Suc 1023" by simp
  have a: "pid_alloc ?bm = Some (int 1, (replicate 1024 0)[0 := 3])"
    unfolding pid_alloc_def w alloc_word.simps using f by simp
  have "taken ?bm 0" "\<not> taken ?bm 1" by (simp_all add: taken_def)
  then show ?thesis
    using pid_free_releases_neighbour [OF _ a, of 0] pid_free_releases_neighbour [OF _ a, of 1]
    by auto
qed

end
