(* ===== verification/ListHead.thy ===== *)
theory ListHead
  imports Prelude
begin

text \<open>
  The intrusive doubly linked lists of \<open>include/kernel/list.h\<close>. A node is an address; the
  links of all nodes are two functions. The contract of such lists, what an insertion and
  a removal do to the nodes between a list head and itself, is a locale; the functions of
  the header are an interpretation of it.
\<close>

section \<open>Operations\<close>

record Links =
  next_of :: "u32 \<Rightarrow> u32"
  prev_of :: "u32 \<Rightarrow> u32"

definition set_next :: "u32 \<Rightarrow> u32 \<Rightarrow> Links \<Rightarrow> Links" where
  "set_next n v L = L\<lparr>next_of := (next_of L)(n := v)\<rparr>"

definition set_prev :: "u32 \<Rightarrow> u32 \<Rightarrow> Links \<Rightarrow> Links" where
  "set_prev n v L = L\<lparr>prev_of := (prev_of L)(n := v)\<rparr>"

definition INIT_LIST_HEAD :: "u32 \<Rightarrow> Links \<Rightarrow> Links" where
  "INIT_LIST_HEAD list L = set_prev list list (set_next list list L)"

definition list_add_between :: "u32 \<Rightarrow> u32 \<Rightarrow> u32 \<Rightarrow> Links \<Rightarrow> Links" where
  "list_add_between new_node prev nxt L =
     set_next prev new_node (set_prev new_node prev (set_next new_node nxt (set_prev nxt new_node L)))"

definition list_add :: "u32 \<Rightarrow> u32 \<Rightarrow> Links \<Rightarrow> Links" where
  "list_add new_node head L = list_add_between new_node head (next_of L head) L"

definition list_add_tail :: "u32 \<Rightarrow> u32 \<Rightarrow> Links \<Rightarrow> Links" where
  "list_add_tail new_node head L = list_add_between new_node (prev_of L head) head L"

definition list_del_between :: "u32 \<Rightarrow> u32 \<Rightarrow> Links \<Rightarrow> Links" where
  "list_del_between prev nxt L = set_next prev nxt (set_prev nxt prev L)"

definition list_del_init :: "u32 \<Rightarrow> Links \<Rightarrow> Links" where
  "list_del_init entry L = INIT_LIST_HEAD entry (list_del_between (prev_of L entry) (next_of L entry) L)"

definition list_empty :: "u32 \<Rightarrow> Links \<Rightarrow> bool" where
  "list_empty head L \<longleftrightarrow> next_of L head = head"

lemmas links_defs = set_next_def set_prev_def INIT_LIST_HEAD_def list_add_between_def list_add_def
  list_add_tail_def list_del_between_def list_del_init_def

section \<open>The contract\<close>

text \<open>
  \<open>rep L h xs\<close>: the list with head \<open>h\<close> holds the nodes \<open>xs\<close>. The operations change one list
  and leave every list of other nodes alone. The client is a rotation: the first node is
  taken out and another one is put at the end.
\<close>

locale node_list =
  fixes rep :: "'l \<Rightarrow> u32 \<Rightarrow> u32 list \<Rightarrow> bool"
    and empty :: "u32 \<Rightarrow> 'l \<Rightarrow> bool"
    and front :: "u32 \<Rightarrow> 'l \<Rightarrow> u32"
    and push :: "u32 \<Rightarrow> u32 \<Rightarrow> 'l \<Rightarrow> 'l"
    and unlink :: "u32 \<Rightarrow> 'l \<Rightarrow> 'l"
  assumes rep_distinct: "rep L h xs \<Longrightarrow> distinct (h # xs)"
    and empty_rep: "rep L h xs \<Longrightarrow> empty h L \<longleftrightarrow> xs = []"
    and front_rep: "rep L h (x # xs) \<Longrightarrow> front h L = x"
    and push_rep: "rep L h xs \<Longrightarrow> x \<notin> set (h # xs) \<Longrightarrow> rep (push x h L) h (xs @ [x])"
    and push_frame: "rep L h xs \<Longrightarrow> rep L h' ys \<Longrightarrow> x \<notin> set (h' # ys) \<Longrightarrow>
      set (h # xs) \<inter> set (h' # ys) = {} \<Longrightarrow> rep (push x h L) h' ys"
    and unlink_rep: "rep L h (xs @ x # ys) \<Longrightarrow> rep (unlink x L) h (xs @ ys)"
    and unlink_frame: "rep L h (xs @ x # ys) \<Longrightarrow> rep L h' zs \<Longrightarrow>
      set (h # xs @ x # ys) \<inter> set (h' # zs) = {} \<Longrightarrow> rep (unlink x L) h' zs"
begin

lemma pop_rep: "rep L h (x # xs) \<Longrightarrow> front h L = x \<and> \<not> empty h L \<and> rep (unlink x L) h xs"
  using unlink_rep [of L h "[]" x xs] front_rep empty_rep [of L h "x # xs"] by simp

lemma rotate_rep:
  assumes "rep L h (x # xs)" and "c \<notin> set (h # x # xs)"
  shows "rep (push c h (unlink x L)) h (xs @ [c])"
  using assms pop_rep push_rep by auto

lemma rotate_frame:
  assumes "rep L h (x # xs)" and "rep L h' ys" and "set (h # x # xs) \<inter> set (h' # ys) = {}"
    and "c \<notin> set (h' # ys)"
  shows "rep (push c h (unlink x L)) h' ys"
proof -
  have "rep (unlink x L) h xs" using assms(1) pop_rep by blast
  moreover have "rep (unlink x L) h' ys" using unlink_frame [of L h "[]" x xs h' ys] assms by simp
  ultimately show ?thesis by (rule push_frame) (use assms in auto)
qed

end

section \<open>Circular lists\<close>

fun linked :: "Links \<Rightarrow> u32 list \<Rightarrow> bool" where
  "linked L (a # b # xs) \<longleftrightarrow> next_of L a = b \<and> prev_of L b = a \<and> linked L (b # xs)"
| "linked L _ \<longleftrightarrow> True"

definition dll :: "Links \<Rightarrow> u32 \<Rightarrow> u32 list \<Rightarrow> bool" where
  "dll L h xs \<longleftrightarrow> distinct (h # xs) \<and> linked L (h # xs @ [h])"

lemma linked_append:
  "linked L (xs @ a # b # ys) \<longleftrightarrow>
     linked L (xs @ [a]) \<and> next_of L a = b \<and> prev_of L b = a \<and> linked L (b # ys)"
  by (induction L "xs @ [a]" arbitrary: xs rule: linked.induct) (auto simp: Cons_eq_append_conv)

lemma linked_cong:
  "\<forall>a \<in> set (butlast xs). next_of L a = next_of L' a \<Longrightarrow> \<forall>b \<in> set (tl xs). prev_of L b = prev_of L' b \<Longrightarrow>
     linked L xs \<longleftrightarrow> linked L' xs"
  by (induction L xs rule: linked.induct) auto

lemma linked_outside:
  "set xs \<inter> {n. next_of L n \<noteq> next_of L' n \<or> prev_of L n \<noteq> prev_of L' n} = {} \<Longrightarrow> linked L xs = linked L' xs"
  by (rule linked_cong; cases xs) (auto dest: in_set_butlastD split: if_splits)

lemma dll_init: "dll (INIT_LIST_HEAD h L) h []"
  by (simp add: dll_def links_defs)

text \<open>The list seen from its last node, and from the node before and after one of its nodes.\<close>

lemma dll_last:
  assumes "dll L h xs"
  obtains us p where "h # xs = us @ [p]" "linked L (us @ [p])" "prev_of L h = p" "next_of L p = h"
proof -
  obtain us p where us: "h # xs = us @ [p]" by (cases "h # xs" rule: rev_cases) auto
  then have "h # xs @ [h] = us @ p # [h]" by (metis append.assoc append_Cons append_Nil)
  then have "linked L (us @ p # [h])" using assms unfolding dll_def by metis
  then show thesis using that [OF us] by (simp add: linked_append)
qed

lemma dll_around:
  assumes "dll L h (xs @ x # ys)"
  obtains us p n vs where "h # xs = us @ [p]" "ys @ [h] = n # vs" "linked L (us @ [p])" "prev_of L x = p"
    "next_of L x = n" "linked L (n # vs)"
proof -
  obtain us p where us: "h # xs = us @ [p]" by (cases "h # xs" rule: rev_cases) auto
  obtain n vs where vs: "ys @ [h] = n # vs" by (cases ys) auto
  have "h # (xs @ x # ys) @ [h] = us @ p # x # n # vs"
    using us vs by (metis append.assoc append_Cons append_Nil)
  then have "linked L (us @ p # x # n # vs)" using assms unfolding dll_def by metis
  then show thesis using that [OF us vs] by (simp add: linked_append)
qed

lemma dll_push:
  assumes "dll L h xs" and x: "x \<notin> set (h # xs)"
  shows "dll (list_add_tail x h L) h (xs @ [x])"
proof -
  obtain us p where us: "h # xs = us @ [p]" and l: "linked L (us @ [p])" "prev_of L h = p"
    using dll_last [OF assms(1)] by blast
  let ?L = "list_add_tail x h L"
  have d: "distinct (h # xs)" using assms(1) by (simp add: dll_def)
  have p: "p \<notin> set us" "x \<noteq> p" "x \<notin> set us" using d x unfolding us by auto
  have h: "x \<noteq> h" using x by simp
  have tl: "h \<notin> set (tl (us @ [p]))" "x \<notin> set (tl (us @ [p]))"
    using assms unfolding us [symmetric] by (auto simp: dll_def)
  have "linked ?L (us @ [p]) = linked L (us @ [p])"
    by (rule linked_cong) (use p tl l(2) in \<open>auto simp: links_defs\<close>)
  then have "linked ?L (us @ p # x # [h])" using l p h by (simp add: linked_append links_defs)
  moreover have "h # (xs @ [x]) @ [h] = us @ p # x # [h]" using us by (metis append.assoc append_Cons append_Nil)
  ultimately have "linked ?L (h # (xs @ [x]) @ [h])" by (simp only:)
  then show ?thesis using d x unfolding dll_def by auto
qed

lemma dll_unlink:
  assumes "dll L h (xs @ x # ys)"
  shows "dll (list_del_init x L) h (xs @ ys)"
proof -
  obtain us p n vs where us: "h # xs = us @ [p]" and vs: "ys @ [h] = n # vs"
    and l: "linked L (us @ [p])" "prev_of L x = p" "next_of L x = n" "linked L (n # vs)"
    by (rule dll_around [OF assms])
  let ?L = "list_del_init x L"
  have d: "distinct (h # xs)" "distinct (ys @ [h])" "x \<notin> set (h # xs)" "x \<notin> set (ys @ [h])"
      "set ys \<inter> set (h # xs) = {}" using assms by (auto simp: dll_def)
  have q: "p \<notin> set us" "x \<noteq> p" "x \<notin> set us" "p \<notin> set ys"
    using d(1,3,5) unfolding us by auto
  have m: "n \<notin> set vs" "x \<noteq> n" "x \<notin> set vs" using d(2,4) unfolding vs by auto
  have t: "tl (us @ [p]) = xs" "butlast (n # vs) = ys"
    unfolding us [symmetric] vs [symmetric] by simp_all
  have n: "n \<notin> set xs" using vs d(1,5) by (cases ys) auto
  have "linked ?L (us @ [p]) = linked L (us @ [p])"
    by (rule linked_cong) (use q n d(3) t(1) l(2,3) in \<open>auto simp: links_defs\<close>)
  moreover have "linked ?L (n # vs) = linked L (n # vs)"
    by (rule linked_cong) (use q(4) m d(4) t(2) l(2,3) in \<open>auto simp: links_defs\<close>)
  ultimately have "linked ?L (us @ p # n # vs)"
    using l q(2) m(2) by (simp add: linked_append links_defs)
  moreover have "h # (xs @ ys) @ [h] = us @ p # n # vs"
    using us vs by (metis append.assoc append_Cons append_Nil)
  ultimately have "linked ?L (h # (xs @ ys) @ [h])" by (simp only:)
  then show ?thesis using assms unfolding dll_def by simp
qed

lemma dll_ends: "dll L h xs \<Longrightarrow> prev_of L h \<in> set (h # xs)"
proof -
  assume "dll L h xs"
  then obtain us p where us: "h # xs = us @ [p]" and p: "prev_of L h = p" using dll_last by blast
  show ?thesis unfolding us p by simp
qed

lemma dll_neighbours:
  assumes "dll L h (xs @ x # ys)"
  shows "prev_of L x \<in> set (h # xs)" and "next_of L x \<in> set (h # ys)"
proof -
  obtain us p n vs where us: "h # xs = us @ [p]" and vs: "ys @ [h] = n # vs"
    and "linked L (us @ [p])" and l: "prev_of L x = p" "next_of L x = n" and "linked L (n # vs)"
    by (rule dll_around [OF assms])
  show "prev_of L x \<in> set (h # xs)" unfolding us l(1) by simp
  have "n \<in> set (ys @ [h])" unfolding vs by simp
  then show "next_of L x \<in> set (h # ys)" using l(2) by auto
qed

lemma dll_outside:
  assumes "dll L h xs" and "\<forall>n \<in> set (h # xs). next_of L' n = next_of L n \<and> prev_of L' n = prev_of L n"
  shows "dll L' h xs"
proof -
  have "linked L' (h # xs @ [h]) = linked L (h # xs @ [h])" using assms(2) by (intro linked_outside) auto
  then show ?thesis using assms(1) by (simp add: dll_def)
qed

lemma dll_push_frame:
  assumes "dll L h xs" and "x \<notin> S" and "set (h # xs) \<inter> S = {}"
  shows "\<forall>n \<in> S. next_of (list_add_tail x h L) n = next_of L n \<and> prev_of (list_add_tail x h L) n = prev_of L n"
proof
  fix n assume n: "n \<in> S"
  then have "n \<noteq> x" "n \<noteq> h" "n \<noteq> prev_of L h" using assms(2,3) dll_ends [OF assms(1)] by auto
  then show "next_of (list_add_tail x h L) n = next_of L n \<and> prev_of (list_add_tail x h L) n = prev_of L n"
    by (simp add: links_defs)
qed

lemma dll_unlink_frame:
  assumes "dll L h (xs @ x # ys)" and "set (h # xs @ x # ys) \<inter> S = {}"
  shows "\<forall>n \<in> S. next_of (list_del_init x L) n = next_of L n \<and> prev_of (list_del_init x L) n = prev_of L n"
proof
  fix n assume n: "n \<in> S"
  then have "n \<noteq> x" "n \<noteq> next_of L x" "n \<noteq> prev_of L x" using assms dll_neighbours [OF assms(1)] by auto
  then show "next_of (list_del_init x L) n = next_of L n \<and> prev_of (list_del_init x L) n = prev_of L n"
    by (simp add: links_defs)
qed

interpretation run_list: node_list dll list_empty "\<lambda>h L. next_of L h" list_add_tail list_del_init
proof unfold_locales
  fix L h h' x and xs ys zs :: "u32 list"
  show "dll L h xs \<Longrightarrow> distinct (h # xs)" by (simp add: dll_def)
  show "dll L h xs \<Longrightarrow> list_empty h L \<longleftrightarrow> xs = []" by (cases xs) (auto simp: dll_def list_empty_def)
  show "dll L h (x # xs) \<Longrightarrow> next_of L h = x" by (auto simp: dll_def)
  show "dll L h xs \<Longrightarrow> x \<notin> set (h # xs) \<Longrightarrow> dll (list_add_tail x h L) h (xs @ [x])" by (rule dll_push)
  show "dll L h (xs @ x # ys) \<Longrightarrow> dll (list_del_init x L) h (xs @ ys)" by (rule dll_unlink)
  show "dll (list_add_tail x h L) h' ys" if "dll L h xs" "dll L h' ys" "x \<notin> set (h' # ys)"
    "set (h # xs) \<inter> set (h' # ys) = {}"
    using that(2) dll_push_frame [OF that(1,3,4)] by (rule dll_outside)
  show "dll (list_del_init x L) h' zs" if "dll L h (xs @ x # ys)" "dll L h' zs"
    "set (h # xs @ x # ys) \<inter> set (h' # zs) = {}"
    using that(2) dll_unlink_frame [OF that(1,3)] by (rule dll_outside)
qed

end
