(* ===== verification/Gdt.thy ===== *)
theory Gdt
  imports Prelude
begin

text \<open>
  The segment and interrupt descriptor tables, \<open>arch/x86/gdt.cpp\<close> and \<open>arch/x86/idt.cpp\<close>.
  The addresses of the two tables and of the task state segments are fixed by the linker
  and are arguments. The registers GDTR, IDTR and TR are state.
\<close>

section \<open>Tables\<close>

abbreviation (input) MAX_CPUS :: nat where "MAX_CPUS \<equiv> 32"

record TSSEntry =
  tss_prev :: u32
  tss_esp0 :: u32
  tss_ss0 :: u32
  tss_esp1 :: u32
  tss_ss1 :: u32
  tss_esp2 :: u32
  tss_ss2 :: u32
  tss_cr3 :: u32
  tss_eip :: u32
  tss_eflags :: u32
  tss_gprs :: "u32 list"
  tss_segs :: "u32 list"
  tss_ldt :: u32
  tss_trap :: u16
  iomap_base :: u16

abbreviation sizeof_TSSEntry :: u32 where
  "sizeof_TSSEntry \<equiv> 104"

record GDTEntry =
  limit_low :: u16
  base_low :: u16
  base_middle :: u8
  access :: u8
  granularity :: u8
  base_high :: u8

record GDT =
  gdt_entries :: "GDTEntry list"
  tss :: "TSSEntry list"
  gdt_limit :: u16
  gdt_base :: u32
  gdtr :: "u16 \<times> u32"
  tr :: u16

abbreviation (input) GDT_PRESENT :: u8 where "GDT_PRESENT \<equiv> 0x80"
abbreviation (input) GDT_DPL_0 :: u8 where "GDT_DPL_0 \<equiv> 0x00"
abbreviation (input) GDT_DPL_3 :: u8 where "GDT_DPL_3 \<equiv> 0x60"
abbreviation (input) GDT_TYPE_CODE :: u8 where "GDT_TYPE_CODE \<equiv> 0x1A"
abbreviation (input) GDT_TYPE_DATA :: u8 where "GDT_TYPE_DATA \<equiv> 0x12"
abbreviation (input) GDT_TYPE_TSS :: u8 where "GDT_TYPE_TSS \<equiv> 0x09"
abbreviation (input) GDT_TYPE_CALL_GATE :: u8 where "GDT_TYPE_CALL_GATE \<equiv> 0x0C"

section \<open>Operations on the segment table\<close>

definition encode_entry :: "u32 \<Rightarrow> u32 \<Rightarrow> u8 \<Rightarrow> u8 \<Rightarrow> GDTEntry" where
  "encode_entry base limit acc gran =
     \<lparr>limit_low = ucast (limit AND 0xFFFF), base_low = ucast (base AND 0xFFFF),
      base_middle = ucast (drop_bit 16 base AND 0xFF), access = acc,
      granularity = ucast (drop_bit 16 limit AND 0x0F) OR (gran AND 0xF0),
      base_high = ucast (drop_bit 24 base AND 0xFF)\<rparr>"

definition setEntry :: "GDT \<Rightarrow> nat \<Rightarrow> u32 \<Rightarrow> u32 \<Rightarrow> u8 \<Rightarrow> u8 \<Rightarrow> GDT option" where
  "setEntry g index base limit acc gran =
     do { es \<leftarrow> arr_set (gdt_entries g) index (encode_entry base limit acc gran);
          Some (g\<lparr>gdt_entries := es\<rparr>) }"

text \<open>The call gate overlays the bytes of a segment descriptor.\<close>

definition setCallGate :: "GDT \<Rightarrow> nat \<Rightarrow> u16 \<Rightarrow> u32 \<Rightarrow> u8 \<Rightarrow> u8 \<Rightarrow> GDT option" where
  "setCallGate g index selector offset dpl param_count =
     do { es \<leftarrow> arr_set (gdt_entries g) index
            \<lparr>limit_low = ucast (offset AND 0xFFFF), base_low = selector,
             base_middle = param_count AND 0x1F,
             access = (drop_bit 4 GDT_TYPE_CALL_GATE AND 0xF) OR push_bit 5 (dpl AND 3) OR 0x80,
             granularity = ucast (drop_bit 16 offset AND 0xFF),
             base_high = ucast (drop_bit 24 offset AND 0xFF)\<rparr>;
          Some (g\<lparr>gdt_entries := es\<rparr>) }"

definition loadGDT :: "GDT \<Rightarrow> GDT" where
  "loadGDT g = g\<lparr>gdtr := (gdt_limit g, gdt_base g)\<rparr>"

definition loadTR :: "GDT \<Rightarrow> u32 \<Rightarrow> GDT" where
  "loadTR g cpu = g\<lparr>tr := ucast (0x28 + cpu * 8)\<rparr>"

definition upd_tss :: "nat \<Rightarrow> (TSSEntry \<Rightarrow> TSSEntry) \<Rightarrow> GDT \<Rightarrow> GDT option" where
  "upd_tss cpu f g =
     do { t \<leftarrow> arr_get (tss g) cpu; ts \<leftarrow> arr_set (tss g) cpu (f t); Some (g\<lparr>tss := ts\<rparr>) }"

definition updateTSS :: "GDT \<Rightarrow> u32 \<Rightarrow> u32 \<Rightarrow> u32 \<Rightarrow> GDT option" where
  "updateTSS g cpu esp0 ss0 = upd_tss (unat cpu) (\<lambda>t. t\<lparr>tss_esp0 := esp0, tss_ss0 := ss0\<rparr>) g"

definition updateTSSCR3 :: "GDT \<Rightarrow> u32 \<Rightarrow> u32 \<Rightarrow> GDT option" where
  "updateTSSCR3 g cpu cr3 = upd_tss (unat cpu) (\<lambda>t. t\<lparr>tss_cr3 := cr3\<rparr>) g"

text \<open>The loop of \<open>init\<close> over the processors: the first \<open>n\<close> of them.\<close>

primrec init_tss :: "u32 \<Rightarrow> nat \<Rightarrow> GDT \<Rightarrow> GDT option" where
  "init_tss tss_addr 0 g = Some g"
| "init_tss tss_addr (Suc i) g =
     do { g \<leftarrow> init_tss tss_addr i g;
          g \<leftarrow> upd_tss i (\<lambda>t. t\<lparr>tss_ss0 := 0x10, tss_esp0 := 0, iomap_base := ucast sizeof_TSSEntry\<rparr>) g;
          setEntry g (5 + i) (tss_addr + of_nat i * sizeof_TSSEntry) sizeof_TSSEntry
            (GDT_PRESENT OR GDT_TYPE_TSS) 0x00 }"

definition gdt_init :: "u32 \<Rightarrow> u32 \<Rightarrow> GDT \<Rightarrow> GDT option" where
  "gdt_init entries_addr tss_addr g =
     do { g \<leftarrow> setEntry g 0 0 0 0 0;
          g \<leftarrow> setEntry g 1 0 0xFFFFFFFF (GDT_PRESENT OR GDT_DPL_0 OR GDT_TYPE_CODE) 0xCF;
          g \<leftarrow> setEntry g 2 0 0xFFFFFFFF (GDT_PRESENT OR GDT_DPL_0 OR GDT_TYPE_DATA) 0xCF;
          g \<leftarrow> setEntry g 3 0 0xBFFFFFFF (GDT_PRESENT OR GDT_DPL_3 OR GDT_TYPE_CODE) 0xCF;
          g \<leftarrow> setEntry g 4 0 0xBFFFFFFF (GDT_PRESENT OR GDT_DPL_3 OR GDT_TYPE_DATA) 0xCF;
          g \<leftarrow> setEntry g 5 0 0 0 0;
          g \<leftarrow> init_tss tss_addr MAX_CPUS g;
          Some ((loadGDT (g\<lparr>gdt_limit := 8 * 7 - 1, gdt_base := entries_addr\<rparr>))\<lparr>tr := 0x28\<rparr>) }"

section \<open>The interrupt table\<close>

record IDTEntry =
  gate_low :: u16
  gate_selector :: u16
  gate_zero :: u8
  gate_flags :: u8
  gate_high :: u16

record IDT =
  idt_entries :: "IDTEntry list"
  idt_limit :: u16
  idt_base :: u32
  idtr :: "u16 \<times> u32"

definition setGate :: "IDT \<Rightarrow> u8 \<Rightarrow> u32 \<Rightarrow> u16 \<Rightarrow> u8 \<Rightarrow> IDT option" where
  "setGate t num base sel flags =
     do { es \<leftarrow> arr_set (idt_entries t) (unat num)
            \<lparr>gate_low = ucast (base AND 0xFFFF), gate_selector = sel, gate_zero = 0, gate_flags = flags,
             gate_high = ucast (drop_bit 16 base AND 0xFFFF)\<rparr>;
          Some (t\<lparr>idt_entries := es\<rparr>) }"

primrec init_gates :: "nat \<Rightarrow> IDT \<Rightarrow> IDT option" where
  "init_gates 0 t = Some t"
| "init_gates (Suc i) t = do { t \<leftarrow> init_gates i t; setGate t (of_nat i) 0 0x08 0x8E }"

definition idt_init :: "u32 \<Rightarrow> IDT \<Rightarrow> IDT option" where
  "idt_init entries_addr t =
     do { t \<leftarrow> init_gates 256 t;
          Some (t\<lparr>idt_limit := 8 * 256 - 1, idt_base := entries_addr, idtr := (8 * 256 - 1, entries_addr)\<rparr>) }"

section \<open>What the processor reads from a descriptor\<close>

definition entry_base :: "GDTEntry \<Rightarrow> u32" where
  "entry_base e = ucast (base_low e) OR push_bit 16 (ucast (base_middle e)) OR push_bit 24 (ucast (base_high e))"

definition entry_limit :: "GDTEntry \<Rightarrow> u32" where
  "entry_limit e = ucast (limit_low e) OR push_bit 16 (ucast (granularity e AND 0x0F))"

definition gate_offset :: "IDTEntry \<Rightarrow> u32" where
  "gate_offset e = ucast (gate_low e) OR push_bit 16 (ucast (gate_high e))"

text \<open>
  A descriptor as the processor takes it: for a segment of memory the first and the last byte, the
  privilege level, whether code can be read or data written, and whether it is a 32-bit segment; for
  a task state segment that is not busy the first and last byte and the level.
\<close>

datatype segment = NotPresent | Code u32 u32 u8 bool bool | Data u32 u32 u8 bool bool | TaskState u32 u32 u8 | OtherSystem

definition last_byte :: "GDTEntry \<Rightarrow> u32" where
  "last_byte e = entry_base e + (if bit (granularity e) 7 then push_bit 12 (entry_limit e) OR 0xFFF else entry_limit e)"

definition segment_of :: "GDTEntry \<Rightarrow> segment" where
  "segment_of e =
     (let dpl = drop_bit 5 (access e) AND 3 in
      if \<not> bit (access e) 7 then NotPresent
      else if bit (access e) 4
      then (if bit (access e) 3 then Code else Data) (entry_base e) (last_byte e) dpl (bit (access e) 1) (bit (granularity e) 6)
      else if access e AND 0xF = 9 then TaskState (entry_base e) (last_byte e) dpl
      else OtherSystem)"

text \<open>A selector may be loaded if its descriptor lies within the limit of the table.\<close>

definition selector_in_table :: "GDT \<Rightarrow> u16 \<Rightarrow> bool" where
  "selector_in_table g sel \<longleftrightarrow> unat sel div 8 * 8 + 7 \<le> unat (fst (gdtr g))"

lemma mask_facts:
  "(0xFFFF :: u32) = mask 16" "(0xFF :: u32) = mask 8" "(0x0F :: u32) = mask 4" "(0xFFFFF :: u32) = mask 20"
  "(0x0F :: u8) = mask 4" "(0xF0 :: u8) = push_bit 4 (mask 4)"
  by (simp_all add: mask_eq_exp_minus_1 push_bit_eq_mult)

lemma encode_entry_base: "entry_base (encode_entry base limit acc gran) = base"
  unfolding encode_entry_def entry_base_def GDTEntry.simps mask_facts
proof (rule bit_word_eqI)
  fix n assume "n < LENGTH(32)"
  then show "bit (ucast (ucast (base AND mask 16) :: u16) OR push_bit 16 (ucast (ucast (drop_bit 16 base AND mask 8) :: u8))
      OR push_bit 24 (ucast (ucast (drop_bit 24 base AND mask 8) :: u8)) :: u32) n = bit base n"
    by (cases "n < 16"; cases "n < 24") (auto simp: bit_simps)
qed

lemma encode_entry_limit: "entry_limit (encode_entry base limit acc gran) = limit AND 0xFFFFF"
  unfolding encode_entry_def entry_limit_def GDTEntry.simps mask_facts
  by (rule bit_word_eqI) (auto simp: bit_simps)

lemma setGate_offset:
  assumes "length (idt_entries t) = 256"
  shows "\<exists>t'. setGate t num base sel flags = Some t' \<and> gate_offset (idt_entries t' ! unat num) = base"
proof -
  have "unat num < 256" by (rule order_less_le_trans [OF unsigned_less]) simp
  moreover have "ucast (ucast (base AND 0xFFFF) :: u16) OR push_bit 16 (ucast (ucast (drop_bit 16 base AND 0xFFFF) :: u16)) = base"
    unfolding mask_facts by (rule bit_word_eqI) (auto simp: bit_simps)
  ultimately show ?thesis using assms by (simp add: setGate_def gate_offset_def)
qed

lemma encode_entry_fields: "access (encode_entry base limit acc gran) = acc"
  "granularity (encode_entry base limit acc gran) = ucast (drop_bit 16 limit AND 0x0F) OR (gran AND 0xF0)"
  by (simp_all add: encode_entry_def)

lemma init_tss_entries:
  assumes "length (gdt_entries g) = 38" and "length (tss g) = 32" and "n \<le> 32"
  shows "\<exists>g'. init_tss a n g = Some g' \<and> length (gdt_entries g') = 38 \<and> length (tss g') = 32 \<and>
    (\<forall>i < n. gdt_entries g' ! (5 + i) =
       encode_entry (a + of_nat i * sizeof_TSSEntry) sizeof_TSSEntry (GDT_PRESENT OR GDT_TYPE_TSS) 0 \<and>
       tss g' ! i = (tss g ! i)\<lparr>tss_ss0 := 0x10, tss_esp0 := 0, iomap_base := 104\<rparr>) \<and>
    (\<forall>j. j < 5 \<or> 5 + n \<le> j \<longrightarrow> gdt_entries g' ! j = gdt_entries g ! j) \<and> (\<forall>j \<ge> n. tss g' ! j = tss g ! j)"
  using assms(3)
proof (induction n)
  case (Suc n)
  then obtain g' where "init_tss a n g = Some g'" "length (gdt_entries g') = 38" "length (tss g') = 32"
    "\<forall>i < n. gdt_entries g' ! (5 + i) =
       encode_entry (a + of_nat i * sizeof_TSSEntry) sizeof_TSSEntry (GDT_PRESENT OR GDT_TYPE_TSS) 0 \<and>
       tss g' ! i = (tss g ! i)\<lparr>tss_ss0 := 0x10, tss_esp0 := 0, iomap_base := 104\<rparr>"
    "\<forall>j. j < 5 \<or> 5 + n \<le> j \<longrightarrow> gdt_entries g' ! j = gdt_entries g ! j" "\<forall>j \<ge> n. tss g' ! j = tss g ! j"
    by auto
  then show ?case using Suc.prems by (auto simp: upd_tss_def setEntry_def nth_list_update less_Suc_eq)
qed (use assms in simp)

lemma flat_segments:
  "segment_of (encode_entry 0 0 0 0) = NotPresent"
  "segment_of (encode_entry 0 0xFFFFFFFF 0x9A 0xCF) = Code 0 0xFFFFFFFF 0 True True"
  "segment_of (encode_entry 0 0xFFFFFFFF 0x92 0xCF) = Data 0 0xFFFFFFFF 0 True True"
  "segment_of (encode_entry 0 0xBFFFFFFF 0xFA 0xCF) = Code 0 0xFFFFFFFF 3 True True"
  "segment_of (encode_entry 0 0xBFFFFFFF 0xF2 0xCF) = Data 0 0xFFFFFFFF 3 True True"
  by code_simp+

lemma task_segment: "segment_of (encode_entry b 104 0x89 0) = TaskState b (b + 104) 0"
  by (simp add: segment_of_def last_byte_def encode_entry_base encode_entry_limit encode_entry_fields Let_def)

lemma take_37: "length xs = 38 \<Longrightarrow> take 37 xs = map ((!) xs) [0, 1, 2, 3, 4] @ map (\<lambda>i. xs ! (5 + i)) [0..<32]"
proof (rule nth_equalityI)
  fix i assume "length xs = 38" "i < length (take 37 xs)"
  then have "i < 5 \<or> 5 \<le> i \<and> i < 37" by auto
  then show "take 37 xs ! i = (map ((!) xs) [0, 1, 2, 3, 4] @ map (\<lambda>i. xs ! (5 + i)) [0..<32]) ! i"
    using \<open>length xs = 38\<close> by (auto simp: nth_append less_Suc_eq numeral_eq_Suc)
qed simp

section \<open>Properties\<close>

text \<open>
  C39. What \<open>GDT::init\<close> writes, as the processor reads it. Entry 0 is null; entries 1 and 2 are the kernel's
  code and data and entries 3 and 4 the user's, at levels 0 and 3, readable, writable, 32-bit, and all four from 0 to
  \<open>0xFFFFFFFF\<close>, although the code asks for user segments that end at \<open>0xBFFFFFFF\<close>: a descriptor keeps 20 bits
  of the limit. The next 32 are the task state segments of the processors, each with its stack segment and
  the offset of its port map set. The limit of the table covers seven descriptors, so the selector that
  \<open>loadTR\<close> loads is within the table only for processors 0 and 1.
\<close>

theorem gdt_init_descriptors:
  assumes "length (gdt_entries g) = 6 + MAX_CPUS" and "length (tss g) = MAX_CPUS"
  shows "\<exists>g'. gdt_init ga ta g = Some g' \<and>
    map segment_of (take 37 (gdt_entries g')) =
      [NotPresent, Code 0 0xFFFFFFFF 0 True True, Data 0 0xFFFFFFFF 0 True True,
       Code 0 0xFFFFFFFF 3 True True, Data 0 0xFFFFFFFF 3 True True] @
      map (\<lambda>i. TaskState (ta + of_nat i * 104) (ta + of_nat i * 104 + 104) 0) [0..<MAX_CPUS] \<and>
    tss g' = map (\<lambda>t. t\<lparr>tss_ss0 := 0x10, tss_esp0 := 0, iomap_base := 104\<rparr>) (tss g) \<and>
    gdtr g' = (55, ga) \<and> tr g' = 0x28 \<and>
    (\<forall>cpu < MAX_CPUS. selector_in_table g' (tr (loadTR g' (of_nat cpu))) \<longleftrightarrow> cpu < 2)"
proof -
  let ?e = "\<lambda>g i b l a r. g\<lparr>gdt_entries := (gdt_entries g)[i := encode_entry b l a r]\<rparr>"
  define g6 where "g6 = ?e (?e (?e (?e (?e (?e g 0 0 0 0 0)
      1 0 0xFFFFFFFF (GDT_PRESENT OR GDT_DPL_0 OR GDT_TYPE_CODE) 0xCF)
      2 0 0xFFFFFFFF (GDT_PRESENT OR GDT_DPL_0 OR GDT_TYPE_DATA) 0xCF)
      3 0 0xBFFFFFFF (GDT_PRESENT OR GDT_DPL_3 OR GDT_TYPE_CODE) 0xCF)
      4 0 0xBFFFFFFF (GDT_PRESENT OR GDT_DPL_3 OR GDT_TYPE_DATA) 0xCF) 5 0 0 0 0"
  have "length (gdt_entries g6) = 38" "length (tss g6) = 32"
    using assms by (simp_all add: g6_def)
  from init_tss_entries [OF this, of 32 ta] obtain g7 where g7: "init_tss ta 32 g6 = Some g7"
    "\<forall>i < 32. gdt_entries g7 ! (5 + i) =
       encode_entry (ta + of_nat i * sizeof_TSSEntry) sizeof_TSSEntry (GDT_PRESENT OR GDT_TYPE_TSS) 0 \<and>
       tss g7 ! i = (tss g6 ! i)\<lparr>tss_ss0 := 0x10, tss_esp0 := 0, iomap_base := 104\<rparr>"
    "length (gdt_entries g7) = 38" "length (tss g7) = 32" "\<forall>j < 5. gdt_entries g7 ! j = gdt_entries g6 ! j" by auto
  have i: "gdt_init ga ta g = Some ((loadGDT (g7\<lparr>gdt_limit := 8 * 7 - 1, gdt_base := ga\<rparr>))\<lparr>tr := 0x28\<rparr>)"
    using g7(1) assms by (simp add: gdt_init_def setEntry_def g6_def)
  have five: "map ((!) (gdt_entries g7)) [0, 1, 2, 3, 4] =
      [encode_entry 0 0 0 0, encode_entry 0 0xFFFFFFFF 0x9A 0xCF, encode_entry 0 0xFFFFFFFF 0x92 0xCF,
       encode_entry 0 0xBFFFFFFF 0xFA 0xCF, encode_entry 0 0xBFFFFFFF 0xF2 0xCF]"
    using g7(5) assms by (simp add: g6_def)
  have tasks: "map (\<lambda>i. gdt_entries g7 ! (5 + i)) [0..<32] = map (\<lambda>i. encode_entry (ta + of_nat i * 104) 104 0x89 0) [0..<32]"
    using g7(2) by (intro map_cong) simp_all
  have "map segment_of (take 37 (gdt_entries g7)) =
      [NotPresent, Code 0 0xFFFFFFFF 0 True True, Data 0 0xFFFFFFFF 0 True True,
       Code 0 0xFFFFFFFF 3 True True, Data 0 0xFFFFFFFF 3 True True] @
      map (\<lambda>i. TaskState (ta + of_nat i * 104) (ta + of_nat i * 104 + 104) 0) [0..<32]"
    unfolding take_37 [OF g7(3)] five tasks by (simp only: map_append list.map map_map comp_def flat_segments task_segment)
  moreover have "tss g7 = map (\<lambda>t. t\<lparr>tss_ss0 := 0x10, tss_esp0 := 0, iomap_base := 104\<rparr>) (tss g)"
    using g7(2,4) assms(2) by (intro nth_equalityI) (simp_all add: g6_def)
  moreover have "unat (ucast (0x28 + of_nat cpu * 8 :: u32) :: u16) div 8 * 8 + 7 \<le> 55 \<longleftrightarrow> cpu < 2" if "cpu < 32" for cpu :: nat
  proof -
    have "unat (ucast (0x28 + of_nat cpu * 8 :: u32) :: u16) = 0x28 + 8 * cpu"
      using that by (simp add: unsigned_ucast_eq take_bit_eq_mod unat_word_ariths unat_of_nat)
    moreover have "(0x28 + 8 * cpu) div 8 * 8 + 7 \<le> 55 \<longleftrightarrow> cpu < 2" by auto
    ultimately show ?thesis by simp
  qed
  ultimately show ?thesis
    unfolding i by (simp add: loadGDT_def loadTR_def selector_in_table_def)
qed

definition empty_gdt :: GDT where
  "empty_gdt = \<lparr>gdt_entries = replicate 38 (encode_entry 0 0 0 0),
     tss = replicate 32 \<lparr>tss_prev = 0, tss_esp0 = 0, tss_ss0 = 0, tss_esp1 = 0, tss_ss1 = 0, tss_esp2 = 0,
       tss_ss2 = 0, tss_cr3 = 0, tss_eip = 0, tss_eflags = 0, tss_gprs = [], tss_segs = [], tss_ldt = 0,
       tss_trap = 0, iomap_base = 0\<rparr>,
     gdt_limit = 0, gdt_base = 0, gdtr = (0, 0), tr = 0\<rparr>"

theorem gdt_init_descriptors_witness:
  "\<exists>g'. gdt_init 0x105000 0x106000 empty_gdt = Some g' \<and> segment_of (gdt_entries g' ! 3) = Code 0 0xFFFFFFFF 3 True True \<and>
     segment_of (gdt_entries g' ! 7) = TaskState 0x1060D0 0x106138 0 \<and> \<not> selector_in_table g' (tr (loadTR g' 2))"
proof -
  obtain g' where g: "gdt_init 0x105000 0x106000 empty_gdt = Some g'"
    and l: "map segment_of (take 37 (gdt_entries g')) =
      [NotPresent, Code 0 0xFFFFFFFF 0 True True, Data 0 0xFFFFFFFF 0 True True,
       Code 0 0xFFFFFFFF 3 True True, Data 0 0xFFFFFFFF 3 True True] @
      map (\<lambda>i. TaskState (0x106000 + of_nat i * 104) (0x106000 + of_nat i * 104 + 104) 0) [0..<MAX_CPUS]" (is "?m = ?l")
    and s: "\<forall>cpu < MAX_CPUS. selector_in_table g' (tr (loadTR g' (of_nat cpu))) \<longleftrightarrow> cpu < 2"
    using gdt_init_descriptors [of empty_gdt "0x105000" "0x106000"] by (auto simp: empty_gdt_def)
  have len: "37 \<le> length (gdt_entries g')" using arg_cong [OF l, of length] by simp
  have "?m ! 3 = ?l ! 3" "?m ! 7 = ?l ! 7" using l by simp_all
  then have "segment_of (gdt_entries g' ! 3) = Code 0 0xFFFFFFFF 3 True True" "segment_of (gdt_entries g' ! 7) = TaskState 0x1060D0 0x106138 0"
    using len by (simp_all add: nth_append)
  then show ?thesis using g s [rule_format, of 2] by simp
qed

end
