(* ===== verification/Sched.thy ===== *)
theory Sched
  imports ListHead Gdt
begin

text \<open>
  Tasks and the scheduler: the structures of \<open>include/kernel/process.h\<close>, the run queues of
  \<open>kernel/smp/smp_scheduler.cpp\<close>, and \<open>schedule\<close>, \<open>save_context\<close>, \<open>restore_context\<close> and
  \<open>sleep_current_process\<close> of \<open>kernel/process/process.cpp\<close>. A task is an address; its node in
  a run queue is the member \<open>sched_list\<close> at a fixed offset. Every function takes the number
  of the processor it runs on. The spin lock of a run queue makes its operations atomic and
  is left out.
\<close>

section \<open>State\<close>

datatype ProcessState = PROCESS_NEW | PROCESS_READY | PROCESS_RUNNING | PROCESS_SLEEPING
  | PROCESS_WAITING | PROCESS_TERMINATED | EXITED

record Registers =
  eax :: u32
  ebx :: u32
  ecx :: u32
  edx :: u32
  esi :: u32
  edi :: u32
  esp :: u32
  ebp :: u32
  cs :: u16
  ds :: u16
  ss :: u16
  es :: u16
  fs :: u16
  gs :: u16
  reg_cr3 :: u32
  eip :: u32
  eflags :: u32

record Stacks =
  user_stack :: u32
  user_stack_size :: u32
  kernel_stack :: u32
  esp0 :: u32
  ss0 :: u32
  ebp0 :: u32

record Task =
  task_id :: u32
  task_name :: "u8 list"
  state :: ProcessState
  priority :: u32
  time_slice :: int
  total_time :: u32
  exit_status :: u32
  sleep_ticks :: u32
  affinity :: u32
  regs :: Registers
  stacks :: Stacks
  task_next :: u32
  task_prev :: u32
  task_context :: u32
  debug_status :: u32
  task_cpu :: int

abbreviation (input) DEFAULT_TIME_SLICE :: int where "DEFAULT_TIME_SLICE \<equiv> 100"

abbreviation KERNEL_DS :: u32 where
  "KERNEL_DS \<equiv> 0x10"

text \<open>The offset of \<open>sched_list\<close> in a task: an identifier, 32 characters and six words.\<close>

abbreviation (input) sched_list_offset :: u32 where "sched_list_offset \<equiv> 60"

definition node_of :: "u32 \<Rightarrow> u32" where
  "node_of task = task + sched_list_offset"

abbreviation (input) list_entry :: "u32 \<Rightarrow> u32" where
  "list_entry node \<equiv> node - sched_list_offset"

record RunQueue =
  nr_running :: u32
  runnable_list :: u32

record Sched =
  runqueues :: "RunQueue option list"
  current_tasks :: "u32 list"
  idle_tasks :: "u32 list"
  links :: Links
  task_at :: "u32 \<Rightarrow> Task"
  switch_debug :: "(bool \<times> u32 \<times> u32)"

section \<open>Run queues\<close>

definition get_for_cpu :: "Sched \<Rightarrow> nat \<Rightarrow> RunQueue option" where
  "get_for_cpu s cpu = do { r \<leftarrow> arr_get (runqueues s) cpu; r }"

definition set_rq :: "Sched \<Rightarrow> nat \<Rightarrow> RunQueue \<Rightarrow> Sched" where
  "set_rq s cpu rq = s\<lparr>runqueues := (runqueues s)[cpu := Some rq]\<rparr>"

text \<open>Taking the first task of a queue, the same in \<open>pick_next_task\<close> and \<open>load_balance\<close>.\<close>

definition take_first :: "Sched \<Rightarrow> nat \<Rightarrow> RunQueue \<Rightarrow> u32 \<times> Sched" where
  "take_first s cpu rq =
     (let node = next_of (links s) (runnable_list rq) in
      (list_entry node,
       set_rq (s\<lparr>links := list_del_init node (links s)\<rparr>) cpu (rq\<lparr>nr_running := nr_running rq - 1\<rparr>)))"

definition load_balance :: "Sched \<Rightarrow> nat \<Rightarrow> (u32 \<times> Sched) option" where
  "load_balance s cpu =
     do { rq \<leftarrow> get_for_cpu s cpu;
          if \<not> list_empty (runnable_list rq) (links s) then Some (take_first s cpu rq)
          else do { idle \<leftarrow> arr_get (idle_tasks s) cpu; Some (idle, s) } }"

definition pick_next_task :: "Sched \<Rightarrow> nat \<Rightarrow> (u32 \<times> Sched) option" where
  "pick_next_task s cpu =
     do { rq \<leftarrow> get_for_cpu s cpu;
          if list_empty (runnable_list rq) (links s) then load_balance s cpu
          else Some (take_first s cpu rq) }"

definition enqueue_task :: "Sched \<Rightarrow> u32 \<Rightarrow> nat \<Rightarrow> Sched option" where
  "enqueue_task s p cpu =
     do { rq \<leftarrow> get_for_cpu s cpu;
          if p = 0 then None
          else Some (set_rq (s\<lparr>links := list_add_tail (node_of p) (runnable_list rq) (links s)\<rparr>) cpu
                 (rq\<lparr>nr_running := nr_running rq + 1\<rparr>)) }"

text \<open>The processors from \<open>cpu\<close> on, \<open>n\<close> of them; a processor without a queue has a null pointer.\<close>

primrec busiest_loop :: "Sched \<Rightarrow> nat \<Rightarrow> nat \<Rightarrow> u32 \<Rightarrow> nat \<Rightarrow> nat option" where
  "busiest_loop s 0 cpu max_tasks busiest = Some busiest"
| "busiest_loop s (Suc n) cpu max_tasks busiest =
     do { rq \<leftarrow> get_for_cpu s cpu;
          if nr_running rq > max_tasks then busiest_loop s n (cpu + 1) (nr_running rq) cpu
          else busiest_loop s n (cpu + 1) max_tasks busiest }"

definition find_busiest_cpu :: "Sched \<Rightarrow> nat option" where
  "find_busiest_cpu s = busiest_loop s MAX_CPUS 0 0 0"

text \<open>The mask \<open>(1 << max_cpus) - 1\<close>: a shift of a 32-bit integer by 32 is undefined.\<close>

definition set_affinity :: "Sched \<Rightarrow> u32 \<Rightarrow> u32 \<Rightarrow> Sched option" where
  "set_affinity s p cpu_mask =
     (if p = 0 then Some s
      else if MAX_CPUS \<ge> 32 then None
      else let valid_mask = push_bit MAX_CPUS 1 - 1;
               m = cpu_mask AND valid_mask;
               m' = if m = 0 then valid_mask else m
           in Some (s\<lparr>task_at := (task_at s)(p := (task_at s p)\<lparr>affinity := m'\<rparr>)\<rparr>))"

definition get_current_task :: "Sched \<Rightarrow> nat \<Rightarrow> u32 option" where
  "get_current_task s cpu = arr_get (current_tasks s) cpu"

definition set_current_task :: "Sched \<Rightarrow> nat \<Rightarrow> u32 \<Rightarrow> Sched option" where
  "set_current_task s cpu p =
     do { ts \<leftarrow> arr_set (current_tasks s) cpu p; Some (s\<lparr>current_tasks := ts\<rparr>) }"

definition get_idle_task :: "Sched \<Rightarrow> nat \<Rightarrow> u32 option" where
  "get_idle_task s cpu = arr_get (idle_tasks s) cpu"

definition set_idle_task :: "Sched \<Rightarrow> nat \<Rightarrow> u32 \<Rightarrow> Sched option" where
  "set_idle_task s cpu p =
     do { ts \<leftarrow> arr_set (idle_tasks s) cpu p; Some (s\<lparr>idle_tasks := ts\<rparr>) }"

definition upd_task :: "u32 \<Rightarrow> (Task \<Rightarrow> Task) \<Rightarrow> Sched \<Rightarrow> Sched option" where
  "upd_task p f s = (if p = 0 then None else Some (s\<lparr>task_at := (task_at s)(p := f (task_at s p))\<rparr>))"

section \<open>Scheduling\<close>

text \<open>\<open>--current->time_slice\<close>, undefined at the least integer.\<close>

abbreviation (input) dec_slice :: "u32 \<Rightarrow> Sched \<Rightarrow> Sched option" where
  "dec_slice p s \<equiv> (if time_slice (task_at s p) = - (2 ^ 31) then None
      else upd_task p (\<lambda>t. t\<lparr>time_slice := time_slice t - 1\<rparr>) s)"

definition schedule :: "Sched \<Rightarrow> nat \<Rightarrow> (bool \<times> Sched) option" where
  "schedule s cpu =
     do { current \<leftarrow> get_current_task s cpu;
          s1 \<leftarrow> (if current = 0 then Some s else dec_slice current s);
          if current \<noteq> 0 \<and> time_slice (task_at s1 current) > 0 then Some (False, s1)
          else do {
            (nxt, s2) \<leftarrow> pick_next_task s1 cpu;
            if nxt = 0 \<or> nxt = current then Some (False, s2)
            else do {
              s3 \<leftarrow> upd_task current (\<lambda>t. t\<lparr>time_slice := DEFAULT_TIME_SLICE\<rparr>) s2;
              s4 \<leftarrow> enqueue_task s3 current cpu;
              s5 \<leftarrow> set_current_task s4 cpu nxt;
              Some (True, s5\<lparr>switch_debug := (True, nxt, current)\<rparr>) } } }"

definition sleep_current_process :: "Sched \<Rightarrow> nat \<Rightarrow> u32 \<Rightarrow> Sched option" where
  "sleep_current_process s cpu ticks =
     do { p \<leftarrow> get_current_task s cpu;
          if p = 0 then Some s
          else do { s1 \<leftarrow> upd_task p (\<lambda>t. t\<lparr>state := PROCESS_SLEEPING, sleep_ticks := ticks\<rparr>) s;
                    (_, s2) \<leftarrow> schedule s1 cpu;
                    Some s2 } }"

section \<open>Round robin\<close>

lemma node_of_eq [simp]: "node_of a = node_of b \<longleftrightarrow> a = b"
  by (simp add: node_of_def)

lemma list_entry_node_of [simp]: "list_entry (node_of p) = p"
  by (simp add: node_of_def)

lemma distinct_node_of: "distinct (map node_of q) = distinct q"
  by (simp add: distinct_map inj_on_def)

text \<open>
  The tasks \<open>ts\<close> of a processor, the running one first and the others in the order of the
  queue with head \<open>h\<close>. The running task has \<open>k\<close> ticks left, the others a full slice.
\<close>

definition queue_rep :: "Sched \<Rightarrow> nat \<Rightarrow> u32 \<Rightarrow> u32 list \<Rightarrow> bool" where
  "queue_rep s cpu h q \<longleftrightarrow> cpu < length (runqueues s) \<and>
     runqueues s ! cpu = Some \<lparr>nr_running = of_nat (length q), runnable_list = h\<rparr> \<and>
     dll (links s) h (map node_of q)"

fun rr_state :: "Sched \<Rightarrow> nat \<Rightarrow> u32 \<Rightarrow> u32 list \<Rightarrow> int \<Rightarrow> bool" where
  "rr_state s cpu h [] k = False"
| "rr_state s cpu h (c # q) k \<longleftrightarrow>
     queue_rep s cpu h q \<and> cpu < length (current_tasks s) \<and> current_tasks s ! cpu = c \<and>
     distinct (c # q) \<and> 0 \<notin> set (c # q) \<and> node_of c \<noteq> h \<and>
     time_slice (task_at s c) = k \<and> (\<forall>p \<in> set q. time_slice (task_at s p) = DEFAULT_TIME_SLICE)"

lemma get_for_cpu_rep: "queue_rep s cpu h q \<Longrightarrow>
    get_for_cpu s cpu = Some \<lparr>nr_running = of_nat (length q), runnable_list = h\<rparr>"
  by (simp add: queue_rep_def get_for_cpu_def)

lemma pick_next_rep:
  assumes "queue_rep s cpu h (x # q)"
  shows "\<exists>s'. pick_next_task s cpu = Some (x, s') \<and> queue_rep s' cpu h q \<and>
    current_tasks s' = current_tasks s \<and> task_at s' = task_at s"
proof -
  have d: "dll (links s) h (node_of x # map node_of q)" using assms by (simp add: queue_rep_def)
  from run_list.pop_rep [OF d] show ?thesis
    using assms get_for_cpu_rep [OF assms]
    by (simp add: pick_next_task_def take_first_def set_rq_def Let_def queue_rep_def)
qed

lemma enqueue_rep:
  assumes "queue_rep s cpu h q" and "p \<noteq> 0" and "p \<notin> set q" and "node_of p \<noteq> h"
  shows "\<exists>s'. enqueue_task s p cpu = Some s' \<and> queue_rep s' cpu h (q @ [p]) \<and>
    current_tasks s' = current_tasks s \<and> task_at s' = task_at s"
proof -
  have d: "dll (links s) h (map node_of q)" using assms(1) by (simp add: queue_rep_def)
  have "node_of p \<notin> set (h # map node_of q)" using assms(3,4) by auto
  from dll_push [OF d this] show ?thesis
    using assms(1,2) get_for_cpu_rep [OF assms(1)]
    by (simp add: enqueue_task_def set_rq_def queue_rep_def)
qed

lemma queue_rep_task_at [simp]:
  "queue_rep (s\<lparr>task_at := t\<rparr>) cpu h q = queue_rep s cpu h q"
  "queue_rep (s\<lparr>current_tasks := ts\<rparr>) cpu h q = queue_rep s cpu h q"
  "queue_rep (s\<lparr>switch_debug := d\<rparr>) cpu h q = queue_rep s cpu h q"
  by (simp_all add: queue_rep_def)

lemma schedule_tick:
  assumes "rr_state s cpu h ts k" and "1 < k"
  shows "\<exists>s'. schedule s cpu = Some (False, s') \<and> rr_state s' cpu h ts (k - 1)"
proof (cases ts)
  case (Cons c q)
  then show ?thesis
    using assms by (auto simp: schedule_def get_current_task_def upd_task_def)
qed (use assms in simp)

lemma schedule_switch:
  assumes "rr_state s cpu h (c # x # q) 1"
  shows "\<exists>s'. schedule s cpu = Some (True, s') \<and> rr_state s' cpu h (x # q @ [c]) DEFAULT_TIME_SLICE"
proof -
  have q: "queue_rep s cpu h (x # q)" and c: "c \<noteq> 0" "x \<noteq> 0" "x \<noteq> c" "c \<notin> set q" "node_of c \<noteq> h"
    and cur: "cpu < length (current_tasks s)" "current_tasks s ! cpu = c"
    and t: "time_slice (task_at s c) = 1" using assms by auto
  have hx: "node_of x \<noteq> h" using q by (auto simp: queue_rep_def dll_def)
  let ?s1 = "s\<lparr>task_at := (task_at s)(c := (task_at s c)\<lparr>time_slice := 0\<rparr>)\<rparr>"
  have d: "dec_slice c s = Some ?s1" using c(1) t by (simp add: upd_task_def)
  have "queue_rep ?s1 cpu h (x # q)" using q by simp
  from pick_next_rep [OF this] obtain s2 where s2: "pick_next_task ?s1 cpu = Some (x, s2)"
    "queue_rep s2 cpu h q" "current_tasks s2 = current_tasks s" "task_at s2 = task_at ?s1" by auto
  let ?s3 = "s2\<lparr>task_at := (task_at s2)(c := (task_at s2 c)\<lparr>time_slice := DEFAULT_TIME_SLICE\<rparr>)\<rparr>"
  have "queue_rep ?s3 cpu h q" using s2(2) by simp
  from enqueue_rep [OF this c(1) c(4) c(5)] obtain s4 where s4: "enqueue_task ?s3 c cpu = Some s4"
    "queue_rep s4 cpu h (q @ [c])" "current_tasks s4 = current_tasks s" "task_at s4 = task_at ?s3"
    using s2(3) by auto
  have "schedule s cpu = Some (True, s4\<lparr>current_tasks := (current_tasks s)[cpu := x], switch_debug := (True, x, c)\<rparr>)"
    using d s2 s4 c cur
    by (simp add: schedule_def get_current_task_def set_current_task_def upd_task_def)
  then show ?thesis using s2 s4 c cur hx assms by auto
qed

text \<open>Timer interrupts: \<open>n\<close> calls of \<open>schedule\<close>.\<close>

primrec run_ticks :: "nat \<Rightarrow> Sched \<Rightarrow> nat \<Rightarrow> Sched option" where
  "run_ticks 0 s cpu = Some s"
| "run_ticks (Suc n) s cpu = do { (_, s') \<leftarrow> schedule s cpu; run_ticks n s' cpu }"

lemma run_ticks_add:
  "run_ticks (m + n) s cpu = do { s' \<leftarrow> run_ticks m s cpu; run_ticks n s' cpu }"
  by (induction m arbitrary: s) (auto split: bind_splits)

lemma run_ticks_within:
  assumes "rr_state s cpu h ts k" and "int t < k"
  shows "\<exists>s'. run_ticks t s cpu = Some s' \<and> rr_state s' cpu h ts (k - int t)"
  using assms
proof (induction t arbitrary: s k)
  case (Suc t)
  then obtain s1 where "schedule s cpu = Some (False, s1)" "rr_state s1 cpu h ts (k - 1)"
    using schedule_tick [of s cpu h ts k] by auto
  then show ?case using Suc.IH [of s1 "k - 1"] Suc.prems(2) by (auto simp: algebra_simps)
qed simp

lemma run_ticks_slice:
  assumes "rr_state s cpu h ts DEFAULT_TIME_SLICE" and "2 \<le> length ts"
  shows "\<exists>s'. run_ticks 100 s cpu = Some s' \<and> rr_state s' cpu h (rotate1 ts) DEFAULT_TIME_SLICE"
proof -
  obtain c x q where ts: "ts = c # x # q" using assms(2) by (cases ts; cases "tl ts") auto
  obtain s1 where s1: "run_ticks 99 s cpu = Some s1" "rr_state s1 cpu h (c # x # q) 1"
    using run_ticks_within [OF assms(1), of 99] ts by auto
  from schedule_switch [OF s1(2)] show ?thesis
    using run_ticks_add [of 99 1 s cpu] s1(1) ts by auto
qed

lemma run_ticks_rotate:
  assumes "rr_state s cpu h ts DEFAULT_TIME_SLICE" and "2 \<le> length ts"
  shows "\<exists>s'. run_ticks (100 * n) s cpu = Some s' \<and> rr_state s' cpu h (rotate n ts) DEFAULT_TIME_SLICE"
proof (induction n)
  case (Suc n)
  then obtain s1 where s1: "run_ticks (100 * n) s cpu = Some s1" "rr_state s1 cpu h (rotate n ts) DEFAULT_TIME_SLICE"
    by blast
  from run_ticks_slice [OF s1(2)] assms(2) show ?case
    using run_ticks_add [of "100 * n" 100 s cpu] s1(1) by (auto simp: add.commute)
qed (use assms in simp)

section \<open>Properties\<close>

text \<open>
  C17. Round robin: when every task of a processor starts with a full slice, then after
  \<open>100 * n + t\<close> timer ticks (\<open>t < 100\<close>) the running task is the one at position \<open>n\<close> modulo
  the number of tasks, with \<open>t\<close> ticks of its slice used, and the queue holds the others in
  their order. So every task runs for 100 ticks in every round, for ever.
\<close>

theorem round_robin:
  assumes "rr_state s cpu h ts DEFAULT_TIME_SLICE" and "2 \<le> length ts" and "t < 100"
  shows "\<exists>s'. run_ticks (100 * n + t) s cpu = Some s' \<and>
    rr_state s' cpu h (rotate n ts) (DEFAULT_TIME_SLICE - int t) \<and>
    get_current_task s' cpu = Some (ts ! (n mod length ts))"
proof -
  obtain s1 where s1: "run_ticks (100 * n) s cpu = Some s1" "rr_state s1 cpu h (rotate n ts) DEFAULT_TIME_SLICE"
    using run_ticks_rotate [OF assms(1,2)] by blast
  obtain s2 where s2: "run_ticks t s1 cpu = Some s2" "rr_state s2 cpu h (rotate n ts) (DEFAULT_TIME_SLICE - int t)"
    using run_ticks_within [OF s1(2)] assms(3) by auto
  have ne: "ts \<noteq> []" using assms(2) by auto
  then have "get_current_task s2 cpu = Some (hd (rotate n ts))"
    using s2(2) by (cases "rotate n ts") (auto simp: get_current_task_def)
  then show ?thesis using s1 s2 run_ticks_add [of "100 * n" t s cpu] hd_rotate_conv_nth [OF ne] by simp
qed

abbreviation (input) zero_regs :: Registers where
  "zero_regs \<equiv> \<lparr>eax = 0, ebx = 0, ecx = 0, edx = 0, esi = 0, edi = 0, esp = 0, ebp = 0, cs = 0, ds = 0, ss = 0,
     es = 0, fs = 0, gs = 0, reg_cr3 = 0, eip = 0, eflags = 0\<rparr>"

text \<open>A task as \<open>new Task()\<close> makes it: zeros and the default values of the members.\<close>

definition new_Task :: Task where
  "new_Task = \<lparr>task_id = 0, task_name = replicate 32 0, state = PROCESS_NEW, priority = 0,
     time_slice = DEFAULT_TIME_SLICE, total_time = 0, exit_status = 0, sleep_ticks = 0, affinity = 0,
     regs = zero_regs, stacks = \<lparr>user_stack = 0, user_stack_size = 0, kernel_stack = 0, esp0 = 0, ss0 = 0x08, ebp0 = 0\<rparr>,
     task_next = 0, task_prev = 0, task_context = 0, debug_status = 0, task_cpu = - 1\<rparr>"

definition two_tasks :: Sched where
  "two_tasks = \<lparr>runqueues = [Some \<lparr>nr_running = 1, runnable_list = 0x100\<rparr>], current_tasks = [0x1000],
     idle_tasks = [0x1000],
     links = list_add_tail (node_of 0x2000) 0x100 (INIT_LIST_HEAD 0x100 \<lparr>next_of = \<lambda>_. 0, prev_of = \<lambda>_. 0\<rparr>),
     task_at = (\<lambda>_. new_Task), switch_debug = (False, 0, 0)\<rparr>"

theorem round_robin_witness:
  "\<exists>s'. run_ticks (100 * 3 + 50) two_tasks 0 = Some s' \<and> get_current_task s' 0 = Some 0x2000"
proof -
  have "dll (links two_tasks) 0x100 [node_of 0x2000]"
    using dll_push [OF dll_init, of "node_of 0x2000" "0x100"]
    by (simp add: two_tasks_def node_of_def)
  then have "rr_state two_tasks 0 0x100 [0x1000, 0x2000] DEFAULT_TIME_SLICE"
    by (simp add: queue_rep_def two_tasks_def new_Task_def node_of_def)
  from round_robin [OF this, of 50 3] show ?thesis by (auto simp: numeral_2_eq_2 [symmetric])
qed

end
