(* ===== verification/Process.thy ===== *)
theory Process
  imports KernelMem UserMem CString Pid Sched
begin

text \<open>
  Processes, \<open>kernel/process/process.cpp\<close>, with the exit handler, \<open>Scheduler\<close>
  (\<open>kernel/process/scheduler.cpp\<close>), the global \<open>new\<close> and \<open>delete\<close> operators and the creation
  of the first tasks in \<open>kernel/core/main.cpp\<close>. The kernel's memory, its scheduler and its
  tables are one record. Tasks and contexts are objects at addresses. The final jump to
  user mode is the register values it loads; functions that only print are left out.
\<close>

section \<open>State\<close>

record Context =
  context_id :: u32
  user_mm :: UserMemory
  fd_table :: "u32 list"
  next_fd :: int
  cwd :: "u8 list"

record Kernel =
  kmem :: KernelMemory
  sched :: Sched
  pid_bitmap :: "u32 list"
  context_at :: "u32 \<Rightarrow> Context"
  kernel_context :: u32
  gdt :: GDT
  cpu_cr3 :: "nat \<Rightarrow> u32"
  current_time_slice :: u32

abbreviation (input) KERNEL_STACK_SIZE :: u32 where "KERNEL_STACK_SIZE \<equiv> 1024 * 16"
abbreviation (input) USER_STACK_SIZE :: u32 where "USER_STACK_SIZE \<equiv> 1024 * 4096"
abbreviation (input) KERNEL_CS :: u16 where "KERNEL_CS \<equiv> 0x08"
abbreviation (input) USER_DS :: u16 where "USER_DS \<equiv> 0x23"
abbreviation (input) PROCNAME_LEN :: nat where "PROCNAME_LEN \<equiv> 31"
abbreviation (input) MAX_PROCESS_FDS :: nat where "MAX_PROCESS_FDS \<equiv> 256"
abbreviation (input) DEBUG_STATUS_HALT :: u32 where "DEBUG_STATUS_HALT \<equiv> 1"
abbreviation (input) sizeof_Task :: u32 where "sizeof_Task \<equiv> 172"
abbreviation (input) sizeof_Context :: u32 where "sizeof_Context \<equiv> 1864"

section \<open>Memory operators\<close>

text \<open>A constructor that runs on a null pointer is undefined.\<close>

definition operator_new :: "u32 \<Rightarrow> Kernel \<Rightarrow> (u32 \<times> Kernel) option" where
  "operator_new sz k =
     do { (p, m) \<leftarrow> km_kmalloc (kmem k) sz; Some (p, k\<lparr>kmem := m\<rparr>) }"

definition operator_delete :: "u32 \<Rightarrow> Kernel \<Rightarrow> Kernel option" where
  "operator_delete p k =
     (if p = 0 then Some k else do { m \<leftarrow> km_kfree (kmem k) p; Some (k\<lparr>kmem := m\<rparr>) })"

definition upd_kernel_task :: "u32 \<Rightarrow> (Task \<Rightarrow> Task) \<Rightarrow> Kernel \<Rightarrow> Kernel option" where
  "upd_kernel_task t f k = do { s \<leftarrow> upd_task t f (sched k); Some (k\<lparr>sched := s\<rparr>) }"

definition upd_context :: "u32 \<Rightarrow> (Context \<Rightarrow> Context) \<Rightarrow> Kernel \<Rightarrow> Kernel option" where
  "upd_context c f k =
     (if c = 0 then None else Some (k\<lparr>context_at := (context_at k)(c := f (context_at k c))\<rparr>))"

text \<open>An operation on user memory runs on the page tables and the zones of the kernel.\<close>

definition on_pages ::
  "(PageManager \<Rightarrow> ('a \<times> PageManager) option) \<Rightarrow> Kernel \<Rightarrow> ('a \<times> Kernel) option" where
  "on_pages f k =
     do { (r, pm) \<leftarrow> f ((page_manager (kmem k))\<lparr>page_phys := zones (kmem k)\<rparr>);
          Some (r, k\<lparr>kmem := (kmem k)\<lparr>page_manager := pm, zones := page_phys pm\<rparr>\<rparr>) }"

section \<open>Contexts\<close>

definition page_alloc :: "PhysMemory \<Rightarrow> (u32 \<times> PhysMemory) option" where
  "page_alloc km = alloc_pages km 0 0"

definition page_free :: "u32 \<Rightarrow> PhysMemory \<Rightarrow> PhysMemory option" where
  "page_free p km = km_free_pages km p 0"

definition new_UserMemory :: UserMemory where
  "new_UserMemory = \<lparr>allocate_physical_page = (\<lambda>_. None), free_physical_page = (\<lambda>_ _. None),
     phys_to_virt = (\<lambda>_. 0), pgd_phys = 0, pgd = 0, start_code = 0, end_code = 0, start_data = 0, end_data = 0,
     start_heap = 0, end_heap = 0, start_stack = 0, end_stack = 0, total_vm = 0, locked_vm = 0,
     areas = replicate MAX_MEMORY_AREAS zero_area, num_areas = 0\<rparr>"

definition new_Context :: Context where
  "new_Context = \<lparr>context_id = 0, user_mm = new_UserMemory, fd_table = replicate MAX_PROCESS_FDS 0,
     next_fd = 3, cwd = 47 # replicate 255 0\<rparr>"

definition alloc_Context :: "Kernel \<Rightarrow> (u32 \<times> Kernel) option" where
  "alloc_Context k =
     do { (c, k) \<leftarrow> operator_new sizeof_Context k;
          k \<leftarrow> upd_context c (\<lambda>_. new_Context) k;
          Some (c, k) }"

definition create_context :: "u8 list \<Rightarrow> Kernel \<Rightarrow> (u32 \<times> Kernel) option" where
  "create_context name k =
     do { (pid, bm) \<leftarrow> pid_alloc (pid_bitmap k);
          (c, k) \<leftarrow> alloc_Context (k\<lparr>pid_bitmap := bm\<rparr>);
          k \<leftarrow> upd_context c (\<lambda>x. x\<lparr>context_id := word_of_int pid\<rparr>) k;
          Some (c, k) }"

text \<open>\<open>next_fd++\<close>, undefined at the greatest integer.\<close>

definition allocate_fd :: "u32 \<Rightarrow> Kernel \<Rightarrow> (int \<times> Kernel) option" where
  "allocate_fd c k =
     (let ret = next_fd (context_at k c) in
      if ret = 2 ^ 31 - 1 then None
      else do { k \<leftarrow> upd_context c (\<lambda>x. x\<lparr>next_fd := ret + 1\<rparr>) k; Some (ret, k) })"

definition cloneFiles :: "u32 \<Rightarrow> u32 \<Rightarrow> Kernel \<Rightarrow> Kernel option" where
  "cloneFiles c source k =
     (if source = 0 then None else upd_context c (\<lambda>x. x\<lparr>fd_table := fd_table (context_at k source)\<rparr>) k)"

definition cloneMemorySpace :: "u32 \<Rightarrow> u32 \<Rightarrow> Kernel \<Rightarrow> Kernel option" where
  "cloneMemorySpace c source k =
     (if source = 0 then Some k
      else let parent_pgd = pgd (user_mm (context_at k source)) in
        do { (paddr, zs) \<leftarrow> alloc_pages (zones (kmem k)) 0 0;
             let child_pgd = phys2Virt paddr in
             do { (_, k) \<leftarrow> on_pages (\<lambda>pm. map_option (Pair ()) (copyMemorySpaceCOW parent_pgd child_pgd pm))
                              (k\<lparr>kmem := (kmem k)\<lparr>zones := zs\<rparr>\<rparr>);
                  upd_context c (\<lambda>x. x\<lparr>user_mm := um_init (user_mm x) paddr child_pgd page_alloc page_free phys2Virt\<rparr>) k } })"

section \<open>Tasks\<close>

definition alloc_stack :: "u32 \<Rightarrow> Kernel \<Rightarrow> Kernel option" where
  "alloc_stack t k =
     do { (p, m) \<leftarrow> km_kmalloc (kmem k) KERNEL_STACK_SIZE;
          let e = p + KERNEL_STACK_SIZE - 16 in
          upd_kernel_task t (\<lambda>x. x\<lparr>stacks := (stacks x)\<lparr>ss0 := KERNEL_DS, kernel_stack := p, esp0 := e, ebp0 := e\<rparr>\<rparr>)
            (k\<lparr>kmem := m\<rparr>) }"

text \<open>\<open>Stacks::allocSpace\<close> and \<open>Task::allocUserStack\<close> do the same for a task of a context.\<close>

definition allocUserStack :: "u32 \<Rightarrow> Kernel \<Rightarrow> (int \<times> Kernel) option" where
  "allocUserStack t k =
     (let c = task_context (task_at (sched k) t) in
      if t = 0 \<or> c = 0 then None
      else do { ((start, um), k) \<leftarrow> on_pages (\<lambda>pm. map_option (\<lambda>(a, um, pm). ((a, um), pm))
                    (allocate_area (user_mm (context_at k c)) USER_STACK_SIZE PAGE_WRITE MEM_TYPE_STACK pm)) k;
                k \<leftarrow> upd_context c (\<lambda>x. x\<lparr>user_mm := um\<rparr>) k;
                k \<leftarrow> upd_kernel_task t (\<lambda>x. x\<lparr>stacks := (stacks x)\<lparr>user_stack_size := USER_STACK_SIZE,
                        user_stack := start\<rparr>\<rparr>) k;
                Some (if start = 0 then - 1 else 0, k) })"

text \<open>The name is copied up to 31 characters; \<open>n\<close> of them remain.\<close>

primrec copy_name :: "nat \<Rightarrow> u8 list \<Rightarrow> u8 list \<Rightarrow> nat \<Rightarrow> u8 list option" where
  "copy_name 0 name dest i = Some dest"
| "copy_name (Suc n) name dest i =
     do { c \<leftarrow> arr_get name i;
          if c = 0 then Some dest
          else do { dest \<leftarrow> arr_set dest i c; copy_name n name dest (i + 1) } }"

definition kernel_task :: "u32 \<Rightarrow> u8 list \<Rightarrow> u32 \<Rightarrow> Kernel \<Rightarrow> (u32 \<times> Kernel) option" where
  "kernel_task c name entry k =
     do { (t, k) \<leftarrow> operator_new sizeof_Task k;
          k \<leftarrow> upd_kernel_task t (\<lambda>_. new_Task) k;
          (tid, bm) \<leftarrow> pid_alloc (pid_bitmap k);
          k \<leftarrow> upd_kernel_task t (\<lambda>x. x\<lparr>task_id := word_of_int tid, task_context := c, state := PROCESS_READY,
                 priority := 0, time_slice := DEFAULT_TIME_SLICE, total_time := 0, exit_status := 0,
                 stacks := (stacks x)\<lparr>user_stack := 0, user_stack_size := 0\<rparr>,
                 regs := (regs x)\<lparr>eip := entry, eflags := 0x200, cs := KERNEL_CS, ds := ucast KERNEL_DS,
                   es := ucast KERNEL_DS, gs := ucast KERNEL_DS, fs := ucast KERNEL_DS, ss := ucast KERNEL_DS,
                   esp := esp0 (stacks x), ebp := ebp0 (stacks x), reg_cr3 := 0x400000\<rparr>\<rparr>)
               (k\<lparr>pid_bitmap := bm\<rparr>);
          k \<leftarrow> alloc_stack t k;
          nm \<leftarrow> copy_name PROCNAME_LEN name (task_name (task_at (sched k) t)) 0;
          nm \<leftarrow> arr_set nm PROCNAME_LEN 0;
          k \<leftarrow> upd_kernel_task t (\<lambda>x. x\<lparr>task_name := nm\<rparr>) k;
          Some (t, k) }"

definition fork :: "Kernel \<Rightarrow> int \<times> Kernel" where
  "fork k = (0, k)"

definition create_init_task :: "u32 \<Rightarrow> u32 \<Rightarrow> Kernel \<Rightarrow> (u32 \<times> Kernel) option" where
  "create_init_task init_entry c k =
     do { (ic, k) \<leftarrow> alloc_Context k;
          k \<leftarrow> cloneMemorySpace ic c k;
          k \<leftarrow> cloneFiles ic c k;
          (t, k) \<leftarrow> kernel_task ic [105, 110, 105, 116, 0] init_entry k;
          k \<leftarrow> alloc_stack t k;
          (_, k) \<leftarrow> allocUserStack t k;
          k \<leftarrow> upd_kernel_task t (\<lambda>x. x\<lparr>state := PROCESS_READY,
                 regs := (regs x)\<lparr>reg_cr3 := pgd_phys (user_mm (context_at k ic))\<rparr>\<rparr>) k;
          Some (t, k) }"

text \<open>The name of an idle task, \<open>idle-%d\<close> formatted, is an argument.\<close>

definition create_idle_task :: "u32 \<Rightarrow> u8 list \<Rightarrow> u32 \<Rightarrow> Kernel \<Rightarrow> (u32 \<times> Kernel) option" where
  "create_idle_task idle_entry name c k =
     do { (t, k) \<leftarrow> kernel_task c name idle_entry k;
          k \<leftarrow> alloc_stack t k;
          if c = 0 then None
          else do { k \<leftarrow> upd_kernel_task t (\<lambda>x. x\<lparr>state := PROCESS_READY,
                           regs := (regs x)\<lparr>reg_cr3 := pgd_phys (user_mm (context_at k c))\<rparr>\<rparr>) k;
                    Some (t, k) } }"

text \<open>A run queue is a lock, a count and a list head: 16 bytes, the list head at offset 8.\<close>

definition init_cpu :: "u32 \<Rightarrow> (nat \<Rightarrow> u8 list) \<Rightarrow> nat \<Rightarrow> Kernel \<Rightarrow> Kernel option" where
  "init_cpu idle_entry idle_name cpu k =
     do { (p, k) \<leftarrow> operator_new 16 k;
          if p = 0 then None
          else do {
            rqs \<leftarrow> arr_set (runqueues (sched k)) cpu (Some \<lparr>nr_running = 0, runnable_list = p + 8\<rparr>);
            let k = k\<lparr>sched := (sched k)\<lparr>runqueues := rqs, links := INIT_LIST_HEAD (p + 8) (links (sched k))\<rparr>\<rparr> in
            if cpu = 0 then Some k
            else do { (t, k) \<leftarrow> create_idle_task idle_entry (idle_name cpu) (kernel_context k) k;
                      s \<leftarrow> set_idle_task (sched k) cpu t;
                      s \<leftarrow> set_current_task s cpu t;
                      Some (k\<lparr>sched := s\<rparr>) } } }"

primrec sched_init :: "u32 \<Rightarrow> (nat \<Rightarrow> u8 list) \<Rightarrow> nat \<Rightarrow> Kernel \<Rightarrow> Kernel option" where
  "sched_init idle_entry idle_name 0 k = Some k"
| "sched_init idle_entry idle_name (Suc n) k =
     do { k \<leftarrow> sched_init idle_entry idle_name n k; init_cpu idle_entry idle_name n k }"

section \<open>Context switches\<close>

text \<open>
  The interrupt frame is the list of words from \<open>esp\<close> on: eight registers, four segments,
  then the words the processor pushed.
\<close>

definition frame_regs :: "u32 list \<Rightarrow> Registers \<Rightarrow> Registers option" where
  "frame_regs f r =
     (if length f < 15 then None
      else Some (r\<lparr>eax := f ! 7, ecx := f ! 6, edx := f ! 5, ebx := f ! 4, esp := f ! 3, ebp := f ! 2,
                   esi := f ! 1, edi := f ! 0, eflags := f ! 14, cs := ucast (f ! 13), eip := f ! 12,
                   ds := ucast (f ! 8), es := ucast (f ! 9), fs := ucast (f ! 10), gs := ucast (f ! 11)\<rparr>))"

definition save_context :: "Kernel \<Rightarrow> nat \<Rightarrow> u32 list \<Rightarrow> Kernel option" where
  "save_context k cpu f =
     do { t \<leftarrow> get_current_task (sched k) cpu;
          r \<leftarrow> frame_regs f (regs (task_at (sched k) t));
          let bad = (cs r \<noteq> 0x08 \<and> cs r \<noteq> 0x1b) \<or> ds r = 0 in
          upd_kernel_task t (\<lambda>x. x\<lparr>regs := r,
             debug_status := if bad then debug_status x OR DEBUG_STATUS_HALT else debug_status x\<rparr>) k }"

definition regs_frame :: "Registers \<Rightarrow> u32 list \<Rightarrow> u32 list option" where
  "regs_frame r f =
     (if length f < 15 then None
      else Some ([edi r, esi r, ebp r, esp r, ebx r, edx r, ecx r, eax r,
                  ucast (ds r), ucast (es r), ucast (fs r), ucast (gs r), eip r, ucast (cs r), eflags r] @ drop 15 f))"

text \<open>A task with a bad code segment that was marked before is halted: the loop never returns.\<close>

definition restore_context :: "Kernel \<Rightarrow> nat \<Rightarrow> u32 list \<Rightarrow> (u32 list \<times> Kernel) option" where
  "restore_context k cpu f =
     do { t \<leftarrow> get_current_task (sched k) cpu;
          let r = regs (task_at (sched k) t) in
          if t = 0 then None
          else if cs r \<noteq> 0x08 \<and> cs r \<noteq> 0x1b \<and> debug_status (task_at (sched k) t) AND DEBUG_STATUS_HALT \<noteq> 0
          then None
          else do {
            f' \<leftarrow> regs_frame r f;
            g \<leftarrow> updateTSS (gdt k) (of_nat cpu) (esp0 (stacks (task_at (sched k) t))) KERNEL_DS;
            g \<leftarrow> updateTSSCR3 g (of_nat cpu) (reg_cr3 r);
            let (sw, cur, prev) = switch_debug (sched k);
                sw' = (if sw \<and> task_cpu (task_at (sched k) cur) \<noteq> int cpu then False else sw)
            in do { k \<leftarrow> upd_kernel_task t (\<lambda>x. x\<lparr>debug_status := 0, task_cpu := int cpu\<rparr>)
                            (k\<lparr>gdt := g, sched := (sched k)\<lparr>switch_debug := (sw', cur, prev)\<rparr>\<rparr>);
                    Some (f', k\<lparr>cpu_cr3 := (cpu_cr3 k)(cpu := reg_cr3 r)\<rparr>) } } }"

text \<open>
  \<open>switch_to_user_mode\<close>, up to the \<open>iret\<close>: the stack segment, stack pointer, code segment and
  entry it loads. It prints the current task and the tables of the context, so neither may
  be null. The comparison with the flags in the source has no effect.
\<close>

definition switch_to_user_mode ::
  "u32 \<Rightarrow> u32 \<Rightarrow> nat \<Rightarrow> Kernel \<Rightarrow> ((u16 \<times> u32 \<times> u16 \<times> u32) \<times> Kernel) option" where
  "switch_to_user_mode entry_point t cpu k =
     (if t = 0 \<or> task_context (task_at (sched k) t) = 0 \<or> get_current_task (sched k) cpu \<in> {None, Some 0} then None
      else let tk = task_at (sched k) t;
               ustack = user_stack (stacks tk) + user_stack_size (stacks tk) - 16
           in do { k \<leftarrow> upd_kernel_task t (\<lambda>x. x\<lparr>regs := (regs x)\<lparr>eip := entry_point, esp := ustack,
                            ss := USER_DS, ds := USER_DS\<rparr>\<rparr>) k;
                   g \<leftarrow> updateTSS (gdt k) (of_nat cpu) (esp0 (stacks tk)) KERNEL_DS;
                   g \<leftarrow> updateTSSCR3 g (of_nat cpu) (reg_cr3 (regs tk));
                   Some ((0x23, ustack, 0x1B, entry_point), k\<lparr>gdt := g\<rparr>) })"

definition kernel_schedule :: "Kernel \<Rightarrow> nat \<Rightarrow> (bool \<times> Kernel) option" where
  "kernel_schedule k cpu = do { (b, s) \<leftarrow> schedule (sched k) cpu; Some (b, k\<lparr>sched := s\<rparr>) }"

definition timer_tick :: "Kernel \<Rightarrow> nat \<Rightarrow> Kernel option" where
  "timer_tick k cpu =
     do { t \<leftarrow> get_current_task (sched k) cpu;
          if t \<noteq> 0 \<and> state (task_at (sched k) t) = PROCESS_RUNNING
          then let n = current_time_slice k + 1 in
               if n \<ge> 100 then map_option snd (kernel_schedule (k\<lparr>current_time_slice := 0\<rparr>) cpu)
               else Some (k\<lparr>current_time_slice := n\<rparr>)
          else map_option snd (kernel_schedule k cpu) }"

text \<open>\<open>Scheduler::schedule\<close> does nothing, so the exit handler only marks the task.\<close>

definition exitHandler :: "u32 \<Rightarrow> Kernel \<Rightarrow> nat \<Rightarrow> (int \<times> Kernel) option" where
  "exitHandler status k cpu =
     do { t \<leftarrow> get_current_task (sched k) cpu;
          if t = 0 then Some (- 1, k)
          else do { k \<leftarrow> upd_kernel_task t (\<lambda>x. x\<lparr>state := EXITED, exit_status := status\<rparr>) k;
                    Some (0, k) } }"

section \<open>Properties\<close>

lemma ucast_16_roundtrip: "(x :: u32) < 0x10000 \<Longrightarrow> ucast (ucast x :: u16) = x"
proof -
  assume "x < 0x10000"
  then have "unat x < 65536" by (simp add: word_less_nat_alt)
  then have "unat (ucast (ucast x :: u16) :: u32) = unat x" by (simp add: unsigned_ucast_eq take_bit_eq_mod unat_mod)
  then show ?thesis by (simp add: word_unat_eq_iff)
qed

lemma take_15: "15 \<le> length f \<Longrightarrow>
    take 15 f = [f ! 0, f ! 1, f ! 2, f ! 3, f ! 4, f ! 5, f ! 6, f ! 7, f ! 8, f ! 9, f ! 10, f ! 11, f ! 12, f ! 13, f ! 14]"
  by (simp add: numeral_eq_Suc take_Suc_conv_app_nth) (cases f; simp)

lemma regs_frame_roundtrip:
  assumes "frame_regs f r0 = Some r" and "\<forall>i \<in> {8, 9, 10, 11, 13}. f ! i < 0x10000" and "15 \<le> length e"
  shows "regs_frame r e = Some (take 15 f @ drop 15 e)"
proof -
  have l: "15 \<le> length f" using assms(1) by (simp add: frame_regs_def split: if_splits)
  show ?thesis
    using assms unfolding take_15 [OF l] by (auto simp: frame_regs_def regs_frame_def ucast_16_roundtrip split: if_splits)
qed

text \<open>
  C20. A context switch restores what was saved: after \<open>save_context\<close> for a task, a later
  \<open>restore_context\<close> of the same task, on any processor and over any frame, puts back the 15
  words that were saved and leaves the words above them, among them the user stack pointer
  and segment, as they were in the frame it is given. It also points the task state segment
  of the processor to the kernel stack and the page directory of the task.
\<close>

theorem context_switch_roundtrip:
  assumes "save_context k cpu f = Some k1" and "get_current_task (sched k) cpu = Some t"
    and "\<forall>i \<in> {8, 9, 10, 11, 13}. f ! i < 0x10000" and "f ! 13 = 0x08 \<or> f ! 13 = 0x1b"
    and "regs (task_at (sched k2) t) = regs (task_at (sched k1) t)"
    and "get_current_task (sched k2) cpu' = Some t" and "cpu' < length (tss (gdt k2))" and "cpu' < 2 ^ 32"
    and "15 \<le> length e"
  shows "\<exists>k3. restore_context k2 cpu' e = Some (take 15 f @ drop 15 e, k3) \<and>
     tss_esp0 (tss (gdt k3) ! cpu') = esp0 (stacks (task_at (sched k2) t)) \<and>
     tss_cr3 (tss (gdt k3) ! cpu') = reg_cr3 (regs (task_at (sched k2) t))"
proof -
  obtain r where r: "frame_regs f (regs (task_at (sched k) t)) = Some r" and t: "t \<noteq> 0"
    and rt: "regs (task_at (sched k1) t) = r"
    using assms(1,2) by (auto simp: save_context_def upd_kernel_task_def upd_task_def Let_def split: bind_splits if_splits)
  have cs: "cs r = 0x08 \<or> cs r = 0x1b" using r assms(4) by (auto simp: frame_regs_def split: if_splits)
  have u: "unat (of_nat cpu' :: u32) = cpu'" using assms(8) by (simp add: unat_of_nat)
  have e: "regs_frame (regs (task_at (sched k2) t)) e = Some (take 15 f @ drop 15 e)"
    using regs_frame_roundtrip [OF r assms(3,9)] assms(5) rt by simp
  show ?thesis
    using assms(6,7) t cs e u assms(5) rt
    by (auto simp: restore_context_def updateTSS_def updateTSSCR3_def upd_tss_def upd_kernel_task_def upd_task_def
        Let_def case_prod_beta)
qed

definition switch_kernel :: Kernel where
  "switch_kernel = \<lparr>kmem = kmap_memory, sched = two_tasks, pid_bitmap = replicate 1024 0,
     context_at = (\<lambda>_. new_Context), kernel_context = 0x3000, gdt = empty_gdt, cpu_cr3 = (\<lambda>_. 0), current_time_slice = 0\<rparr>"

definition user_frame :: "u32 list" where
  "user_frame = [1, 2, 3, 4, 5, 6, 7, 8, 0x23, 0x23, 0x23, 0x23, 0x400000, 0x1b, 0x202, 0x7FFF0000, 0x23]"

theorem context_switch_roundtrip_witness:
  "\<exists>k1 k3. save_context switch_kernel 0 user_frame = Some k1 \<and>
     restore_context k1 0 (replicate 17 0) = Some (take 15 user_frame @ [0, 0], k3)"
proof -
  have c: "get_current_task (sched switch_kernel) 0 = Some 0x1000"
    by (simp add: switch_kernel_def two_tasks_def get_current_task_def)
  obtain k1 where k1: "save_context switch_kernel 0 user_frame = Some k1"
    and s: "current_tasks (sched k1) = current_tasks (sched switch_kernel)" "gdt k1 = gdt switch_kernel"
    using c by (auto simp: save_context_def frame_regs_def user_frame_def upd_kernel_task_def upd_task_def Let_def)
  have c1: "get_current_task (sched k1) 0 = Some 0x1000" using c s by (simp add: get_current_task_def)
  have "0 < length (tss (gdt k1))" using s(2) by (simp add: switch_kernel_def empty_gdt_def)
  from context_switch_roundtrip [OF k1 c _ _ refl c1 this, of "replicate 17 0"]
  obtain k3 where "restore_context k1 0 (replicate 17 0) = Some (take 15 user_frame @ replicate 2 0, k3)"
    by (auto simp: user_frame_def)
  moreover have "replicate 2 0 = [0, 0 :: u32]" by (simp add: numeral_2_eq_2)
  ultimately show ?thesis using k1 by metis
qed

end
