(* ===== verification/Cpio.thy ===== *)
theory Cpio
  imports CString
begin

text \<open>
  The headers of an archive in the new ASCII format, \<open>include/kernel/cpio.h\<close>: numbers of eight
  hexadecimal digits, the file type and the name that ends the archive.
\<close>

section \<open>Operations\<close>

abbreviation (input) CPIO_MAGIC :: "u8 list" where "CPIO_MAGIC \<equiv> [0x30, 0x37, 0x30, 0x37, 0x30, 0x31, 0]"

record CPIOHeader =
  magic :: "u8 list"
  ino :: "u8 list"
  cpio_mode :: "u8 list"
  uid :: "u8 list"
  gid :: "u8 list"
  nlink :: "u8 list"
  mtime :: "u8 list"
  filesize :: "u8 list"
  devmajor :: "u8 list"
  devminor :: "u8 list"
  rdevmajor :: "u8 list"
  rdevminor :: "u8 list"
  namesize :: "u8 list"
  check :: "u8 list"

abbreviation (input) sizeof_CPIOHeader :: nat where "sizeof_CPIOHeader \<equiv> 110"

text \<open>The header at the start of some bytes, as the cast of the pointer gives it.\<close>

definition header_at :: "u8 list \<Rightarrow> CPIOHeader option" where
  "header_at bs =
     (if length bs < sizeof_CPIOHeader then None
      else let field = (\<lambda>n. take 8 (drop (6 + 8 * n) bs)) in
        Some \<lparr>magic = take 6 bs, ino = field 0, cpio_mode = field 1, uid = field 2, gid = field 3,
              nlink = field 4, mtime = field 5, filesize = field 6, devmajor = field 7, devminor = field 8,
              rdevmajor = field 9, rdevminor = field 10, namesize = field 11, check = field 12\<rparr>)"

definition magic_match :: "u8 list \<Rightarrow> bool option" where
  "magic_match m = do { r \<leftarrow> strncmp m CPIO_MAGIC 6; Some (r = 0) }"

text \<open>One round of the loops that read numbers; other characters count as the digit 0.\<close>

definition hex_step :: "'a :: len word \<Rightarrow> u8 \<Rightarrow> 'a word" where
  "hex_step n c =
     (let s = push_bit 4 n in
      if 0x30 \<le> c \<and> c \<le> 0x39 then s OR ucast (c - 0x30)
      else if 0x61 \<le> c \<and> c \<le> 0x66 then s OR ucast (c - 0x61 + 10)
      else if 0x41 \<le> c \<and> c \<le> 0x46 then s OR ucast (c - 0x41 + 10)
      else s)"

definition get_filesize :: "CPIOHeader \<Rightarrow> u32" where
  "get_filesize h = foldl hex_step 0 (filesize h)"

definition get_namesize :: "CPIOHeader \<Rightarrow> u16" where
  "get_namesize h = foldl hex_step 0 (namesize h)"

definition get_mode :: "CPIOHeader \<Rightarrow> u16" where
  "get_mode h = foldl hex_step 0 (cpio_mode h)"

definition is_directory :: "CPIOHeader \<Rightarrow> bool" where
  "is_directory h \<longleftrightarrow> get_mode h AND 0xF000 = 0x4000"

definition is_regular :: "CPIOHeader \<Rightarrow> bool" where
  "is_regular h \<longleftrightarrow> get_mode h AND 0xF000 = 0x8000"

text \<open>The characters are compared one after the other, up to the first that differs.\<close>

primrec starts_with :: "u8 list \<Rightarrow> u8 list \<Rightarrow> bool option" where
  "starts_with [] s = Some True"
| "starts_with (p # ps) s =
     (case s of [] \<Rightarrow> None | c # cs \<Rightarrow> if c = p then starts_with ps cs else Some False)"

definition is_trailer :: "u8 list \<Rightarrow> bool option" where
  "is_trailer name = starts_with [0x54, 0x52, 0x41, 0x49, 0x4C, 0x45, 0x52, 0x21, 0x21] name"

section \<open>Printed numbers\<close>

text \<open>The digits of a number, most significant first, and the numbers they stand for.\<close>

definition hex_char :: "nat \<Rightarrow> u8" where
  "hex_char d = (if d < 10 then of_nat (48 + d) else of_nat (87 + d))"

primrec hex_print :: "nat \<Rightarrow> nat \<Rightarrow> u8 list" where
  "hex_print 0 v = []"
| "hex_print (Suc k) v = hex_print k (v div 16) @ [hex_char (v mod 16)]"

lemma length_hex_print [simp]: "length (hex_print k v) = k"
  by (induction k arbitrary: v) auto

lemma hex_step_char:
  assumes "d < 16"
  shows "hex_step (n :: 'a :: len word) (hex_char d) = push_bit 4 n OR of_nat d"
proof -
  have "d = 0 \<or> d = 1 \<or> d = 2 \<or> d = 3 \<or> d = 4 \<or> d = 5 \<or> d = 6 \<or> d = 7 \<or> d = 8 \<or> d = 9 \<or> d = 10 \<or>
      d = 11 \<or> d = 12 \<or> d = 13 \<or> d = 14 \<or> d = 15"
    using assms by presburger
  then show ?thesis
    by (elim disjE) (simp_all add: hex_step_def hex_char_def ucast_eq unsigned_word_eqI)
qed

lemma hex_step_of_nat:
  assumes "d < 16"
  shows "hex_step (of_nat m :: 'a :: len word) (hex_char d) = of_nat (m * 16 + d)"
proof -
  have "push_bit 4 (of_nat m :: 'a word) = of_nat (push_bit 4 m)" by (rule push_bit_of_nat)
  moreover have "push_bit 4 m OR d = m * 16 + d"
  proof -
    have "take_bit 4 d = d" using assms by (simp add: take_bit_nat_eq_self)
    then have "push_bit 4 m AND d = push_bit 4 m AND take_bit 4 d" by simp
    also have "\<dots> = 0" by (rule bit_eqI) (auto simp: bit_simps)
    finally have "push_bit 4 m AND d = 0" .
    then show ?thesis by (simp add: disjunctive_add_eq_or [symmetric] push_bit_eq_mult)
  qed
  ultimately show ?thesis using assms by (simp add: hex_step_char of_nat_or_eq [symmetric])
qed

lemma foldl_hex_print:
  assumes "v < 16 ^ k"
  shows "foldl hex_step (of_nat m :: 'a :: len word) (hex_print k v) = of_nat (m * 16 ^ k + v)"
  using assms
proof (induction k arbitrary: v)
  case (Suc k)
  then have "v div 16 < 16 ^ k" by (simp add: less_mult_imp_div_less mult.commute)
  from Suc.IH [OF this]
  have "foldl hex_step (of_nat m :: 'a word) (hex_print (Suc k) v) =
      hex_step (of_nat (m * 16 ^ k + v div 16)) (hex_char (v mod 16))"
    by (simp del: of_nat_add of_nat_mult)
  also have "\<dots> = of_nat ((m * 16 ^ k + v div 16) * 16 + v mod 16)"
    by (rule hex_step_of_nat) simp
  also have "(m * 16 ^ k + v div 16) * 16 + v mod 16 = m * 16 ^ Suc k + v"
    by (simp add: algebra_simps)
  finally show ?case .
qed simp

end
