(* ===== verification/MemFs.thy ===== *)
theory MemFs
  imports Process Cpio
begin

text \<open>
  The memory file system of \<open>kernel/fs/memfs.cpp\<close>. Inodes and file descriptors are objects
  at addresses that the kernel allocates; a directory points to its first entry and an entry
  to the next one. The data of a file is an address with the bytes of its buffer, which no
  other inode points to. Bytes of fresh memory are arbitrary: \<open>garbage\<close> gives them.
\<close>

section \<open>State\<close>

datatype FileType = FT_UNKNOWN | FT_REG | FT_DIR | FT_CHR | FT_BLK | FT_FIFO | FT_SOCK | FT_LNK

record FileAttribute =
  attr_type :: FileType
  attr_size :: u32
  attr_mode :: u32

record MemFSInode =
  iname :: "u8 list"
  itype :: FileType
  imode :: u32
  idata :: "(u32 \<times> u8 list) option"
  isize :: u32
  icapacity :: u32
  iparent :: u32
  ichildren :: u32
  inext :: u32

record MemFSFileDescriptor =
  fd_inode :: u32
  fd_offset :: u32

record MemFS =
  fs_kernel :: Kernel
  inode_at :: "u32 \<Rightarrow> MemFSInode"
  fd_at :: "u32 \<Rightarrow> MemFSFileDescriptor"
  fs_root :: u32
  garbage :: "nat \<Rightarrow> u8"

abbreviation (input) sizeof_MemFSInode :: u32 where "sizeof_MemFSInode \<equiv> 288"
abbreviation (input) sizeof_MemFSFileDescriptor :: u32 where "sizeof_MemFSFileDescriptor \<equiv> 12"
abbreviation (input) NAME_LEN :: nat where "NAME_LEN \<equiv> 256"

definition fs_new :: "u32 \<Rightarrow> MemFS \<Rightarrow> (u32 \<times> MemFS) option" where
  "fs_new sz mf = do { (p, k) \<leftarrow> operator_new sz (fs_kernel mf); Some (p, mf\<lparr>fs_kernel := k\<rparr>) }"

definition fs_delete :: "u32 \<Rightarrow> MemFS \<Rightarrow> MemFS option" where
  "fs_delete p mf = do { k \<leftarrow> operator_delete p (fs_kernel mf); Some (mf\<lparr>fs_kernel := k\<rparr>) }"

definition get_inode :: "MemFS \<Rightarrow> u32 \<Rightarrow> MemFSInode option" where
  "get_inode mf a = (if a = 0 then None else Some (inode_at mf a))"

definition upd_inode :: "u32 \<Rightarrow> (MemFSInode \<Rightarrow> MemFSInode) \<Rightarrow> MemFS \<Rightarrow> MemFS option" where
  "upd_inode a f mf = (if a = 0 then None else Some (mf\<lparr>inode_at := (inode_at mf)(a := f (inode_at mf a))\<rparr>))"

definition fresh_bytes :: "MemFS \<Rightarrow> nat \<Rightarrow> u8 list" where
  "fresh_bytes mf n = map (garbage mf) [0..<n]"

section \<open>File descriptors\<close>

definition new_MemFSFileDescriptor :: "u32 \<Rightarrow> MemFS \<Rightarrow> (u32 \<times> MemFS) option" where
  "new_MemFSFileDescriptor inode mf =
     do { (d, mf) \<leftarrow> fs_new sizeof_MemFSFileDescriptor mf;
          if d = 0 then None
          else Some (d, mf\<lparr>fd_at := (fd_at mf)(d := \<lparr>fd_inode = inode, fd_offset = 0\<rparr>)\<rparr>) }"

definition set_offset :: "u32 \<Rightarrow> u32 \<Rightarrow> MemFS \<Rightarrow> MemFS" where
  "set_offset d off mf = mf\<lparr>fd_at := (fd_at mf)(d := (fd_at mf d)\<lparr>fd_offset := off\<rparr>)\<rparr>"

text \<open>\<open>read\<close> returns the count and the buffer with the bytes it stored there.\<close>

definition memfs_read :: "u32 \<Rightarrow> u8 list \<Rightarrow> u32 \<Rightarrow> MemFS \<Rightarrow> (int \<times> u8 list \<times> MemFS) option" where
  "memfs_read d buffer sz mf =
     do { let offset = fd_offset (fd_at mf d);
          node \<leftarrow> get_inode mf (fd_inode (fd_at mf d));
          if offset \<ge> isize node then Some (0, buffer, mf)
          else do {
            let remaining = isize node - offset;
            let read_size = (if sz < remaining then sz else remaining);
            (_, bytes) \<leftarrow> idata node;
            buffer \<leftarrow> memcpy buffer (drop (unat offset) bytes) (unat read_size);
            Some (sint read_size, buffer, set_offset d (offset + read_size) mf) } }"

definition memfs_grow :: "u32 \<Rightarrow> u32 \<Rightarrow> MemFS \<Rightarrow> MemFS option" where
  "memfs_grow a new_capacity mf =
     do { node \<leftarrow> get_inode mf a;
          (p, mf) \<leftarrow> fs_new new_capacity mf;
          let bytes = (if p = 0 then [] else fresh_bytes mf (unat new_capacity));
          (bytes, mf) \<leftarrow> (case idata node of
             None \<Rightarrow> Some (bytes, mf)
           | Some (q, old) \<Rightarrow>
               do { bytes \<leftarrow> memcpy bytes old (unat (isize node)); mf \<leftarrow> fs_delete q mf; Some (bytes, mf) });
          upd_inode a (\<lambda>n. n\<lparr>idata := if p = 0 then None else Some (p, bytes), icapacity := new_capacity\<rparr>) mf }"

definition memfs_reserve :: "u32 \<Rightarrow> u32 \<Rightarrow> MemFS \<Rightarrow> MemFS option" where
  "memfs_reserve a n mf =
     do { node \<leftarrow> get_inode mf a; if n > icapacity node then memfs_grow a (n * 2) mf else Some mf }"

definition memfs_write :: "u32 \<Rightarrow> u8 list \<Rightarrow> u32 \<Rightarrow> MemFS \<Rightarrow> (int \<times> MemFS) option" where
  "memfs_write d buffer sz mf =
     do { let offset = fd_offset (fd_at mf d);
          let a = fd_inode (fd_at mf d);
          mf \<leftarrow> memfs_reserve a (offset + sz) mf;
          node \<leftarrow> get_inode mf a;
          mf \<leftarrow> (if sz = 0 then Some mf
                else do {
                  (p, bytes) \<leftarrow> idata node;
                  tail \<leftarrow> memcpy (drop (unat offset) bytes) buffer (unat sz);
                  upd_inode a (\<lambda>n. n\<lparr>idata := Some (p, take (unat offset) bytes @ tail)\<rparr>) mf });
          let mf = set_offset d (offset + sz) mf;
          mf \<leftarrow> (if offset + sz > isize node then upd_inode a (\<lambda>n. n\<lparr>isize := offset + sz\<rparr>) mf else Some mf);
          Some (sint sz, mf) }"

definition memfs_seek :: "u32 \<Rightarrow> u32 \<Rightarrow> MemFS \<Rightarrow> (int \<times> MemFS) option" where
  "memfs_seek d new_offset mf =
     do { node \<leftarrow> get_inode mf (fd_inode (fd_at mf d));
          if new_offset > isize node then Some (- 1, mf) else Some (0, set_offset d new_offset mf) }"

definition memfs_close :: "u32 \<Rightarrow> MemFS \<Rightarrow> (int \<times> MemFS) option" where
  "memfs_close d mf = do { mf \<leftarrow> fs_delete d mf; Some (0, mf) }"

text \<open>
  A directory entry is 12 bytes long: two words, a half word, the type and one byte of the
  name, at offset 11. The whole name is copied there.
\<close>

abbreviation (input) sizeof_dirent :: nat where "sizeof_dirent \<equiv> 12"

definition word_bytes :: "u32 \<Rightarrow> u8 list" where
  "word_bytes w = map (\<lambda>i. ucast (drop_bit (8 * i) w)) [0, 1, 2, 3]"

definition put_bytes :: "u8 list \<Rightarrow> nat \<Rightarrow> u8 list \<Rightarrow> u8 list option" where
  "put_bytes buf pos bs = do { tail \<leftarrow> memcpy (drop pos buf) bs (length bs); Some (take pos buf @ tail) }"

definition put_string :: "u8 list \<Rightarrow> nat \<Rightarrow> u8 list \<Rightarrow> u8 list option" where
  "put_string buf pos s = do { tail \<leftarrow> strcpy (drop pos buf) s; Some (take pos buf @ tail) }"

definition put_dirent :: "u8 list \<Rightarrow> nat \<Rightarrow> u32 \<Rightarrow> u32 \<Rightarrow> MemFSInode \<Rightarrow> u8 list option" where
  "put_dirent buf pos child count node =
     do { buf \<leftarrow> put_bytes buf pos (word_bytes child);
          buf \<leftarrow> put_bytes buf (pos + 4) (word_bytes (count + 1));
          buf \<leftarrow> put_bytes buf (pos + 8) [of_nat sizeof_dirent, 0];
          buf \<leftarrow> put_bytes buf (pos + 10) [if itype node = FT_DIR then 4 else 8];
          put_string buf (pos + 11) (iname node) }"

partial_function (option) skip_entries :: "MemFS \<Rightarrow> u32 \<Rightarrow> u32 \<Rightarrow> u32 \<Rightarrow> (u32 \<times> u32) option" where
  [code]: "skip_entries mf pos child count =
     (if child \<noteq> 0 \<and> count < pos then skip_entries mf pos (inext (inode_at mf child)) (count + 1)
      else Some (child, count))"

partial_function (option) iterate_loop ::
  "MemFS \<Rightarrow> nat \<Rightarrow> u32 \<Rightarrow> u32 \<Rightarrow> u8 list \<Rightarrow> nat \<Rightarrow> (u8 list \<times> nat \<times> u32) option" where
  [code]: "iterate_loop mf buffer_size child count buf written =
     (if child \<noteq> 0 \<and> written + sizeof_dirent \<le> buffer_size
      then do { let node = inode_at mf child;
                _ \<leftarrow> strlen (iname node);
                buf \<leftarrow> put_dirent buf written child count node;
                iterate_loop mf buffer_size (inext node) (count + 1) buf (written + sizeof_dirent) }
      else Some (buf, written, count))"

definition memfs_iterate ::
  "u32 \<Rightarrow> u8 list \<Rightarrow> u32 \<Rightarrow> u32 \<Rightarrow> MemFS \<Rightarrow> (int \<times> u8 list \<times> u32) option" where
  "memfs_iterate d buffer buffer_size pos mf =
     (let a = fd_inode (fd_at mf d) in
      if a = 0 \<or> itype (inode_at mf a) \<noteq> FT_DIR then Some (- 1, buffer, pos)
      else do { (child, count) \<leftarrow> skip_entries mf pos (ichildren (inode_at mf a)) 0;
                (buffer, written, count) \<leftarrow> iterate_loop mf (unat buffer_size) child count buffer 0;
                Some (int written, buffer, count) })"

section \<open>Inodes\<close>

definition memfs_create_inode :: "u8 list \<Rightarrow> FileType \<Rightarrow> MemFS \<Rightarrow> (u32 \<times> MemFS) option" where
  "memfs_create_inode name ty mf =
     do { (a, mf) \<leftarrow> fs_new sizeof_MemFSInode mf;
          nm \<leftarrow> strncpy (fresh_bytes mf NAME_LEN) name (NAME_LEN - 1);
          mf \<leftarrow> upd_inode a (\<lambda>_. \<lparr>iname = nm, itype = ty, imode = 0x1ED, idata = None, isize = 0, icapacity = 0,
                 iparent = 0, ichildren = 0, inext = 0\<rparr>) mf;
          Some (a, mf) }"

definition memfs_init :: "MemFS \<Rightarrow> MemFS option" where
  "memfs_init mf = do { (a, mf) \<leftarrow> memfs_create_inode [0] FT_DIR mf; Some (mf\<lparr>fs_root := a\<rparr>) }"

text \<open>The loop that looks for a name among the entries of a directory.\<close>

partial_function (option) find_child :: "MemFS \<Rightarrow> u8 list \<Rightarrow> u32 \<Rightarrow> u32 option" where
  [code]: "find_child mf name child =
     (if child = 0 then Some 0
      else do { r \<leftarrow> strcmp (iname (inode_at mf child)) name;
                if r = 0 then Some child else find_child mf name (inext (inode_at mf child)) })"

primrec skip_slashes :: "u8 list \<Rightarrow> u8 list" where
  "skip_slashes [] = []"
| "skip_slashes (c # s) = (if c = 0x2F then skip_slashes s else c # s)"

partial_function (option) find_loop :: "MemFS \<Rightarrow> u32 \<Rightarrow> u8 list \<Rightarrow> u32 option" where
  [code]: "find_loop mf current p =
     do { c \<leftarrow> arr_get p 0;
          if c = 0 then Some current
          else do {
            let p = skip_slashes p;
            c \<leftarrow> arr_get p 0;
            if c = 0 then Some current
            else do {
              end \<leftarrow> strchr p 0x2F;
              len \<leftarrow> (case end of None \<Rightarrow> strlen p | Some e \<Rightarrow> Some e);
              if len \<ge> NAME_LEN then Some 0
              else do {
                name \<leftarrow> strncpy (replicate NAME_LEN 0) p len;
                name \<leftarrow> arr_set name len 0;
                node \<leftarrow> get_inode mf current;
                found \<leftarrow> find_child mf name (ichildren node);
                if found = 0 then Some 0 else find_loop mf found (drop len p) } } } }"

text \<open>A path is \<open>None\<close> when the pointer is null.\<close>

definition find_inode :: "u8 list option \<Rightarrow> MemFS \<Rightarrow> u32 option" where
  "find_inode path mf =
     (case path of
        None \<Rightarrow> Some (fs_root mf)
      | Some p \<Rightarrow> do { c \<leftarrow> arr_get p 0; if c = 0 then Some (fs_root mf) else find_loop mf (fs_root mf) p })"

partial_function (option) free_inode :: "u32 \<Rightarrow> MemFS \<Rightarrow> MemFS option" where
  [code]: "free_inode a mf =
     (if a = 0 then Some mf
      else let child = ichildren (inode_at mf a) in
        if child \<noteq> 0
        then do { mf \<leftarrow> upd_inode a (\<lambda>n. n\<lparr>ichildren := inext (inode_at mf child)\<rparr>) mf;
                  mf \<leftarrow> free_inode child mf;
                  free_inode a mf }
        else do { mf \<leftarrow> (case idata (inode_at mf a) of None \<Rightarrow> Some mf | Some (p, _) \<Rightarrow> fs_delete p mf);
                  fs_delete a mf })"

definition memfs_destroy :: "MemFS \<Rightarrow> MemFS option" where
  "memfs_destroy mf = (if fs_root mf \<noteq> 0 then free_inode (fs_root mf) mf else Some mf)"

section \<open>Operations on paths\<close>

definition memfs_open :: "u8 list option \<Rightarrow> MemFS \<Rightarrow> (u32 \<times> MemFS) option" where
  "memfs_open path mf =
     do { a \<leftarrow> find_inode path mf; if a = 0 then Some (0, mf) else new_MemFSFileDescriptor a mf }"

definition memfs_stat :: "u8 list option \<Rightarrow> FileAttribute \<Rightarrow> MemFS \<Rightarrow> (int \<times> FileAttribute) option" where
  "memfs_stat path attr mf =
     do { a \<leftarrow> find_inode path mf;
          if a = 0 then Some (- 1, attr)
          else let n = inode_at mf a in
            Some (0, attr\<lparr>attr_type := itype n, attr_mode := imode n, attr_size := isize n\<rparr>) }"

definition link_child :: "u32 \<Rightarrow> u32 \<Rightarrow> MemFS \<Rightarrow> MemFS option" where
  "link_child a parent mf =
     do { pn \<leftarrow> get_inode mf parent;
          mf \<leftarrow> upd_inode a (\<lambda>n. n\<lparr>iparent := parent, inext := ichildren pn\<rparr>) mf;
          upd_inode parent (\<lambda>n. n\<lparr>ichildren := a\<rparr>) mf }"

definition memfs_mkdir :: "u8 list \<Rightarrow> MemFS \<Rightarrow> (int \<times> MemFS) option" where
  "memfs_mkdir path mf =
     do { last_slash \<leftarrow> strrchr path 0x2F;
          (case last_slash of
             None \<Rightarrow> Some (- 1, mf)
           | Some parent_len \<Rightarrow>
               if parent_len \<ge> NAME_LEN then Some (- 1, mf)
               else do {
                 pp \<leftarrow> strncpy (replicate NAME_LEN 0) path parent_len;
                 pp \<leftarrow> arr_set pp parent_len 0;
                 parent \<leftarrow> find_inode (Some pp) mf;
                 if parent = 0 \<or> itype (inode_at mf parent) \<noteq> FT_DIR then Some (- 1, mf)
                 else do {
                   let name = drop (parent_len + 1) path;
                   c \<leftarrow> arr_get name 0;
                   if c = 0 then Some (- 1, mf)
                   else do {
                     found \<leftarrow> find_child mf name (ichildren (inode_at mf parent));
                     if found \<noteq> 0 then Some (- 1, mf)
                     else do { (a, mf) \<leftarrow> memfs_create_inode name FT_DIR mf;
                               mf \<leftarrow> link_child a parent mf;
                               Some (0, mf) } } } }) }"

text \<open>The walk over the entries of a directory that unlinks one of them.\<close>

partial_function (option) unlink_entry :: "u32 \<Rightarrow> u32 \<Rightarrow> MemFS \<Rightarrow> MemFS option" where
  [code]: "unlink_entry node prev mf =
     (if prev = 0 then Some mf
      else if inext (inode_at mf prev) = node
      then upd_inode prev (\<lambda>n. n\<lparr>inext := inext (inode_at mf node)\<rparr>) mf
      else unlink_entry node (inext (inode_at mf prev)) mf)"

definition remove_node :: "u32 \<Rightarrow> MemFS \<Rightarrow> (int \<times> MemFS) option" where
  "remove_node node mf =
     (let parent = iparent (inode_at mf node) in
      if parent = 0 then Some (- 1, mf)
      else do { mf \<leftarrow> (if ichildren (inode_at mf parent) = node
                      then upd_inode parent (\<lambda>n. n\<lparr>ichildren := inext (inode_at mf node)\<rparr>) mf
                      else unlink_entry node (ichildren (inode_at mf parent)) mf);
                mf \<leftarrow> free_inode node mf;
                Some (0, mf) })"

definition memfs_unlink :: "u8 list option \<Rightarrow> MemFS \<Rightarrow> (int \<times> MemFS) option" where
  "memfs_unlink path mf =
     (case path of
        None \<Rightarrow> Some (- 1, mf)
      | Some p \<Rightarrow>
          do { c \<leftarrow> arr_get p 0;
               if c = 0 then Some (- 1, mf)
               else do { file \<leftarrow> find_inode path mf;
                         if file = 0 \<or> itype (inode_at mf file) \<noteq> FT_REG then Some (- 1, mf)
                         else remove_node file mf } })"

definition memfs_rmdir :: "u8 list option \<Rightarrow> MemFS \<Rightarrow> (int \<times> MemFS) option" where
  "memfs_rmdir path mf =
     (case path of
        None \<Rightarrow> Some (- 1, mf)
      | Some p \<Rightarrow>
          do { c \<leftarrow> arr_get p 0;
               if c = 0 then Some (- 1, mf)
               else do { r \<leftarrow> strcmp p [0x2F, 0];
                         if r = 0 then Some (- 1, mf)
                         else do { dir \<leftarrow> find_inode path mf;
                                   if dir = 0 \<or> itype (inode_at mf dir) \<noteq> FT_DIR then Some (- 1, mf)
                                   else if ichildren (inode_at mf dir) \<noteq> 0 then Some (- 1, mf)
                                   else remove_node dir mf } } })"

section \<open>The initial archive\<close>

text \<open>
  A position in the archive is an offset from its address; a pointer beyond the address
  space is undefined.
\<close>

definition ptr_add :: "u32 \<Rightarrow> nat \<Rightarrow> nat \<Rightarrow> nat option" where
  "ptr_add base i n = (if unat base + i + n < 2 ^ 32 then Some (i + n) else None)"

definition ptr_align :: "u32 \<Rightarrow> nat \<Rightarrow> nat option" where
  "ptr_align base i = do { j \<leftarrow> ptr_add base i 3; Some ((unat base + j) div 4 * 4 - unat base) }"

definition load_entry :: "u8 list \<Rightarrow> FileType \<Rightarrow> u8 list \<Rightarrow> u32 \<Rightarrow> MemFS \<Rightarrow> MemFS option" where
  "load_entry name ty content fsize mf =
     do { (a, mf) \<leftarrow> memfs_create_inode name ty mf;
          mf \<leftarrow> (if ty = FT_REG \<and> fsize > 0
                then do { (p, mf) \<leftarrow> fs_new fsize mf;
                          if p = 0 then None
                          else do { bytes \<leftarrow> memcpy (fresh_bytes mf (unat fsize)) content (unat fsize);
                                    upd_inode a (\<lambda>n. n\<lparr>idata := Some (p, bytes), isize := fsize, icapacity := fsize\<rparr>) mf } }
                else upd_inode a (\<lambda>n. n\<lparr>idata := None, isize := 0, icapacity := 0\<rparr>) mf);
          link_child a (fs_root mf) mf }"

lemma ptr_add_ge: "ptr_add base i n = Some j \<Longrightarrow> j = i + n"
  by (auto simp: ptr_add_def split: if_splits)

lemma ptr_align_ge: "ptr_align base i = Some j \<Longrightarrow> i \<le> j"
  by (auto simp: ptr_align_def ptr_add_def split: bind_splits if_splits)

function load_loop :: "u32 \<Rightarrow> u8 list \<Rightarrow> nat \<Rightarrow> MemFS \<Rightarrow> MemFS option" where
  "load_loop base bs i mf =
     do { j \<leftarrow> ptr_add base i sizeof_CPIOHeader;
          if j > length bs then Some mf
          else do {
            header \<leftarrow> header_at (drop i bs);
            _ \<leftarrow> magic_match (magic header);
            if j \<ge> length bs then Some mf
            else do {
              k \<leftarrow> ptr_add base j (unat (get_namesize header));
              if k > length bs then Some mf
              else do {
                p \<leftarrow> ptr_align base k;
                trailer \<leftarrow> is_trailer (drop j bs);
                if trailer then Some mf
                else do {
                  e \<leftarrow> ptr_add base p (unat (get_filesize header));
                  if e > length bs then Some mf
                  else do {
                    mf \<leftarrow> load_entry (drop j bs) (if is_directory header then FT_DIR else FT_REG)
                            (drop p bs) (get_filesize header) mf;
                    n \<leftarrow> ptr_align base e;
                    load_loop base bs n mf } } } } } }"
  by pat_completeness auto
termination
  by (relation "measure (\<lambda>(base, bs, i, mf). length bs - i)")
    (auto dest!: ptr_add_ge ptr_align_ge)

declare load_loop.simps [simp del]

definition load_initramfs :: "u32 \<Rightarrow> u8 list \<Rightarrow> MemFS \<Rightarrow> (int \<times> MemFS) option" where
  "load_initramfs base bs mf =
     (if length bs < sizeof_CPIOHeader then Some (- 1, mf)
      else do { mf \<leftarrow> load_loop base bs 0 mf; Some (0, mf) })"

end
