(* ===== verification/Shell.thy ===== *)
theory Shell
  imports Format MemFs
begin

text \<open>
  The shell, \<open>rootfs/\<close>: its own formatter and number reader, the splitting of a command line,
  the table of commands, the commands and the loop of \<open>main\<close>. The shell runs in user
  mode; the system calls it makes are an argument, a record of functions over the state \<open>'w\<close> of
  the rest of the system. A string is the bytes from its pointer to the end of its object.
\<close>

section \<open>The system as the shell sees it\<close>

text \<open>
  The calls of \<open>syscall_user.h\<close>. A call that fills a buffer returns the bytes the buffer has
  afterwards. \<open>garbage\<close> and \<open>garbage_attr\<close> are the values of local variables that are not initialised.
\<close>

record 'w Sys =
  garbage :: "nat \<Rightarrow> u8"
  garbage_attr :: FileAttribute
  syscall_open :: "u8 list \<Rightarrow> 'w \<Rightarrow> (int \<times> 'w) option"
  syscall_read :: "int \<Rightarrow> u8 list \<Rightarrow> u32 \<Rightarrow> 'w \<Rightarrow> ((int \<times> u8 list) \<times> 'w) option"
  syscall_write :: "int \<Rightarrow> u8 list \<Rightarrow> u32 \<Rightarrow> 'w \<Rightarrow> (int \<times> 'w) option"
  syscall_close :: "int \<Rightarrow> 'w \<Rightarrow> (int \<times> 'w) option"
  syscall_chdir :: "u8 list \<Rightarrow> 'w \<Rightarrow> (int \<times> 'w) option"
  syscall_pwd :: "u8 list \<Rightarrow> u32 \<Rightarrow> 'w \<Rightarrow> ((int \<times> u8 list) \<times> 'w) option"
  syscall_unlink :: "u8 list \<Rightarrow> 'w \<Rightarrow> (int \<times> 'w) option"
  syscall_stat :: "u8 list \<Rightarrow> FileAttribute \<Rightarrow> 'w \<Rightarrow> ((int \<times> FileAttribute) \<times> 'w) option"
  syscall_getdents :: "int \<Rightarrow> u8 list \<Rightarrow> u32 \<Rightarrow> u32 \<Rightarrow> 'w \<Rightarrow> ((int \<times> u8 list \<times> u32) \<times> 'w) option"
  syscall_nanosleep :: "u32 \<Rightarrow> u32 \<Rightarrow> 'w \<Rightarrow> (int \<times> 'w) option"

definition locals :: "'w Sys \<Rightarrow> nat \<Rightarrow> u8 list" where
  "locals S n = map (garbage S) [0..<n]"

lemma length_locals [simp]: "length (locals S n) = n"
  by (simp add: locals_def)

text \<open>A string literal.\<close>

definition c_str :: "string \<Rightarrow> u8 list" where
  "c_str s = map of_char s @ [0]"

section \<open>Formatting and reading numbers\<close>

text \<open>\<open>buf[i++] = c\<close>, and the loops that copy characters while there is room for one more and the zero.\<close>

definition put :: "u8 \<Rightarrow> u8 list \<times> nat \<Rightarrow> (u8 list \<times> nat) option" where
  "put c st = do { buf \<leftarrow> arr_set (fst st) (snd st) c; Some (buf, snd st + 1) }"

primrec put_digits :: "nat \<Rightarrow> u8 list \<Rightarrow> u8 list \<times> nat \<Rightarrow> (u8 list \<times> nat) option" where
  "put_digits bufsize [] st = Some st"
| "put_digits bufsize (c # xs) st =
     (if snd st + 1 < bufsize then do { st \<leftarrow> put c st; put_digits bufsize xs st } else Some st)"

primrec put_str :: "nat \<Rightarrow> u8 list \<Rightarrow> u8 list \<times> nat \<Rightarrow> (u8 list \<times> nat) option" where
  "put_str bufsize [] st = None"
| "put_str bufsize (c # s) st =
     (if c \<noteq> 0 \<and> snd st + 1 < bufsize then do { st \<leftarrow> put c st; put_str bufsize s st } else Some st)"

text \<open>What follows a percent sign; the conversion of the least integer is undefined.\<close>

definition convert :: "nat \<Rightarrow> u8 \<Rightarrow> va_arg list \<Rightarrow> u8 list \<times> nat \<Rightarrow> ((u8 list \<times> nat) \<times> va_arg list) option" where
  "convert bufsize d args st =
     (if d = 0x64 then do {
        (v, args) \<leftarrow> va_int args;
        if sint v = - (2 ^ 31) then None
        else do {
          st \<leftarrow> put_digits bufsize ((if sint v < 0 then [0x2D] else []) @ digits_of False 10 (nat \<bar>sint v\<bar>)) st;
          Some (st, args) } }
      else if d = 0x78 then do {
        (v, args) \<leftarrow> va_int args;
        st \<leftarrow> put_digits bufsize (digits_of False 16 (unat v)) st;
        Some (st, args) }
      else if d = 0x73 then do {
        (s, args) \<leftarrow> va_str args;
        s \<leftarrow> s;
        st \<leftarrow> put_str bufsize s st;
        Some (st, args) }
      else if d = 0x63 then do {
        (v, args) \<leftarrow> va_int args;
        st \<leftarrow> (if snd st + 1 < bufsize then put (ucast v) st else Some st);
        Some (st, args) }
      else if d = 0x25 then do { st \<leftarrow> put 0x25 st; Some (st, args) }
      else do {
        st \<leftarrow> put 0x25 st;
        st \<leftarrow> (if snd st + 1 < bufsize then put d st else Some st);
        Some (st, args) })"

fun format_chars :: "nat \<Rightarrow> u8 list \<Rightarrow> va_arg list \<Rightarrow> u8 list \<times> nat \<Rightarrow> (u8 list \<times> nat) option" where
  "format_chars bufsize [] args st = None"
| "format_chars bufsize (c # fmt) args st =
     (if c = 0 \<or> \<not> snd st + 1 < bufsize then Some st
      else if c \<noteq> 0x25 then do { st \<leftarrow> put c st; format_chars bufsize fmt args st }
      else case fmt of
             [] \<Rightarrow> None
           | d # fmt \<Rightarrow> do { (st, args) \<leftarrow> convert bufsize d args st; format_chars bufsize fmt args st })"

definition format_string :: "u8 list \<Rightarrow> nat \<Rightarrow> u8 list \<Rightarrow> va_arg list \<Rightarrow> (nat \<times> u8 list) option" where
  "format_string buf bufsize fmt args =
     do { (buf, i) \<leftarrow> format_chars bufsize fmt args (buf, 0);
          buf \<leftarrow> arr_set buf i 0;
          Some (i, buf) }"

definition printf :: "'w Sys \<Rightarrow> u8 list \<Rightarrow> va_arg list \<Rightarrow> 'w \<Rightarrow> 'w option" where
  "printf S fmt args w =
     do { (len, buf) \<leftarrow> format_string (locals S 1024) 1024 fmt args;
          (_, w) \<leftarrow> syscall_write S 1 buf (of_nat len) w;
          Some w }"

text \<open>A loop \<open>while (P(*s)) s++\<close>: the index where it stops.\<close>

primrec advance :: "(u8 \<Rightarrow> bool) \<Rightarrow> u8 list \<Rightarrow> nat \<Rightarrow> nat option" where
  "advance P [] i = None"
| "advance P (c # xs) i = (if P c then advance P xs (i + 1) else Some i)"

fun atoi_loop :: "u8 list \<Rightarrow> int \<Rightarrow> int option" where
  "atoi_loop [] result = None"
| "atoi_loop (c # xs) result =
     (if is_digit c
      then let r = result * 10 + (uint c - 0x30) in if r < 2 ^ 31 then atoi_loop xs r else None
      else Some result)"

definition atoi :: "u8 list \<Rightarrow> int option" where
  "atoi input =
     do { i \<leftarrow> advance (\<lambda>c. c = 0x20) input 0;
          c \<leftarrow> arr_get input i;
          result \<leftarrow> atoi_loop (drop (if c = 0x2D \<or> c = 0x2B then i + 1 else i) input) 0;
          Some (if c = 0x2D then - result else result) }"

text \<open>The results of \<open>scanf\<close>: the number stored, or the contents of the character array.\<close>

datatype scan_arg = SInt int | SStr "u8 list"

fun scan_chars :: "u8 list \<Rightarrow> u8 list \<Rightarrow> scan_arg list \<Rightarrow> scan_arg list option" where
  "scan_chars [] input args = None"
| "scan_chars (p # ps) input args =
     (if p = 0 then Some args
      else if p \<noteq> 0x25 then do { c \<leftarrow> arr_get input 0; scan_chars ps (if p = c then tl input else input) args }
      else case ps of
             [] \<Rightarrow> None
           | d # ps \<Rightarrow>
               if d = 0x64 then do {
                 n \<leftarrow> atoi input;
                 i \<leftarrow> advance is_digit input 0;
                 case args of SInt _ # rest \<Rightarrow> map_option ((#) (SInt n)) (scan_chars ps (drop i input) rest) | _ \<Rightarrow> None }
               else if d = 0x73 then do {
                 i \<leftarrow> advance (\<lambda>c. c \<noteq> 0x20 \<and> c \<noteq> 0x0A \<and> c \<noteq> 0) input 0;
                 case args of
                   SStr s # rest \<Rightarrow>
                     if i < length s
                     then map_option ((#) (SStr (take i input @ 0 # drop (i + 1) s))) (scan_chars ps (drop i input) rest)
                     else None
                 | _ \<Rightarrow> None }
               else scan_chars ps input args)"

text \<open>A failing read gives a \<open>size_t\<close> of all ones, and the zero goes outside the array.\<close>

definition scanf :: "'w Sys \<Rightarrow> u8 list \<Rightarrow> scan_arg list \<Rightarrow> 'w \<Rightarrow> (scan_arg list \<times> 'w) option" where
  "scanf S fmt args w =
     do { ((n, buf), w) \<leftarrow> syscall_read S 0 (locals S 1024) 1023 w;
          buf \<leftarrow> (if n \<noteq> 0 then if n < 0 then None else arr_set buf (nat n) 0 else Some buf);
          args \<leftarrow> scan_chars fmt buf args;
          Some (args, w) }"

text \<open>The nanoseconds are a \<open>long\<close> of 32 bits.\<close>

definition my_sleep :: "'w Sys \<Rightarrow> u32 \<Rightarrow> 'w \<Rightarrow> 'w option" where
  "my_sleep S ms w =
     (if \<bar>sint ms * 1000000\<bar> \<ge> 2 ^ 31 then None
      else do { (_, w) \<leftarrow> syscall_nanosleep S 0 (ms * 1000000) w; Some w })"

section \<open>The command line\<close>

text \<open>
  The loop of \<open>parse_cmd\<close>; \<open>n\<close> more arguments fit into \<open>argv\<close>. The arguments are offsets into the
  line, whose separators become zeros.
\<close>

primrec parse_loop :: "nat \<Rightarrow> u8 list \<Rightarrow> nat \<Rightarrow> nat list \<Rightarrow> (nat list \<times> u8 list) option" where
  "parse_loop 0 cmd token argv = Some (argv, cmd)"
| "parse_loop (Suc n) cmd token argv =
     do { c \<leftarrow> arr_get cmd token;
          if c = 0 then Some (argv, cmd)
          else do {
            stop \<leftarrow> advance (\<lambda>c. c \<noteq> 0 \<and> c \<noteq> 0x20) (drop token cmd) token;
            c \<leftarrow> arr_get cmd stop;
            if c = 0 then parse_loop n cmd stop (argv @ [token])
            else do {
              cmd \<leftarrow> arr_set cmd stop 0;
              next \<leftarrow> advance (\<lambda>c. c \<noteq> 0 \<and> c = 0x20) (drop (stop + 1) cmd) (stop + 1);
              parse_loop n cmd next (argv @ [token]) } } }"

definition parse_cmd :: "u8 list \<Rightarrow> (nat list \<times> u8 list) option" where
  "parse_cmd cmd = do { token \<leftarrow> advance (\<lambda>c. c \<noteq> 0 \<and> c = 0x20) cmd 0; parse_loop 16 cmd token [] }"

section \<open>Commands\<close>

datatype CommandHandler = cat_cmd | cd_cmd | echo_cmd | find_cmd | ls_cmd | rm_cmd | pwd_cmd | xxd_cmd | help_cmd

record Command =
  cmd_name :: "u8 list"
  cmd_handler :: CommandHandler
  cmd_description :: "u8 list"

text \<open>The loop of both functions on the table: the first command of that name.\<close>

primrec find_command :: "u8 list \<Rightarrow> Command list \<Rightarrow> Command option option" where
  "find_command name [] = Some None"
| "find_command name (c # commands) =
     do { r \<leftarrow> strcmp (cmd_name c) name; if r = 0 then Some (Some c) else find_command name commands }"

definition register_command :: "'w Sys \<Rightarrow> Command \<Rightarrow> Command list \<times> 'w \<Rightarrow> (Command list \<times> 'w) option" where
  "register_command S cmd = (\<lambda>(commands, w).
     if length commands \<ge> 1000 then do {
       let full = c_str ''Cannot register command '%s': command table full\<newline>'';
       w \<leftarrow> printf S full [VStr (Some (c_str ''asdfasd''))] w;
       w \<leftarrow> printf S full [VStr (Some (cmd_name cmd))] w;
       Some (commands, w) }
     else do {
       found \<leftarrow> find_command (cmd_name cmd) commands;
       if found \<noteq> None then do {
         w \<leftarrow> printf S (c_str ''Command '%s' already registered\<newline>'') [VStr (Some (cmd_name cmd))] w;
         Some (commands, w) }
       else Some (commands @ [cmd], w) })"

subsection \<open>cat, cd, pwd, echo, rm\<close>

partial_function (option) cat_loop :: "'w Sys \<Rightarrow> int \<Rightarrow> u8 list \<Rightarrow> 'w \<Rightarrow> 'w option" where
  [code]: "cat_loop S fd buf w =
     do { ((n, buf), w) \<leftarrow> syscall_read S fd buf 1024 w;
          if n > 0 then do { (_, w) \<leftarrow> syscall_write S 1 buf (word_of_int n) w; cat_loop S fd buf w }
          else Some w }"

definition cmd_cat :: "'w Sys \<Rightarrow> nat \<Rightarrow> u8 list list \<Rightarrow> 'w \<Rightarrow> 'w option" where
  "cmd_cat S argc argv w =
     (if argc < 2 then printf S (c_str ''cat: missing operand\<newline>'') [] w
      else do {
        path \<leftarrow> arr_get argv 1;
        (fd, w) \<leftarrow> syscall_open S path w;
        if fd < 0 then printf S (c_str ''cat: cannot open '%s'\<newline>'') [VStr (Some path)] w
        else do {
          w \<leftarrow> cat_loop S fd (locals S 1024) w;
          (_, w) \<leftarrow> syscall_close S fd w;
          Some w } })"

definition cmd_cd :: "'w Sys \<Rightarrow> nat \<Rightarrow> u8 list list \<Rightarrow> 'w \<Rightarrow> 'w option" where
  "cmd_cd S argc argv w =
     (if argc < 2 then printf S (c_str ''cd: missing directory operand\<newline>'') [] w
      else do {
        path \<leftarrow> arr_get argv 1;
        (r, w) \<leftarrow> syscall_chdir S path w;
        if r < 0 then printf S (c_str ''cd: cannot change directory to '%s'\<newline>'') [VStr (Some path)] w
        else Some w })"

definition cmd_pwd :: "'w Sys \<Rightarrow> nat \<Rightarrow> u8 list list \<Rightarrow> 'w \<Rightarrow> 'w option" where
  "cmd_pwd S argc argv w =
     do { ((r, cwd), w) \<leftarrow> syscall_pwd S (locals S 1024) 1024 w;
          if r < 0 then printf S (c_str ''pwd: cannot get current directory\<newline>'') [] w
          else do {
            len \<leftarrow> strlen cwd;
            (_, w) \<leftarrow> syscall_write S 1 cwd (of_nat len) w;
            (_, w) \<leftarrow> syscall_write S 1 (c_str ''\<newline>'') 1 w;
            Some w } }"

text \<open>The arguments themselves are the formats.\<close>

primrec echo_loop :: "'w Sys \<Rightarrow> u8 list list \<Rightarrow> 'w \<Rightarrow> 'w option" where
  "echo_loop S [] w = Some w"
| "echo_loop S (arg # args) w =
     do { w \<leftarrow> printf S arg [] w;
          w \<leftarrow> (if args \<noteq> [] then printf S (c_str '' '') [] w else Some w);
          echo_loop S args w }"

definition cmd_echo :: "'w Sys \<Rightarrow> nat \<Rightarrow> u8 list list \<Rightarrow> 'w \<Rightarrow> 'w option" where
  "cmd_echo S argc argv w =
     (if argc < 2 then printf S (c_str ''\<newline>'') [] w
      else if length argv < argc then None
      else do { w \<leftarrow> echo_loop S (take (argc - 1) (tl argv)) w; printf S (c_str ''\<newline>'') [] w })"

definition cmd_rm :: "'w Sys \<Rightarrow> nat \<Rightarrow> u8 list list \<Rightarrow> 'w \<Rightarrow> 'w option" where
  "cmd_rm S argc argv w =
     (if argc < 2 then printf S (c_str ''rm: missing operand\<newline>'') [] w
      else do {
        path \<leftarrow> arr_get argv 1;
        (r, w) \<leftarrow> syscall_unlink S path w;
        if r < 0 then printf S (c_str ''rm: cannot remove '%s'\<newline>'') [VStr (Some path)] w else Some w })"

subsection \<open>ls and find\<close>

text \<open>The record of a directory entry at \<open>p\<close>: its length, its type and its name.\<close>

definition entry_at :: "u8 list \<Rightarrow> nat \<Rightarrow> (nat \<times> u8 \<times> u8 list) option" where
  "entry_at buf p =
     do { lo \<leftarrow> arr_get buf (p + 8);
          hi \<leftarrow> arr_get buf (p + 9);
          type \<leftarrow> arr_get buf (p + 10);
          Some (unat lo + 256 * unat hi, type, drop (p + 11) buf) }"

partial_function (option) ls_entries :: "'w Sys \<Rightarrow> u8 list \<Rightarrow> nat \<Rightarrow> nat \<Rightarrow> 'w \<Rightarrow> 'w option" where
  [code]: "ls_entries S buf bytes_read p w =
     (if p < bytes_read
      then do { (reclen, _, name) \<leftarrow> entry_at buf p;
                len \<leftarrow> strlen name;
                (_, w) \<leftarrow> syscall_write S 1 name (of_nat len) w;
                (_, w) \<leftarrow> syscall_write S 1 (c_str ''\<newline>'') 1 w;
                ls_entries S buf bytes_read (p + reclen) w }
      else Some w)"

partial_function (option) ls_loop :: "'w Sys \<Rightarrow> int \<Rightarrow> u8 list \<Rightarrow> u32 \<Rightarrow> 'w \<Rightarrow> 'w option" where
  [code]: "ls_loop S fd buf pos w =
     do { ((n, buf, pos), w) \<leftarrow> syscall_getdents S fd buf 1024 pos w;
          if n \<le> 0 then Some w else do { w \<leftarrow> ls_entries S buf (nat n) 0 w; ls_loop S fd buf pos w } }"

definition cmd_ls :: "'w Sys \<Rightarrow> nat \<Rightarrow> u8 list list \<Rightarrow> 'w \<Rightarrow> 'w option" where
  "cmd_ls S argc argv w =
     do { path \<leftarrow> (if argc > 1 then arr_get argv 1 else Some (c_str ''.''));
          ((r, attr), w) \<leftarrow> syscall_stat S path (garbage_attr S) w;
          if r < 0 then printf S (c_str ''ls: cannot access '%s'\<newline>'') [VStr (Some path)] w
          else if attr_type attr \<noteq> FileType.FT_DIR then do {
            (_, buf) \<leftarrow> format_string (locals S 256) 256 (c_str (''%s'' @ [CHR 0x09] @ ''%d bytes\<newline>''))
              [VStr (Some path), VInt (attr_size attr)];
            len \<leftarrow> strlen buf;
            (_, w) \<leftarrow> syscall_write S 1 buf (of_nat len) w;
            Some w }
          else do {
            (fd, w) \<leftarrow> syscall_open S path w;
            if fd < 0 then printf S (c_str ''ls: cannot open directory '%s'\<newline>'') [VStr (Some path)] w
            else do {
              (_, title) \<leftarrow> format_string (locals S 256) 256 (c_str ''Directory listing of %s:\<newline>'') [VStr (Some path)];
              len \<leftarrow> strlen title;
              (_, w) \<leftarrow> syscall_write S 1 title (of_nat len) w;
              w \<leftarrow> ls_loop S fd (locals S 1024) 0 w;
              (_, w) \<leftarrow> syscall_close S fd w;
              Some w } } }"

text \<open>
  \<open>find_in_directory\<close> and its two loops: a call starts with \<open>Dir\<close>, \<open>Entries\<close> is the loop over
  the entries read at last, from the offset \<open>p\<close>. An unused end of a buffer of 1024 bytes ends the search.
\<close>

datatype find_work = Dir "u8 list" | Read "u8 list" int "u8 list" u32 | Entries "u8 list" int "u8 list" u32 nat nat

partial_function (option) find_in_directory :: "'w Sys \<Rightarrow> u8 list option \<Rightarrow> find_work \<Rightarrow> 'w \<Rightarrow> 'w option" where
  [code]: "find_in_directory S pattern work w =
     (case work of
        Dir dir_path \<Rightarrow> do {
          (fd, w) \<leftarrow> syscall_open S dir_path w;
          if fd < 0 then printf S (c_str ''find: cannot open directory '%s'\<newline>'') [VStr (Some dir_path)] w
          else do {
            w \<leftarrow> find_in_directory S pattern (Read dir_path fd (locals S 1024) 0) w;
            (_, w) \<leftarrow> syscall_close S fd w;
            Some w } }
      | Read dir_path fd buf pos \<Rightarrow> do {
          ((n, buf, pos), w) \<leftarrow> syscall_getdents S fd buf 1024 pos w;
          if n < 0 then printf S (c_str ''find: cannot read directory '%s'\<newline>'') [VStr (Some dir_path)] w
          else find_in_directory S pattern (Entries dir_path fd buf pos (nat n) 0) w }
      | Entries dir_path fd buf pos bytes_read p \<Rightarrow>
          if p < bytes_read
          then do {
            (reclen, type, name) \<leftarrow> entry_at buf p;
            dot \<leftarrow> strcmp name (c_str ''.'');
            dotdot \<leftarrow> (if dot \<noteq> 0 then strcmp name (c_str ''..'') else Some 0);
            w \<leftarrow> (if dot \<noteq> 0 \<and> dotdot \<noteq> 0 then do {
              (_, full_path) \<leftarrow> format_string (locals S 256) 256 (c_str ''%s/%s'') [VStr (Some dir_path), VStr (Some name)];
              found \<leftarrow> (case pattern of None \<Rightarrow> Some True | Some pat \<Rightarrow> map_option (\<lambda>r. r \<noteq> None) (strstr (Some name) (Some pat)));
              w \<leftarrow> (if found then do {
                len \<leftarrow> strlen full_path;
                (_, w) \<leftarrow> syscall_write S 1 full_path (of_nat len) w;
                (_, w) \<leftarrow> syscall_write S 1 (c_str ''\<newline>'') 1 w;
                Some w } else Some w);
              if type = 2 then find_in_directory S pattern (Dir full_path) w else Some w } else Some w);
            find_in_directory S pattern (Entries dir_path fd buf pos bytes_read (p + reclen)) w }
          else if bytes_read < 1024 then Some w
          else find_in_directory S pattern (Read dir_path fd buf pos) w)"

definition cmd_find :: "'w Sys \<Rightarrow> nat \<Rightarrow> u8 list list \<Rightarrow> 'w \<Rightarrow> 'w option" where
  "cmd_find S argc argv w =
     do { path \<leftarrow> (if argc > 1 then arr_get argv 1 else Some (c_str ''.''));
          pattern \<leftarrow> (if argc > 2 then map_option Some (arr_get argv 2) else Some None);
          find_in_directory S pattern (Dir path) w }"

subsection \<open>xxd\<close>

text \<open>The sixteen columns; \<open>format_string\<close> with a variable number of arguments is the one of the kernel library.\<close>

primrec xxd_columns :: "nat \<Rightarrow> u8 list \<Rightarrow> nat \<Rightarrow> u8 list \<times> nat \<Rightarrow> (u8 list \<times> nat) option" where
  "xxd_columns 0 data i st = Some st"
| "xxd_columns (Suc k) data i st =
     (case st of (line, p) \<Rightarrow>
        do { (n, line) \<leftarrow> (case data of
               [] \<Rightarrow> format_at line p 4 (c_str ''   '') []
             | b # _ \<Rightarrow> format_at line p 4 (c_str ''%02x '') [VInt (ucast b)]);
             st \<leftarrow> (if i = 7 then put 0x20 (line, p + n) else Some (line, p + n));
             xxd_columns k (tl data) (i + 1) st })"

definition print_hex_line :: "'w Sys \<Rightarrow> u8 list \<Rightarrow> u32 \<Rightarrow> 'w \<Rightarrow> 'w option" where
  "print_hex_line S data offset w =
     do { (n, line) \<leftarrow> format_at (locals S 80) 0 8 (c_str ''%08x: '') [VInt offset];
          (line, p) \<leftarrow> xxd_columns 16 data 0 (line, n);
          (line, p) \<leftarrow> put_chars (length line + 1)
            ([0x20, 0x7C] @ map (\<lambda>c. if 32 \<le> c \<and> c \<le> 126 then c else 0x2E) data @ [0x7C, 0x0A]) (line, p);
          (_, w) \<leftarrow> syscall_write S 1 line (of_nat p) w;
          Some w }"

partial_function (option) xxd_loop :: "'w Sys \<Rightarrow> int \<Rightarrow> u8 list \<Rightarrow> u32 \<Rightarrow> 'w \<Rightarrow> 'w option" where
  [code]: "xxd_loop S fd buf offset w =
     do { ((n, buf), w) \<leftarrow> syscall_read S fd buf 16 w;
          if n > 0
          then do { w \<leftarrow> print_hex_line S (take (nat n) buf) offset w; xxd_loop S fd buf (offset + word_of_int n) w }
          else Some w }"

definition cmd_xxd :: "'w Sys \<Rightarrow> nat \<Rightarrow> u8 list list \<Rightarrow> 'w \<Rightarrow> 'w option" where
  "cmd_xxd S argc argv w =
     (if argc < 2 then printf S (c_str ''xxd: missing file operand\<newline>'') [] w
      else do {
        path \<leftarrow> arr_get argv 1;
        (fd, w) \<leftarrow> syscall_open S path w;
        if fd < 0 then printf S (c_str ''xxd: cannot open '%s'\<newline>'') [VStr (Some path)] w
        else do {
          w \<leftarrow> xxd_loop S fd (locals S 16) 0 w;
          (_, w) \<leftarrow> syscall_close S fd w;
          Some w } })"

section \<open>The shell\<close>

primrec help_loop :: "'w Sys \<Rightarrow> Command list \<Rightarrow> 'w \<Rightarrow> 'w option" where
  "help_loop S [] w = Some w"
| "help_loop S (c # commands) w =
     do { w \<leftarrow> printf S (c_str ''  %s %s\<newline>'') [VStr (Some (cmd_name c)), VStr (Some (cmd_description c))] w;
          help_loop S commands w }"

definition cmd_help :: "'w Sys \<Rightarrow> Command list \<Rightarrow> nat \<Rightarrow> u8 list list \<Rightarrow> 'w \<Rightarrow> 'w option" where
  "cmd_help S commands argc argv w =
     do { w \<leftarrow> printf S (c_str ''Usage: help [command]\<newline>'') [] w;
          w \<leftarrow> printf S (c_str ''Available commands:\<newline>'') [] w;
          help_loop S commands w }"

primrec run_handler :: "'w Sys \<Rightarrow> Command list \<Rightarrow> CommandHandler \<Rightarrow> nat \<Rightarrow> u8 list list \<Rightarrow> 'w \<Rightarrow> 'w option" where
  "run_handler S commands cat_cmd = cmd_cat S"
| "run_handler S commands cd_cmd = cmd_cd S"
| "run_handler S commands echo_cmd = cmd_echo S"
| "run_handler S commands find_cmd = cmd_find S"
| "run_handler S commands ls_cmd = cmd_ls S"
| "run_handler S commands rm_cmd = cmd_rm S"
| "run_handler S commands pwd_cmd = cmd_pwd S"
| "run_handler S commands xxd_cmd = cmd_xxd S"
| "run_handler S commands help_cmd = cmd_help S commands"

definition execute_command :: "'w Sys \<Rightarrow> Command list \<Rightarrow> u8 list \<Rightarrow> nat \<Rightarrow> u8 list list \<Rightarrow> 'w \<Rightarrow> 'w option" where
  "execute_command S commands name argc argv w =
     do { found \<leftarrow> find_command name commands;
          case found of
            Some c \<Rightarrow> run_handler S commands (cmd_handler c) argc argv w
          | None \<Rightarrow> printf S (c_str ''unknown command: %s\<newline>'') [VStr (Some name)] w }"

text \<open>The commands that \<open>main\<close> registers, in this order.\<close>

definition shell_commands :: "Command list" where
  "shell_commands = map (\<lambda>(n, h, d). \<lparr>cmd_name = c_str n, cmd_handler = h, cmd_description = c_str d\<rparr>)
     [(''cat'', cat_cmd, ''Concatenate and print files''), (''cd'', cd_cmd, ''Concatenate and print files''),
      (''echo'', echo_cmd, ''print message''), (''find'', find_cmd, ''find files''), (''ls'', ls_cmd, ''List directory contents''),
      (''rm'', rm_cmd, ''Remove file''), (''pwd'', pwd_cmd, ''Concatenate and print files''),
      (''xxd'', xxd_cmd, ''print in hex format''), (''help'', help_cmd, ''print help message'')]"

primrec register_all :: "'w Sys \<Rightarrow> Command list \<Rightarrow> Command list \<times> 'w \<Rightarrow> (Command list \<times> 'w) option" where
  "register_all S [] st = Some st"
| "register_all S (c # cmds) st = do { st \<leftarrow> register_command S c st; register_all S cmds st }"

text \<open>
  The loop that collects a line: \<open>n\<close> characters are in the buffer. The call hands out 256
  bytes from the position \<open>n\<close> on, whatever is left of the buffer.
\<close>

partial_function (option) read_line :: "'w Sys \<Rightarrow> u8 list \<Rightarrow> nat \<Rightarrow> 'w \<Rightarrow> (u8 list \<times> 'w) option" where
  [code]: "read_line S cmd_buf n w =
     do { ((ret, b), w) \<leftarrow> syscall_read S 0 (drop n cmd_buf) 256 w;
          let cmd_buf = take n cmd_buf @ b;
          c \<leftarrow> (if ret > 0 then arr_get cmd_buf n else Some 0);
          if ret = 1 \<and> c = 0x08
          then if n > 0
               then do { w \<leftarrow> printf S (c_str ([CHR 0x08] @ '' '' @ [CHR 0x08])) [VInt 3] w; read_line S cmd_buf (n - 1) w }
               else read_line S cmd_buf n w
          else do {
            w \<leftarrow> (if ret > 0 then printf S (c_str ''%c'') [VInt (scast c)] w else Some w);
            let n = (if ret > 0 then n + nat ret else n);
            w \<leftarrow> my_sleep S 1000 w;
            last \<leftarrow> (if n > 0 then arr_get cmd_buf (n - 1) else Some 0);
            if n > 0 \<and> (last = 0x0A \<or> last = 0x0D) \<or> n \<ge> 256
            then do { cmd_buf \<leftarrow> arr_set cmd_buf (n - 1) 0; Some (cmd_buf, w) }
            else read_line S cmd_buf n w } }"

text \<open>One round of the loop of \<open>main\<close>: the buffer, whether the shell ends, and the state.\<close>

definition shell_round :: "'w Sys \<Rightarrow> Command list \<Rightarrow> u8 list \<Rightarrow> 'w \<Rightarrow> (bool \<times> u8 list \<times> 'w) option" where
  "shell_round S commands cmd_buf w =
     do { w \<leftarrow> printf S (c_str ''shell> '') [] w;
          (cmd_buf, w) \<leftarrow> read_line S cmd_buf 0 w;
          (offs, cmd_buf) \<leftarrow> parse_cmd cmd_buf;
          let argv = map (\<lambda>i. drop i cmd_buf) offs;
          if argv = [] then Some (False, cmd_buf, w)
          else do {
            r \<leftarrow> strcmp (hd argv) (c_str ''exit'');
            if r = 0 then Some (True, cmd_buf, w)
            else do { w \<leftarrow> execute_command S commands (hd argv) (length argv) argv w; Some (False, cmd_buf, w) } } }"

partial_function (option) shell_loop :: "'w Sys \<Rightarrow> Command list \<Rightarrow> u8 list \<Rightarrow> 'w \<Rightarrow> 'w option" where
  [code]: "shell_loop S commands cmd_buf w =
     do { (ends, cmd_buf, w) \<leftarrow> shell_round S commands cmd_buf w;
          if ends then Some w else shell_loop S commands cmd_buf w }"

definition shell_main :: "'w Sys \<Rightarrow> 'w \<Rightarrow> 'w option" where
  "shell_main S w =
     do { (commands, w) \<leftarrow> register_all S shell_commands ([], w); shell_loop S commands (locals S 256) w }"

section \<open>The words of a command line\<close>

lemma advance_eq: "\<exists>x\<in>set xs. \<not> P x \<Longrightarrow> advance P xs i = Some (i + length (takeWhile P xs))"
  by (induction xs arbitrary: i) auto

abbreviation (input) is_blank :: "u8 \<Rightarrow> bool" where
  "is_blank \<equiv> \<lambda>c. c = 0x20"

lemma skip_blanks:
  assumes "terminated (drop p cmd)"
  defines "q \<equiv> p + length (takeWhile (\<lambda>c. c \<noteq> 0 \<and> c = 0x20) (drop p cmd))"
  shows "advance (\<lambda>c. c \<noteq> 0 \<and> c = 0x20) (drop p cmd) p = Some q" and "terminated (drop q cmd)" and "cmd ! q \<noteq> 0x20"
    and "tokens is_blank (cstr (drop q cmd)) = tokens is_blank (cstr (drop p cmd))" and "p \<le> q"
proof -
  let ?P = "\<lambda>c :: u8. c \<noteq> 0 \<and> c = 0x20"
  show "advance ?P (drop p cmd) p = Some q" using advance_eq [of "drop p cmd" ?P p] assms(1) by (force simp: q_def)
  have d: "drop q cmd = dropWhile ?P (drop p cmd)" by (simp add: q_def dropWhile_eq_drop add.commute)
  show t: "terminated (drop q cmd)" unfolding d using assms(1) by (rule terminated_dropWhile)
  then have q: "q < length cmd" by (cases "q < length cmd") auto
  show "cmd ! q \<noteq> 0x20"
    using d Cons_nth_drop_Suc [OF q] dropWhile_eq_Cons_conv [of ?P "drop p cmd" "cmd ! q" "drop (Suc q) cmd"] by auto
  show "tokens is_blank (cstr (drop q cmd)) = tokens is_blank (cstr (drop p cmd))" unfolding d cstr_dropWhile by (rule tokens_skip)
qed (simp add: q_def)

lemma skip_word:
  assumes "terminated (drop p cmd)" and "cmd ! p \<noteq> 0" and "cmd ! p \<noteq> 0x20"
  defines "word \<equiv> takeWhile (\<lambda>c. c \<noteq> 0 \<and> c \<noteq> 0x20) (drop p cmd)"
  defines "stop \<equiv> p + length word"
  shows "advance (\<lambda>c. c \<noteq> 0 \<and> c \<noteq> 0x20) (drop p cmd) p = Some stop" and "terminated (drop stop cmd)" and "stop < length cmd"
    and "cmd ! stop = 0 \<or> cmd ! stop = 0x20"
    and "tokens is_blank (cstr (drop p cmd)) = word # tokens is_blank (cstr (drop stop cmd))"
    and "take (length word) (drop p cmd) = word" and "0 \<notin> set word"
proof -
  let ?P = "\<lambda>c :: u8. c \<noteq> 0 \<and> c \<noteq> 0x20"
  show "advance ?P (drop p cmd) p = Some stop" using advance_eq [of "drop p cmd" ?P p] assms(1) by (force simp: stop_def word_def)
  have d: "drop stop cmd = dropWhile ?P (drop p cmd)" by (simp add: stop_def word_def dropWhile_eq_drop add.commute)
  show t: "terminated (drop stop cmd)" unfolding d using assms(1) by (rule terminated_dropWhile)
  then show q: "stop < length cmd" by (cases "stop < length cmd") auto
  show "cmd ! stop = 0 \<or> cmd ! stop = 0x20"
    using d Cons_nth_drop_Suc [OF q] dropWhile_eq_Cons_conv [of ?P "drop p cmd" "cmd ! stop" "drop (Suc stop) cmd"] by auto
  have "p < length cmd" using assms(1) by (cases "p < length cmd") auto
  then have "drop p cmd = cmd ! p # drop (Suc p) cmd" by (rule Cons_nth_drop_Suc [symmetric])
  then show "tokens is_blank (cstr (drop p cmd)) = word # tokens is_blank (cstr (drop stop cmd))"
    using tokens_cstr [of is_blank "drop p cmd"] assms(2,3) by (simp add: word_def d)
  show "take (length word) (drop p cmd) = word" by (simp add: word_def takeWhile_eq_take [symmetric])
  show "0 \<notin> set word" by (auto simp: word_def dest: set_takeWhileD)
qed

text \<open>The text between two offsets, when a zero follows it.\<close>

lemma cstr_between:
  assumes "take stop buf = take stop cmd" and "stop = token + length word" and "stop < length buf" and "buf ! stop = 0"
    and "take (length word) (drop token cmd) = word" and "0 \<notin> set word"
  shows "cstr (drop token buf) = word"
proof -
  have "drop token buf = take (length word) (drop token buf) @ drop stop buf"
    using append_take_drop_id [of "length word" "drop token buf"] assms(2) by (simp add: add.commute)
  moreover have "take (length word) (drop token buf) = word"
    using assms(1,2,5) by (metis add.commute take_drop)
  moreover have "drop stop buf = 0 # drop (Suc stop) buf" using assms(3,4) by (metis Cons_nth_drop_Suc)
  ultimately have "drop token buf = word @ 0 # drop (Suc stop) buf" by simp
  then show ?thesis using assms(6) by (simp add: cstr_app_zero)
qed

text \<open>What the loop does to the rest of the line, from an offset that is not at a blank.\<close>

definition parsed :: "nat \<Rightarrow> u8 list \<Rightarrow> nat \<Rightarrow> nat list \<Rightarrow> u8 list \<Rightarrow> bool" where
  "parsed n cmd token offs cmd' \<longleftrightarrow> length cmd' = length cmd \<and> take token cmd' = take token cmd \<and>
     map (\<lambda>i. cstr (drop i cmd')) offs = take n (tokens is_blank (cstr (drop token cmd))) \<and>
     (\<forall>i<length cmd. cmd' ! i \<noteq> cmd ! i \<longrightarrow> cmd ! i = 0x20 \<and> cmd' ! i = 0) \<and> list_all (\<lambda>i. terminated (drop i cmd')) offs"

lemma parsed_word:
  assumes p: "terminated (drop token cmd)" "cmd ! token \<noteq> 0" "cmd ! token \<noteq> 0x20"
    and stop: "stop = token + length (takeWhile (\<lambda>c. c \<noteq> 0 \<and> c \<noteq> 0x20) (drop token cmd))"
    and q: "stop \<le> q" "tokens is_blank (cstr (drop q (cmd[stop := 0]))) = tokens is_blank (cstr (drop stop cmd))"
    and r: "parsed n (cmd[stop := 0]) q offs cmd'"
  shows "parsed (Suc n) cmd token (token # offs) cmd'"
proof -
  note w = skip_word [OF p, folded stop]
  have "take q cmd' = take q (cmd[stop := 0])" using r by (simp add: parsed_def)
  from arg_cong [OF this, of "take stop"] have ts: "take stop cmd' = take stop cmd" using q(1) by (simp add: min_def)
  have len: "length cmd' = length cmd" using r by (simp add: parsed_def)
  have ch: "i < length cmd \<Longrightarrow> cmd' ! i \<noteq> cmd[stop := 0] ! i \<Longrightarrow> cmd[stop := 0] ! i = 0x20 \<and> cmd' ! i = 0" for i
    using r by (simp add: parsed_def)
  have z: "cmd' ! stop = 0" using ch [of stop] w(3) by (cases "cmd' ! stop = 0") auto
  have "cstr (drop token cmd') = takeWhile (\<lambda>c. c \<noteq> 0 \<and> c \<noteq> 0x20) (drop token cmd)"
    using cstr_between [OF ts stop _ z w(6,7)] len w(3) by simp
  moreover have "map (\<lambda>i. cstr (drop i cmd')) offs = take n (tokens is_blank (cstr (drop stop cmd)))"
    using r q(2) by (simp add: parsed_def)
  moreover have "take token cmd' = take token cmd" using arg_cong [OF ts, of "take token"] stop by (simp add: min_def)
  moreover have "cmd ! i = 0x20 \<and> cmd' ! i = 0" if "i < length cmd" "cmd' ! i \<noteq> cmd ! i" for i
    using ch [of i] that z w(4) by (cases "i = stop") auto
  moreover have "terminated (drop token cmd')"
  proof -
    have "drop token cmd' ! (stop - token) = 0" "stop - token < length (drop token cmd')"
      using z w(3) len stop by simp_all
    then show ?thesis by (metis nth_mem)
  qed
  ultimately show ?thesis using len w(5) r by (simp add: parsed_def)
qed

lemma parse_loop_parsed:
  assumes "terminated (drop token cmd)" and "cmd ! token \<noteq> 0x20"
  shows "\<exists>offs cmd'. parse_loop n cmd token argv = Some (argv @ offs, cmd') \<and> parsed n cmd token offs cmd'"
  using assms
proof (induction n arbitrary: cmd token argv)
  case 0
  then show ?case by (simp add: parsed_def)
next
  case (Suc n)
  have tok: "token < length cmd" using Suc.prems(1) by (cases "token < length cmd") auto
  show ?case
  proof (cases "cmd ! token = 0")
    case True
    then have "cstr (drop token cmd) = []" using Cons_nth_drop_Suc [OF tok] by (metis cstr_simps(2))
    then show ?thesis using True tok by (intro exI [of _ "[]"] exI [of _ cmd]) (simp add: parsed_def)
  next
    case False
    define stop where "stop = token + length (takeWhile (\<lambda>c. c \<noteq> 0 \<and> c \<noteq> 0x20) (drop token cmd))"
    note w = skip_word [OF Suc.prems(1) False Suc.prems(2), folded stop_def]
    show ?thesis
    proof (cases "cmd ! stop = 0")
      case True
      then have same: "cmd[stop := 0] = cmd" by (metis list_update_id)
      obtain offs cmd' where r: "parse_loop n cmd stop (argv @ [token]) = Some ((argv @ [token]) @ offs, cmd')"
          "parsed n (cmd[stop := 0]) stop offs cmd'"
        using Suc.IH [OF w(2), of "argv @ [token]"] True unfolding same by auto
      then have "parsed (Suc n) cmd token (token # offs) cmd'"
        using parsed_word [OF Suc.prems(1) False Suc.prems(2) stop_def _ _ r(2)] unfolding same by simp
      then show ?thesis using r(1) w(1,3) tok False True by auto
    next
      case blk: False
      then have b: "cmd ! stop = 0x20" using w(4) by simp
      have ds: "drop stop cmd = 0x20 # drop (Suc stop) cmd" using Cons_nth_drop_Suc [OF w(3)] b by simp
      then have t: "terminated (drop (Suc stop) (cmd[stop := 0]))" using w(2) by simp
      note s = skip_blanks [OF t]
      define q where "q = Suc stop + length (takeWhile (\<lambda>c. c \<noteq> 0 \<and> c = 0x20) (drop (Suc stop) (cmd[stop := 0])))"
      note s = s [folded q_def]
      obtain offs cmd' where r: "parse_loop n (cmd[stop := 0]) q (argv @ [token]) = Some ((argv @ [token]) @ offs, cmd')"
          "parsed n (cmd[stop := 0]) q offs cmd'"
        using Suc.IH [OF s(2,3), of "argv @ [token]"] by auto
      moreover have "tokens is_blank (cstr (drop q (cmd[stop := 0]))) = tokens is_blank (cstr (drop stop cmd))"
        using s(4) ds by (simp add: tokens_Cons_delim)
      ultimately have "parsed (Suc n) cmd token (token # offs) cmd'"
        using parsed_word [OF Suc.prems(1) False Suc.prems(2) stop_def, of q] s(5) by simp
      then show ?thesis using r(1) w(1,3) s(1) tok False blk by auto
    qed
  qed
qed

lemma parse_cmd_parsed:
  assumes "terminated cmd"
  shows "\<exists>offs cmd'. parse_cmd cmd = Some (offs, cmd') \<and>
    map (\<lambda>i. cstr (drop i cmd')) offs = take 16 (tokens (\<lambda>c. c = 0x20) (cstr cmd)) \<and> length cmd' = length cmd \<and>
    (\<forall>i<length cmd. cmd' ! i \<noteq> cmd ! i \<longrightarrow> cmd ! i = 0x20 \<and> cmd' ! i = 0) \<and> list_all (\<lambda>i. terminated (drop i cmd')) offs"
proof -
  have t: "terminated (drop 0 cmd)" using assms by simp
  note s = skip_blanks [OF t]
  obtain offs cmd' where "parse_cmd cmd = Some (offs, cmd')" "parsed 16 cmd (length (takeWhile (\<lambda>c. c \<noteq> 0 \<and> c = 0x20) cmd)) offs cmd'"
    using parse_loop_parsed [OF s(2,3), of 16 "[]"] s(1) by (auto simp: parse_cmd_def)
  then show ?thesis using s(4) by (intro exI [of _ offs] exI [of _ cmd']) (simp add: parsed_def)
qed

text \<open>
  C23. The shell splits a command line into its words: the arguments are the first sixteen maximal
  runs of characters other than blanks, in order, each readable as a string at its
  offset, and the line changes only where a blank becomes a zero.
\<close>

theorem parse_cmd_words:
  assumes "terminated cmd"
  shows "\<exists>offs cmd'. parse_cmd cmd = Some (offs, cmd') \<and>
    map (\<lambda>i. cstr (drop i cmd')) offs = take 16 (tokens (\<lambda>c. c = 0x20) (cstr cmd)) \<and> length cmd' = length cmd \<and>
    (\<forall>i<length cmd. cmd' ! i \<noteq> cmd ! i \<longrightarrow> cmd ! i = 0x20 \<and> cmd' ! i = 0)"
  using parse_cmd_parsed [OF assms] by blast

theorem parse_cmd_words_witness:
  "\<exists>offs cmd'. parse_cmd [0x20, 0x6C, 0x73, 0x20, 0x20, 0x2F, 0, 0x78] = Some (offs, cmd') \<and>
    map (\<lambda>i. cstr (drop i cmd')) offs = [[0x6C, 0x73], [0x2F]]"
proof -
  have "tokens (\<lambda>c. c = 0x20) (cstr [0x20, 0x6C, 0x73, 0x20, 0x20, 0x2F, 0, 0x78]) = [[0x6C, 0x73], [0x2F]]"
    by (simp add: tokens.simps)
  then show ?thesis using parse_cmd_words [of "[0x20, 0x6C, 0x73, 0x20, 0x20, 0x2F, 0, 0x78]"] by auto
qed

section \<open>Formatting\<close>

lemma put_in: "i < length buf \<Longrightarrow> put c (buf, i) = Some (buf[i := c], Suc i)"
  by (simp add: put_def)

lemma put_digits_room:
  "i + length xs < bufsize \<Longrightarrow> bufsize \<le> length buf \<Longrightarrow>
    put_digits bufsize xs (buf, i) = Some (take i buf @ xs @ drop (i + length xs) buf, i + length xs)"
proof (induction xs arbitrary: buf i)
  case (Cons c xs)
  then have "put_digits bufsize xs (buf[i := c], Suc i) =
      Some (take (Suc i) (buf[i := c]) @ xs @ drop (Suc i + length xs) (buf[i := c]), Suc i + length xs)"
    by simp
  moreover have "take (Suc i) (buf[i := c]) = take i buf @ [c]" using Cons.prems by (simp add: take_Suc_conv_app_nth)
  ultimately show ?case using Cons.prems by (simp add: put_in)
qed simp

lemma format_chars_text:
  assumes "0 \<notin> set lit" and "0x25 \<notin> set lit" and "i + length lit < bufsize" and "bufsize \<le> length buf"
  shows "format_chars bufsize (lit @ rest) args (buf, i) =
    format_chars bufsize rest args (take i buf @ lit @ drop (i + length lit) buf, i + length lit)"
  using assms
proof (induction lit arbitrary: buf i)
  case (Cons c lit)
  have "take (Suc i) (buf[i := c]) = take i buf @ [c]" using Cons.prems by (simp add: take_Suc_conv_app_nth)
  then show ?case using Cons.IH [of "Suc i" "buf[i := c]"] Cons.prems by (simp add: put_in)
qed simp

lemma end_string: "n < length buf \<Longrightarrow> (xs @ drop n buf)[length xs := 0] = xs @ 0 # drop (Suc n) buf"
  by (simp add: list_update_append Cons_nth_drop_Suc [symmetric])

lemma format_string_plain:
  assumes "0 \<notin> set lit" and "0x25 \<notin> set lit" and "length lit < bufsize" and "bufsize \<le> length buf"
  shows "format_string buf bufsize (lit @ 0 # rest) args = Some (length lit, lit @ 0 # drop (Suc (length lit)) buf)"
  using format_chars_text [OF assms(1,2), of 0 bufsize buf "0 # rest" args] assms(3,4)
  by (simp add: format_string_def end_string)

text \<open>A format that ends in a percent sign: the loop steps over the terminating zero.\<close>

lemma format_trailing_percent:
  assumes "0 \<notin> set lit" and "0x25 \<notin> set lit" and "length lit + 1 < bufsize" and "bufsize \<le> length buf"
  shows "format_string buf bufsize (lit @ [0x25, 0]) args = None"
proof -
  have "format_chars bufsize (lit @ [0x25, 0]) args (buf, 0) =
      format_chars bufsize [0x25, 0] args (lit @ drop (length lit) buf, length lit)"
    using format_chars_text [OF assms(1,2), of 0 bufsize buf "[0x25, 0]" args] assms(3,4) by simp
  also have "\<dots> = None" using assms(3) by (simp split: bind_splits)
  finally show ?thesis by (simp add: format_string_def)
qed

text \<open>Numbers are read back by \<open>atoi\<close>.\<close>

lemma digit_char_decimal: "d < 10 \<Longrightarrow> is_digit (digit_char False d) \<and> uint (digit_char False d) = 48 + int d"
  by (simp add: is_digit_def digit_char_def word_le_nat_alt unat_word_ariths unat_of_nat uint_nat)

lemma atoi_digits: "v < 2 ^ 31 \<Longrightarrow> atoi_loop (digits_of False 10 v @ ys) 0 = atoi_loop ys (int v)"
proof (induction v arbitrary: ys rule: less_induct)
  case (less v)
  show ?case
  proof (cases "v < 10")
    case True
    then show ?thesis using digit_char_decimal [of v] by (simp add: digits_of.simps [of _ 10 v])
  next
    case False
    then have "atoi_loop (digits_of False 10 (v div 10) @ digit_char False (v mod 10) # ys) 0 =
        atoi_loop (digit_char False (v mod 10) # ys) (int (v div 10))"
      using less by simp
    moreover have "int (v div 10) * 10 + int (v mod 10) = int v"
      by (metis div_mult_mod_eq of_nat_add of_nat_mult of_nat_numeral)
    ultimately show ?thesis using False less.prems digit_char_decimal [of "v mod 10"]
      by (simp add: digits_of.simps [of _ 10 v] Let_def)
  qed
qed

lemma digits_decimal: "\<exists>d xs. digits_of False 10 v = d # xs \<and> is_digit d"
proof (induction v rule: less_induct)
  case (less v)
  show ?case
  proof (cases "v < 10")
    case True
    then show ?thesis using digit_char_decimal [of v] by (simp add: digits_of.simps [of _ 10 v])
  next
    case False
    then show ?thesis using less [of "v div 10"] by (auto simp: digits_of.simps [of _ 10 v])
  qed
qed

lemma advance_blanks: "c \<noteq> 0x20 \<Longrightarrow> advance (\<lambda>c. c = 0x20) (replicate k 0x20 @ c # ys) i = Some (i + k)"
  by (induction k arbitrary: i) auto

lemma atoi_decimal:
  assumes "\<bar>v\<bar> < 2 ^ 31"
  shows "atoi (replicate k 0x20 @ (if v < 0 then [0x2D] else []) @ digits_of False 10 (nat \<bar>v\<bar>) @ 0 # ys) = Some v"
proof -
  obtain d xs where d: "digits_of False 10 (nat \<bar>v\<bar>) = d # xs" "is_digit d" using digits_decimal by blast
  then have nd: "d \<noteq> 0x20" "d \<noteq> 0x2D" "d \<noteq> 0x2B" by (auto simp: is_digit_def)
  have "nat \<bar>v\<bar> < 2 ^ 31" using assms by (simp add: nat_less_iff)
  then have l: "atoi_loop (digits_of False 10 (nat \<bar>v\<bar>) @ 0 # ys) 0 = Some \<bar>v\<bar>"
    using atoi_digits [of "nat \<bar>v\<bar>" "0 # ys"] by (simp add: is_digit_def)
  show ?thesis
  proof (cases "v < 0")
    case True
    then show ?thesis using l advance_blanks [of "0x2D" k _ 0] by (simp add: atoi_def nth_append)
  next
    case False
    then show ?thesis using l advance_blanks [OF nd(1), of k _ 0] d nd by (simp add: atoi_def nth_append)
  qed
qed

text \<open>
  C27. What the formatter of the shell prints for \<open>%d\<close>, after any number of blanks, \<open>atoi\<close> reads
  back, for every 32-bit integer but the least one, whose conversion is undefined. The
  bytes behind the text stay as they were.
\<close>

theorem format_atoi_roundtrip:
  fixes v :: u32
  assumes "k + 12 \<le> bufsize" and "bufsize \<le> length buf"
  shows "if sint v = - (2 ^ 31) then format_string buf bufsize (replicate k 0x20 @ [0x25, 0x64, 0]) [VInt v] = None
    else \<exists>n b. format_string buf bufsize (replicate k 0x20 @ [0x25, 0x64, 0]) [VInt v] = Some (n, b) \<and>
      atoi b = Some (sint v) \<and> n < k + 12 \<and> drop (Suc n) b = drop (Suc n) buf"
proof -
  define ds where "ds = (if sint v < 0 then [0x2D] else []) @ digits_of False 10 (nat \<bar>sint v\<bar>)"
  let ?b = "replicate k 0x20 @ drop k buf"
  have blanks: "format_chars bufsize (replicate k 0x20 @ [0x25, 0x64, 0]) [VInt v] (buf, 0) =
      format_chars bufsize [0x25, 0x64, 0] [VInt v] (?b, k)"
    using format_chars_text [of "replicate k 0x20" 0 bufsize buf] assms by simp
  show ?thesis
  proof (cases "sint v = - (2 ^ 31)")
    case True
    then show ?thesis using blanks assms by (simp add: format_string_def convert_def va_int_def)
  next
    case False
    have r: "- (2 ^ 31) \<le> sint v" "sint v < 2 ^ 31" using sint_range_size [of v] by (simp_all add: word_size)
    then have "\<bar>sint v\<bar> < 2 ^ 31" using False by linarith
    then have "nat \<bar>sint v\<bar> < 10 ^ 10" by simp
    then have len: "length ds \<le> 11" using length_digits_of [of 10 "nat \<bar>sint v\<bar>" 10 False] by (auto simp: ds_def abs_if split: if_splits)
    have put: "put_digits bufsize ds (?b, k) = Some (replicate k 0x20 @ ds @ drop (k + length ds) buf, k + length ds)"
      using put_digits_room [of k ds bufsize ?b] len assms by (simp add: add.commute)
    have "format_string buf bufsize (replicate k 0x20 @ [0x25, 0x64, 0]) [VInt v] =
        Some (k + length ds, replicate k 0x20 @ ds @ 0 # drop (Suc (k + length ds)) buf)"
      using blanks put len assms False end_string [of "k + length ds" buf "replicate k 0x20 @ ds"]
      by (simp add: format_string_def convert_def va_int_def ds_def [symmetric])
    moreover have "atoi (replicate k 0x20 @ ds @ 0 # drop (Suc (k + length ds)) buf) = Some (sint v)"
      using atoi_decimal [of "sint v" k] \<open>\<bar>sint v\<bar> < 2 ^ 31\<close> by (simp add: ds_def)
    ultimately show ?thesis using False len by simp
  qed
qed

theorem format_atoi_roundtrip_witness:
  "\<exists>n b. format_string (replicate 32 0xFF) 20 [0x20, 0x25, 0x64, 0] [VInt (- 1205)] = Some (n, b) \<and> atoi b = Some (- 1205)"
  using format_atoi_roundtrip [of 1 20 "replicate 32 0xFF" "- 1205"] by auto

lemma cstr_split: "terminated a \<Longrightarrow> \<exists>rest. a = cstr a @ 0 # rest"
  by (induction a) auto

text \<open>Words with one blank between two.\<close>

fun joined :: "u8 list list \<Rightarrow> u8 list" where
  "joined [] = []"
| "joined [x] = x"
| "joined (x # y # xs) = x @ 0x20 # joined (y # xs)"

section \<open>Output\<close>

text \<open>
  What the commands rely on: a write to descriptor 1 shows the bytes, one after the other, on
  a view of the system and keeps it in order.
\<close>

locale shell_output =
  fixes S :: "'w Sys" and ok :: "'w \<Rightarrow> bool" and view :: "'w \<Rightarrow> 't" and emit :: "u8 \<Rightarrow> 't \<Rightarrow> 't"
  assumes writes: "\<lbrakk>ok w; unat n \<le> length b\<rbrakk> \<Longrightarrow>
    \<exists>r w'. syscall_write S 1 b n w = Some (r, w') \<and> ok w' \<and> view w' = fold emit (take (unat n) b) (view w)"
begin

lemma printf_plain:
  assumes "ok w" and "0 \<notin> set lit" and "0x25 \<notin> set lit" and "length lit < 1024"
  shows "\<exists>w'. printf S (lit @ 0 # rest) args w = Some w' \<and> ok w' \<and> view w' = fold emit lit (view w)"
proof -
  let ?b = "lit @ 0 # drop (Suc (length lit)) (locals S 1024)"
  have n: "unat (of_nat (length lit) :: u32) = length lit" using assms(4) by (simp add: unat_of_nat)
  then obtain r w' where "syscall_write S 1 ?b (of_nat (length lit)) w = Some (r, w')" "ok w'" "view w' = fold emit lit (view w)"
    using writes [OF assms(1), of "of_nat (length lit)" ?b] by auto
  then show ?thesis using format_string_plain [OF assms(2,3), of 1024 "locals S 1024" rest args] assms(4)
    by (simp add: printf_def)
qed

lemma printf_arg:
  assumes "ok w" and "terminated a" and "0x25 \<notin> set (cstr a)" and "length (cstr a) < 1024"
  shows "\<exists>w'. printf S a args w = Some w' \<and> ok w' \<and> view w' = fold emit (cstr a) (view w)"
  using printf_plain [OF assms(1) _ assms(3,4)] cstr_split [OF assms(2)] by (metis zero_notin_cstr)

lemma echo_loop_shows:
  assumes "ok w" and "list_all (\<lambda>a. terminated a \<and> 0x25 \<notin> set (cstr a) \<and> length (cstr a) < 1024) args"
  shows "\<exists>w'. echo_loop S args w = Some w' \<and> ok w' \<and> view w' = fold emit (joined (map cstr args)) (view w)"
  using assms
proof (induction args arbitrary: w)
  case (Cons a args)
  then obtain w1 where w1: "printf S a [] w = Some w1" "ok w1" "view w1 = fold emit (cstr a) (view w)"
    using printf_arg [of w a] by auto
  show ?case
  proof (cases args)
    case Nil
    then show ?thesis using w1 by simp
  next
    case Cons2: (Cons b bs)
    obtain w2 where w2: "printf S (c_str '' '') [] w1 = Some w2" "ok w2" "view w2 = emit 0x20 (view w1)"
      using printf_plain [OF w1(2), of "[0x20]" "[]"] by (auto simp: c_str_def)
    obtain w3 where "echo_loop S args w2 = Some w3" "ok w3" "view w3 = fold emit (joined (map cstr args)) (view w2)"
      using Cons.IH [OF w2(2)] Cons.prems by auto
    then show ?thesis using w1 w2 Cons2 by simp
  qed
qed simp

lemma cmd_echo_shows:
  assumes "ok w" and "list_all (\<lambda>a. terminated a \<and> 0x25 \<notin> set (cstr a) \<and> length (cstr a) < 1024) args"
  shows "\<exists>w'. cmd_echo S (Suc (length args)) (name # args) w = Some w' \<and> ok w' \<and>
    view w' = fold emit (joined (map cstr args) @ [0x0A]) (view w)"
proof -
  obtain w1 where w1: "echo_loop S args w = Some w1" "ok w1" "view w1 = fold emit (joined (map cstr args)) (view w)"
    using echo_loop_shows [OF assms] by blast
  obtain w2 where "printf S (c_str ''\<newline>'') [] w1 = Some w2" "ok w2" "view w2 = emit 0x0A (view w1)"
    using printf_plain [OF w1(2), of "[0x0A]" "[]"] by (auto simp: c_str_def)
  then show ?thesis using w1 by (auto simp: cmd_echo_def not_less less_Suc_eq_0_disj)
qed

end

text \<open>
  A descriptor to read from: each call returns the next bytes, as many as are left and
  asked for, and a write to descriptor 1 does not change what is left.
\<close>

locale shell_file = shell_output +
  fixes fd :: int and unread :: "'a \<Rightarrow> u8 list"
  assumes reads: "\<lbrakk>ok w; unat n \<le> length b; m = min (unat n) (length (unread w))\<rbrakk> \<Longrightarrow>
      \<exists>w'. syscall_read S fd b n w = Some ((int m, take m (unread w) @ drop m b), w') \<and> ok w' \<and>
        unread w' = drop m (unread w) \<and> view w' = view w"
    and writes_unread: "\<lbrakk>ok w; unat n \<le> length b; syscall_write S 1 b n w = Some (r, w')\<rbrakk> \<Longrightarrow> unread w' = unread w"
begin

lemma cat_loop_shows:
  assumes "ok w" and "length buf = 1024"
  shows "\<exists>w'. cat_loop S fd buf w = Some w' \<and> ok w' \<and> unread w' = [] \<and> view w' = fold emit (unread w) (view w)"
  using assms
proof (induction "length (unread w)" arbitrary: w buf rule: less_induct)
  case less
  define m where "m = min 1024 (length (unread w))"
  let ?b = "take m (unread w) @ drop m buf"
  have m: "unat (word_of_int (int m) :: u32) = m" "m \<le> 1024" by (simp_all add: m_def unat_of_nat min_def)
  obtain w1 where w1: "syscall_read S fd buf 1024 w = Some ((int m, ?b), w1)" "ok w1" "unread w1 = drop m (unread w)" "view w1 = view w"
    using reads [OF less.prems(1), of 1024 buf m] less.prems(2) by (auto simp: m_def)
  show ?case
  proof (cases "unread w")
    case Nil
    then show ?thesis using w1 by (subst cat_loop.simps) (simp add: m_def)
  next
    case (Cons x xs)
    have len: "length ?b = 1024" using m(2) less.prems(2) by (simp add: m_def)
    obtain r w2 where w2: "syscall_write S 1 ?b (word_of_int (int m)) w1 = Some (r, w2)" "ok w2"
        "view w2 = fold emit (take m ?b) (view w1)"
      using writes [OF w1(2), of "word_of_int (int m)" ?b] m len by auto
    have u2: "unread w2 = drop m (unread w)" using writes_unread [OF w1(2) _ w2(1)] m len w1(3) by simp
    have "length (unread w2) < length (unread w)" "0 < m" using u2 Cons by (simp_all add: m_def)
    then obtain w3 where w3: "cat_loop S fd ?b w2 = Some w3" "ok w3" "unread w3 = []" "view w3 = fold emit (unread w2) (view w2)"
      using less.hyps [OF _ w2(2) len] by blast
    have tk: "take m ?b = take m (unread w)" using m(2) by (simp add: m_def min_def)
    have "view w3 = fold emit (take m (unread w) @ drop m (unread w)) (view w)"
      using w3(4) w2(3) unfolding tk w1(4) u2 fold_append by simp
    then show ?thesis using w1(1) w2(1) w3 \<open>0 < m\<close> by (subst cat_loop.simps) simp
  qed
qed

end

section \<open>Commands\<close>

lemma find_command_eq:
  assumes "terminated name" and "list_all (\<lambda>c. terminated (cmd_name c)) commands"
  shows "find_command name commands = Some (find (\<lambda>c. cstr (cmd_name c) = cstr name) commands)"
  using assms(2)
proof (induction commands)
  case (Cons c commands)
  then obtain r where "strcmp (cmd_name c) name = Some r" "r = 0 \<longleftrightarrow> cstr (cmd_name c) = cstr name"
    using strcmp_lex [of "cmd_name c" name] assms(1) by auto
  then show ?case using Cons by simp
qed simp

text \<open>Characters and bytes.\<close>

definition chars :: "u8 list \<Rightarrow> string" where
  "chars bs = map (\<lambda>b. char_of (unat b)) bs"

lemma unat_of_char: "unat (of_char c :: u8) = of_char c"
proof -
  have "(of_char c :: u8) = of_nat (of_char c)" by (simp add: of_nat_of_char)
  then show ?thesis using nat_of_char_less_256 [of c] by (simp add: unat_of_nat del: of_nat_of_char)
qed

lemma char_byte: "char_of (unat (of_char c :: u8)) = c" "of_char (char_of (unat b)) = (b :: u8)"
proof -
  show "char_of (unat (of_char c :: u8)) = c" by (simp add: unat_of_char)
  have "unat b < 256" using unsigned_less [of b] by simp
  then have "unat (of_char (char_of (unat b)) :: u8) = unat b" by (simp add: unat_of_char)
  then show "of_char (char_of (unat b)) = (b :: u8)" by (simp add: word_unat_eq_iff)
qed

lemma of_char_zero: "(of_char c :: u8) = 0 \<longleftrightarrow> c = CHR 0x00"
proof
  assume "(of_char c :: u8) = 0"
  then have "c = char_of (0 :: nat)" using char_byte(1) [of c] by simp
  then show "c = CHR 0x00" by (simp add: char_of_def)
qed simp

lemma cstr_c_str: "CHR 0x00 \<notin> set n \<Longrightarrow> cstr (c_str n) = map of_char n"
  by (induction n) (auto simp: c_str_def of_char_zero)

lemma chars_eq: "map of_char n = bs \<longleftrightarrow> n = chars bs"
  by (auto simp: chars_def char_byte comp_def)


lemma chars_of_char [simp]: "chars (map of_char n) = n"
  using chars_eq by metis

text \<open>The handlers by name.\<close>

definition handlers :: "(string \<times> CommandHandler) list" where
  "handlers = [(''cat'', cat_cmd), (''cd'', cd_cmd), (''echo'', echo_cmd), (''find'', find_cmd), (''ls'', ls_cmd),
     (''rm'', rm_cmd), (''pwd'', pwd_cmd), (''xxd'', xxd_cmd), (''help'', help_cmd)]"

lemma find_by_name:
  assumes "list_all (\<lambda>(n, _). CHR 0x00 \<notin> set n) tab"
  shows "map_option cmd_handler (find (\<lambda>c. cstr (cmd_name c) = bs)
      (map (\<lambda>(n, h, d). \<lparr>cmd_name = c_str n, cmd_handler = h, cmd_description = c_str d\<rparr>) tab)) =
    map_of (map (\<lambda>(n, h, d). (n, h)) tab) (chars bs)"
  using assms by (induction tab) (auto simp: cstr_c_str chars_eq)

lemma find_handler: "map_option cmd_handler (find (\<lambda>c. cstr (cmd_name c) = bs) shell_commands) = map_of handlers (chars bs)"
  unfolding shell_commands_def by (subst find_by_name) (simp_all add: handlers_def)

lemma shell_commands_terminated: "list_all (\<lambda>c. terminated (cmd_name c)) shell_commands"
  by (simp add: shell_commands_def c_str_def)

text \<open>Commands with different names are added to the table one after the other.\<close>

lemma register_all_distinct:
  assumes "distinct (map (cstr \<circ> cmd_name) (cmds @ new))" and "list_all (\<lambda>c. terminated (cmd_name c)) (cmds @ new)"
    and "length (cmds @ new) \<le> 1000"
  shows "register_all S new (cmds, w) = Some (cmds @ new, w)"
  using assms
proof (induction new arbitrary: cmds)
  case (Cons c new)
  have "cstr (cmd_name c) \<notin> (\<lambda>d. cstr (cmd_name d)) ` set cmds" using Cons.prems(1) by simp
  then have "find (\<lambda>d. cstr (cmd_name d) = cstr (cmd_name c)) cmds = None"
    unfolding find_None_iff by (metis rev_image_eqI)
  then have "register_command S c (cmds, w) = Some (cmds @ [c], w)"
    using find_command_eq [of "cmd_name c" cmds] Cons.prems(2,3) by (simp add: register_command_def)
  then show ?case using Cons.IH [of "cmds @ [c]"] Cons.prems by simp
qed simp

lemma shell_commands_distinct: "distinct (map (cstr \<circ> cmd_name) shell_commands)"
  by (simp add: shell_commands_def cstr_c_str)

lemma shell_commands_length: "length shell_commands \<le> 1000"
  by (simp add: shell_commands_def)

text \<open>Whatever was typed, the line that is returned has a terminating zero.\<close>

lemma read_line_terminated:
  assumes "read_line S buf n w = Some (line, w')"
  shows "terminated line"
proof -
  have "terminated (fst (line, w'))"
    by (rule read_line.raw_induct [where P = "\<lambda>S buf n w y. terminated (fst y)", OF _ assms])
      (auto simp: Let_def arr_set_def set_update_memI split: bind_splits if_splits)
  then show ?thesis by simp
qed

lemma execute_command_handler:
  assumes "terminated name"
  shows "execute_command S shell_commands name argc argv w =
      (case map_of handlers (chars (cstr name)) of
         Some h \<Rightarrow> run_handler S shell_commands h argc argv w
       | None \<Rightarrow> printf S (c_str ''unknown command: %s\<newline>'') [VStr (Some name)] w)"
  unfolding execute_command_def find_command_eq [OF assms shell_commands_terminated] find_handler [symmetric]
  by (cases "find (\<lambda>c. cstr (cmd_name c) = cstr name) shell_commands") simp_all

text \<open>
  C29. The shell's \<open>main\<close> enters its loop with the nine commands registered. A round of the loop prompts, reads
  a line and takes its first sixteen words. No words do nothing; the first word \<open>exit\<close> ends the
  shell; the name of a command runs the handler that was registered under it, with all the words as arguments; for any
  other first word the shell prints that the command is unknown.
\<close>

theorem command_dispatch:
  assumes "printf S (c_str ''shell> '') [] w = Some w1" and "read_line S buf 0 w1 = Some (line, w2)"
    and "words = take 16 (tokens (\<lambda>c. c = 0x20) (cstr line))"
  shows "shell_main S w0 = shell_loop S shell_commands (locals S 256) w0 \<and>
    (\<exists>line' argv. map cstr argv = words \<and> shell_round S shell_commands buf w =
      (if words = [] then Some (False, line', w2)
       else if chars (hd words) = ''exit'' then Some (True, line', w2)
       else do {
         w3 \<leftarrow> (case map_of handlers (chars (hd words)) of
                  Some h \<Rightarrow> run_handler S shell_commands h (length words) argv w2
                | None \<Rightarrow> printf S (c_str ''unknown command: %s\<newline>'') [VStr (Some (hd argv))] w2);
         Some (False, line', w3) }))"
proof
  have "register_all S shell_commands ([], w0) = Some (shell_commands, w0)"
    using register_all_distinct [of "[]" shell_commands S w0] shell_commands_distinct shell_commands_terminated shell_commands_length
    by simp
  then show "shell_main S w0 = shell_loop S shell_commands (locals S 256) w0" by (simp add: shell_main_def)
  obtain offs line' where p: "parse_cmd line = Some (offs, line')" "map (\<lambda>i. cstr (drop i line')) offs = words"
      "list_all (\<lambda>i. terminated (drop i line')) offs"
    using parse_cmd_parsed [OF read_line_terminated [OF assms(2)]] unfolding assms(3) by blast
  define argv where "argv = map (\<lambda>i. drop i line') offs"
  have argv: "map cstr argv = words" "list_all terminated argv" using p(2,3) by (simp_all add: argv_def comp_def list_all_iff)
  have "shell_round S shell_commands buf w = (if words = [] then Some (False, line', w2)
       else if chars (hd words) = ''exit'' then Some (True, line', w2)
       else do {
         w3 \<leftarrow> (case map_of handlers (chars (hd words)) of
                  Some h \<Rightarrow> run_handler S shell_commands h (length words) argv w2
                | None \<Rightarrow> printf S (c_str ''unknown command: %s\<newline>'') [VStr (Some (hd argv))] w2);
         Some (False, line', w3) })"
  proof (cases argv)
    case Nil
    have e: "offs = []" "words = []" using Nil argv(1) by (simp_all add: argv_def)
    show ?thesis using assms(1,2) p(1) unfolding e by (simp add: shell_round_def)
  next
    case (Cons a as)
    have t: "terminated a" "terminated (c_str ''exit'')" using argv(2) Cons by (simp_all add: c_str_def)
    have hd: "hd words = cstr a" "words \<noteq> []" "length words = length argv" unfolding argv(1) [symmetric] Cons by simp_all
    obtain r where r: "strcmp a (c_str ''exit'') = Some r" "r = 0 \<longleftrightarrow> cstr a = cstr (c_str ''exit'')"
      using strcmp_lex [OF t] by blast
    have o: "offs \<noteq> []" "length words = length argv" using Cons hd(3) by (auto simp: argv_def)
    have x: "cstr (c_str ''exit'') = map of_char ''exit''" by (rule cstr_c_str) simp
    have "r = 0 \<longleftrightarrow> chars (hd words) = ''exit''" 
      unfolding r(2) hd(1) x using chars_eq [of "''exit''" "cstr a"] by metis
    then show ?thesis
      using assms(1,2) p(1) r(1) hd(1,2) Cons o execute_command_handler [OF t(1), of S]
      by (simp add: shell_round_def argv_def [symmetric] Let_def split: option.split)
  qed
  then show "\<exists>line' argv. map cstr argv = words \<and> shell_round S shell_commands buf w =
      (if words = [] then Some (False, line', w2)
       else if chars (hd words) = ''exit'' then Some (True, line', w2)
       else do {
         w3 \<leftarrow> (case map_of handlers (chars (hd words)) of
                  Some h \<Rightarrow> run_handler S shell_commands h (length words) argv w2
                | None \<Rightarrow> printf S (c_str ''unknown command: %s\<newline>'') [VStr (Some (hd argv))] w2);
         Some (False, line', w3) })"
    using argv(1) by (intro exI [of _ line'] exI [of _ argv]) simp
qed

text \<open>A system with a keyboard and a screen and no files: the characters still to be typed, and what was written.\<close>

definition typist :: "(u8 list \<times> u8 list) Sys" where
  "typist = \<lparr>garbage = \<lambda>_. 0xCC, garbage_attr = \<lparr>attr_type = FT_REG, attr_size = 0, attr_mode = 0\<rparr>,
     syscall_open = \<lambda>_ w. Some (- 1, w),
     syscall_read = \<lambda>_ b _ w. Some (case fst w of [] \<Rightarrow> ((0, b), w) | c # rest \<Rightarrow> ((1, b[0 := c]), (rest, snd w))),
     syscall_write = \<lambda>_ b n w. Some (int (unat n), (fst w, snd w @ take (unat n) b)), syscall_close = \<lambda>_ w. Some (- 1, w),
     syscall_chdir = \<lambda>_ w. Some (- 1, w), syscall_pwd = \<lambda>b _ w. Some ((- 1, b), w), syscall_unlink = \<lambda>_ w. Some (- 1, w),
     syscall_stat = \<lambda>_ a w. Some ((- 1, a), w), syscall_getdents = \<lambda>_ b _ p w. Some ((- 1, b, p), w),
     syscall_nanosleep = \<lambda>_ _ w. Some (0, w)\<rparr>"

lemma typist_prompt: "printf typist (c_str ''shell> '') [] (map of_char ''exit\<newline>'', []) = Some (map of_char ''exit\<newline>'', map of_char ''shell> '')"
  by code_simp

lemma typist_exit: "read_line typist (replicate 8 0) 0 (map of_char ''exit\<newline>'', map of_char ''shell> '') =
    Some ([0x65, 0x78, 0x69, 0x74, 0, 0, 0, 0], ([], map of_char ''shell> exit\<newline>''))"
  by code_simp

theorem command_dispatch_witness:
  "\<exists>buf. shell_round typist shell_commands (replicate 8 0) (map of_char ''exit\<newline>'', []) =
     Some (True, buf, ([], map of_char ''shell> exit\<newline>''))"
proof -
  have "tokens (\<lambda>c. c = 0x20) (cstr [0x65, 0x78, 0x69, 0x74, 0, 0, 0, 0]) = [[0x65, 0x78, 0x69, 0x74]]"
    by (simp add: tokens.simps)
  moreover have "chars [0x65, 0x78, 0x69, 0x74] = ''exit''"
    using chars_eq [of "''exit''" "[0x65, 0x78, 0x69, 0x74]"] by simp
  ultimately show ?thesis
    using command_dispatch [OF typist_prompt typist_exit refl] by auto
qed

end
