(* ===== verification/MemTree.thy ===== *)
theory MemTree
  imports MemFs
begin

text \<open>
  What the memory file system means: a tree of named nodes with addresses, types and file
  contents. The inodes in memory represent a tree, and the operations on paths act on it.
\<close>

section \<open>Trees\<close>

datatype ftree = Node (faddr: u32) (fname: "u8 list") (ftype: FileType) (fbytes: "u8 list") (fsub: "ftree list")

primrec faddrs :: "ftree \<Rightarrow> u32 list" where
  "faddrs (Node a n ty b sub) = a # concat (map faddrs sub)"

abbreviation is_slash :: "u8 \<Rightarrow> bool" where
  "is_slash \<equiv> (\<lambda>c. c = 0x2F)"

definition components :: "u8 list \<Rightarrow> u8 list list" where
  "components p = tokens is_slash (cstr p)"

definition sub_named :: "u8 list \<Rightarrow> ftree list \<Rightarrow> ftree option" where
  "sub_named n ts = find (\<lambda>c. fname c = n) ts"

fun tree_lookup :: "u8 list list \<Rightarrow> ftree \<Rightarrow> ftree option" where
  "tree_lookup [] t = Some t"
| "tree_lookup (n # ns) t = do { c \<leftarrow> sub_named n (fsub t); tree_lookup ns c }"

definition contents :: "MemFSInode \<Rightarrow> u8 list" where
  "contents i = (case idata i of None \<Rightarrow> [] | Some (_, bs) \<Rightarrow> take (unat (isize i)) bs)"

definition rep_inode :: "MemFSInode \<Rightarrow> u32 \<Rightarrow> u8 list \<Rightarrow> FileType \<Rightarrow> u8 list \<Rightarrow> bool" where
  "rep_inode i parent n ty b \<longleftrightarrow>
     length (iname i) = NAME_LEN \<and> terminated (iname i) \<and> cstr (iname i) = n \<and> itype i = ty \<and>
     iparent i = parent \<and> contents i = b"

fun rep_node :: "(u32 \<Rightarrow> MemFSInode) \<Rightarrow> u32 \<Rightarrow> ftree \<Rightarrow> bool"
  and rep_nodes :: "(u32 \<Rightarrow> MemFSInode) \<Rightarrow> u32 \<Rightarrow> u32 \<Rightarrow> ftree list \<Rightarrow> bool" where
  "rep_node h parent (Node a n ty b sub) \<longleftrightarrow>
     a \<noteq> 0 \<and> rep_inode (h a) parent n ty b \<and> rep_nodes h a (ichildren (h a)) sub"
| "rep_nodes h parent p [] \<longleftrightarrow> p = 0"
| "rep_nodes h parent p (t # ts) \<longleftrightarrow>
     p = faddr t \<and> rep_node h parent t \<and> rep_nodes h parent (inext (h p)) ts"

definition rep :: "MemFS \<Rightarrow> ftree \<Rightarrow> bool" where
  "rep mf t \<longleftrightarrow> fs_root mf = faddr t \<and> rep_node (inode_at mf) 0 t \<and> distinct (faddrs t)"

definition addr_of :: "ftree option \<Rightarrow> u32" where
  "addr_of r = (case r of None \<Rightarrow> 0 | Some t \<Rightarrow> faddr t)"

lemma rep_node_addr: "rep_node h parent t \<Longrightarrow> faddr t \<noteq> 0 \<and> rep_inode (h (faddr t)) parent (fname t) (ftype t) (fbytes t) \<and>
    rep_nodes h (faddr t) (ichildren (h (faddr t))) (fsub t)"
  by (cases t) simp

lemma rep_nodes_member: "rep_nodes h parent p ts \<Longrightarrow> t \<in> set ts \<Longrightarrow> rep_node h parent t"
  by (induction ts arbitrary: p) auto

lemma sub_named_member: "sub_named n ts = Some c \<Longrightarrow> c \<in> set ts \<and> fname c = n"
  by (auto simp: sub_named_def find_Some_iff)

section \<open>Lookup\<close>

lemma find_child_eq:
  assumes "rep_nodes (inode_at mf) parent p ts" and "terminated name"
  shows "find_child mf name p = Some (addr_of (sub_named (cstr name) ts))"
  using assms(1)
proof (induction ts arbitrary: p)
  case Nil
  then show ?case by (subst find_child.simps) (simp add: sub_named_def addr_of_def)
next
  case (Cons t ts)
  then have t: "faddr t \<noteq> 0" "terminated (iname (inode_at mf p))" "cstr (iname (inode_at mf p)) = fname t"
    using rep_node_addr [of "inode_at mf" parent t] by (auto simp: rep_inode_def)
  obtain r where "strcmp (iname (inode_at mf p)) name = Some r" "r = 0 \<longleftrightarrow> fname t = cstr name"
    using strcmp_lex [OF t(2) assms(2)] t(3) by auto
  then show ?case using Cons t(1)
    by (subst find_child.simps) (auto simp: sub_named_def addr_of_def)
qed

lemma skip_slashes_eq: "terminated p \<Longrightarrow> skip_slashes p = dropWhile (\<lambda>c. c \<noteq> 0 \<and> is_slash c) p"
  by (induction p) auto

lemma strchr_slash:
  assumes "terminated s"
  shows "strchr s 0x2F = Some (if 0x2F \<in> set (cstr s)
    then Some (length (takeWhile (\<lambda>c. c \<noteq> 0 \<and> \<not> is_slash c) s)) else None)"
proof -
  have "strchr_loop s 0x2F i = Some (if 0x2F \<in> set (cstr s)
      then Some (i + length (takeWhile (\<lambda>c. c \<noteq> 0 \<and> \<not> is_slash c) s)) else None)" for i
    using assms by (induction s arbitrary: i) auto
  then show ?thesis by (simp add: strchr_def)
qed

lemma no_slash_takeWhile:
  "0x2F \<notin> set (cstr s) \<Longrightarrow> takeWhile (\<lambda>c. c \<noteq> 0 \<and> \<not> is_slash c) s = cstr s"
  by (induction s) (auto split: if_splits)

text \<open>The component that a round of the loop copies into its buffer.\<close>

lemma copy_component:
  assumes "terminated p" and "length (cstr p) < 0x1000000"
  defines "tok \<equiv> takeWhile (\<lambda>c. c \<noteq> 0 \<and> \<not> is_slash c) p"
  shows "do { end \<leftarrow> strchr p 0x2F; case end of None \<Rightarrow> strlen p | Some e \<Rightarrow> Some e } = Some (length tok)"
    and "length tok < NAME_LEN \<Longrightarrow>
      do { name \<leftarrow> strncpy (replicate NAME_LEN 0) p (length tok); arr_set name (length tok) 0 } =
      Some (tok @ replicate (NAME_LEN - length tok) 0)"
proof -
  show "do { end \<leftarrow> strchr p 0x2F; case end of None \<Rightarrow> strlen p | Some e \<Rightarrow> Some e } = Some (length tok)"
    using strchr_slash [OF assms(1)] strlen_eq [OF assms(1,2)] no_slash_takeWhile [of p]
    by (simp add: tok_def)
  assume l: "length tok < NAME_LEN"
  have tok: "tok = takeWhile (\<lambda>c. \<not> is_slash c) (cstr p)" by (simp add: tok_def takeWhile_cstr)
  then have "take (length tok) (cstr p) = tok" by (metis takeWhile_eq_take)
  then have "strncpy (replicate NAME_LEN 0) p (length tok) = Some (tok @ replicate (NAME_LEN - length tok) 0)"
    using l assms(1) length_takeWhile_le [of "\<lambda>c. \<not> is_slash c" "cstr p"]
    by (simp add: strncpy_def strncpy_loop_eq tok [symmetric])
  moreover have "(tok @ replicate (NAME_LEN - length tok) 0)[length tok := 0] =
      tok @ replicate (NAME_LEN - length tok) (0 :: u8)"
    using l by (simp add: list_update_append) (metis list_update_id nth_replicate zero_less_diff)
  ultimately show "do { name \<leftarrow> strncpy (replicate NAME_LEN 0) p (length tok); arr_set name (length tok) 0 } =
      Some (tok @ replicate (NAME_LEN - length tok) 0)"
    using l by simp
qed

lemma rep_name_short: "rep_node h parent t \<Longrightarrow> length (fname t) < NAME_LEN"
proof -
  assume "rep_node h parent t"
  then have r: "rep_inode (h (faddr t)) parent (fname t) (ftype t) (fbytes t)" using rep_node_addr by blast
  then have "cstr (iname (h (faddr t))) \<noteq> iname (h (faddr t))"
    unfolding rep_inode_def by (metis zero_notin_cstr)
  then have "length (cstr (iname (h (faddr t)))) < length (iname (h (faddr t)))"
    unfolding cstr_def by (metis append_Nil2 append_eq_conv_conj le_neq_implies_less length_takeWhile_le takeWhile_eq_take)
  then show ?thesis using r by (simp add: rep_inode_def)
qed

lemma terminated_arr_get: "terminated p \<Longrightarrow> arr_get p 0 = Some (hd p) \<and> (hd p = 0 \<longleftrightarrow> cstr p = [])"
  by (cases p) auto

text \<open>One round of the loop: \<open>q\<close> is the path after the slashes, \<open>tok\<close> its first component.\<close>

lemma find_loop_step:
  assumes r: "rep_node (inode_at mf) parent t" and p: "terminated p" "length (cstr p) < 0x1000000"
  defines "q \<equiv> dropWhile (\<lambda>c. c \<noteq> 0 \<and> is_slash c) p"
  defines "tok \<equiv> takeWhile (\<lambda>c. c \<noteq> 0 \<and> \<not> is_slash c) q"
  shows "find_loop mf (faddr t) p =
    (if cstr q = [] then Some (faddr t)
     else if length tok \<ge> NAME_LEN then Some 0
     else let found = addr_of (sub_named tok (fsub t)) in
       if found = 0 then Some 0 else find_loop mf found (drop (length tok) q))"
proof -
  have tq: "terminated q" using p(1) unfolding q_def by (rule terminated_dropWhile)
  have lq: "length (cstr q) < 0x1000000"
    using p(2) length_dropWhile_le [of is_slash "cstr p"] by (simp add: q_def cstr_dropWhile)
  note hd = terminated_arr_get [OF p(1)] terminated_arr_get [OF tq]
  have p0: "cstr p = [] \<Longrightarrow> cstr q = []" by (simp add: q_def cstr_dropWhile)
  note sk = skip_slashes_eq [OF p(1), folded q_def]
  obtain e where e: "strchr q 0x2F = Some e" "(case e of None \<Rightarrow> strlen q | Some e \<Rightarrow> Some e) = Some (length tok)"
    using copy_component(1) [OF tq lq, folded tok_def] by (auto simp: bind_eq_Some_conv)
  show ?thesis
  proof (cases "length tok < NAME_LEN")
    case True
    obtain nm where nm: "strncpy (replicate NAME_LEN 0) q (length tok) = Some nm"
        "arr_set nm (length tok) 0 = Some (tok @ replicate (NAME_LEN - length tok) 0)"
      using copy_component(2) [OF tq lq, folded tok_def, OF True] by (auto simp: bind_eq_Some_conv)
    have z: "replicate (NAME_LEN - length tok) 0 = 0 # replicate (NAME_LEN - length tok - 1) (0 :: u8)"
      using True by (metis Suc_diff_1 replicate_Suc zero_less_diff)
    then have "find_child mf (tok @ replicate (NAME_LEN - length tok) 0) (ichildren (inode_at mf (faddr t))) =
        Some (addr_of (sub_named tok (fsub t)))"
      using find_child_eq [of mf "faddr t" _ "fsub t" "tok @ replicate (NAME_LEN - length tok) 0"]
        rep_node_addr [OF r] by (simp add: tok_def cstr_takeWhile)
    then show ?thesis using hd p0 e nm True rep_node_addr [OF r]
      by (subst find_loop.simps) (auto simp: sk Let_def get_inode_def)
  next
    case False
    then show ?thesis using hd p0 e by (subst find_loop.simps) (auto simp: sk Let_def)
  qed
qed

lemma find_loop_eq:
  assumes "rep_node (inode_at mf) parent t" and "terminated p" and "length (cstr p) < 0x1000000"
  shows "find_loop mf (faddr t) p = Some (addr_of (tree_lookup (components p) t))"
  using assms
proof (induction "length p" arbitrary: p t parent rule: less_induct)
  case less
  let ?q = "dropWhile (\<lambda>c. c \<noteq> 0 \<and> is_slash c) p"
  let ?tok = "takeWhile (\<lambda>c. c \<noteq> 0 \<and> \<not> is_slash c) ?q"
  let ?rest = "drop (length ?tok) ?q"
  have rest: "?rest = dropWhile (\<lambda>c. c \<noteq> 0 \<and> \<not> is_slash c) ?q" by (simp add: dropWhile_eq_drop)
  have tq: "terminated ?q" using less.prems(2) by (rule terminated_dropWhile)
  have tr: "terminated ?rest" unfolding rest using tq by (rule terminated_dropWhile)
  have comps: "components p = (if cstr ?q = [] then [] else ?tok # components ?rest)"
    unfolding components_def rest by (rule tokens_cstr)
  note step = find_loop_step [OF less.prems]
  show ?case
  proof (cases "cstr ?q = [] \<or> sub_named ?tok (fsub t) = None")
    case True
    then show ?thesis using step comps by (auto simp: addr_of_def)
  next
    case False
    then obtain c where c0: "cstr ?q \<noteq> []" "sub_named ?tok (fsub t) = Some c" by auto
    have q: "?q \<noteq> []" using c0(1) by (metis cstr_simps(1))
    have "hd ?q \<noteq> 0" using terminated_arr_get [OF tq] c0(1) by simp
    moreover have "\<not> (hd ?q \<noteq> 0 \<and> is_slash (hd ?q))" by (rule hd_dropWhile [OF q])
    ultimately have "0 < length ?tok" using q by (cases ?q) auto
    then have "length ?rest < length ?q" using q by (cases ?q) auto
    also have "\<dots> \<le> length p" by (rule length_dropWhile_le)
    finally have shorter: "length ?rest < length p" .
    have lr: "length (cstr ?rest) < 0x1000000"
      using less.prems(3) length_dropWhile_le [of is_slash "cstr p"]
        length_dropWhile_le [of "\<lambda>c. \<not> is_slash c" "dropWhile is_slash (cstr p)"]
      unfolding rest cstr_dropWhile by simp
    have c: "rep_node (inode_at mf) (faddr t) c" "fname c = ?tok"
      using sub_named_member [OF c0(2)] rep_node_addr [OF less.prems(1)] rep_nodes_member by blast+
    then have "length ?tok < NAME_LEN" "faddr c \<noteq> 0" using rep_name_short rep_node_addr by metis+
    then show ?thesis using step comps c0 less.hyps [OF shorter c(1) tr lr]
      by (simp add: addr_of_def)
  qed
qed

lemma find_inode_eq:
  assumes "rep mf t" and "terminated p" and "length (cstr p) < 0x1000000"
  shows "find_inode (Some p) mf = Some (addr_of (tree_lookup (components p) t))"
  using assms find_loop_eq [of mf 0 t p] terminated_arr_get [of p]
  by (auto simp: rep_def find_inode_def addr_of_def components_def)

section \<open>New directories\<close>

text \<open>The tree with a new first entry in the directory at an address.\<close>

primrec tree_add :: "u32 \<Rightarrow> ftree \<Rightarrow> ftree \<Rightarrow> ftree" where
  "tree_add d c (Node a n ty b sub) = Node a n ty b (if a = d then c # sub else map (tree_add d c) sub)"

lemma tree_add_fields [simp]:
  "faddr (tree_add d c t) = faddr t" "fname (tree_add d c t) = fname t" "ftype (tree_add d c t) = ftype t"
  by (cases t; simp)+

lemma faddr_in [simp]: "faddr t \<in> set (faddrs t)"
  by (cases t) simp

lemma rep_nodes_map:
  assumes "\<And>t. t \<in> set ts \<Longrightarrow> rep_node h parent t \<Longrightarrow> rep_node h' parent (f t)"
    and "\<And>t. t \<in> set ts \<Longrightarrow> faddr (f t) = faddr t \<and> inext (h' (faddr t)) = inext (h (faddr t))"
    and "rep_nodes h parent p ts"
  shows "rep_nodes h' parent p (map f ts)"
  using assms by (induction ts arbitrary: p) auto

lemma faddr_sub: "t \<in> set ts \<Longrightarrow> faddr t \<in> set (concat (map faddrs ts))"
  using faddr_in [of t] by (simp only: set_concat set_map) blast

lemma rep_frame:
  "\<forall>x \<in> set (faddrs t). h' x = h x \<Longrightarrow> rep_node h parent t \<Longrightarrow> rep_node h' parent t"
proof (induction t arbitrary: parent)
  case (Node a n ty b sub)
  have "rep_nodes h' a (ichildren (h a)) (map (\<lambda>t. t) sub)"
    using Node faddr_sub [of _ sub] by (intro rep_nodes_map [where h = h]) auto
  then show ?case using Node.prems by simp
qed

lemma rep_frame_list:
  assumes "\<forall>x \<in> set (concat (map faddrs ts)). h' x = h x" and "rep_nodes h parent p ts"
  shows "rep_nodes h' parent p ts"
proof -
  have "rep_nodes h' parent p (map (\<lambda>t. t) ts)"
    using assms faddr_sub [of _ ts] by (intro rep_nodes_map [where h = h]) (auto intro: rep_frame [rotated])
  then show ?thesis by simp
qed

lemma rep_inode_children [simp]: "rep_inode (i\<lparr>ichildren := x\<rparr>) parent n ty b = rep_inode i parent n ty b"
  by (simp add: rep_inode_def contents_def split: option.split)

lemma rep_add:
  fixes h :: "u32 \<Rightarrow> MemFSInode"
  assumes new: "new \<noteq> 0" "rep_inode i d n ty b" "ichildren i = 0" "inext i = ichildren (h d)"
  defines "h' \<equiv> (h(new := i))(d := (h d)\<lparr>ichildren := new\<rparr>)"
  defines "c \<equiv> Node new n ty b []"
  shows "rep_node h parent t \<Longrightarrow> distinct (faddrs t) \<Longrightarrow> new \<notin> set (faddrs t) \<Longrightarrow> rep_node h' parent (tree_add d c t)"
proof (induction t arbitrary: parent)
  case (Node a m ty' b' sub)
  have keep: "rep_inode (h' a) parent m ty' b'"
    using Node.prems by (auto simp: h'_def)
  show ?case
  proof (cases "a = d")
    case True
    then have nd: "new \<noteq> d" "d \<notin> set (concat (map faddrs sub))" using Node.prems by auto
    have "rep_nodes h' d (ichildren (h d)) sub"
      using Node.prems True nd by (intro rep_frame_list [where h = h and h' = h']) (auto simp: h'_def)
    moreover have "ichildren (h' d) = new" "h' new = i" using nd by (simp_all add: h'_def)
    ultimately show ?thesis using True keep Node.prems new by (simp add: c_def)
  next
    case False
    have "rep_nodes h' a (ichildren (h a)) (map (tree_add d c) sub)"
    proof (rule rep_nodes_map)
      show "rep_nodes h a (ichildren (h a)) sub" using Node.prems by simp
      show "faddr (tree_add d c t) = faddr t \<and> inext (h' (faddr t)) = inext (h (faddr t))" if "t \<in> set sub" for t
        using that Node.prems by (auto simp: h'_def)
      show "rep_node h' a (tree_add d c t)" if "t \<in> set sub" "rep_node h a t" for t
        using that Node.prems by (intro Node.IH) (auto simp: distinct_concat_iff)
    qed
    moreover have "ichildren (h' a) = ichildren (h a)" using False Node.prems by (auto simp: h'_def)
    ultimately show ?thesis using False keep Node.prems by simp
  qed
qed

lemma sub_named_map: "(\<And>t. fname (f t) = fname t) \<Longrightarrow> sub_named n (map f ts) = map_option f (sub_named n ts)"
  by (induction ts) (auto simp: sub_named_def)

lemma tree_lookup_addr: "tree_lookup ns t = Some d \<Longrightarrow> faddr d \<in> set (faddrs t)"
proof (induction ns t rule: tree_lookup.induct)
  case (2 n ns t)
  then obtain s where s: "sub_named n (fsub t) = Some s" "tree_lookup ns s = Some d" by (auto simp: bind_eq_Some_conv)
  then show ?case using 2 sub_named_member [OF s(1)] by (cases t) auto
qed simp

lemma tree_lookup_rep: "tree_lookup ns t = Some d \<Longrightarrow> rep_node h parent t \<Longrightarrow> \<exists>p. rep_node h p d"
proof (induction ns t arbitrary: parent rule: tree_lookup.induct)
  case (2 n ns t)
  then obtain s where s: "sub_named n (fsub t) = Some s" "tree_lookup ns s = Some d" by (auto simp: bind_eq_Some_conv)
  then have "rep_node h (faddr t) s" using sub_named_member rep_nodes_member rep_node_addr [OF 2(3)] by blast
  then show ?case using 2(1) s by blast
qed auto

lemma tree_lookup_add:
  assumes "tree_lookup ns t = Some d" and "distinct (faddrs t)" and "fname c = n"
  shows "tree_lookup (ns @ [n]) (tree_add (faddr d) c t) = Some c"
  using assms(1,2)
proof (induction ns t rule: tree_lookup.induct)
  case (1 t)
  then show ?case using assms(3) by (cases d) (auto simp: sub_named_def)
next
  case (2 m ns t)
  then obtain s where s: "sub_named m (fsub t) = Some s" "tree_lookup ns s = Some d" by (auto simp: bind_eq_Some_conv)
  have m: "s \<in> set (fsub t)" using sub_named_member [OF s(1)] by simp
  have ne: "faddr t \<noteq> faddr d" using tree_lookup_addr [OF s(2)] m 2(3) by (cases t) auto
  have "distinct (faddrs s)" using m 2(3) by (cases t) (auto simp: distinct_concat_iff)
  then show ?case using 2(1) [OF s(1,2)] ne s(1) by (cases t) (auto simp: sub_named_map)
qed

text \<open>The last component of a path, and what precedes it.\<close>

lemma tokens_snoc:
  assumes "D s" and "\<forall>x \<in> set n. \<not> D x" and "n \<noteq> []"
  shows "tokens D (xs @ s # n) = tokens D xs @ [n]"
  using assms
proof (induction D xs rule: tokens.induct)
  case (1 D xs)
  let ?ys = "dropWhile D xs"
  show ?case
  proof (cases "?ys = []")
    case True
    then have "\<forall>x \<in> set xs. D x" by simp
    then have "dropWhile D (xs @ s # n) = n"
      using 1(2,3,4) by (simp add: dropWhile_append dropWhile_eq_self_iff)
    moreover have "takeWhile (Not \<circ> D) n = n" "dropWhile (Not \<circ> D) n = []" using 1(3) by simp_all
    moreover from this(2) have "tokens D (dropWhile (Not \<circ> D) n) = []" by (simp only: tokens_Nil)
    ultimately show ?thesis using 1(4) True by (simp add: tokens.simps [of D xs] tokens.simps [of D "xs @ s # n"])
  next
    case False
    have d: "dropWhile D (xs @ s # n) = ?ys @ s # n" using False by (auto simp: dropWhile_append)
    have tk: "takeWhile (Not \<circ> D) (ys @ s # n) = takeWhile (Not \<circ> D) ys" for ys
      using 1(2) by (induction ys) auto
    have dr: "dropWhile (Not \<circ> D) (ys @ s # n) = dropWhile (Not \<circ> D) ys @ s # n" for ys
      using 1(2) by (induction ys) auto
    show ?thesis using 1(1) [OF refl False 1(2,3,4)] False
      by (simp add: tokens.simps [of D xs] tokens.simps [of D "xs @ s # n"] d tk dr Let_def del: dropWhile_eq_Nil_conv)
  qed
qed

lemma strrchr_loop_none:
  "terminated s \<Longrightarrow> c \<notin> set (cstr s) \<Longrightarrow> c \<noteq> 0 \<Longrightarrow> strrchr_loop s c found i = Some found"
  by (induction s arbitrary: i) (auto split: if_splits)

lemma strrchr_loop_last:
  assumes "terminated s" and "cstr s = pp @ c # nm" and "c \<notin> set nm" and "c \<noteq> 0"
  shows "strrchr_loop s c found i = Some (Some (i + length pp))"
  using assms(1,2)
proof (induction s arbitrary: pp found i)
  case (Cons x s)
  then show ?case
  proof (cases pp)
    case Nil
    then have "x = c" "cstr s = nm" "x \<noteq> 0" using Cons.prems by (auto split: if_splits)
    then show ?thesis using strrchr_loop_none [of s c "Some i" "i + 1"] Cons.prems assms(3,4) Nil by simp
  next
    case (Cons y ys)
    then have "x \<noteq> 0" "cstr s = ys @ c # nm" using Cons.prems(2) by (auto split: if_splits)
    then show ?thesis using Cons Cons.IH [of ys] Cons.prems(1) by simp
  qed
qed simp

lemma copy_prefix:
  assumes "terminated p" and "n \<le> length (cstr p)" and "n < NAME_LEN"
  shows "do { name \<leftarrow> strncpy (replicate NAME_LEN 0) p n; arr_set name n 0 } =
    Some (take n (cstr p) @ replicate (NAME_LEN - n) 0)"
proof -
  have "strncpy (replicate NAME_LEN 0) p n = Some (take n (cstr p) @ replicate (NAME_LEN - n) 0)"
    using assms by (simp add: strncpy_def strncpy_loop_eq)
  moreover have "(take n (cstr p) @ replicate (NAME_LEN - n) 0)[n := 0] = take n (cstr p) @ replicate (NAME_LEN - n) (0 :: u8)"
    using assms by (simp add: list_update_append min_absorb2) (metis list_update_id nth_replicate zero_less_diff)
  ultimately show ?thesis using assms by simp
qed

lemma cstr_drop: "n \<le> length (cstr p) \<Longrightarrow> cstr (drop n p) = drop n (cstr p)"
  by (induction p arbitrary: n) (auto split: if_splits simp: drop_Cons')

lemma terminated_drop: "terminated p \<Longrightarrow> n \<le> length (cstr p) \<Longrightarrow> terminated (drop n p)"
  by (induction p arbitrary: n) (auto split: if_splits simp: drop_Cons')

text \<open>A new inode is a node without entries, named by the string if it has at most 254 characters.\<close>

lemma create_inode_rep:
  assumes "fs_new sizeof_MemFSInode mf = Some (a, mf1)" and "a \<noteq> 0" and "terminated name" and "length (cstr name) < NAME_LEN - 1"
  shows "\<exists>i. memfs_create_inode name ty mf = Some (a, mf1\<lparr>inode_at := (inode_at mf)(a := i)\<rparr>) \<and>
    rep_inode i 0 (cstr name) ty [] \<and> ichildren i = 0 \<and> inext i = 0"
proof -
  have k: "inode_at mf1 = inode_at mf" using assms(1) by (auto simp: fs_new_def bind_eq_Some_conv)
  define nm where "nm = take (NAME_LEN - 1) (cstr name @ replicate (NAME_LEN - 1) 0) @ drop (NAME_LEN - 1) (fresh_bytes mf1 NAME_LEN)"
  have "strncpy (fresh_bytes mf1 NAME_LEN) name (NAME_LEN - 1) = Some nm"
    using assms(3) by (simp add: strncpy_def strncpy_loop_eq fresh_bytes_def nm_def)
  moreover have "nm = cstr name @ 0 # (replicate (NAME_LEN - 1 - length (cstr name) - 1) 0 @ drop (NAME_LEN - 1) (fresh_bytes mf1 NAME_LEN))"
  proof -
    have "replicate (NAME_LEN - 1 - length (cstr name)) (0 :: u8) = 0 # replicate (NAME_LEN - 1 - length (cstr name) - 1) 0"
      using assms(4) by (metis Suc_diff_1 replicate_Suc zero_less_diff)
    then show ?thesis using assms(4) by (simp add: nm_def)
  qed
  moreover have "length nm = NAME_LEN" by (simp add: nm_def fresh_bytes_def)
  ultimately show ?thesis using assms(1,2) k
    by (intro exI [of _ "\<lparr>iname = nm, itype = ty, imode = 0x1ED, idata = None, isize = 0, icapacity = 0,
                 iparent = 0, ichildren = 0, inext = 0\<rparr>"])
      (simp add: memfs_create_inode_def upd_inode_def rep_inode_def contents_def cstr_app_zero)
qed

lemma tree_add_addrs:
  assumes "new \<notin> set (faddrs t)" and "distinct (faddrs t)"
  shows "distinct (faddrs (tree_add d (Node new n ty b []) t)) \<and>
    set (faddrs (tree_add d (Node new n ty b []) t)) \<subseteq> insert new (set (faddrs t)) \<and>
    (d \<notin> set (faddrs t) \<longrightarrow> tree_add d (Node new n ty b []) t = t)"
  using assms
proof (induction t)
  case (Node a m ty' b' sub)
  let ?f = "tree_add d (Node new n ty b [])"
  have "distinct (concat (map faddrs (map ?f ts))) \<and>
      set (concat (map faddrs (map ?f ts))) \<subseteq> insert new (set (concat (map faddrs ts))) \<and>
      (d \<notin> set (concat (map faddrs ts)) \<longrightarrow> map ?f ts = ts)"
    if "set ts \<subseteq> set sub" "distinct (concat (map faddrs ts))" for ts
    using that
  proof (induction ts)
    case (Cons t ts)
    then have t: "t \<in> set sub" "distinct (faddrs t)" "new \<notin> set (faddrs t)" "new \<notin> set (concat (map faddrs ts))"
      using Node.prems by auto
    have ih: "distinct (faddrs (?f t))" "set (faddrs (?f t)) \<subseteq> insert new (set (faddrs t))"
        "d \<notin> set (faddrs t) \<Longrightarrow> ?f t = t"
      using Node.IH [OF t(1,3,2)] by simp_all
    show ?case
    proof (cases "d \<in> set (faddrs t)")
      case True
      then have "map ?f ts = ts" using Cons by auto
      have "set (faddrs (?f t)) \<inter> set (concat (map faddrs ts)) = {}"
        using ih(2) t(4) Cons.prems(2) by (simp only: list.map concat.simps distinct_append) blast
      then show ?thesis using ih t(4) True Cons.prems \<open>map ?f ts = ts\<close> by auto
    next
      case False
      then show ?thesis using ih(3) Cons t(3) by auto
    qed
  qed simp
  from this [of sub] Node.prems show ?case by auto
qed

lemma mkdir_parent:
  assumes "rep mf t" and "terminated path" and "cstr path = pp @ 0x2F # nm" and "0x2F \<notin> set nm" and "nm \<noteq> []"
    and "length pp < NAME_LEN"
  shows "memfs_mkdir path mf =
    (case tree_lookup (tokens is_slash pp) t of
       None \<Rightarrow> Some (- 1, mf)
     | Some d \<Rightarrow>
         if ftype d = FT_DIR \<and> sub_named nm (fsub d) = None
         then do { (a, mf) \<leftarrow> memfs_create_inode (drop (length pp + 1) path) FT_DIR mf;
                   mf \<leftarrow> link_child a (faddr d) mf; Some (0, mf) }
         else Some (- 1, mf))"
proof -
  have last: "strrchr path 0x2F = Some (Some (length pp))"
    using strrchr_loop_last [OF assms(2,3,4)] by (simp add: strrchr_def)
  have z: "0 \<notin> set pp" using zero_notin_cstr [of path] assms(3) by auto
  let ?buf = "pp @ replicate (NAME_LEN - length pp) 0"
  obtain b1 where b: "strncpy (replicate NAME_LEN 0) path (length pp) = Some b1" "arr_set b1 (length pp) 0 = Some ?buf"
    using copy_prefix [of path "length pp"] assms by (auto simp: bind_eq_Some_conv)
  have rz: "replicate (NAME_LEN - length pp) 0 = 0 # replicate (NAME_LEN - length pp - 1) (0 :: u8)"
    using assms(6) by (metis Suc_diff_1 replicate_Suc zero_less_diff)
  have cb: "cstr ?buf = pp" "terminated ?buf" using z by (simp_all add: rz cstr_app_zero)
  have find: "find_inode (Some ?buf) mf = Some (addr_of (tree_lookup (tokens is_slash pp) t))"
  proof -
    have "length (cstr ?buf) < 0x1000000" unfolding cb(1) using assms(6) by simp
    from find_inode_eq [OF assms(1) cb(2) this] show ?thesis unfolding components_def cb(1) .
  qed
  let ?name = "drop (length pp + 1) path"
  have nm: "cstr ?name = nm" "terminated ?name"
    using cstr_drop [of "length pp + 1" path] terminated_drop [OF assms(2), of "length pp + 1"] assms(3) by auto
  have hd: "arr_get ?name 0 = Some (hd ?name)" "hd ?name \<noteq> 0" using terminated_arr_get [OF nm(2)] nm(1) assms(5) by auto
  show ?thesis
  proof (cases "tree_lookup (tokens is_slash pp) t")
    case None
    then show ?thesis using last b find assms(6) by (simp add: memfs_mkdir_def addr_of_def)
  next
    case (Some d)
    obtain p where "rep_node (inode_at mf) p d" using tree_lookup_rep [OF Some] assms(1) unfolding rep_def by blast
    from rep_node_addr [OF this] have d: "faddr d \<noteq> 0" "itype (inode_at mf (faddr d)) = ftype d"
      and ch: "find_child mf ?name (ichildren (inode_at mf (faddr d))) = Some (addr_of (sub_named nm (fsub d)))"
      using find_child_eq [OF _ nm(2)] nm(1) by (auto simp: rep_inode_def)
    have "sub_named nm (fsub d) = Some c \<Longrightarrow> faddr c \<noteq> 0" for c
      using sub_named_member rep_nodes_member rep_node_addr [OF \<open>rep_node (inode_at mf) p d\<close>] rep_node_addr by blast
    then show ?thesis using last b find assms(6) Some d ch hd
      by (auto simp: memfs_mkdir_def addr_of_def Let_def split: option.splits)
  qed
qed

lemma link_child_rep:
  assumes "rep mf t" and "tree_lookup ns t = Some d" and "a \<noteq> 0" and "a \<notin> set (faddrs t)"
    and "rep_inode i 0 nm ty b" and "ichildren i = 0"
    and "inode_at mf' = (inode_at mf)(a := i)" and "fs_root mf' = fs_root mf"
  shows "\<exists>mf''. link_child a (faddr d) mf' = Some mf'' \<and> rep mf'' (tree_add (faddr d) (Node a nm ty b []) t)"
proof -
  have dt: "faddr d \<in> set (faddrs t)" by (rule tree_lookup_addr [OF assms(2)])
  then have ne: "a \<noteq> faddr d" using assms(4) by auto
  obtain p where "rep_node (inode_at mf) p d" using tree_lookup_rep [OF assms(2)] assms(1) unfolding rep_def by blast
  then have d0: "faddr d \<noteq> 0" using rep_node_addr by blast
  define j where "j = i\<lparr>iparent := faddr d, inext := ichildren (inode_at mf (faddr d))\<rparr>"
  have j: "rep_inode j (faddr d) nm ty b" "ichildren j = 0" "inext j = ichildren (inode_at mf (faddr d))"
    using assms(5,6) by (auto simp: j_def rep_inode_def contents_def split: option.splits)
  let ?h = "((inode_at mf)(a := j))(faddr d := (inode_at mf (faddr d))\<lparr>ichildren := a\<rparr>)"
  have "link_child a (faddr d) mf' = Some (mf'\<lparr>inode_at := ?h\<rparr>)"
    using d0 assms(3,7) ne by (simp add: link_child_def get_inode_def upd_inode_def j_def)
  moreover have "rep_node ?h 0 (tree_add (faddr d) (Node a nm ty b []) t)"
    using assms(1,4) unfolding rep_def by (intro rep_add [where h = "inode_at mf", OF assms(3) j]) auto
  ultimately show ?thesis using assms(1,4,8) tree_add_addrs [of a t "faddr d" nm ty b] by (simp add: rep_def)
qed

section \<open>Properties\<close>

text \<open>
  C34. When the inodes represent a tree, \<open>find_inode\<close> returns the address of the node that the
  components of the path lead to, and null exactly when there is none.
\<close>

theorem find_inode_lookup:
  assumes "rep mf t" and "terminated p" and "length (cstr p) < 0x1000000"
  shows "\<exists>r. find_inode (Some p) mf = Some r \<and>
    (case tree_lookup (components p) t of None \<Rightarrow> r = 0 | Some n \<Rightarrow> r = faddr n \<and> r \<noteq> 0)"
proof -
  have "tree_lookup (components p) t = Some n \<Longrightarrow> faddr n \<noteq> 0" for n
    using tree_lookup_rep rep_node_addr assms(1) unfolding rep_def by blast
  then show ?thesis using find_inode_eq [OF assms] by (auto simp: addr_of_def split: option.split)
qed

definition dir_inode :: "u8 list \<Rightarrow> u32 \<Rightarrow> u32 \<Rightarrow> MemFSInode" where
  "dir_inode n parent child = \<lparr>iname = n @ replicate (256 - length n) 0, itype = FT_DIR, imode = 0x1ED, idata = None,
     isize = 0, icapacity = 0, iparent = parent, ichildren = child, inext = 0\<rparr>"

text \<open>A kernel whose caches all have a free object, and a root with one directory \<open>a\<close>.\<close>

definition fs_memory :: Kernel where
  "fs_memory = switch_kernel\<lparr>kmem := kmap_memory\<lparr>slab_allocator :=
     \<lparr>general_caches = map (\<lambda>p. (new_cache 512 8)\<lparr>slabs_partial := p\<rparr>)
        [0xC0001000, 0xC0002000, 0xC0003000, 0xC0004000, 0xC0005000, 0xC0006000, 0xC0007000,
        0xC0008000, 0xC0009000],
      heap = small_heap\<lparr>slab_at := (\<lambda>p. \<lparr>objects = p, inuse = 0, free_count = 4, freelist = p + 0x20, slab_next = 0, slab_cache = Some 0\<rparr>)\<rparr>\<rparr>\<rparr>\<rparr>"

definition small_fs :: MemFS where
  "small_fs = \<lparr>fs_kernel = fs_memory,
     inode_at = (\<lambda>_. dir_inode [] 0 0)(0x1000 := dir_inode [] 0 0x2000, 0x2000 := dir_inode [0x61] 0x1000 0),
     fd_at = (\<lambda>_. \<lparr>fd_inode = 0, fd_offset = 0\<rparr>), fs_root = 0x1000, garbage = (\<lambda>_. 0xFF)\<rparr>"

definition small_tree :: ftree where
  "small_tree = Node 0x1000 [] FT_DIR [] [Node 0x2000 [0x61] FT_DIR [] []]"

lemma dir_inode_rep: "0 \<notin> set n \<Longrightarrow> length n < 256 \<Longrightarrow> rep_inode (dir_inode n p c) p n FT_DIR []"
proof -
  assume n: "0 \<notin> set n" "length n < 256"
  then have "replicate (256 - length n) 0 = 0 # replicate (256 - length n - 1) (0 :: u8)"
    by (metis Suc_diff_1 replicate_Suc zero_less_diff)
  with n show ?thesis by (simp add: rep_inode_def dir_inode_def contents_def cstr_app_zero)
qed

lemma small_fs_rep: "rep small_fs small_tree"
  using dir_inode_rep [of "[]" 0 "0x2000"] dir_inode_rep [of "[0x61]" "0x1000" 0]
  by (simp add: rep_def small_fs_def small_tree_def) (simp add: dir_inode_def)

lemma small_comps: "components [0x2F, 0x61, 0x2F, 0x2F, 0] = [[0x61]]" "tokens is_slash [0x2F, 0x61] = [[0x61]]"
  by (simp_all add: components_def tokens.simps)

theorem find_inode_lookup_witness:
  "find_inode (Some [0x2F, 0x61, 0x2F, 0x2F, 0]) small_fs = Some 0x2000"
  using find_inode_lookup [OF small_fs_rep, of "[0x2F, 0x61, 0x2F, 0x2F, 0]"]
  unfolding small_comps by (auto simp: small_tree_def sub_named_def)

text \<open>
  C2. \<open>mkdir\<close> on a path \<open>pp/nm\<close>: if \<open>pp\<close> leads to a directory without an entry \<open>nm\<close>, it returns 0
  and the inodes represent the tree with the new empty directory as first entry there, which
  the path then leads to. In every other case it returns -1 and changes nothing. The name
  may have 254 characters, since a longer one is not terminated in the inode.
\<close>

theorem mkdir_creates:
  assumes "rep mf t" and "terminated path" and "cstr path = pp @ 0x2F # nm" and "0x2F \<notin> set nm" and "nm \<noteq> []"
    and "length pp < NAME_LEN" and "length nm < NAME_LEN - 1"
    and "fs_new sizeof_MemFSInode mf = Some (a, mf1)" and "a \<noteq> 0" and "a \<notin> set (faddrs t)"
  shows "case tree_lookup (tokens is_slash pp) t of
      None \<Rightarrow> memfs_mkdir path mf = Some (- 1, mf)
    | Some d \<Rightarrow>
        if ftype d = FT_DIR \<and> sub_named nm (fsub d) = None
        then \<exists>mf'. memfs_mkdir path mf = Some (0, mf') \<and> rep mf' (tree_add (faddr d) (Node a nm FT_DIR [] []) t) \<and>
          find_inode (Some path) mf' = Some a
        else memfs_mkdir path mf = Some (- 1, mf)"
proof -
  note parent = mkdir_parent [OF assms(1-6)]
  let ?name = "drop (length pp + 1) path"
  have nm: "cstr ?name = nm" "terminated ?name"
    using cstr_drop [of "length pp + 1" path] terminated_drop [OF assms(2), of "length pp + 1"] assms(3) by auto
  obtain i where i: "memfs_create_inode ?name FT_DIR mf = Some (a, mf1\<lparr>inode_at := (inode_at mf)(a := i)\<rparr>)"
      "rep_inode i 0 nm FT_DIR []" "ichildren i = 0"
    using create_inode_rep [OF assms(8,9) nm(2)] assms(7) unfolding nm(1) by blast
  have root: "fs_root mf1 = fs_root mf" using assms(8) by (auto simp: fs_new_def bind_eq_Some_conv)
  have comps: "components path = tokens is_slash pp @ [nm]"
    unfolding components_def assms(3) by (rule tokens_snoc) (use assms(4,5) in auto)
  have len: "length (cstr path) < 0x1000000" using assms(3,6,7) by simp
  have "\<exists>mf'. memfs_mkdir path mf = Some (0, mf') \<and> rep mf' (tree_add (faddr d) (Node a nm FT_DIR [] []) t) \<and>
          find_inode (Some path) mf' = Some a"
    if d: "tree_lookup (tokens is_slash pp) t = Some d" "ftype d = FT_DIR" "sub_named nm (fsub d) = None" for d
  proof -
    obtain mf' where mf': "link_child a (faddr d) (mf1\<lparr>inode_at := (inode_at mf)(a := i)\<rparr>) = Some mf'"
        "rep mf' (tree_add (faddr d) (Node a nm FT_DIR [] []) t)"
      using link_child_rep [OF assms(1) d(1) assms(9,10) i(2,3), of "mf1\<lparr>inode_at := (inode_at mf)(a := i)\<rparr>"] root
      by auto
    have "tree_lookup (components path) (tree_add (faddr d) (Node a nm FT_DIR [] []) t) = Some (Node a nm FT_DIR [] [])"
      unfolding comps using d(1) assms(1) by (intro tree_lookup_add) (auto simp: rep_def)
    then show ?thesis using parent d i(1) mf' find_inode_eq [OF mf'(2) assms(2) len] by (simp add: addr_of_def)
  qed
  then show ?thesis using parent by (auto split: option.split)
qed

lemma small_fs_new: "\<exists>mf1. fs_new sizeof_MemFSInode small_fs = Some (0xC0007020, mf1)"
  by (simp add: fs_new_def operator_new_def km_kmalloc_def on_slab_def small_fs_def fs_memory_def switch_kernel_def
      kmap_memory_def kmalloc_def get_general_cache_def cache_alloc_def
      take_object_def upd_slab_def Let_def)

theorem mkdir_creates_witness:
  "\<exists>mf'. memfs_mkdir [0x2F, 0x61, 0x2F, 0x62, 0] small_fs = Some (0, mf') \<and>
     find_inode (Some [0x2F, 0x61, 0x2F, 0x62, 0]) mf' = Some 0xC0007020"
proof -
  obtain mf1 where "fs_new sizeof_MemFSInode small_fs = Some (0xC0007020, mf1)" using small_fs_new by auto
  from mkdir_creates [OF small_fs_rep _ _ _ _ _ _ this, of "[0x2F, 0x61, 0x2F, 0x62, 0]" "[0x2F, 0x61]" "[0x62]"]
  show ?thesis unfolding small_comps by (simp add: small_tree_def sub_named_def) blast
qed

end
