(* ===== verification/Vfs.thy ===== *)
theory Vfs
  imports MemTree
begin

text \<open>
  The virtual file system of \<open>kernel/fs/vfs.cpp\<close>: the table of mount points, the choice of the
  file system for a path and the system calls on descriptors. A file system or a descriptor
  is a pointer; its virtual functions are given by an argument, over the kernel and the
  state \<open>'s\<close> of all these objects. Paths and buffers are the bytes at the pointers.
\<close>

section \<open>State\<close>

record 's FileSystem =
  vf_open :: "u8 list \<Rightarrow> Kernel \<times> 's \<Rightarrow> (u32 \<times> Kernel \<times> 's) option"
  vf_stat :: "u8 list \<Rightarrow> FileAttribute \<Rightarrow> Kernel \<times> 's \<Rightarrow> (int \<times> FileAttribute \<times> Kernel \<times> 's) option"
  vf_mkdir :: "u8 list \<Rightarrow> Kernel \<times> 's \<Rightarrow> (int \<times> Kernel \<times> 's) option"
  vf_unlink :: "u8 list \<Rightarrow> Kernel \<times> 's \<Rightarrow> (int \<times> Kernel \<times> 's) option"
  vf_rmdir :: "u8 list \<Rightarrow> Kernel \<times> 's \<Rightarrow> (int \<times> Kernel \<times> 's) option"

record 's FileDescriptor =
  fd_read :: "u8 list \<Rightarrow> u32 \<Rightarrow> Kernel \<times> 's \<Rightarrow> (int \<times> u8 list \<times> Kernel \<times> 's) option"
  fd_write :: "u8 list \<Rightarrow> u32 \<Rightarrow> Kernel \<times> 's \<Rightarrow> (int \<times> Kernel \<times> 's) option"
  fd_seek :: "u32 \<Rightarrow> Kernel \<times> 's \<Rightarrow> (int \<times> Kernel \<times> 's) option"
  fd_close :: "Kernel \<times> 's \<Rightarrow> (int \<times> Kernel \<times> 's) option"
  fd_iterate :: "u8 list \<Rightarrow> u32 \<Rightarrow> u32 \<Rightarrow> Kernel \<times> 's \<Rightarrow> (int \<times> u8 list \<times> u32 \<times> Kernel \<times> 's) option"
  fd_mmap :: "u32 \<Rightarrow> u32 \<Rightarrow> u32 \<Rightarrow> u32 \<Rightarrow> u32 \<Rightarrow> Kernel \<times> 's \<Rightarrow> (u32 \<times> Kernel \<times> 's) option"

record MountPoint =
  mp_fs :: u32
  mp_path :: "u8 list"
  mp_used :: bool

record 's Vfs =
  vkernel :: Kernel
  objects :: 's
  mount_points :: "MountPoint list"
  current_working_directory :: "u8 list"

definition on_objects :: "(Kernel \<times> 's \<Rightarrow> ('a \<times> Kernel \<times> 's) option) \<Rightarrow> 's Vfs \<Rightarrow> ('a \<times> 's Vfs) option" where
  "on_objects f v = do { (r, k, s) \<leftarrow> f (vkernel v, objects v); Some (r, v\<lparr>vkernel := k, objects := s\<rparr>) }"

section \<open>Mount points\<close>

text \<open>The part of \<open>init_vfs\<close> that clears the table.\<close>

definition init_vfs :: "'s Vfs \<Rightarrow> 's Vfs" where
  "init_vfs v = v\<lparr>mount_points := map (\<lambda>mp. mp\<lparr>mp_used := False\<rparr>) (mount_points v)\<rparr>"

text \<open>
  The loop of \<open>find_fs\<close>: the length of the longest match, the file system and the rest of the
  path as an offset, which has no value before the first match.
\<close>

primrec find_fs_loop ::
  "u8 list \<Rightarrow> MountPoint list \<Rightarrow> nat \<times> u32 \<times> nat option \<Rightarrow> (nat \<times> u32 \<times> nat option) option" where
  "find_fs_loop path [] acc = Some acc"
| "find_fs_loop path (mp # mps) acc =
     (if \<not> mp_used mp then find_fs_loop path mps acc
      else do {
        mount_len \<leftarrow> strlen (mp_path mp);
        ret \<leftarrow> strncmp path (mp_path mp) (of_nat mount_len);
        if ret = 0 \<and> mount_len > fst acc then find_fs_loop path mps (mount_len, mp_fs mp, Some mount_len)
        else find_fs_loop path mps acc })"

definition find_fs :: "u8 list \<Rightarrow> MountPoint list \<Rightarrow> (u32 \<times> nat option) option" where
  "find_fs path mps = map_option snd (find_fs_loop path mps (0, 0, None))"

primrec register_loop :: "u8 list \<Rightarrow> u32 \<Rightarrow> MountPoint list \<Rightarrow> MountPoint list option" where
  "register_loop mount_point f [] = Some []"
| "register_loop mount_point f (mp # mps) =
     (if \<not> mp_used mp
      then do { p \<leftarrow> strncpy (mp_path mp) mount_point 255; Some (mp\<lparr>mp_path := p, mp_fs := f, mp_used := True\<rparr> # mps) }
      else map_option ((#) mp) (register_loop mount_point f mps))"

definition register_fs :: "u8 list \<Rightarrow> u32 \<Rightarrow> 's Vfs \<Rightarrow> 's Vfs option" where
  "register_fs mount_point f v = do { mps \<leftarrow> register_loop mount_point f (mount_points v); Some (v\<lparr>mount_points := mps\<rparr>) }"

section \<open>Operations on paths\<close>

text \<open>Every operation on a path finds its file system first; without one the result is \<open>fail\<close>.\<close>

definition on_path ::
  "u8 list \<Rightarrow> 'a \<Rightarrow> (u32 \<Rightarrow> u8 list \<Rightarrow> Kernel \<times> 's \<Rightarrow> ('a \<times> Kernel \<times> 's) option) \<Rightarrow> 's Vfs \<Rightarrow> ('a \<times> 's Vfs) option" where
  "on_path path fail f v =
     do { (p, rest) \<leftarrow> find_fs path (mount_points v);
          if p = 0 then Some (fail, v)
          else do { r \<leftarrow> rest; on_objects (f p (drop r path)) v } }"

definition vfs_open :: "(u32 \<Rightarrow> 's FileSystem) \<Rightarrow> u8 list \<Rightarrow> 's Vfs \<Rightarrow> (u32 \<times> 's Vfs) option" where
  "vfs_open F path v = on_path path 0 (\<lambda>p. vf_open (F p)) v"

definition vfs_stat ::
  "(u32 \<Rightarrow> 's FileSystem) \<Rightarrow> u8 list \<Rightarrow> FileAttribute \<Rightarrow> 's Vfs \<Rightarrow> ((int \<times> FileAttribute) \<times> 's Vfs) option" where
  "vfs_stat F path attr v =
     on_path path (- 1, attr) (\<lambda>p r st. do { (i, a, st) \<leftarrow> vf_stat (F p) r attr st; Some ((i, a), st) }) v"

definition vfs_mkdir :: "(u32 \<Rightarrow> 's FileSystem) \<Rightarrow> u8 list \<Rightarrow> 's Vfs \<Rightarrow> (int \<times> 's Vfs) option" where
  "vfs_mkdir F path v = on_path path (- 1) (\<lambda>p. vf_mkdir (F p)) v"

definition vfs_unlink :: "(u32 \<Rightarrow> 's FileSystem) \<Rightarrow> u8 list \<Rightarrow> 's Vfs \<Rightarrow> (int \<times> 's Vfs) option" where
  "vfs_unlink F path v = on_path path (- 1) (\<lambda>p. vf_unlink (F p)) v"

definition vfs_rmdir :: "(u32 \<Rightarrow> 's FileSystem) \<Rightarrow> u8 list \<Rightarrow> 's Vfs \<Rightarrow> (int \<times> 's Vfs) option" where
  "vfs_rmdir F path v = on_path path (- 1) (\<lambda>p. vf_rmdir (F p)) v"

text \<open>The context of a task; a null task or a null context is undefined.\<close>

definition context_of :: "u32 \<Rightarrow> 's Vfs \<Rightarrow> u32 option" where
  "context_of t v =
     (if t = 0 then None
      else let c = task_context (task_at (sched (vkernel v)) t) in if c = 0 then None else Some c)"

text \<open>\<open>attr\<close> is the local variable, whose value before the call is arbitrary.\<close>

definition chdir ::
  "(u32 \<Rightarrow> 's FileSystem) \<Rightarrow> FileAttribute \<Rightarrow> u8 list \<Rightarrow> nat \<Rightarrow> 's Vfs \<Rightarrow> (int \<times> 's Vfs) option" where
  "chdir F attr path cpu v =
     do { ((r, a), v) \<leftarrow> vfs_stat F path attr v;
          if r < 0 \<or> attr_type a \<noteq> FileType.FT_DIR then Some (- 1, v)
          else do {
            t \<leftarrow> get_current_task (sched (vkernel v)) cpu;
            c \<leftarrow> context_of t v;
            d \<leftarrow> strncpy (cwd (context_at (vkernel v) c)) path 255;
            d \<leftarrow> arr_set d 255 0;
            k \<leftarrow> upd_context c (\<lambda>x. x\<lparr>cwd := d\<rparr>) (vkernel v);
            g \<leftarrow> strcpy (current_working_directory v) path;
            Some (0, v\<lparr>vkernel := k, current_working_directory := g\<rparr>) } }"

section \<open>Operations on descriptors\<close>

text \<open>The guard \<open>fd_num >= 256 || !fd_table[fd_num]\<close>: the descriptor, 0 if the guard holds.\<close>

definition lookup_fd :: "u32 \<Rightarrow> u32 \<Rightarrow> 's Vfs \<Rightarrow> u32 option" where
  "lookup_fd fd_num t v =
     (if fd_num \<ge> 256 then Some 0
      else do { c \<leftarrow> context_of t v; arr_get (fd_table (context_at (vkernel v) c)) (unat fd_num) })"

definition sys_open :: "(u32 \<Rightarrow> 's FileSystem) \<Rightarrow> u8 list \<Rightarrow> u32 \<Rightarrow> 's Vfs \<Rightarrow> (int \<times> 's Vfs) option" where
  "sys_open F path t v =
     (if t = 0 then None
      else do {
        (fd, v) \<leftarrow> vfs_open F path v;
        if fd = 0 then Some (- 1, v)
        else do {
          c \<leftarrow> context_of t v;
          (n, k) \<leftarrow> allocate_fd c (vkernel v);
          if n < 0 then None
          else do {
            tab \<leftarrow> arr_set (fd_table (context_at k c)) (nat n) fd;
            k \<leftarrow> upd_context c (\<lambda>x. x\<lparr>fd_table := tab\<rparr>) k;
            Some (n, v\<lparr>vkernel := k\<rparr>) } } })"

definition sys_read ::
  "(u32 \<Rightarrow> 's FileDescriptor) \<Rightarrow> u32 \<Rightarrow> u8 list \<Rightarrow> u32 \<Rightarrow> u32 \<Rightarrow> 's Vfs \<Rightarrow> ((int \<times> u8 list) \<times> 's Vfs) option" where
  "sys_read G fd_num buffer sz t v =
     do { fd \<leftarrow> lookup_fd fd_num t v;
          if fd = 0 then Some ((- 1, buffer), v)
          else on_objects (\<lambda>st. do { (n, b, st) \<leftarrow> fd_read (G fd) buffer sz st; Some ((n, b), st) }) v }"

definition sys_write :: "(u32 \<Rightarrow> 's FileDescriptor) \<Rightarrow> u32 \<Rightarrow> u8 list \<Rightarrow> u32 \<Rightarrow> u32 \<Rightarrow> 's Vfs \<Rightarrow> (int \<times> 's Vfs) option" where
  "sys_write G fd_num buffer sz t v =
     (if t = 0 then None
      else do { fd \<leftarrow> lookup_fd fd_num t v;
                if fd = 0 then Some (- 1, v) else on_objects (fd_write (G fd) buffer sz) v })"

definition sys_close :: "(u32 \<Rightarrow> 's FileDescriptor) \<Rightarrow> u32 \<Rightarrow> u32 \<Rightarrow> 's Vfs \<Rightarrow> (int \<times> 's Vfs) option" where
  "sys_close G fd_num t v =
     do { fd \<leftarrow> lookup_fd fd_num t v;
          if fd = 0 then Some (- 1, v)
          else do {
            (r, v) \<leftarrow> on_objects (fd_close (G fd)) v;
            c \<leftarrow> context_of t v;
            tab \<leftarrow> arr_set (fd_table (context_at (vkernel v) c)) (unat fd_num) 0;
            k \<leftarrow> upd_context c (\<lambda>x. x\<lparr>fd_table := tab\<rparr>) (vkernel v);
            Some (r, v\<lparr>vkernel := k\<rparr>) } }"

definition sys_seek :: "(u32 \<Rightarrow> 's FileDescriptor) \<Rightarrow> u32 \<Rightarrow> u32 \<Rightarrow> u32 \<Rightarrow> 's Vfs \<Rightarrow> (int \<times> 's Vfs) option" where
  "sys_seek G fd_num offset t v =
     do { fd \<leftarrow> lookup_fd fd_num t v;
          if fd = 0 then Some (- 1, v) else on_objects (fd_seek (G fd) offset) v }"

definition sys_getdents ::
  "(u32 \<Rightarrow> 's FileDescriptor) \<Rightarrow> u32 \<Rightarrow> u8 list \<Rightarrow> u32 \<Rightarrow> u32 \<Rightarrow> nat \<Rightarrow> 's Vfs \<Rightarrow> ((int \<times> u8 list \<times> u32) \<times> 's Vfs) option" where
  "sys_getdents G fd_num dirp count pos cpu v =
     do { t \<leftarrow> get_current_task (sched (vkernel v)) cpu;
          fd \<leftarrow> lookup_fd fd_num t v;
          if fd = 0 then Some ((- 1, dirp, pos), v)
          else on_objects (\<lambda>st. do { (n, b, p, st) \<leftarrow> fd_iterate (G fd) dirp count pos st; Some ((n, b, p), st) }) v }"

section \<open>The memory file system behind the interface\<close>

text \<open>\<open>MemFS\<close> overrides the virtual functions. It allocates from the one kernel.\<close>

definition with_kernel :: "(MemFS \<Rightarrow> ('a \<times> MemFS) option) \<Rightarrow> Kernel \<times> MemFS \<Rightarrow> ('a \<times> Kernel \<times> MemFS) option" where
  "with_kernel f = (\<lambda>(k, mf). do { (r, mf) \<leftarrow> f (mf\<lparr>fs_kernel := k\<rparr>); Some (r, fs_kernel mf, mf) })"

definition memfs_vtable :: "MemFS FileSystem" where
  "memfs_vtable = \<lparr>
     vf_open = \<lambda>path. with_kernel (memfs_open (Some path)),
     vf_stat = \<lambda>path attr st. do { (i, a) \<leftarrow> memfs_stat (Some path) attr (snd st); Some (i, a, st) },
     vf_mkdir = \<lambda>path. with_kernel (memfs_mkdir path),
     vf_unlink = \<lambda>path. with_kernel (memfs_unlink (Some path)),
     vf_rmdir = \<lambda>path. with_kernel (memfs_rmdir (Some path))\<rparr>"

section \<open>The longest mount point\<close>

lemma strncmp_prefix:
  assumes "terminated s" and "0 \<notin> set p" and "length p < 2 ^ 31"
  shows "\<exists>r. strncmp_loop (int (length p)) s (p @ rest) = Some r \<and> (r = 0 \<longleftrightarrow> take (length p) (cstr s) = p)"
  using assms
proof (induction p arbitrary: s)
  case (Cons b p)
  then obtain a s' where s: "s = a # s'" by (cases s) auto
  have b: "b \<noteq> 0" using Cons.prems(2) by auto
  show ?case
  proof (cases "a = b")
    case True
    then obtain r where "strncmp_loop (int (length p)) s' (p @ rest) = Some r" "r = 0 \<longleftrightarrow> take (length p) (cstr s') = p"
      using Cons.IH [of s'] Cons.prems s b by auto
    then show ?thesis using s True b Cons.prems(3) by simp
  next
    case False
    then have "uint a - uint b \<noteq> 0" by (simp add: word_uint_eq_iff)
    moreover have "uint (0 :: u8) - uint b \<noteq> 0" using b by (simp add: word_uint_eq_iff)
    ultimately show ?thesis using s False b Cons.prems(3) by (cases "a = 0") auto
  qed
qed (simp add: strncmp_loop.simps)

text \<open>Whether a path begins with a mount point, and a table whose entries are C strings.\<close>

definition mount_name :: "MountPoint \<Rightarrow> u8 list" where
  "mount_name mp = cstr (mp_path mp)"

definition matches :: "u8 list \<Rightarrow> MountPoint \<Rightarrow> bool" where
  "matches path mp \<longleftrightarrow> mp_used mp \<and> take (length (mount_name mp)) (cstr path) = mount_name mp"

definition mounts_ok :: "MountPoint list \<Rightarrow> bool" where
  "mounts_ok mps \<longleftrightarrow> list_all (\<lambda>mp. length (mp_path mp) = 256 \<and> terminated (mp_path mp)) mps"

lemma mount_test:
  assumes "terminated path" and "length (mp_path mp) = 256" and "terminated (mp_path mp)"
  shows "strlen (mp_path mp) = Some (length (mount_name mp))"
    and "\<exists>r. strncmp path (mp_path mp) (of_nat (length (mount_name mp))) = Some r \<and>
      (r = 0 \<longleftrightarrow> take (length (mount_name mp)) (cstr path) = mount_name mp)"
proof -
  have len: "length (mount_name mp) \<le> 256" using assms(2) length_takeWhile_le [of _ "mp_path mp"]
    by (simp add: mount_name_def cstr_def)
  show "strlen (mp_path mp) = Some (length (mount_name mp))" using strlen_eq [OF assms(3)] len by (simp add: mount_name_def)
  have split: "mp_path mp = mount_name mp @ drop (length (mount_name mp)) (mp_path mp)"
    unfolding mount_name_def cstr_def by (metis append_take_drop_id takeWhile_eq_take)
  have "sint (of_nat (length (mount_name mp)) :: u32) = int (length (mount_name mp))"
    using len sint_small [of "of_nat (length (mount_name mp))"] by (simp add: unat_of_nat)
  moreover have "0 \<notin> set (mount_name mp)" by (simp add: mount_name_def)
  ultimately show "\<exists>r. strncmp path (mp_path mp) (of_nat (length (mount_name mp))) = Some r \<and>
      (r = 0 \<longleftrightarrow> take (length (mount_name mp)) (cstr path) = mount_name mp)"
    using strncmp_prefix [OF assms(1), of "mount_name mp" "drop (length (mount_name mp)) (mp_path mp)"] len split
    by (simp add: strncmp_def)
qed

text \<open>The loop keeps the first of the longest matches.\<close>

primrec longest_match :: "u8 list \<Rightarrow> MountPoint list \<Rightarrow> nat \<times> u32 \<times> nat option \<Rightarrow> nat \<times> u32 \<times> nat option" where
  "longest_match path [] acc = acc"
| "longest_match path (mp # mps) acc =
     longest_match path mps
       (if matches path mp \<and> length (mount_name mp) > fst acc
        then (length (mount_name mp), mp_fs mp, Some (length (mount_name mp))) else acc)"

lemma find_fs_loop_eq:
  assumes "terminated path" and "mounts_ok mps"
  shows "find_fs_loop path mps acc = Some (longest_match path mps acc)"
  using assms(2)
proof (induction mps arbitrary: acc)
  case (Cons mp mps)
  then have mp: "length (mp_path mp) = 256" "terminated (mp_path mp)" "mounts_ok mps" by (simp_all add: mounts_ok_def)
  obtain r where "strncmp path (mp_path mp) (of_nat (length (mount_name mp))) = Some r"
      "r = 0 \<longleftrightarrow> take (length (mount_name mp)) (cstr path) = mount_name mp"
    using mount_test(2) [OF assms(1) mp(1,2)] by blast
  then show ?case using mount_test(1) [OF assms(1) mp(1,2)] Cons.IH [OF mp(3)] by (simp add: matches_def)
qed simp

lemma longest_match_none:
  "list_all (\<lambda>mp. matches path mp \<longrightarrow> length (mount_name mp) \<le> fst acc) mps \<Longrightarrow> longest_match path mps acc = acc"
  by (induction mps) auto

lemma longest_match_unique:
  assumes "mp \<in> set mps" and "matches path mp" and "fst acc < length (mount_name mp)"
    and "\<And>mp'. mp' \<in> set mps \<Longrightarrow> matches path mp' \<Longrightarrow> mp' = mp \<or> length (mount_name mp') < length (mount_name mp)"
  shows "longest_match path mps acc = (length (mount_name mp), mp_fs mp, Some (length (mount_name mp)))"
  using assms
proof (induction mps arbitrary: acc)
  case (Cons m mps)
  show ?case
  proof (cases "m = mp")
    case True
    have "list_all (\<lambda>mp'. matches path mp' \<longrightarrow> length (mount_name mp') \<le> length (mount_name mp)) mps"
      using Cons.prems(4) by (auto simp: list_all_iff intro: less_imp_le)
    then show ?thesis using True Cons.prems(2,3) by (simp add: longest_match_none)
  next
    case False
    then have "matches path m \<Longrightarrow> length (mount_name m) < length (mount_name mp)" using Cons.prems(4) [of m] by auto
    then show ?thesis using Cons False by auto
  qed
qed simp

lemma find_fs_unique:
  assumes "terminated path" and "mounts_ok mps" and "mp \<in> set mps" and "matches path mp" and "mount_name mp \<noteq> []"
    and "\<And>mp'. mp' \<in> set mps \<Longrightarrow> matches path mp' \<Longrightarrow> mp' = mp \<or> length (mount_name mp') < length (mount_name mp)"
  shows "find_fs path mps = Some (mp_fs mp, Some (length (mount_name mp)))"
  using longest_match_unique [OF assms(3,4), of "(0, 0, None)"] find_fs_loop_eq [OF assms(1,2)] assms(5,6)
  by (simp add: find_fs_def)

lemma find_fs_none:
  assumes "terminated path" and "mounts_ok mps" and "\<And>mp. mp \<in> set mps \<Longrightarrow> \<not> matches path mp"
  shows "find_fs path mps = Some (0, None)"
  using longest_match_none [of path "(0, 0, None)" mps] find_fs_loop_eq [OF assms(1,2)] assms(3)
  by (auto simp: find_fs_def list_all_iff)

section \<open>Properties\<close>

text \<open>
  C14. Operations on a path go to the file system whose mount point is the longest one the
  path begins with, and get the rest of the path; when no mount point fits they fail and
  change nothing.
\<close>

theorem path_dispatch:
  assumes "terminated path" and "mounts_ok (mount_points v)"
    and "mp \<in> set (mount_points v)" and "matches path mp" and "mount_name mp \<noteq> []" and "mp_fs mp \<noteq> 0"
    and "\<And>mp'. mp' \<in> set (mount_points v) \<Longrightarrow> matches path mp' \<Longrightarrow> mp' = mp \<or> length (mount_name mp') < length (mount_name mp)"
    and "terminated other" and "\<And>mp'. mp' \<in> set (mount_points v) \<Longrightarrow> \<not> matches other mp'"
  shows "vfs_open F path v = on_objects (vf_open (F (mp_fs mp)) (drop (length (mount_name mp)) path)) v \<and>
    vfs_stat F path attr v = on_objects (\<lambda>st. do { (i, a, st) \<leftarrow> vf_stat (F (mp_fs mp)) (drop (length (mount_name mp)) path) attr st;
      Some ((i, a), st) }) v \<and>
    vfs_mkdir F path v = on_objects (vf_mkdir (F (mp_fs mp)) (drop (length (mount_name mp)) path)) v \<and>
    vfs_unlink F path v = on_objects (vf_unlink (F (mp_fs mp)) (drop (length (mount_name mp)) path)) v \<and>
    vfs_rmdir F path v = on_objects (vf_rmdir (F (mp_fs mp)) (drop (length (mount_name mp)) path)) v \<and>
    vfs_open F other v = Some (0, v) \<and> vfs_stat F other attr v = Some ((- 1, attr), v) \<and>
    vfs_mkdir F other v = Some (- 1, v) \<and> vfs_unlink F other v = Some (- 1, v) \<and> vfs_rmdir F other v = Some (- 1, v)"
proof -
  have found: "find_fs path (mount_points v) = Some (mp_fs mp, Some (length (mount_name mp)))"
    using find_fs_unique [OF assms(1-5,7)] .
  have none: "find_fs other (mount_points v) = Some (0, None)"
    using find_fs_none [OF assms(8,2,9)] .
  show ?thesis using found none assms(6)
    by (simp add: vfs_open_def vfs_stat_def vfs_mkdir_def vfs_unlink_def vfs_rmdir_def on_path_def)
qed

text \<open>A table with one file system at the root and one at \<open>/mnt\<close>.\<close>

definition mount_entry :: "u8 list \<Rightarrow> u32 \<Rightarrow> MountPoint" where
  "mount_entry name f = \<lparr>mp_fs = f, mp_path = name @ replicate (256 - length name) 0, mp_used = True\<rparr>"

definition boot_mounts :: "MountPoint list" where
  "boot_mounts = [mount_entry [0x2F] 0x5000, mount_entry [0x2F, 0x6D, 0x6E, 0x74] 0x6000]"

definition small_vfs :: "MemFS Vfs" where
  "small_vfs = \<lparr>vkernel = fs_memory, objects = small_fs, mount_points = boot_mounts,
     current_working_directory = replicate 256 0\<rparr>"

lemma mount_entry_simps:
  "0 \<notin> set name \<Longrightarrow> length name < 256 \<Longrightarrow>
    mount_name (mount_entry name f) = name \<and> length (mp_path (mount_entry name f)) = 256 \<and> terminated (mp_path (mount_entry name f)) \<and>
    mp_used (mount_entry name f) \<and> mp_fs (mount_entry name f) = f"
proof -
  assume n: "0 \<notin> set name" "length name < 256"
  then have "replicate (256 - length name) 0 = 0 # replicate (256 - length name - 1) (0 :: u8)"
    by (metis Suc_diff_1 replicate_Suc zero_less_diff)
  with n show ?thesis by (simp add: mount_entry_def mount_name_def cstr_app_zero)
qed

lemma boot_names:
  "mount_name (mount_entry [0x2F] 0x5000) = [0x2F]" "mount_name (mount_entry [0x2F, 0x6D, 0x6E, 0x74] 0x6000) = [0x2F, 0x6D, 0x6E, 0x74]"
  "mp_used (mount_entry n f)" "mp_fs (mount_entry n f) = f"
  using mount_entry_simps [of "[0x2F]" "0x5000"] mount_entry_simps [of "[0x2F, 0x6D, 0x6E, 0x74]" "0x6000"]
  by (simp_all add: mount_entry_def)

lemma boot_mounts_ok: "mounts_ok boot_mounts"
  using mount_entry_simps [of "[0x2F]" "0x5000"] mount_entry_simps [of "[0x2F, 0x6D, 0x6E, 0x74]" "0x6000"]
  by (simp add: mounts_ok_def boot_mounts_def)

theorem path_dispatch_witness:
  "vfs_open (\<lambda>_. memfs_vtable) [0x2F, 0x6D, 0x6E, 0x74, 0x2F, 0x61, 0] small_vfs =
     on_objects (vf_open memfs_vtable [0x2F, 0x61, 0]) small_vfs \<and>
   vfs_mkdir (\<lambda>_. memfs_vtable) [0x61, 0] small_vfs = Some (- 1, small_vfs)"
proof -
  let ?mp = "mount_entry [0x2F, 0x6D, 0x6E, 0x74] 0x6000"
  let ?path = "[0x2F, 0x6D, 0x6E, 0x74, 0x2F, 0x61, 0] :: u8 list"
  have pre: "terminated ?path" "mounts_ok (mount_points small_vfs)" "?mp \<in> set (mount_points small_vfs)" "matches ?path ?mp"
      "mount_name ?mp \<noteq> []" "mp_fs ?mp \<noteq> 0"
    by (simp_all add: small_vfs_def boot_mounts_ok) (simp_all add: boot_mounts_def boot_names matches_def)
  have uniq: "mp' = ?mp \<or> length (mount_name mp') < length (mount_name ?mp)"
    if "mp' \<in> set (mount_points small_vfs)" "matches ?path mp'" for mp'
    using that by (auto simp: small_vfs_def boot_mounts_def boot_names)
  have none: "terminated [0x61 :: u8, 0]" "\<not> matches [0x61, 0] mp'" if "mp' \<in> set (mount_points small_vfs)" for mp'
    using that by (auto simp: small_vfs_def boot_mounts_def boot_names matches_def)
  show ?thesis
    using path_dispatch [OF pre uniq, of "[0x61, 0]" "\<lambda>_. memfs_vtable"] none by (auto simp: boot_names)
qed

text \<open>
  A directory cannot be created at the top of the memory file system mounted at \<open>/\<close>: the
  slash is taken off the path as the mount point, and \<open>mkdir\<close> of the file system needs one.
\<close>

theorem root_mkdir_fails:
  assumes "0 \<notin> set name" and "0x2F \<notin> set name" and "mounts_ok (mount_points v)"
    and "mp \<in> set (mount_points v)" and "mp_used mp" and "mount_name mp = [0x2F]" and "mp_fs mp \<noteq> 0" and "F (mp_fs mp) = memfs_vtable"
    and "\<And>mp'. mp' \<in> set (mount_points v) \<Longrightarrow> matches (0x2F # name @ [0]) mp' \<Longrightarrow> mp' = mp \<or> mount_name mp' = []"
  shows "\<exists>v'. vfs_mkdir F (0x2F # name @ [0]) v = Some (- 1, v') \<and> vkernel v' = vkernel v \<and>
    objects v' = (objects v)\<lparr>fs_kernel := vkernel v\<rparr>"
proof -
  have path: "terminated (0x2F # name @ [0 :: u8])" "matches (0x2F # name @ [0]) mp"
    using assms(5,6) by (simp_all add: matches_def)
  have "find_fs (0x2F # name @ [0]) (mount_points v) = Some (mp_fs mp, Some (length (mount_name mp)))"
    using find_fs_unique [OF path(1) assms(3,4) path(2)] assms(6,9) by fastforce
  moreover have "strrchr (name @ [0]) 0x2F = Some None" using assms(1,2) strrchr_loop_none [of "name @ [0]" "0x2F" None 0]
    by (simp add: strrchr_def cstr_app_zero)
  ultimately show ?thesis using assms(6,7,8)
    by (simp add: vfs_mkdir_def on_path_def on_objects_def memfs_vtable_def with_kernel_def memfs_mkdir_def)
qed

theorem root_mkdir_fails_witness:
  "\<exists>v'. vfs_mkdir (\<lambda>_. memfs_vtable) [0x2F, 0x62, 0x69, 0x6E, 0] small_vfs = Some (- 1, v') \<and> vkernel v' = fs_memory \<and>
     objects v' = small_fs\<lparr>fs_kernel := fs_memory\<rparr>"
proof -
  have uniq: "mp' = mount_entry [0x2F] 0x5000 \<or> mount_name mp' = []"
    if "mp' \<in> set (mount_points small_vfs)" "matches (0x2F # [0x62, 0x69, 0x6E] @ [0]) mp'" for mp'
    using that by (auto simp: small_vfs_def boot_mounts_def boot_names matches_def)
  have "mounts_ok (mount_points small_vfs)" by (simp add: small_vfs_def boot_mounts_ok)
  moreover have "mount_entry [0x2F] 0x5000 \<in> set (mount_points small_vfs)" by (simp add: small_vfs_def boot_mounts_def)
  ultimately show ?thesis
    using root_mkdir_fails [of "[0x62, 0x69, 0x6E]" small_vfs "mount_entry [0x2F] 0x5000" "\<lambda>_. memfs_vtable", OF _ _ _ _ _ _ _ _ uniq]
    by (simp add: boot_names) (simp add: small_vfs_def)
qed

text \<open>
  C37. An open that finds its file gives the next number of the process to the descriptor of
  the file system and advances that number by one, as long as fewer than 256 numbers were given
  out. It changes no other entry of the table, no other context and nothing else of the state. When
  256 numbers were given out the open writes behind the table, also if files were closed.
\<close>

theorem sys_open_descriptor:
  assumes "vfs_open F path v = Some (d, v1)" and "d \<noteq> 0" and "context_of t v1 = Some c"
    and "n = next_fd (context_at (vkernel v1) c)" and "0 \<le> n" and "n < 2 ^ 31 - 1"
    and "length (fd_table (context_at (vkernel v1) c)) = 256"
  shows "if n < 256
    then \<exists>v2. sys_open F path t v = Some (n, v2) \<and> lookup_fd (word_of_int n) t v2 = Some d \<and>
      (\<forall>m. unat m \<noteq> nat n \<longrightarrow> lookup_fd m t v2 = lookup_fd m t v1) \<and>
      context_of t v2 = Some c \<and> next_fd (context_at (vkernel v2) c) = n + 1 \<and>
      (\<forall>c'. c' \<noteq> c \<longrightarrow> context_at (vkernel v2) c' = context_at (vkernel v1) c') \<and>
      v2\<lparr>vkernel := (vkernel v2)\<lparr>context_at := context_at (vkernel v1)\<rparr>\<rparr> = v1
    else sys_open F path t v = None"
proof -
  have c: "c \<noteq> 0" "t \<noteq> 0" using assms(3) by (auto simp: context_of_def Let_def split: if_splits)
  show ?thesis
  proof (cases "n < 256")
    case True
    let ?x = "context_at (vkernel v1) c"
    define v2 where "v2 = v1\<lparr>vkernel := (vkernel v1)\<lparr>context_at := (context_at (vkernel v1))
        (c := ?x\<lparr>next_fd := n + 1, fd_table := (fd_table ?x)[nat n := d]\<rparr>)\<rparr>\<rparr>"
    have "sys_open F path t v = Some (n, v2)"
      using True assms c by (simp add: sys_open_def allocate_fd_def upd_context_def arr_set_def v2_def Let_def)
    moreover have ctx: "context_of t v2 = Some c" using assms(3) c by (simp add: context_of_def v2_def)
    moreover have un: "unat (word_of_int n :: u32) = nat n" using True assms(5) by (simp add: unat_eq_nat_uint uint_word_of_int)
    moreover have "v2\<lparr>vkernel := (vkernel v2)\<lparr>context_at := context_at (vkernel v1)\<rparr>\<rparr> = v1" by (simp add: v2_def)
    ultimately show ?thesis using True assms
      by (auto simp: lookup_fd_def arr_get_def v2_def word_le_nat_alt)
  next
    case False
    then show ?thesis using assms c by (simp add: sys_open_def allocate_fd_def upd_context_def arr_set_def Let_def)
  qed
qed

text \<open>A device that can be opened and closed, and a task whose context is at \<open>0x3000\<close>.\<close>

definition null_fs :: "MemFS FileSystem" where
  "null_fs = memfs_vtable\<lparr>vf_open := \<lambda>path st. Some (0x700, st)\<rparr>"

definition null_fd :: "MemFS FileDescriptor" where
  "null_fd = \<lparr>fd_read = \<lambda>b n st. Some (0, b, st), fd_write = \<lambda>b n st. Some (0, st), fd_seek = \<lambda>n st. Some (- 1, st),
     fd_close = \<lambda>st. Some (0, st), fd_iterate = \<lambda>b n p st. Some (- 1, b, p, st), fd_mmap = \<lambda>a l p f n st. Some (0, st)\<rparr>"

definition task_vfs :: "MemFS Vfs" where
  "task_vfs = small_vfs\<lparr>vkernel := fs_memory\<lparr>sched := (sched fs_memory)\<lparr>task_at :=
     (\<lambda>t. (task_at (sched fs_memory) t)\<lparr>task_context := 0x3000\<rparr>)\<rparr>,
     context_at := (\<lambda>_. \<lparr>context_id = 1, user_mm = user_mm new_Context, fd_table = replicate 256 0, next_fd = 3, cwd = replicate 256 0\<rparr>)\<rparr>\<rparr>"

lemma boot_find: "find_fs [0x2F, 0x61, 0] boot_mounts = Some (0x5000, Some 1)"
proof -
  have uniq: "mp' = mount_entry [0x2F] 0x5000 \<or> length (mount_name mp') < length (mount_name (mount_entry [0x2F] 0x5000))"
    if "mp' \<in> set boot_mounts" "matches [0x2F, 0x61, 0] mp'" for mp'
    using that by (auto simp: boot_mounts_def boot_names matches_def)
  have "terminated [0x2F, 0x61, 0 :: u8]" "mount_entry [0x2F] 0x5000 \<in> set boot_mounts"
      "matches [0x2F, 0x61, 0] (mount_entry [0x2F] 0x5000)" "mount_name (mount_entry [0x2F] 0x5000) \<noteq> []"
    by (simp_all add: boot_mounts_def boot_names matches_def)
  from find_fs_unique [OF this(1) boot_mounts_ok this(2-4) uniq] show ?thesis by (simp add: boot_names)
qed

lemma task_vfs_open: "vfs_open (\<lambda>_. null_fs) [0x2F, 0x61, 0] task_vfs = Some (0x700, task_vfs)"
  using boot_find by (simp add: vfs_open_def on_path_def on_objects_def null_fs_def task_vfs_def small_vfs_def)

lemma task_vfs_context: "context_of 0x1000 task_vfs = Some 0x3000"
  "fd_table (context_at (vkernel task_vfs) 0x3000) = replicate 256 0" "next_fd (context_at (vkernel task_vfs) 0x3000) = 3"
  by (simp_all add: context_of_def task_vfs_def)

theorem sys_open_descriptor_witness:
  "\<exists>v2. sys_open (\<lambda>_. null_fs) [0x2F, 0x61, 0] 0x1000 task_vfs = Some (3, v2) \<and> lookup_fd 3 0x1000 v2 = Some 0x700 \<and>
     lookup_fd 4 0x1000 v2 = Some 0 \<and> next_fd (context_at (vkernel v2) 0x3000) = 4"
proof -
  have "lookup_fd 4 0x1000 task_vfs = Some 0" by (simp add: lookup_fd_def task_vfs_context arr_get_def)
  then show ?thesis
    using sys_open_descriptor [OF task_vfs_open, of "0x1000" "0x3000" 3] task_vfs_context by auto
qed

text \<open>
  Closing a descriptor calls the file's own \<open>close\<close> and empties the entry: afterwards every
  call on that number is refused and changes nothing.
\<close>

theorem sys_close_releases:
  assumes "lookup_fd m t v = Some d" and "d \<noteq> 0" and "fd_close (G d) (vkernel v, objects v) = Some (r, k, s)"
    and "context_of t (v\<lparr>vkernel := k\<rparr>) = Some c" and "length (fd_table (context_at k c)) = 256"
  shows "\<exists>v2. sys_close G m t v = Some (r, v2) \<and> sys_read G m buf n t v2 = Some ((- 1, buf), v2) \<and>
    sys_write G m buf n t v2 = Some (- 1, v2) \<and> sys_seek G m n t v2 = Some (- 1, v2) \<and> sys_close G m t v2 = Some (- 1, v2)"
proof -
  have c: "c \<noteq> 0" "t \<noteq> 0" using assms(4) by (auto simp: context_of_def Let_def split: if_splits)
  have m: "m < 256" using assms(1,2) by (auto simp: lookup_fd_def split: if_splits)
  then have m': "unat m < 256" by (simp add: word_less_nat_alt)
  define v1 where "v1 = v\<lparr>vkernel := k, objects := s\<rparr>"
  define v2 where "v2 = v1\<lparr>vkernel := k\<lparr>context_at := (context_at k)
      (c := (context_at k c)\<lparr>fd_table := (fd_table (context_at k c))[unat m := 0]\<rparr>)\<rparr>\<rparr>"
  have ctx: "context_of t v1 = Some c" "context_of t v2 = Some c" using assms(4) c by (simp_all add: context_of_def v1_def v2_def)
  have "sys_close G m t v = Some (r, v2)"
    using assms c m' ctx by (simp add: sys_close_def on_objects_def v1_def [symmetric] upd_context_def arr_set_def)
      (simp add: v1_def v2_def)
  moreover have "lookup_fd m t v2 = Some 0" using ctx m m' assms(5) by (simp add: lookup_fd_def arr_get_def v2_def)
  ultimately show ?thesis using c by (simp add: sys_read_def sys_write_def sys_seek_def sys_close_def)
qed

definition open_vfs :: "MemFS Vfs" where
  "open_vfs = task_vfs\<lparr>vkernel := (vkernel task_vfs)\<lparr>context_at := (\<lambda>_. (context_at (vkernel task_vfs) 0)\<lparr>
     fd_table := replicate 256 0x700\<rparr>)\<rparr>\<rparr>"

theorem sys_close_releases_witness:
  "\<exists>v2. sys_close (\<lambda>_. null_fd) 3 0x1000 open_vfs = Some (0, v2) \<and>
     sys_write (\<lambda>_. null_fd) 3 [0x61] 1 0x1000 v2 = Some (- 1, v2)"
proof -
  have ctx: "context_of 0x1000 open_vfs = Some 0x3000" "fd_table (context_at (vkernel open_vfs) 0x3000) = replicate 256 0x700"
    by (simp_all add: context_of_def open_vfs_def task_vfs_def)
  then have "lookup_fd 3 0x1000 open_vfs = Some 0x700" by (simp add: lookup_fd_def arr_get_def)
  then show ?thesis
    using sys_close_releases [of 3 "0x1000" open_vfs "0x700" "\<lambda>_. null_fd" 0 "vkernel open_vfs" "objects open_vfs" "0x3000" "[0x61]" 1] ctx
    by (auto simp: null_fd_def)
qed

end
