(* ===== verification/Syscall.thy ===== *)
theory Syscall
  imports Vfs
begin

text \<open>
  System calls, \<open>kernel/core/syscall.cpp\<close>: the table of handlers with everything that is
  registered while the kernel starts, the dispatch, and the calls that are not in another
  component. A handler is named by its function; what a handler does is an argument of
  the dispatch. Buffers are the bytes at the pointer, a null pointer is \<open>None\<close>.
\<close>

section \<open>The table\<close>

datatype SyscallHandler =
    defaultHandler | execveHandler | exitHandler | nanosleepHandler | getpid_handler | statHandler | mkdirHandler
  | unlinkHandler | rmdirHandler | getdentsHandler | logHandler | chdirHandler | mmapHandler | forkHandler
  | openHandler | readHandler | writeHandler | closeHandler | seekHandler

type_synonym handler_table = "SyscallHandler option list"

definition registerHandler :: "u32 \<Rightarrow> SyscallHandler \<Rightarrow> handler_table \<Rightarrow> handler_table option" where
  "registerHandler syscall_num handler tab =
     (if syscall_num < 256 then arr_set tab (unat syscall_num) (Some handler) else Some tab)"

fun register_all :: "(u32 \<times> SyscallHandler) list \<Rightarrow> handler_table \<Rightarrow> handler_table option" where
  "register_all [] tab = Some tab"
| "register_all ((n, f) # ps) tab = do { tab \<leftarrow> registerHandler n f tab; register_all ps tab }"

text \<open>The loop fills the whole array, whatever it held.\<close>

definition syscall_init :: "handler_table \<Rightarrow> handler_table option" where
  "syscall_init tab =
     register_all [(2, execveHandler), (8, exitHandler), (10, nanosleepHandler), (9, getpid_handler), (11, statHandler),
       (12, mkdirHandler), (13, unlinkHandler), (14, rmdirHandler), (15, getdentsHandler), (16, logHandler),
       (17, chdirHandler), (20, mmapHandler)] (map (\<lambda>_. Some defaultHandler) tab)"

text \<open>What \<open>kernel_main\<close> and \<open>init_vfs\<close> register after that.\<close>

definition main_handlers :: "handler_table \<Rightarrow> handler_table option" where
  "main_handlers tab = register_all [(8, exitHandler), (1, forkHandler)] tab"

definition vfs_handlers :: "handler_table \<Rightarrow> handler_table option" where
  "vfs_handlers tab =
     register_all [(3, openHandler), (4, readHandler), (5, writeHandler), (6, closeHandler), (7, seekHandler), (15, getdentsHandler)] tab"

text \<open>
  The dispatch. The message for a call without a handler reads the table at the number, which
  is undefined behind its end.
\<close>

definition handleSyscall ::
  "(SyscallHandler \<Rightarrow> u32 \<times> u32 \<times> u32 \<times> u32 \<Rightarrow> 's \<Rightarrow> (int \<times> 's) option) \<Rightarrow> u32 \<Rightarrow> u32 \<times> u32 \<times> u32 \<times> u32 \<Rightarrow>
     handler_table \<Rightarrow> 's \<Rightarrow> (int \<times> 's) option" where
  "handleSyscall run syscall_num args tab s =
     do { f \<leftarrow> (if syscall_num < 256 then arr_get tab (unat syscall_num) else Some None);
          case f of
            Some f \<Rightarrow> run f args s
          | None \<Rightarrow> do { _ \<leftarrow> arr_get tab (unat syscall_num); Some (- 1, s) } }"

section \<open>Calls\<close>

definition sys_getpid :: "nat \<Rightarrow> Kernel \<Rightarrow> int option" where
  "sys_getpid cpu k = do { t \<leftarrow> get_current_task (sched k) cpu; if t = 0 then None else Some (sint (task_id (task_at (sched k) t))) }"

definition sys_getcwd :: "u8 list option \<Rightarrow> u32 \<Rightarrow> nat \<Rightarrow> 's Vfs \<Rightarrow> (int \<times> u8 list option) option" where
  "sys_getcwd buf sz cpu v =
     do { t \<leftarrow> get_current_task (sched (vkernel v)) cpu;
          case buf of
            None \<Rightarrow> Some (- 1, buf)
          | Some b \<Rightarrow>
              if sz = 0 then Some (- 1, buf)
              else do {
                c \<leftarrow> context_of t v;
                cwd_len \<leftarrow> strlen (cwd (context_at (vkernel v) c));
                if of_nat cwd_len + 1 > sz then Some (- 1, buf)
                else do { b \<leftarrow> strncpy b (cwd (context_at (vkernel v) c)) (unat sz); Some (0, Some b) } } }"

text \<open>\<open>mmap\<close> of a descriptor below zero takes an area of the user memory of the current task.\<close>

definition sys_mmap ::
  "(u32 \<Rightarrow> 's FileDescriptor) \<Rightarrow> u32 \<Rightarrow> u32 \<Rightarrow> u32 \<Rightarrow> u32 \<Rightarrow> int \<Rightarrow> u32 \<Rightarrow> nat \<Rightarrow> 's Vfs \<Rightarrow> (u32 \<times> 's Vfs) option" where
  "sys_mmap G addr len prot flags fd offset cpu v =
     do { t \<leftarrow> get_current_task (sched (vkernel v)) cpu;
          if fd < 0
          then do {
            c \<leftarrow> context_of t v;
            ((start, um), k) \<leftarrow> on_pages (\<lambda>pm. do { (start, um, pm) \<leftarrow> allocate_area (user_mm (context_at (vkernel v) c)) len 0 7 pm;
                                                 Some ((start, um), pm) }) (vkernel v);
            k \<leftarrow> upd_context c (\<lambda>x. x\<lparr>user_mm := um\<rparr>) k;
            Some (start, v\<lparr>vkernel := k\<rparr>) }
          else do {
            d \<leftarrow> (if fd \<ge> 256 then Some 0 else lookup_fd (word_of_int fd) t v);
            if d = 0 then Some (- 1, v) else on_objects (fd_mmap (G d) addr len prot flags offset) v } }"

text \<open>\<open>nanosleepHandler\<close> on the two fields of the request, which are signed words.\<close>

definition nanosleep :: "u32 \<Rightarrow> u32 \<Rightarrow> nat \<Rightarrow> Kernel \<Rightarrow> (int \<times> Kernel) option" where
  "nanosleep tv_sec tv_nsec cpu k =
     (let total_ns = scast tv_sec * 1000000000 + scast tv_nsec :: u64 in
      do { s \<leftarrow> sleep_current_process (sched k) cpu (ucast (drop_bit 24 total_ns));
           Some (0, k\<lparr>sched := s\<rparr>) })"

section \<open>Properties\<close>

text \<open>The order in which the kernel starts: \<open>SyscallManager::init\<close>, \<open>kernel_main\<close>, \<open>init_vfs\<close>.\<close>

definition boot_handlers :: "handler_table \<Rightarrow> handler_table option" where
  "boot_handlers tab = do { tab \<leftarrow> syscall_init tab; tab \<leftarrow> main_handlers tab; vfs_handlers tab }"

definition handler_of :: "nat \<Rightarrow> SyscallHandler" where
  "handler_of n = (if 1 \<le> n \<and> n \<le> 17
     then [forkHandler, execveHandler, openHandler, readHandler, writeHandler, closeHandler, seekHandler, exitHandler, getpid_handler,
       nanosleepHandler, statHandler, mkdirHandler, unlinkHandler, rmdirHandler, getdentsHandler, logHandler, chdirHandler] ! (n - 1)
     else if n = 20 then mmapHandler else defaultHandler)"

lemma boot_table:
  assumes "length tab = 256"
  shows "\<exists>t. boot_handlers tab = Some t \<and> length t = 256 \<and> (\<forall>n<256. t ! n = Some (handler_of n))"
proof -
  let ?d = "replicate 256 (Some defaultHandler)"
  have d: "map (\<lambda>_. Some defaultHandler) tab = ?d" using assms by (simp add: map_replicate_const)
  let ?f = "foldl (\<lambda>t (n :: u32, f). t[unat n := Some f])"
  let ?t = "?f (?f (?f ?d [(2, execveHandler), (8, exitHandler), (10, nanosleepHandler), (9, getpid_handler), (11, statHandler),
       (12, mkdirHandler), (13, unlinkHandler), (14, rmdirHandler), (15, getdentsHandler), (16, logHandler),
       (17, chdirHandler), (20, mmapHandler)]) [(8, exitHandler), (1, forkHandler)])
     [(3, openHandler), (4, readHandler), (5, writeHandler), (6, closeHandler), (7, seekHandler), (15, getdentsHandler)]"
  have "boot_handlers tab = Some ?t"
    unfolding boot_handlers_def syscall_init_def main_handlers_def vfs_handlers_def d
    by (simp add: registerHandler_def arr_set_def)
  moreover have "?t ! n = Some (handler_of n)" if "n < 256" for n
  proof (cases "n \<le> 20")
    case True
    then have "n \<in> set [0..<21]" by simp
    moreover have "list_all (\<lambda>n. ?t ! n = Some (handler_of n)) [0..<21]" by code_simp
    ultimately show ?thesis by (simp only: list_all_iff)
  next
    case False
    with that show ?thesis by (simp add: handler_of_def nth_list_update)
  qed
  moreover have "length ?t = 256" by simp
  ultimately show ?thesis by blast
qed

text \<open>
  C33. When the kernel has started, the table holds, for every number, exactly the handlers of
  \<open>handler_of\<close>, and a call with a number in the table runs its handler. The numbers 18 and 19 of
  \<open>pwd\<close> and \<open>getcwd\<close> reach the default handler, although there is a handler for the latter, and
  a number of 256 or more makes the dispatch read behind the table.
\<close>

theorem syscall_dispatch:
  assumes "length tab = 256"
  shows "\<exists>t. boot_handlers tab = Some t \<and>
    handleSyscall run num args t s = (if num < 256 then run (handler_of (unat num)) args s else None) \<and>
    handleSyscall run 19 args t s = run defaultHandler args s"
proof -
  obtain t where t: "boot_handlers tab = Some t" "length t = 256" "\<forall>n<256. t ! n = Some (handler_of n)"
    using boot_table [OF assms] by blast
  have "unat num < 256 \<longleftrightarrow> num < 256" by (simp add: word_less_nat_alt)
  with t show ?thesis by (auto simp: handleSyscall_def arr_get_def handler_of_def)
qed

theorem syscall_dispatch_witness:
  "\<exists>t. boot_handlers (replicate 256 None) = Some t \<and>
    handleSyscall (\<lambda>f _ s. if f = writeHandler then Some (1, s) else None) 5 (1, 0, 0, 0) t () = Some (1, ())"
  using syscall_dispatch [of "replicate 256 None" "\<lambda>f _ s. if f = writeHandler then Some (1, s) else None" 5 "(1, 0, 0, 0)" "()"]
  by (auto simp: handler_of_def)

lemma strncpy_eq:
  "terminated src \<Longrightarrow> n \<le> length dest \<Longrightarrow> strncpy dest src n = Some (take n (cstr src @ replicate n 0) @ drop n dest)"
  using strncpy_loop_eq [of src n 0 dest] by (simp add: strncpy_def)

lemma cstr_copy:
  "length (cstr src) < n \<Longrightarrow> cstr (take n (cstr src @ replicate n 0) @ rest) = cstr src"
proof -
  assume "length (cstr src) < n"
  then have "take n (cstr src @ replicate n 0) = cstr src @ 0 # replicate (n - length (cstr src) - 1) 0"
    by (simp add: take_replicate min_def) (metis Suc_diff_Suc replicate_Suc)
  then show ?thesis by (simp add: cstr_app_zero)
qed

lemma cstr_copy_255:
  assumes "length (cstr src) < 256" and "255 < length w" and "d = (take 255 (cstr src @ replicate 255 0) @ drop 255 w)[255 := 0]"
  shows "cstr d = cstr src" and "terminated d"
proof -
  let ?t = "take 255 (cstr src @ replicate 255 0)"
  have t: "length ?t = 255" by simp
  have "drop 255 w = w ! 255 # drop 256 w" using assms(2) Cons_nth_drop_Suc [of 255 w] by simp
  then have "d = ?t @ 0 # drop 256 w" using t unfolding assms(3) by (metis list_update_length)
  also have "take 255 (cstr src @ replicate 255 0) = cstr src @ replicate (255 - length (cstr src)) 0"
    using assms(1) by simp
  finally have d: "d = cstr src @ replicate (255 - length (cstr src)) 0 @ 0 # drop 256 w" by simp
  show "terminated d" by (simp add: d)
  show "cstr d = cstr src"
    by (cases "255 - length (cstr src)") (simp_all add: d cstr_app_zero)
qed

lemma zero_fill_length: "zero_fill n w i = Some d \<Longrightarrow> length d = length w"
  by (induction n arbitrary: w i) (auto simp: arr_set_def split: if_splits)

lemma strncpy_loop_length: "strncpy_loop n src w i = Some d \<Longrightarrow> length d = length w"
  by (induction n arbitrary: src w i)
    (auto simp: arr_set_def zero_fill_length simp del: zero_fill.simps split: if_splits list.splits)

text \<open>
  The working directory can be read back: after a successful \<open>chdir\<close> to a path of fewer than
  256 characters, \<open>getcwd\<close> returns this path when the buffer has room for it and the
  terminating zero, and otherwise -1 with the buffer unchanged.
\<close>

theorem chdir_getcwd:
  assumes "chdir F attr path cpu v = Some (0, v')" and "terminated path" and "length (cstr path) < 256"
    and "0 < sz" and "unat sz \<le> length b"
  shows "if length (cstr path) < unat sz
    then \<exists>b'. sys_getcwd (Some b) sz cpu v' = Some (0, Some b') \<and> cstr b' = cstr path \<and> drop (unat sz) b' = drop (unat sz) b
    else sys_getcwd (Some b) sz cpu v' = Some (- 1, Some b)"
proof -
  obtain t c v1 d g k where t: "get_current_task (sched (vkernel v1)) cpu = Some t" and c: "context_of t v1 = Some c"
    and d: "strncpy (cwd (context_at (vkernel v1) c)) path 255 \<bind> (\<lambda>d. arr_set d 255 0) = Some d"
    and k: "upd_context c (\<lambda>x. x\<lparr>cwd := d\<rparr>) (vkernel v1) = Some k"
    and v': "v' = v1\<lparr>vkernel := k, current_working_directory := g\<rparr>"
    using assms(1) by (auto simp: chdir_def split: bind_splits if_splits)
  have k': "sched k = sched (vkernel v1)" "cwd (context_at k c) = d"
    using k by (auto simp: upd_context_def split: if_splits)
  have t': "get_current_task (sched (vkernel v')) cpu = Some t" "context_of t v' = Some c"
    using t c k' by (simp_all add: v' context_of_def Let_def split: if_splits)
  have "255 < length (cwd (context_at (vkernel v1) c))" "d = (take 255 (cstr path @ replicate 255 0) @ drop 255 (cwd (context_at (vkernel v1) c)))[255 := 0]"
    using d strncpy_loop_length strncpy_eq [OF assms(2), of 255] by (fastforce simp: arr_set_def strncpy_def split: bind_splits if_splits)+
  then have cd: "cstr d = cstr path" "terminated d" using cstr_copy_255 assms(3) by metis+
  have "strlen d = Some (length (cstr path))" using strlen_eq [OF cd(2)] cd(1) assms(3) by simp
  moreover have "of_nat (length (cstr path)) + 1 > sz \<longleftrightarrow> \<not> length (cstr path) < unat sz"
    using assms(3) by (auto simp: word_less_nat_alt unat_word_ariths unat_of_nat)
  moreover have "strncpy b d (unat sz) = Some (take (unat sz) (cstr path @ replicate (unat sz) 0) @ drop (unat sz) b)"
    using strncpy_eq [OF cd(2) assms(5)] cd(1) by simp
  ultimately show ?thesis
    using t' k'(2) assms(4,5) cstr_copy [of path "unat sz" "drop (unat sz) b"] by (auto simp: sys_getcwd_def v')
qed

text \<open>A file system in which every path is a directory, and a running task.\<close>

definition dir_fs :: "MemFS FileSystem" where
  "dir_fs = memfs_vtable\<lparr>vf_stat := \<lambda>path attr st. Some (0, attr\<lparr>attr_type := FileType.FT_DIR\<rparr>, st)\<rparr>"

definition dir_vfs :: "MemFS Vfs" where
  "dir_vfs = task_vfs\<lparr>vkernel := (vkernel task_vfs)\<lparr>sched := (sched (vkernel task_vfs))\<lparr>current_tasks := [0x1000]\<rparr>\<rparr>\<rparr>"

lemma dir_vfs_chdir: "\<exists>v'. chdir (\<lambda>_. dir_fs) attr [0x2F, 0x61, 0] 0 dir_vfs = Some (0, v')"
proof -
  have stat: "vfs_stat (\<lambda>_. dir_fs) [0x2F, 0x61, 0] attr dir_vfs = Some ((0, attr\<lparr>attr_type := FileType.FT_DIR\<rparr>), dir_vfs)"
    using boot_find by (simp add: vfs_stat_def on_path_def on_objects_def dir_fs_def dir_vfs_def task_vfs_def small_vfs_def)
  have d: "context_of 0x1000 dir_vfs = Some 0x3000" "get_current_task (sched (vkernel dir_vfs)) 0 = Some 0x1000"
      "cwd (context_at (vkernel dir_vfs) 0x3000) = replicate 256 0" "current_working_directory dir_vfs = replicate 256 0"
    by (simp_all add: dir_vfs_def task_vfs_def small_vfs_def context_of_def get_current_task_def arr_get_def)
  obtain w where w: "strncpy (replicate 256 0) [0x2F, 0x61, 0] 255 = Some w" "length w = 256"
    using strncpy_eq [of "[0x2F, 0x61, 0]" 255 "replicate 256 0"] by simp
  obtain g where g: "strcpy (replicate 256 0) [0x2F, 0x61, 0] = Some g"
    by (simp add: strcpy_def arr_set_def)
  show ?thesis using w g by (simp add: chdir_def stat d upd_context_def arr_set_def)
qed

theorem chdir_getcwd_witness:
  "\<exists>v' b'. chdir (\<lambda>_. dir_fs) \<lparr>attr_type = FileType.FT_REG, attr_size = 0, attr_mode = 0\<rparr> [0x2F, 0x61, 0] 0 dir_vfs = Some (0, v') \<and>
     sys_getcwd (Some [9, 9, 9, 9]) 3 0 v' = Some (0, Some b') \<and> cstr b' = [0x2F, 0x61] \<and>
     sys_getcwd (Some [9, 9, 9, 9]) 2 0 v' = Some (- 1, Some [9, 9, 9, 9])"
proof -
  obtain v' where v': "chdir (\<lambda>_. dir_fs) \<lparr>attr_type = FileType.FT_REG, attr_size = 0, attr_mode = 0\<rparr> [0x2F, 0x61, 0] 0 dir_vfs = Some (0, v')"
    using dir_vfs_chdir by blast
  show ?thesis using chdir_getcwd [OF v', of 3 "[9, 9, 9, 9]"] chdir_getcwd [OF v', of 2 "[9, 9, 9, 9]"] v' by auto
qed

end
