(* ===== verification/BlockDev.thy ===== *)
theory BlockDev
  imports CString
begin

text \<open>
  The block devices of \<open>drivers/block_device.cpp\<close>: the memory disk, and the disk behind the ATA
  ports. The ports are hardware: an argument gives what reading and writing them does to the
  state of the drive, and \<open>ata_protocol\<close> states what the ATA specification promises of it.
\<close>

section \<open>The memory disk\<close>

record BlockDeviceInfo =
  sector_size :: u32
  total_sectors :: u32
  read_only :: bool

record RamDisk =
  disk_data :: "u8 list"
  ram_info :: BlockDeviceInfo

definition new_RamDisk :: "u32 \<Rightarrow> RamDisk" where
  "new_RamDisk sz = \<lparr>disk_data = replicate (unat sz) 0,
     ram_info = \<lparr>sector_size = 512, total_sectors = sz div 512, read_only = False\<rparr>\<rparr>"

text \<open>A buffer is \<open>None\<close> when the pointer is null.\<close>

definition ram_read_block :: "u32 \<Rightarrow> u8 list option \<Rightarrow> RamDisk \<Rightarrow> (bool \<times> u8 list option) option" where
  "ram_read_block block_num buffer d =
     (case buffer of
        None \<Rightarrow> Some (False, None)
      | Some buf \<Rightarrow>
          if block_num \<ge> total_sectors (ram_info d) then Some (False, buffer)
          else let offset = block_num * sector_size (ram_info d) in
            do { buf \<leftarrow> memcpy buf (drop (unat offset) (disk_data d)) (unat (sector_size (ram_info d)));
                 Some (True, Some buf) })"

definition ram_write_block :: "u32 \<Rightarrow> u8 list option \<Rightarrow> RamDisk \<Rightarrow> (bool \<times> RamDisk) option" where
  "ram_write_block block_num buffer d =
     (case buffer of
        None \<Rightarrow> Some (False, d)
      | Some buf \<Rightarrow>
          if block_num \<ge> total_sectors (ram_info d) \<or> read_only (ram_info d) then Some (False, d)
          else let offset = block_num * sector_size (ram_info d) in
            do { tail \<leftarrow> memcpy (drop (unat offset) (disk_data d)) buf (unat (sector_size (ram_info d)));
                 Some (True, d\<lparr>disk_data := take (unat offset) (disk_data d) @ tail\<rparr>) })"

section \<open>The ATA disk\<close>

record 'h Ports =
  outb :: "u16 \<Rightarrow> u8 \<Rightarrow> 'h \<Rightarrow> 'h"
  inb :: "u16 \<Rightarrow> 'h \<Rightarrow> u8 \<times> 'h"
  inw :: "u16 \<Rightarrow> 'h \<Rightarrow> u16 \<times> 'h"
  outw :: "u16 \<Rightarrow> u16 \<Rightarrow> 'h \<Rightarrow> 'h"

record DiskDevice =
  block_size :: u32
  disk_info :: BlockDeviceInfo

primrec read_words :: "'h Ports \<Rightarrow> nat \<Rightarrow> 'h \<Rightarrow> u16 list \<times> 'h" where
  "read_words P 0 h = ([], h)"
| "read_words P (Suc n) h =
     (let (w, h) = inw P 0x1F0 h; (ws, h) = read_words P n h in (w # ws, h))"

text \<open>\<open>init\<close>: the capacity is the 48 bit one if it is not zero, truncated to 32 bits.\<close>

definition disk_init :: "'h Ports \<Rightarrow> DiskDevice \<Rightarrow> 'h \<Rightarrow> bool \<times> DiskDevice \<times> 'h" where
  "disk_init P d h =
     (let h = outb P 0x1F7 0xEC (outb P 0x1F6 0xE0 h);
          (s, h) = inb P 0x1F7 h in
      if s AND 0x88 \<noteq> 0x08 then (False, d, h)
      else let (ws, h) = read_words P 256 h;
               lba28 = push_bit 16 (ucast (ws ! 61)) OR ucast (ws ! 60) :: u32;
               lba48 = push_bit 48 (ucast (ws ! 103)) OR push_bit 32 (ucast (ws ! 102)) OR
                       push_bit 16 (ucast (ws ! 101)) OR ucast (ws ! 100) :: u64;
               max_lba = (if lba48 \<noteq> 0 then lba48 + 1 else ucast (lba28 + 1)) :: u64
           in (True, d\<lparr>block_size := 4096,
                 disk_info := (disk_info d)\<lparr>total_sectors := ucast max_lba, sector_size := 512\<rparr>\<rparr>, h))"

text \<open>The registers that select a sector, and the wait for the drive to be ready.\<close>

definition select_sector :: "'h Ports \<Rightarrow> u32 \<Rightarrow> u8 \<Rightarrow> 'h \<Rightarrow> 'h" where
  "select_sector P n command h =
     outb P 0x1F7 command
       (outb P 0x1F5 (ucast (drop_bit 16 n))
         (outb P 0x1F4 (ucast (drop_bit 8 n))
           (outb P 0x1F3 (ucast n)
             (outb P 0x1F2 1
               (outb P 0x1F6 (0xE0 OR (ucast (drop_bit 24 n) AND 0x0F)) h)))))"

partial_function (option) wait_status :: "(u8 \<Rightarrow> bool) \<Rightarrow> 'h Ports \<Rightarrow> 'h \<Rightarrow> 'h option" where
  [code]: "wait_status ready P h = (let (s, h) = inb P 0x1F7 h in if ready s then Some h else wait_status ready P h)"

abbreviation (input) data_ready :: "u8 \<Rightarrow> bool" where
  "data_ready s \<equiv> s AND 0x88 = 0x08"

abbreviation (input) not_busy :: "u8 \<Rightarrow> bool" where
  "not_busy s \<equiv> s AND 0x80 = 0"

primrec word_bytes_le :: "u16 list \<Rightarrow> u8 list" where
  "word_bytes_le [] = []"
| "word_bytes_le (w # ws) = ucast w # ucast (drop_bit 8 w) # word_bytes_le ws"

text \<open>Two bytes at a time, each of them read with its bounds.\<close>

primrec write_words :: "'h Ports \<Rightarrow> nat \<Rightarrow> u8 list \<Rightarrow> 'h \<Rightarrow> 'h option" where
  "write_words P 0 bs h = Some h"
| "write_words P (Suc n) bs h =
     do { lo \<leftarrow> arr_get bs 0; hi \<leftarrow> arr_get bs 1;
          write_words P n (drop 2 bs) (outw P 0x1F0 (ucast lo OR push_bit 8 (ucast hi)) h) }"

definition read_sector :: "'h Ports \<Rightarrow> DiskDevice \<Rightarrow> u32 \<Rightarrow> u8 list \<Rightarrow> 'h \<Rightarrow> (bool \<times> u8 list \<times> 'h) option" where
  "read_sector P d n buffer h =
     (if n \<ge> total_sectors (disk_info d) then Some (False, buffer, h)
      else do {
        h \<leftarrow> wait_status data_ready P (select_sector P n 0x20 h);
        let (ws, h) = read_words P (unat (sector_size (disk_info d)) div 2) h;
        buffer \<leftarrow> memcpy buffer (word_bytes_le ws) (length (word_bytes_le ws));
        Some (True, buffer, h) })"

definition write_sector :: "'h Ports \<Rightarrow> DiskDevice \<Rightarrow> u32 \<Rightarrow> u8 list \<Rightarrow> 'h \<Rightarrow> (bool \<times> 'h) option" where
  "write_sector P d n buffer h =
     (if n \<ge> total_sectors (disk_info d) \<or> read_only (disk_info d) then Some (False, h)
      else do {
        h \<leftarrow> wait_status data_ready P (select_sector P n 0x30 h);
        h \<leftarrow> write_words P (unat (sector_size (disk_info d)) div 2) buffer h;
        h \<leftarrow> wait_status not_busy P h;
        Some (True, h) })"

text \<open>The sectors of a block; \<open>k\<close> of them remain. Their bytes are read into, or from, the buffer.\<close>

primrec read_block_loop ::
  "'h Ports \<Rightarrow> DiskDevice \<Rightarrow> nat \<Rightarrow> u32 \<Rightarrow> nat \<Rightarrow> u8 list \<Rightarrow> 'h \<Rightarrow> (bool \<times> u8 list \<times> 'h) option" where
  "read_block_loop P d 0 n pos buffer h = Some (True, buffer, h)"
| "read_block_loop P d (Suc k) n pos buffer h =
     do { (ok, tail, h) \<leftarrow> read_sector P d n (drop pos buffer) h;
          let buffer = take pos buffer @ tail;
          if ok then read_block_loop P d k (n + 1) (pos + unat (sector_size (disk_info d))) buffer h
          else Some (False, buffer, h) }"

primrec write_block_loop ::
  "'h Ports \<Rightarrow> DiskDevice \<Rightarrow> nat \<Rightarrow> u32 \<Rightarrow> u8 list \<Rightarrow> 'h \<Rightarrow> (bool \<times> 'h) option" where
  "write_block_loop P d 0 n buffer h = Some (True, h)"
| "write_block_loop P d (Suc k) n buffer h =
     do { (ok, h) \<leftarrow> write_sector P d n buffer h;
          if ok then write_block_loop P d k (n + 1) (drop (unat (sector_size (disk_info d))) buffer) h
          else Some (False, h) }"

definition disk_read_block :: "'h Ports \<Rightarrow> DiskDevice \<Rightarrow> u32 \<Rightarrow> u8 list \<Rightarrow> 'h \<Rightarrow> (bool \<times> u8 list \<times> 'h) option" where
  "disk_read_block P d block_num buffer h =
     (if sector_size (disk_info d) = 0 then None
      else let k = block_size d div sector_size (disk_info d) in
        read_block_loop P d (unat k) (block_num * k) 0 buffer h)"

definition disk_write_block :: "'h Ports \<Rightarrow> DiskDevice \<Rightarrow> u32 \<Rightarrow> u8 list \<Rightarrow> 'h \<Rightarrow> (bool \<times> 'h) option" where
  "disk_write_block P d block_num buffer h =
     (if sector_size (disk_info d) = 0 then None
      else let k = block_size d div sector_size (disk_info d) in
        write_block_loop P d (unat k) (block_num * k) buffer h)"

section \<open>What the drive promises\<close>

text \<open>The sector that the address registers select, in the 28 bit mode.\<close>

definition lba_of :: "(u16 \<Rightarrow> u8) \<Rightarrow> u32" where
  "lba_of reg = ucast (reg 0x1F3) OR push_bit 8 (ucast (reg 0x1F4)) OR push_bit 16 (ucast (reg 0x1F5)) OR
     push_bit 24 (ucast (reg 0x1F6 AND 0x0F))"

definition pair_word :: "u8 \<Rightarrow> u8 \<Rightarrow> u16" where
  "pair_word lo hi = ucast lo OR push_bit 8 (ucast hi)"

primrec bytes_words :: "nat \<Rightarrow> u8 list \<Rightarrow> u16 list" where
  "bytes_words 0 bs = []"
| "bytes_words (Suc n) bs = pair_word (bs ! 0) (bs ! 1) # bytes_words n (drop 2 bs)"

text \<open>
  The programmed input and output protocol of the ATA specification, for drives whose
  registers are \<open>reg\<close> and whose sectors of 256 words are \<open>sect\<close>: the address registers keep what
  is written to them; after the command to read one sector, the drive becomes ready and
  delivers the words of the selected sector; after the command to write one, it becomes
  ready, takes 256 words, stores them and ceases to be busy.
\<close>

definition ata_protocol :: "'h Ports \<Rightarrow> ('h \<Rightarrow> u16 \<Rightarrow> u8) \<Rightarrow> ('h \<Rightarrow> u32 \<Rightarrow> u16 list) \<Rightarrow> bool" where
  "ata_protocol P reg sect \<longleftrightarrow>
     (\<forall>h p v. p \<in> {0x1F2, 0x1F3, 0x1F4, 0x1F5, 0x1F6} \<longrightarrow>
        reg (outb P p v h) = (reg h)(p := v) \<and> sect (outb P p v h) = sect h) \<and>
     (\<forall>h. reg h 0x1F2 = 1 \<and> reg h 0x1F6 AND 0xE0 = 0xE0 \<longrightarrow>
        (\<exists>h1 h2. wait_status data_ready P (outb P 0x1F7 0x20 h) = Some h1 \<and>
           read_words P 256 h1 = (sect h (lba_of (reg h)), h2) \<and> sect h2 = sect h)) \<and>
     (\<forall>h bs. reg h 0x1F2 = 1 \<and> reg h 0x1F6 AND 0xE0 = 0xE0 \<and> 512 \<le> length bs \<longrightarrow>
        (\<exists>h1 h2 h3. wait_status data_ready P (outb P 0x1F7 0x30 h) = Some h1 \<and>
           write_words P 256 bs h1 = Some h2 \<and> wait_status not_busy P h2 = Some h3 \<and>
           sect h3 = (sect h)(lba_of (reg h) := bytes_words 256 bs)))"

lemma lba_of_parts:
  assumes "(n :: u32) < 2 ^ 28"
  shows "ucast (ucast n :: u8) OR push_bit 8 (ucast (ucast (drop_bit 8 n) :: u8)) OR
    push_bit 16 (ucast (ucast (drop_bit 16 n) :: u8)) OR
    push_bit 24 (ucast ((0xE0 OR (ucast (drop_bit 24 n) AND 0x0F)) AND 0x0F :: u8)) = n"
proof (rule bit_word_eqI)
  fix i
  assume i: "i < LENGTH(32)"
  have hi: "\<not> bit n i" if "28 \<le> i"
  proof -
    have "unat n < 2 ^ 28" using assms by (simp add: word_less_nat_alt)
    then have "unat (drop_bit 28 n) = 0" by (simp add: drop_bit_eq_div unat_div)
    then have "drop_bit 28 n = 0" by (simp add: unat_eq_zero)
    moreover have "bit n i = bit (drop_bit 28 n) (i - 28)" using that by (simp add: bit_drop_bit_eq)
    ultimately show ?thesis by simp
  qed
  have m: "bit (0x0F :: u8) j \<longleftrightarrow> j < 4" for j
    using bit_mask_iff [of 4 j, where 'a = "8 word"] by (auto simp: mask_eq_exp_minus_1)
  have e: "\<not> bit (0xE0 :: u8) j" if "j < 4" for j
  proof -
    have "j = 0 \<or> j = 1 \<or> j = 2 \<or> j = 3" using that by arith
    then show ?thesis by auto
  qed
  show "bit (ucast (ucast n :: u8) OR push_bit 8 (ucast (ucast (drop_bit 8 n) :: u8)) OR
      push_bit 16 (ucast (ucast (drop_bit 16 n) :: u8)) OR
      push_bit 24 (ucast ((0xE0 OR (ucast (drop_bit 24 n) AND 0x0F)) AND 0x0F :: u8)) :: u32) i = bit n i"
    using i hi m e
    by (cases "i < 8"; cases "i < 16"; cases "i < 24"; cases "i < 28")
      (auto simp: bit_or_iff bit_and_iff bit_push_bit_iff bit_unsigned_iff bit_drop_bit_eq possible_bit_word not_less)
qed

lemma select_sector_regs:
  assumes "ata_protocol P reg sect" and "n < 2 ^ 28"
  shows "\<exists>h'. select_sector P n c h = outb P 0x1F7 c h' \<and> reg h' 0x1F2 = 1 \<and> reg h' 0x1F6 AND 0xE0 = 0xE0 \<and>
    lba_of (reg h') = n \<and> sect h' = sect h"
proof -
  let ?h1 = "outb P 0x1F6 (0xE0 OR (ucast (drop_bit 24 n) AND 0x0F)) h"
  let ?h2 = "outb P 0x1F2 1 ?h1"
  let ?h3 = "outb P 0x1F3 (ucast n) ?h2"
  let ?h4 = "outb P 0x1F4 (ucast (drop_bit 8 n)) ?h3"
  let ?h5 = "outb P 0x1F5 (ucast (drop_bit 16 n)) ?h4"
  have r: "reg (outb P p v h) = (reg h)(p := v)" "sect (outb P p v h) = sect h"
    if "p \<in> {0x1F2, 0x1F3, 0x1F4, 0x1F5, 0x1F6}" for h p v
    using assms(1) that unfolding ata_protocol_def by blast+
  have "reg ?h5 = (reg h)(0x1F6 := 0xE0 OR (ucast (drop_bit 24 n) AND 0x0F), 0x1F2 := 1, 0x1F3 := ucast n,
      0x1F4 := ucast (drop_bit 8 n), 0x1F5 := ucast (drop_bit 16 n))" "sect ?h5 = sect h"
    by (simp_all add: r)
  moreover have "(0xE0 OR (x AND 0x0F)) AND 0xE0 = (0xE0 :: u8)" for x
    by (simp add: bit.conj_disj_distrib2 and.assoc)
  ultimately show ?thesis using lba_of_parts [OF assms(2)]
    by (intro exI [of _ ?h5]) (simp add: select_sector_def lba_of_def)
qed

lemma read_sector_ok:
  assumes "ata_protocol P reg sect" and "n < total_sectors (disk_info d)" and "n < 2 ^ 28" and "sector_size (disk_info d) = 512"
    and "length (word_bytes_le (sect h n)) = 512" and "512 \<le> length buf"
  shows "\<exists>h'. read_sector P d n buf h = Some (True, word_bytes_le (sect h n) @ drop 512 buf, h') \<and> sect h' = sect h"
proof -
  obtain h0 where h0: "select_sector P n 0x20 h = outb P 0x1F7 0x20 h0" "reg h0 0x1F2 = 1" "reg h0 0x1F6 AND 0xE0 = 0xE0"
      "lba_of (reg h0) = n" "sect h0 = sect h"
    using select_sector_regs [OF assms(1,3)] by blast
  obtain h1 h2 where "wait_status data_ready P (outb P 0x1F7 0x20 h0) = Some h1" "read_words P 256 h1 = (sect h n, h2)"
      "sect h2 = sect h"
    using assms(1) h0 unfolding ata_protocol_def by metis
  then show ?thesis using assms(2,4,5,6) h0(1)
    by (simp add: read_sector_def memcpy_eq)
qed

lemma length_bytes_words [simp]: "length (bytes_words n bs) = n"
  by (induction n arbitrary: bs) auto

lemma write_sector_ok:
  assumes "ata_protocol P reg sect" and "n < total_sectors (disk_info d)" and "n < 2 ^ 28" and "sector_size (disk_info d) = 512"
    and "\<not> read_only (disk_info d)" and "512 \<le> length buf"
  shows "\<exists>h'. write_sector P d n buf h = Some (True, h') \<and> sect h' = (sect h)(n := bytes_words 256 buf)"
proof -
  obtain h0 where h0: "select_sector P n 0x30 h = outb P 0x1F7 0x30 h0" "reg h0 0x1F2 = 1" "reg h0 0x1F6 AND 0xE0 = 0xE0"
      "lba_of (reg h0) = n" "sect h0 = sect h"
    using select_sector_regs [OF assms(1,3)] by blast
  obtain h1 h2 h3 where "wait_status data_ready P (outb P 0x1F7 0x30 h0) = Some h1" "write_words P 256 buf h1 = Some h2"
      "wait_status not_busy P h2 = Some h3" "sect h3 = (sect h)(n := bytes_words 256 buf)"
    using assms(1,6) h0 unfolding ata_protocol_def by metis
  then show ?thesis using assms(2,4,5) h0(1) by (simp add: write_sector_def)
qed

lemma word_bytes_pair: "(ucast (pair_word lo hi) :: u8) = lo" "(ucast (drop_bit 8 (pair_word lo hi)) :: u8) = hi"
proof -
  have "\<not> bit lo (8 + n)" for n using bit_imp_le_length [of lo "8 + n"] by auto
  then show "(ucast (pair_word lo hi) :: u8) = lo" "(ucast (drop_bit 8 (pair_word lo hi)) :: u8) = hi"
    by (auto intro!: bit_word_eqI simp: pair_word_def bit_simps)
qed

lemma word_bytes_bytes_words: "2 * n \<le> length bs \<Longrightarrow> word_bytes_le (bytes_words n bs) = take (2 * n) bs"
proof (induction n arbitrary: bs)
  case (Suc n)
  then obtain a b cs where bs: "bs = a # b # cs" by (cases bs; cases "tl bs") auto
  then show ?case using Suc.IH [of cs] Suc.prems by (simp add: word_bytes_pair)
qed simp

lemma write_block_loop_ok:
  assumes P: "ata_protocol P reg sect" and d: "sector_size (disk_info d) = 512" "\<not> read_only (disk_info d)"
    and n: "unat n + k \<le> unat (total_sectors (disk_info d))" "unat n + k \<le> 2 ^ 28" and buf: "512 * k \<le> length buf"
  shows "\<exists>h'. write_block_loop P d k n buf h = Some (True, h') \<and>
    (\<forall>m. sect h' m = (if n \<le> m \<and> unat m < unat n + k then bytes_words 256 (drop (512 * (unat m - unat n)) buf) else sect h m))"
  using n buf
proof (induction k arbitrary: n buf h)
  case 0
  then show ?case by (auto simp: word_le_nat_alt)
next
  case (Suc k)
  have lt: "n < total_sectors (disk_info d)" "n < 2 ^ 28" using Suc.prems by (simp_all add: word_less_nat_alt)
  have suc: "unat (n + 1) = unat n + 1" using Suc.prems by (simp add: unat_word_ariths)
  obtain h1 where h1: "write_sector P d n buf h = Some (True, h1)" "sect h1 = (sect h)(n := bytes_words 256 buf)"
    using write_sector_ok [OF P lt d, of buf h] Suc.prems by auto
  obtain h2 where h2: "write_block_loop P d k (n + 1) (drop 512 buf) h1 = Some (True, h2)"
      "\<forall>m. sect h2 m = (if n + 1 \<le> m \<and> unat m < unat (n + 1) + k
        then bytes_words 256 (drop (512 * (unat m - unat (n + 1))) (drop 512 buf)) else sect h1 m)"
  proof -
    have "unat (n + 1) + k \<le> unat (total_sectors (disk_info d))" "unat (n + 1) + k \<le> 2 ^ 28" "512 * k \<le> length (drop 512 buf)"
      using Suc.prems suc by auto
    from Suc.IH [OF this] show thesis using that by blast
  qed
  have "sect h2 m = (if n \<le> m \<and> unat m < unat n + Suc k then bytes_words 256 (drop (512 * (unat m - unat n)) buf) else sect h m)" for m
  proof (cases "m = n")
    case True
    then show ?thesis using h2(2) h1(2) suc by (simp add: word_le_nat_alt)
  next
    case False
    then have ne: "unat m \<noteq> unat n" by (simp add: word_unat_eq_iff)
    have "512 + 512 * (unat m - unat (n + 1)) = 512 * (unat m - unat n)" if "unat n < unat m" using that suc by simp
    then show ?thesis using h2(2) h1(2) suc ne False by (auto simp: word_le_nat_alt add.commute)
  qed
  then show ?case using h1(1) h2(1) d(1) by simp
qed

lemma read_block_loop_ok:
  assumes P: "ata_protocol P reg sect" and d: "sector_size (disk_info d) = 512"
    and n: "unat n + k \<le> unat (total_sectors (disk_info d))" "unat n + k \<le> 2 ^ 28"
    and bs: "\<forall>i < k. word_bytes_le (sect h (n + of_nat i)) = take 512 (drop (512 * i) bs)" "512 * k \<le> length bs"
    and buf: "pos + 512 * k \<le> length buf"
  shows "\<exists>h'. read_block_loop P d k n pos buf h = Some (True, take pos buf @ take (512 * k) bs @ drop (pos + 512 * k) buf, h')"
  using n bs buf
proof (induction k arbitrary: n bs pos buf h)
  case (Suc k)
  have lt: "n < total_sectors (disk_info d)" "n < 2 ^ 28" using Suc.prems by (simp_all add: word_less_nat_alt)
  have suc: "unat (n + 1) = unat n + 1" using Suc.prems by (simp add: unat_word_ariths)
  have w: "word_bytes_le (sect h n) = take 512 bs" using Suc.prems(3) [rule_format, of 0] by simp
  obtain h1 where h1: "read_sector P d n (drop pos buf) h = Some (True, take 512 bs @ drop 512 (drop pos buf), h1)" "sect h1 = sect h"
  proof -
    have "512 \<le> length (drop pos buf)" "length (word_bytes_le (sect h n)) = 512" using Suc.prems w by auto
    from read_sector_ok [OF P lt d this(2,1)] show thesis using that w by auto
  qed
  let ?buf = "take pos buf @ take 512 bs @ drop 512 (drop pos buf)"
  have "\<forall>i < k. word_bytes_le (sect h1 (n + 1 + of_nat i)) = take 512 (drop (512 * i) (drop 512 bs))"
  proof (intro allI impI)
    fix i
    assume "i < k"
    then have "word_bytes_le (sect h (n + of_nat (Suc i))) = take 512 (drop (512 * Suc i) bs)" using Suc.prems(3) by blast
    then show "word_bytes_le (sect h1 (n + 1 + of_nat i)) = take 512 (drop (512 * i) (drop 512 bs))"
      by (simp add: h1(2) add.assoc add.commute [of 512])
  qed
  then obtain h2 where "read_block_loop P d k (n + 1) (pos + 512) ?buf h1 =
      Some (True, take (pos + 512) ?buf @ take (512 * k) (drop 512 bs) @ drop (pos + 512 + 512 * k) ?buf, h2)"
  proof -
    assume a: "\<forall>i < k. word_bytes_le (sect h1 (n + 1 + of_nat i)) = take 512 (drop (512 * i) (drop 512 bs))"
    have "unat (n + 1) + k \<le> unat (total_sectors (disk_info d))" "unat (n + 1) + k \<le> 2 ^ 28"
        "512 * k \<le> length (drop 512 bs)" "pos + 512 + 512 * k \<le> length ?buf"
      using Suc.prems suc by auto
    from Suc.IH [OF this(1,2) a this(3,4)] show thesis using that by blast
  qed
  moreover have "take (pos + 512) ?buf @ take (512 * k) (drop 512 bs) @ drop (pos + 512 + 512 * k) ?buf =
      take pos buf @ take (512 * Suc k) bs @ drop (pos + 512 * Suc k) buf"
  proof -
    have "take (512 * Suc k) bs = take 512 bs @ take (512 * k) (drop 512 bs)" using take_add [of 512 "512 * k" bs] by simp
    then show ?thesis using Suc.prems(4,5) by (simp add: add_ac)
  qed
  ultimately show ?case using h1(1) d by simp
qed simp

section \<open>Property\<close>

text \<open>
  C13. On a drive that keeps the ATA protocol, a block of eight sectors that was written is
  read back unchanged, and no other sector changes. The drive has at most \<open>2 ^ 28\<close> sectors,
  as many as the address registers can select.
\<close>

theorem disk_write_read:
  assumes "ata_protocol P reg sect" and "sector_size (disk_info d) = 512" and "block_size d = 4096"
    and "\<not> read_only (disk_info d)" and "unat b * 8 + 8 \<le> unat (total_sectors (disk_info d))"
    and "total_sectors (disk_info d) \<le> 2 ^ 28" and "4096 \<le> length buf" and "4096 \<le> length rbuf"
  shows "\<exists>h1 h2. disk_write_block P d b buf h = Some (True, h1) \<and>
    disk_read_block P d b rbuf h1 = Some (True, take 4096 buf @ drop 4096 rbuf, h2) \<and>
    (\<forall>m. unat m div 8 \<noteq> unat b \<longrightarrow> sect h1 m = sect h m)"
proof -
  have t: "unat (total_sectors (disk_info d)) \<le> 2 ^ 28" using assms(6) by (simp add: word_le_nat_alt)
  have n: "unat (b * 8) = unat b * 8" using assms(5) t by (simp add: unat_word_ariths)
  have le: "unat (b * 8) + 8 \<le> unat (total_sectors (disk_info d))" "unat (b * 8) + 8 \<le> 2 ^ 28" using assms(5) n t by auto
  have k: "unat (block_size d div sector_size (disk_info d)) = 8" "block_size d div sector_size (disk_info d) = 8"
    using assms(2,3) by simp_all
  obtain h1 where w: "write_block_loop P d 8 (b * 8) buf h = Some (True, h1)"
      "\<forall>m. sect h1 m = (if b * 8 \<le> m \<and> unat m < unat (b * 8) + 8 then bytes_words 256 (drop (512 * (unat m - unat (b * 8))) buf)
         else sect h m)"
    using write_block_loop_ok [OF assms(1,2,4) le, of buf h] assms(7) by auto
  have "word_bytes_le (sect h1 (b * 8 + of_nat i)) = take 512 (drop (512 * i) buf)" if "i < 8" for i
  proof -
    have "unat (b * 8 + of_nat i) = unat (b * 8) + i"
      using that le by (simp add: unat_word_ariths unat_of_nat)
    then have "sect h1 (b * 8 + of_nat i) = bytes_words 256 (drop (512 * i) buf)" using w(2) that by (simp add: word_le_nat_alt)
    then show ?thesis using word_bytes_bytes_words [of 256 "drop (512 * i) buf"] assms(7) that by simp
  qed
  then obtain h2 where r: "read_block_loop P d 8 (b * 8) 0 rbuf h1 = Some (True, take 4096 buf @ drop 4096 rbuf, h2)"
    using read_block_loop_ok [OF assms(1,2) le, of h1 buf 0 rbuf] assms(7,8) by auto
  have "sect h1 m = sect h m" if "unat m div 8 \<noteq> unat b" for m
    using w(2) that n by (auto simp: word_le_nat_alt)
  then show ?thesis using w(1) r k assms(2) by (auto simp: disk_write_block_def disk_read_block_def)
qed

text \<open>A drive that is always ready and stores the words it was given when its status is read.\<close>

record Drive =
  dr_reg :: "u16 \<Rightarrow> u8"
  dr_sect :: "u32 \<Rightarrow> u16 list"
  dr_out :: "u16 list"
  dr_in :: "u16 list"

definition drive_sector :: "Drive \<Rightarrow> u32 \<Rightarrow> u16 list" where
  "drive_sector h n = take 256 (dr_sect h n @ replicate 256 0)"

definition drive_ports :: "Drive Ports" where
  "drive_ports = \<lparr>
     outb = (\<lambda>p v h. if p = 0x1F7
       then h\<lparr>dr_out := if v = 0x20 then drive_sector h (lba_of (dr_reg h)) else [], dr_in := []\<rparr>
       else h\<lparr>dr_reg := (dr_reg h)(p := v)\<rparr>),
     inb = (\<lambda>p h. (0x08, if length (dr_in h) = 256
       then h\<lparr>dr_sect := (dr_sect h)(lba_of (dr_reg h) := dr_in h), dr_in := []\<rparr> else h)),
     inw = (\<lambda>p h. (hd (dr_out h), h\<lparr>dr_out := tl (dr_out h)\<rparr>)),
     outw = (\<lambda>p w h. h\<lparr>dr_in := dr_in h @ [w]\<rparr>)\<rparr>"

lemma drive_read_words:
  "n \<le> length (dr_out h) \<Longrightarrow> read_words drive_ports n h = (take n (dr_out h), h\<lparr>dr_out := drop n (dr_out h)\<rparr>)"
proof (induction n arbitrary: h)
  case (Suc n)
  then obtain w ws where "dr_out h = w # ws" by (cases "dr_out h") auto
  then show ?case using Suc.IH [of "h\<lparr>dr_out := ws\<rparr>"] Suc.prems by (simp add: drive_ports_def)
qed simp

lemma drive_write_words:
  "2 * n \<le> length bs \<Longrightarrow> write_words drive_ports n bs h = Some (h\<lparr>dr_in := dr_in h @ bytes_words n bs\<rparr>)"
proof (induction n arbitrary: bs h)
  case (Suc n)
  then obtain a b cs where "bs = a # b # cs" by (cases bs; cases "tl bs") auto
  then show ?case using Suc.IH [of cs] Suc.prems by (simp add: drive_ports_def pair_word_def)
qed simp

lemma drive_wait: "ready 0x08 \<Longrightarrow> wait_status ready drive_ports h = Some (snd (inb drive_ports 0x1F7 h))"
  by (subst wait_status.simps) (simp add: drive_ports_def)

lemma drive_protocol: "ata_protocol drive_ports dr_reg drive_sector"
proof -
  have regs: "dr_reg (outb drive_ports p v h) = (dr_reg h)(p := v) \<and> drive_sector (outb drive_ports p v h) = drive_sector h"
    if "p \<in> {0x1F2, 0x1F3, 0x1F4, 0x1F5, 0x1F6}" for h p v
    using that by (auto simp: drive_ports_def drive_sector_def)
  have len: "length (drive_sector h n) = 256" for h n by (simp add: drive_sector_def)
  have r: "\<exists>h1 h2. wait_status data_ready drive_ports (outb drive_ports 0x1F7 0x20 h) = Some h1 \<and>
      read_words drive_ports 256 h1 = (drive_sector h (lba_of (dr_reg h)), h2) \<and> drive_sector h2 = drive_sector h" for h
  proof -
    let ?h = "h\<lparr>dr_out := drive_sector h (lba_of (dr_reg h)), dr_in := []\<rparr>"
    have "outb drive_ports 0x1F7 0x20 h = ?h" "snd (inb drive_ports 0x1F7 ?h) = ?h" by (simp_all add: drive_ports_def)
    moreover have "drive_sector (h\<lparr>dr_in := y, dr_out := x\<rparr>) = drive_sector h" for x y
      by (simp add: drive_sector_def fun_eq_iff)
    ultimately show ?thesis using drive_wait [of data_ready ?h] drive_read_words [of 256 ?h] len
      by simp
  qed
  have w: "\<exists>h1 h2 h3. wait_status data_ready drive_ports (outb drive_ports 0x1F7 0x30 h) = Some h1 \<and>
      write_words drive_ports 256 bs h1 = Some h2 \<and> wait_status not_busy drive_ports h2 = Some h3 \<and>
      drive_sector h3 = (drive_sector h)(lba_of (dr_reg h) := bytes_words 256 bs)" if "512 \<le> length bs" for h bs
  proof -
    let ?h = "h\<lparr>dr_out := [], dr_in := []\<rparr>" and ?h2 = "h\<lparr>dr_out := [], dr_in := bytes_words 256 bs\<rparr>"
    let ?h3 = "h\<lparr>dr_out := [], dr_in := [], dr_sect := (dr_sect h)(lba_of (dr_reg h) := bytes_words 256 bs)\<rparr>"
    have "outb drive_ports 0x1F7 0x30 h = ?h" "snd (inb drive_ports 0x1F7 ?h) = ?h" "snd (inb drive_ports 0x1F7 ?h2) = ?h3"
      by (simp_all add: drive_ports_def)
    moreover have "drive_sector ?h3 = (drive_sector h)(lba_of (dr_reg h) := bytes_words 256 bs)"
      by (simp add: drive_sector_def fun_eq_iff)
    ultimately show ?thesis
      using drive_wait [of data_ready ?h] drive_wait [of not_busy ?h2] drive_write_words [of 256 bs ?h] that
      by simp
  qed
  show ?thesis unfolding ata_protocol_def using regs r w by blast
qed

definition small_disk :: DiskDevice where
  "small_disk = \<lparr>block_size = 4096, disk_info = \<lparr>sector_size = 512, total_sectors = 64, read_only = False\<rparr>\<rparr>"

definition blank_drive :: Drive where
  "blank_drive = \<lparr>dr_reg = (\<lambda>_. 0), dr_sect = (\<lambda>_. []), dr_out = [], dr_in = []\<rparr>"

theorem disk_write_read_witness:
  "\<exists>h1 h2. disk_write_block drive_ports small_disk 3 (replicate 4096 7) blank_drive = Some (True, h1) \<and>
     disk_read_block drive_ports small_disk 3 (replicate 4096 0) h1 = Some (True, replicate 4096 7, h2)"
  using disk_write_read [OF drive_protocol, of small_disk 3 "replicate 4096 7" "replicate 4096 0" blank_drive]
  by (auto simp: small_disk_def)

end
