(* ===== verification/Terminal.thy ===== *)
theory Terminal
  imports BlockDev
begin

text \<open>
  The terminal: the serial port of \<open>lib/serial.cpp\<close>, the screen of \<open>lib/console.cpp\<close>, the keyboard
  of \<open>drivers/keyboard.cpp\<close> and the descriptor that joins them, \<open>kernel/fs/console_device.cpp\<close>.
  The ports are an argument, as for the disk. The lock that \<open>serial_puts\<close> holds while it sends is not
  modelled: a call is one step.
\<close>

section \<open>Serial port\<close>

partial_function (option) serial_wait :: "'h Ports \<Rightarrow> 'h \<Rightarrow> 'h option" where
  [code]: "serial_wait P h = (let (s, h) = inb P 0x3FD h in if s AND 0x20 \<noteq> 0 then Some h else serial_wait P h)"

definition serial_putc :: "'h Ports \<Rightarrow> u8 \<Rightarrow> 'h \<Rightarrow> 'h option" where
  "serial_putc P c h = do { h \<leftarrow> serial_wait P h; Some (outb P 0x3F8 c h) }"

primrec serial_puts :: "'h Ports \<Rightarrow> u8 list \<Rightarrow> 'h \<Rightarrow> 'h option" where
  "serial_puts P [] h = None"
| "serial_puts P (c # cs) h = (if c = 0 then Some h else do { h \<leftarrow> serial_putc P c h; serial_puts P cs h })"

definition serial_init :: "'h Ports \<Rightarrow> 'h \<Rightarrow> 'h" where
  "serial_init P h =
     fold (\<lambda>(p, v). outb P p v)
       [(0x3F9, 0), (0x3FB, 0x80), (0x3F8, 0x03), (0x3F9, 0), (0x3FB, 0x03), (0x3FA, 0xC7), (0x3FC, 0x03)] h"

section \<open>Screen\<close>

text \<open>The video memory has no address before \<open>init\<close>; characters are signed when they are widened.\<close>

record Console =
  videoMemory :: "u16 list option"
  cursorX :: u16
  cursorY :: u16
  currentColor :: u8

definition position :: "Console \<Rightarrow> u16" where
  "position c = cursorY c * 80 + cursorX c"

definition updateCursor :: "'h Ports \<Rightarrow> Console \<Rightarrow> 'h \<Rightarrow> 'h" where
  "updateCursor P c h =
     (case videoMemory c of
        None \<Rightarrow> h
      | Some _ \<Rightarrow> outb P 0x3D5 (ucast (drop_bit 8 (position c)))
          (outb P 0x3D4 0x0E (outb P 0x3D5 (ucast (position c)) (outb P 0x3D4 0x0F h))))"

definition blank :: "Console \<Rightarrow> u16" where
  "blank c = 0x20 OR push_bit 8 (ucast (currentColor c))"

primrec fill :: "nat \<Rightarrow> nat \<Rightarrow> u16 \<Rightarrow> u16 list \<Rightarrow> u16 list option" where
  "fill 0 i x v = Some v"
| "fill (Suc n) i x v = do { v \<leftarrow> arr_set v i x; fill n (i + 1) x v }"

primrec move_up :: "nat \<Rightarrow> nat \<Rightarrow> u16 list \<Rightarrow> u16 list option" where
  "move_up 0 i v = Some v"
| "move_up (Suc n) i v = do { x \<leftarrow> arr_get v (i + 80); v \<leftarrow> arr_set v i x; move_up n (i + 1) v }"

definition console_clear :: "'h Ports \<Rightarrow> Console \<Rightarrow> 'h \<Rightarrow> (Console \<times> 'h) option" where
  "console_clear P c h =
     do { v \<leftarrow> videoMemory c;
          v \<leftarrow> fill 2000 0 (blank c) v;
          let c = c\<lparr>videoMemory := Some v, cursorX := 0, cursorY := 0\<rparr>;
          Some (c, updateCursor P c h) }"

text \<open>\<open>init\<close>, on what the video memory holds.\<close>

definition console_init :: "'h Ports \<Rightarrow> u16 list \<Rightarrow> Console \<Rightarrow> 'h \<Rightarrow> (Console \<times> 'h) option" where
  "console_init P vga c h =
     do { (c, h) \<leftarrow> console_clear P (c\<lparr>videoMemory := Some vga\<rparr>) h; Some (c, updateCursor P c h) }"

definition scroll :: "Console \<Rightarrow> Console option" where
  "scroll c =
     do { v \<leftarrow> videoMemory c; v \<leftarrow> move_up 1920 0 v; v \<leftarrow> fill 80 1920 (blank c) v;
          Some (c\<lparr>videoMemory := Some v, cursorY := 24\<rparr>) }"

definition putchar :: "'h Ports \<Rightarrow> u8 \<Rightarrow> Console \<Rightarrow> 'h \<Rightarrow> (Console \<times> 'h) option" where
  "putchar P ch c h =
     (case videoMemory c of
        None \<Rightarrow> Some (c, h)
      | Some v \<Rightarrow>
          do { c \<leftarrow> (if ch = 0x0A then Some (c\<lparr>cursorY := cursorY c + 1, cursorX := 0\<rparr>)
                    else if ch = 0x0D then Some (c\<lparr>cursorX := 0\<rparr>)
                    else if ch = 0x09 then Some (c\<lparr>cursorX := (cursorX c + 8) AND NOT 7\<rparr>)
                    else if position c < 2000
                    then do { v \<leftarrow> arr_set v (unat (position c)) (scast ch OR push_bit 8 (ucast (currentColor c)));
                              Some (c\<lparr>videoMemory := Some v, cursorX := cursorX c + 1\<rparr>) }
                    else Some c);
               let c = (if cursorX c \<ge> 80 then c\<lparr>cursorX := 0, cursorY := cursorY c + 1\<rparr> else c);
               c \<leftarrow> (if cursorY c \<ge> 25 then scroll c else Some c);
               Some (c, updateCursor P c h) })"

primrec put_string :: "'h Ports \<Rightarrow> u8 list \<Rightarrow> Console \<Rightarrow> 'h \<Rightarrow> (Console \<times> 'h) option" where
  "put_string P [] c h = None"
| "put_string P (ch # cs) c h = (if ch = 0 then Some (c, h) else do { (c, h) \<leftarrow> putchar P ch c h; put_string P cs c h })"

definition console_print :: "'h Ports \<Rightarrow> u8 list \<Rightarrow> Console \<Rightarrow> 'h \<Rightarrow> (Console \<times> 'h) option" where
  "console_print P str c h = do { h \<leftarrow> serial_puts P str h; put_string P str c h }"

definition setColor :: "u8 \<Rightarrow> u8 \<Rightarrow> Console \<Rightarrow> Console" where
  "setColor foreground background c = c\<lparr>currentColor := foreground OR push_bit 4 background\<rparr>"

section \<open>Keyboard\<close>

record Keyboard =
  shift_pressed :: bool
  precode :: u8
  normal_map :: "u8 list"
  shift_map :: "u8 list"
  extended_map :: "u8 list"

definition set_codes :: "(nat \<times> u8) list \<Rightarrow> u8 list \<Rightarrow> u8 list" where
  "set_codes ps m = foldl (\<lambda>m (i, c). m[i := c]) m ps"

definition extended_codes :: "(nat \<times> u8) list" where
  "extended_codes =
    [(0x48, 0x18), (0x50, 0x19), (0x4d, 0x1A), (0x4b, 0x1B), (0x53, 0x00)]"

definition normal_codes :: "(nat \<times> u8) list" where
  "normal_codes =
    [(0x3b, 0x00), (0x3c, 0x00), (0x3d, 0x00), (0x3e, 0x00), (0x3f, 0x00), (0x40, 0x00), (0x41, 0x00), (0x42, 0x00),
     (0x43, 0x00), (0x44, 0x00), (0x57, 0x00), (0x58, 0x00), (0x1e, 0x61), (0x30, 0x62), (0x2e, 0x63), (0x20, 0x64),
     (0x12, 0x65), (0x21, 0x66), (0x22, 0x67), (0x23, 0x68), (0x17, 0x69), (0x24, 0x6A), (0x25, 0x6B), (0x26, 0x6C),
     (0x32, 0x6D), (0x31, 0x6E), (0x18, 0x6F), (0x19, 0x70), (0x10, 0x71), (0x13, 0x72), (0x1f, 0x73), (0x14, 0x74),
     (0x16, 0x75), (0x2f, 0x76), (0x2c, 0x77), (0x2d, 0x78), (0x15, 0x79), (0x2a, 0x7A), (0x02, 0x31), (0x03, 0x32),
     (0x04, 0x33), (0x05, 0x34), (0x06, 0x35), (0x07, 0x36), (0x08, 0x37), (0x09, 0x38), (0x0a, 0x39), (0x0b, 0x30),
     (0x0c, 0x2D), (0x0d, 0x3D), (0x1a, 0x5B), (0x1b, 0x5D), (0x29, 0x3B), (0x28, 0x27), (0x33, 0x2C), (0x34, 0x2E),
     (0x35, 0x2F), (0x0e, 0x08), (0x11, 0x09), (0x1c, 0x0A), (0x39, 0x20)]"

definition shift_codes :: "(nat \<times> u8) list" where
  "shift_codes =
    [(0x1e, 0x41), (0x30, 0x42), (0x2e, 0x43), (0x20, 0x44), (0x12, 0x45), (0x21, 0x46), (0x22, 0x47), (0x23, 0x48),
     (0x17, 0x49), (0x24, 0x4A), (0x25, 0x4B), (0x26, 0x4C), (0x32, 0x4D), (0x2d, 0x4E), (0x31, 0x4E), (0x18, 0x4F),
     (0x19, 0x50), (0x10, 0x51), (0x13, 0x52), (0x1f, 0x53), (0x14, 0x54), (0x16, 0x55), (0x2f, 0x56), (0x2c, 0x57),
     (0x2b, 0x58), (0x15, 0x59), (0x2a, 0x5A), (0x02, 0x21), (0x03, 0x40), (0x04, 0x23), (0x05, 0x24), (0x06, 0x25),
     (0x07, 0x5E), (0x08, 0x26), (0x09, 0x2A), (0x0a, 0x28), (0x0b, 0x29), (0x0c, 0x5F), (0x0d, 0x2B), (0x1a, 0x7B),
     (0x1b, 0x7D), (0x29, 0x3A), (0x28, 0x22), (0x33, 0x3C), (0x34, 0x3E), (0x35, 0x3F), (0x0e, 0x08), (0x11, 0x09),
     (0x1c, 0x0A), (0x39, 0x20)]"

definition keyboard_read_data :: "'h Ports \<Rightarrow> 'h \<Rightarrow> u8 \<times> 'h" where
  "keyboard_read_data P h = (let (s, h) = inb P 0x64 h in if s AND 1 \<noteq> 0 then inb P 0x60 h else (0, h))"

partial_function (option) keyboard_drain :: "'h Ports \<Rightarrow> 'h \<Rightarrow> 'h option" where
  [code]: "keyboard_drain P h =
     (let (s, h) = inb P 0x64 h in if s AND 1 \<noteq> 0 then keyboard_drain P (snd (keyboard_read_data P h)) else Some h)"

text \<open>The maps have 256 entries, all zero before \<open>keyboard_init\<close>. The event buffer, which nothing reads
  or fills, is left out.\<close>

definition keyboard_init :: "'h Ports \<Rightarrow> Keyboard \<Rightarrow> 'h \<Rightarrow> (Keyboard \<times> 'h) option" where
  "keyboard_init P k h =
     do { h \<leftarrow> keyboard_drain P h;
          let k = k\<lparr>normal_map := set_codes normal_codes (normal_map k), shift_map := set_codes shift_codes (shift_map k),
                    extended_map := set_codes extended_codes (extended_map k)\<rparr>;
          let (v, h) = inb P 0x21 h;
          Some (k, outb P 0x21 (v AND NOT 0x02) h) }"

definition scancode_to_ascii :: "u8 \<Rightarrow> Keyboard \<Rightarrow> u8 \<times> Keyboard" where
  "scancode_to_ascii code k =
     (let k' = k\<lparr>precode := code\<rparr> in
      if code = 0x2A \<or> code = 0x36 then (0, k'\<lparr>shift_pressed := True\<rparr>)
      else if code = 0xAA \<or> code = 0xB6 then (0, k'\<lparr>shift_pressed := False\<rparr>)
      else if code AND 0x80 \<noteq> 0 then (0, k')
      else (if precode k = 0xE0 then extended_map k ! unat code
            else if shift_pressed k then shift_map k ! unat code
            else normal_map k ! unat code, k'))"

section \<open>The console descriptor\<close>

text \<open>\<open>read\<close> looks at neither the size nor the buffer; the code behind its \<open>return 1\<close> is not reached.\<close>

definition console_read :: "'h Ports \<Rightarrow> u8 list \<Rightarrow> Keyboard \<Rightarrow> 'h \<Rightarrow> (int \<times> u8 list \<times> Keyboard \<times> 'h) option" where
  "console_read P buffer k h =
     (let (code, h) = keyboard_read_data P h in
      if code = 0 then Some (0, buffer, k, h)
      else let (ascii, k) = scancode_to_ascii code k in
        if ascii = 0 then Some (0, buffer, k, h)
        else do { buffer \<leftarrow> arr_set buffer 0 ascii; Some (1, buffer, k, h) })"

primrec console_write_loop :: "'h Ports \<Rightarrow> nat \<Rightarrow> u8 list \<Rightarrow> Console \<Rightarrow> 'h \<Rightarrow> (Console \<times> 'h) option" where
  "console_write_loop P 0 buffer c h = Some (c, h)"
| "console_write_loop P (Suc n) buffer c h =
     do { ch \<leftarrow> arr_get buffer 0; (c, h) \<leftarrow> putchar P ch c h; console_write_loop P n (tl buffer) c h }"

definition console_write ::
  "'h Ports \<Rightarrow> u8 list option \<Rightarrow> u32 \<Rightarrow> Console \<Rightarrow> 'h \<Rightarrow> (int \<times> Console \<times> 'h) option" where
  "console_write P buffer sz c h =
     (case buffer of
        None \<Rightarrow> Some (0, c, h)
      | Some b \<Rightarrow> if sz = 0 then Some (0, c, h) else do { (c, h) \<leftarrow> console_write_loop P (unat sz) b c h; Some (sint sz, c, h) })"

section \<open>The screen refines a terminal of lines\<close>

text \<open>
  What the screen promises: 25 lines of 80 cells and a cursor. A character goes to the cell at
  the cursor; running over the last line drops the first line and opens a blank one.
\<close>

record Tty =
  tty_lines :: "u16 list list"
  tty_x :: nat
  tty_y :: nat

definition tty_next :: "u16 \<Rightarrow> Tty \<Rightarrow> Tty" where
  "tty_next b t =
     (if tty_y t < 24 then t\<lparr>tty_x := 0, tty_y := tty_y t + 1\<rparr>
      else t\<lparr>tty_lines := tl (tty_lines t) @ [replicate 80 b], tty_x := 0\<rparr>)"

definition tty_put :: "u8 \<Rightarrow> u16 \<Rightarrow> u16 \<Rightarrow> Tty \<Rightarrow> Tty" where
  "tty_put ch a b t =
     (if ch = 0x0A then tty_next b t
      else if ch = 0x0D then t\<lparr>tty_x := 0\<rparr>
      else if ch = 0x09 then (if tty_x t < 72 then t\<lparr>tty_x := 8 * (tty_x t div 8 + 1)\<rparr> else tty_next b t)
      else let t = t\<lparr>tty_lines := (tty_lines t)[tty_y t := (tty_lines t ! tty_y t)[tty_x t := a]]\<rparr> in
        if tty_x t < 79 then t\<lparr>tty_x := tty_x t + 1\<rparr> else tty_next b t)"

definition rows :: "u16 list \<Rightarrow> u16 list list" where
  "rows v = map (\<lambda>r. take 80 (drop (80 * r) v)) [0..<25]"

definition tty_of :: "Console \<Rightarrow> Tty" where
  "tty_of c = \<lparr>tty_lines = rows (the (videoMemory c)), tty_x = unat (cursorX c), tty_y = unat (cursorY c)\<rparr>"

definition cell :: "u8 \<Rightarrow> Console \<Rightarrow> u16" where
  "cell ch c = scast ch OR push_bit 8 (ucast (currentColor c))"

definition screen_ok :: "Console \<Rightarrow> bool" where
  "screen_ok c \<longleftrightarrow> (\<exists>v. videoMemory c = Some v \<and> length v = 2000) \<and> cursorX c < 80 \<and> cursorY c < 25"

lemma fill_eq: "i + n \<le> length v \<Longrightarrow> fill n i x v = Some (take i v @ replicate n x @ drop (i + n) v)"
  by (induction n arbitrary: i v) (auto simp: arr_set_def take_Suc_conv_app_nth)

lemma move_up_eq:
  "i + n + 80 \<le> length v \<Longrightarrow> move_up n i v = Some (take i v @ take n (drop (i + 80) v) @ drop (i + n) v)"
proof (induction n arbitrary: i v)
  case (Suc n)
  have "drop (i + 80) v = v ! (i + 80) # drop (Suc (i + 80)) v" using Suc.prems by (intro Cons_nth_drop_Suc [symmetric]) simp
  with Suc show ?case by (simp add: arr_set_def arr_get_def take_Suc_conv_app_nth)
qed simp

lemma scroll_eq:
  assumes "videoMemory c = Some v" and "length v = 2000"
  shows "scroll c = Some (c\<lparr>videoMemory := Some (drop 80 v @ replicate 80 (blank c)), cursorY := 24\<rparr>)"
  using assms by (simp add: scroll_def move_up_eq fill_eq)

lemma length_rows [simp]: "length (rows v) = 25"
  by (simp add: rows_def)

lemma nth_rows: "r < 25 \<Longrightarrow> rows v ! r = take 80 (drop (80 * r) v)"
  by (simp add: rows_def)

lemma rows_update:
  assumes "x < 80" and "y < 25"
  shows "rows (v[80 * y + x := a]) = (rows v)[y := (rows v ! y)[x := a]]"
proof (rule nth_equalityI)
  fix r assume "r < length (rows (v[80 * y + x := a]))"
  then have r: "r < 25" by simp
  consider "r = y" | "r < y" | "y < r" by linarith
  then show "rows (v[80 * y + x := a]) ! r = (rows v)[y := (rows v ! y)[x := a]] ! r"
  proof cases
    case 1
    with r assms show ?thesis by (simp add: nth_rows drop_update_swap take_update_swap)
  next
    case 2
    then have "80 * y + x - 80 * r \<ge> 80" by linarith
    with 2 r show ?thesis by (simp add: nth_rows drop_update_swap)
  next
    case 3
    then have "80 * y + x < 80 * r" using assms by linarith
    with 3 r show ?thesis by (simp add: nth_rows)
  qed
qed simp

lemma rows_scroll:
  assumes "length v = 2000"
  shows "rows (drop 80 v @ replicate 80 b) = tl (rows v) @ [replicate 80 b]"
proof (rule nth_equalityI)
  fix r assume "r < length (rows (drop 80 v @ replicate 80 b))"
  then have r: "r < 25" by simp
  show "rows (drop 80 v @ replicate 80 b) ! r = (tl (rows v) @ [replicate 80 b]) ! r"
  proof (cases "r < 24")
    case True
    then show ?thesis using assms by (simp add: nth_rows nth_append nth_tl algebra_simps)
  next
    case False
    then have "r = 24" using r by simp
    then show ?thesis using assms by (simp add: nth_rows nth_append)
  qed
qed simp

lemma unat_position:
  "cursorX c < 80 \<Longrightarrow> cursorY c < 25 \<Longrightarrow> unat (position c) = 80 * unat (cursorY c) + unat (cursorX c)"
  by (simp add: position_def unat_word_ariths word_less_nat_alt)

lemma tab_stop_nat: "n < 80 \<Longrightarrow> unat ((of_nat n + 8 :: u16) AND NOT 7) = 8 * (n div 8 + 1)"
proof -
  have "list_all (\<lambda>n. unat ((of_nat n + 8 :: u16) AND NOT 7) = 8 * (n div 8 + 1)) [0..<80]" by code_simp
  then show "n < 80 \<Longrightarrow> ?thesis" by (simp add: list_all_iff)
qed

lemma tab_stop: "x < 80 \<Longrightarrow> unat ((x + 8 :: u16) AND NOT 7) = 8 * (unat x div 8 + 1)"
  using tab_stop_nat [of "unat x"] by (simp add: word_less_nat_alt)

text \<open>The end of \<open>putchar\<close> when the cursor moves to the next line.\<close>

lemma next_line:
  assumes "screen_ok c" and c1: "c1 = c\<lparr>cursorX := 0, cursorY := cursorY c + 1\<rparr>"
  shows "\<exists>c'. (if cursorY c1 \<ge> 25 then scroll c1 else Some c1) = Some c' \<and> screen_ok c' \<and>
    currentColor c' = currentColor c \<and> tty_of c' = tty_next (blank c) (tty_of c)"
proof -
  obtain v where v: "videoMemory c = Some v" "length v = 2000" and y: "cursorY c < 25"
    using assms(1) by (auto simp: screen_ok_def)
  have y1: "unat (cursorY c + 1) = unat (cursorY c) + 1" using y by (simp add: unat_word_ariths word_less_nat_alt)
  have b: "blank c1 = blank c" by (simp add: c1 blank_def)
  show ?thesis
  proof (cases "cursorY c + 1 \<ge> 25")
    case True
    then have "unat (cursorY c) = 24" using y y1 by (simp add: word_le_nat_alt word_less_nat_alt)
    with True v show ?thesis
      by (simp add: c1 scroll_eq screen_ok_def tty_of_def tty_next_def rows_scroll b [unfolded c1])
  next
    case False
    then have "unat (cursorY c) < 24" using y1 by (simp add: word_le_nat_alt)
    with False v y1 show ?thesis by (simp add: c1 screen_ok_def tty_of_def tty_next_def)
  qed
qed

lemma less_not_le: "(x :: u16) < y \<Longrightarrow> y \<le> x \<longleftrightarrow> False"
  by simp

lemma cursor_swap: "c\<lparr>cursorY := y, cursorX := x\<rparr> = c\<lparr>cursorX := x, cursorY := y\<rparr>"
  by simp

definition refined :: "u8 \<Rightarrow> Console \<Rightarrow> Console \<Rightarrow> bool" where
  "refined ch c c' \<longleftrightarrow> screen_ok c' \<and> currentColor c' = currentColor c \<and> tty_of c' = tty_put ch (cell ch c) (blank c) (tty_of c)"

lemma putchar_tab:
  assumes ok: "screen_ok c"
  shows "\<exists>c' h'. putchar P 0x09 c h = Some (c', h') \<and> refined 0x09 c c'"
proof -
  obtain v where v: "videoMemory c = Some v" "length v = 2000" and x: "cursorX c < 80" and y: "cursorY c < 25"
    using ok by (auto simp: screen_ok_def)
  show ?thesis
  proof (cases "unat (cursorX c) < 72")
    case True
    then have "(cursorX c + 8) AND NOT 7 < 80" using tab_stop [OF x] by (simp add: word_less_nat_alt)
    with True v y tab_stop [OF x] show ?thesis
      by (simp add: putchar_def refined_def tty_put_def screen_ok_def tty_of_def less_not_le Let_def)
  next
    case False
    then have "(cursorX c + 8) AND NOT 7 \<ge> 80" using tab_stop [OF x] by (simp add: word_le_nat_alt)
    with False v next_line [OF ok refl] show ?thesis
      by (auto simp: putchar_def refined_def tty_put_def tty_of_def Let_def cursor_swap)
  qed
qed

lemma putchar_cell:
  assumes ok: "screen_ok c" and ch: "ch \<noteq> 0x0A" "ch \<noteq> 0x0D" "ch \<noteq> 0x09"
  shows "\<exists>c' h'. putchar P ch c h = Some (c', h') \<and> refined ch c c'"
proof -
  obtain v where v: "videoMemory c = Some v" "length v = 2000" and x: "cursorX c < 80" and y: "cursorY c < 25"
    using ok by (auto simp: screen_ok_def)
  have xn: "unat (cursorX c) < 80" and yn: "unat (cursorY c) < 25" using x y by (simp_all add: word_less_nat_alt)
  have x1: "unat (cursorX c + 1) = unat (cursorX c) + 1" using xn by (simp add: unat_word_ariths)
  define v' where "v' = v[80 * unat (cursorY c) + unat (cursorX c) := cell ch c]"
  define c0 where "c0 = c\<lparr>videoMemory := Some v'\<rparr>"
  have ok0: "screen_ok c0" using ok v by (auto simp: c0_def v'_def screen_ok_def)
  have t0: "tty_of c0 = (tty_of c)\<lparr>tty_lines := (tty_lines (tty_of c))[tty_y (tty_of c) :=
      (tty_lines (tty_of c) ! tty_y (tty_of c))[tty_x (tty_of c) := cell ch c]]\<rparr>"
    using v rows_update [OF xn yn] by (simp add: tty_of_def c0_def v'_def)
  have p: "position c < 2000" using unat_position [OF x y] xn yn by (simp add: word_less_nat_alt)
  have s: "arr_set v (unat (position c)) (scast ch OR push_bit 8 (ucast (currentColor c))) = Some v'"
    using unat_position [OF x y] xn yn v by (simp add: arr_set_def v'_def cell_def)
  have c0: "cursorX c0 = cursorX c" "cursorY c0 = cursorY c" "currentColor c0 = currentColor c" "blank c0 = blank c"
    by (simp_all add: c0_def blank_def)
  have t: "tty_put ch (cell ch c) (blank c) (tty_of c) =
      (if tty_x (tty_of c0) < 79 then (tty_of c0)\<lparr>tty_x := tty_x (tty_of c0) + 1\<rparr> else tty_next (blank c) (tty_of c0))"
    using ch by (simp add: tty_put_def t0 Let_def)
  have step: "putchar P ch c h =
      do { let c1 = (if cursorX c + 1 \<ge> 80 then c0\<lparr>cursorX := 0, cursorY := cursorY c0 + 1\<rparr> else c0\<lparr>cursorX := cursorX c + 1\<rparr>);
           c1 \<leftarrow> (if cursorY c1 \<ge> 25 then scroll c1 else Some c1); Some (c1, updateCursor P c1 h) }"
    using ch v p s by (simp add: putchar_def c0_def Let_def)
  show ?thesis
  proof (cases "unat (cursorX c) < 79")
    case True
    then have le: "\<not> cursorX c + 1 \<ge> 80" using x1 by (simp add: word_le_nat_alt)
    have "tty_of (c0\<lparr>cursorX := cursorX c + 1\<rparr>) = (tty_of c0)\<lparr>tty_x := unat (cursorX c) + 1\<rparr>" by (simp add: tty_of_def x1)
    moreover have "screen_ok (c0\<lparr>cursorX := cursorX c + 1\<rparr>)" using ok0 le by (auto simp: screen_ok_def)
    moreover have "tty_x (tty_of c0) = unat (cursorX c)" by (simp add: tty_of_def c0)
    ultimately show ?thesis using True le y c0 by (simp add: step t refined_def less_not_le Let_def)
  next
    case False
    then have le: "cursorX c + 1 \<ge> 80" using x1 by (simp add: word_le_nat_alt)
    have "\<not> tty_x (tty_of c0) < 79" using False by (simp add: tty_of_def c0)
    with le next_line [OF ok0 refl] c0 show ?thesis by (auto simp: step t refined_def Let_def)
  qed
qed

lemma putchar_refines:
  assumes ok: "screen_ok c"
  shows "\<exists>c' h'. putchar P ch c h = Some (c', h') \<and> refined ch c c'"
proof -
  obtain v where v: "videoMemory c = Some v" "length v = 2000" and x: "cursorX c < 80" and y: "cursorY c < 25"
    using ok by (auto simp: screen_ok_def)
  consider (nl) "ch = 0x0A" | (cr) "ch = 0x0D" | (tab) "ch = 0x09" | (ch) "ch \<noteq> 0x0A" "ch \<noteq> 0x0D" "ch \<noteq> 0x09" by blast
  then show ?thesis
  proof cases
    case nl
    with next_line [OF ok refl] v show ?thesis by (auto simp: putchar_def refined_def tty_put_def Let_def cursor_swap)
  next
    case cr
    with v y show ?thesis by (simp add: putchar_def refined_def tty_put_def screen_ok_def tty_of_def less_not_le Let_def)
  next
    case tab
    then show ?thesis using putchar_tab [OF ok] by simp
  next
    case ch
    then show ?thesis using putchar_cell [OF ok] by simp
  qed
qed

lemma refined_cell: "refined ch c c' \<Longrightarrow> cell x c' = cell x c \<and> blank c' = blank c"
  by (simp add: refined_def cell_def blank_def)

lemma console_write_loop_refines:
  assumes "screen_ok c" and "n \<le> length buffer"
  shows "\<exists>c' h'. console_write_loop P n buffer c h = Some (c', h') \<and> screen_ok c' \<and> currentColor c' = currentColor c \<and>
    tty_of c' = fold (\<lambda>ch. tty_put ch (cell ch c) (blank c)) (take n buffer) (tty_of c)"
  using assms
proof (induction n arbitrary: buffer c h)
  case (Suc n)
  then obtain ch b where b: "buffer = ch # b" "n \<le> length b" by (cases buffer) auto
  obtain c1 h1 where p: "putchar P ch c h = Some (c1, h1)" and r: "refined ch c c1"
    using putchar_refines [OF Suc.prems(1), of P ch h] by blast
  obtain c' h' where "console_write_loop P n b c1 h1 = Some (c', h')" "screen_ok c'" "currentColor c' = currentColor c1"
    "tty_of c' = fold (\<lambda>ch. tty_put ch (cell ch c1) (blank c1)) (take n b) (tty_of c1)"
    using Suc.IH [of c1 b h1] r b by (auto simp: refined_def)
  then show ?case using b p r refined_cell [OF r] by (auto simp: arr_get_def refined_def)
qed simp

text \<open>
  C7. Writing to the console refines a terminal of 25 lines of 80 cells: on a well-formed
  screen a write of \<open>size\<close> bytes of the buffer returns \<open>size\<close>, touches no memory outside the
  screen, leaves it well-formed and shows what the abstract terminal shows after these
  characters, with line ends, tab stops, the wrap at column 80 and scrolling at line 25.
\<close>

theorem console_write_refines:
  assumes "screen_ok c" and "unat sz \<le> length buffer"
  shows "\<exists>c' h'. console_write P (Some buffer) sz c h = Some (sint sz, c', h') \<and> screen_ok c' \<and>
    tty_of c' = fold (\<lambda>ch. tty_put ch (cell ch c) (blank c)) (take (unat sz) buffer) (tty_of c)"
  using console_write_loop_refines [OF assms, of P h] assms(1) by (auto simp: console_write_def)

definition silent_ports :: "unit Ports" where
  "silent_ports = \<lparr>outb = \<lambda>_ _ h. h, inb = \<lambda>_ h. (0, h), inw = \<lambda>_ h. (0, h), outw = \<lambda>_ _ h. h\<rparr>"

theorem console_write_refines_witness:
  "\<exists>c' h'. console_write silent_ports (Some [0x68, 0x69, 0x0A]) 3
      \<lparr>videoMemory = Some (replicate 2000 0x0720), cursorX = 78, cursorY = 24, currentColor = 7\<rparr> () = Some (3, c', h') \<and>
    screen_ok c' \<and> tty_x (tty_of c') = 0 \<and> tty_y (tty_of c') = 24"
  using console_write_refines [of "\<lparr>videoMemory = Some (replicate 2000 0x0720), cursorX = 78, cursorY = 24, currentColor = 7\<rparr>"
      3 "[0x68, 0x69, 0x0A]" silent_ports "()"]
  by (auto simp: screen_ok_def tty_of_def tty_put_def tty_next_def Let_def)

datatype ConsoleOp = Clear | Putchar u8 | SetColor u8 u8 | Write "u8 list"

primrec console_op :: "'h Ports \<Rightarrow> ConsoleOp \<Rightarrow> Console \<times> 'h \<Rightarrow> (Console \<times> 'h) option" where
  "console_op P Clear s = console_clear P (fst s) (snd s)"
| "console_op P (Putchar ch) s = putchar P ch (fst s) (snd s)"
| "console_op P (SetColor f b) s = Some (setColor f b (fst s), snd s)"
| "console_op P (Write bs) s = console_write_loop P (length bs) bs (fst s) (snd s)"

primrec run_console :: "'h Ports \<Rightarrow> ConsoleOp list \<Rightarrow> Console \<times> 'h \<Rightarrow> (Console \<times> 'h) option" where
  "run_console P [] s = Some s"
| "run_console P (op # ops) s = do { s \<leftarrow> console_op P op s; run_console P ops s }"

lemma console_clear_ok:
  "videoMemory c = Some v \<Longrightarrow> length v = 2000 \<Longrightarrow> \<exists>c' h'. console_clear P c h = Some (c', h') \<and> screen_ok c'"
  by (auto simp: console_clear_def fill_eq screen_ok_def Let_def)

lemma console_op_ok: "screen_ok (fst s) \<Longrightarrow> \<exists>s'. console_op P op s = Some s' \<and> screen_ok (fst s')"
proof (cases op)
  case Clear
  assume "screen_ok (fst s)"
  then show ?thesis using console_clear_ok [of "fst s" _ P "snd s"] Clear by (fastforce simp: screen_ok_def)
next
  case (Putchar ch)
  assume "screen_ok (fst s)"
  then show ?thesis using putchar_refines [of "fst s" P ch "snd s"] Putchar by (auto simp: refined_def)
next
  case (Write bs)
  assume "screen_ok (fst s)"
  then show ?thesis using console_write_loop_refines [of "fst s" "length bs" bs P "snd s"] Write by auto
qed (simp add: setColor_def screen_ok_def)

lemma run_console_ok: "screen_ok (fst s) \<Longrightarrow> \<exists>s'. run_console P ops s = Some s' \<and> screen_ok (fst s')"
proof (induction ops arbitrary: s)
  case (Cons op ops)
  then show ?case using console_op_ok [of s P op] by auto
qed simp

text \<open>
  C38. From \<open>init\<close> on the screen stays well-formed: whatever sequence of clears, characters,
  colours and writes follows, every step is defined, the video memory keeps its 2000 cells
  and the cursor stays inside them.
\<close>

theorem console_stays_well_formed:
  assumes "length vga = 2000"
  shows "\<exists>c' h'. console_init P vga c h \<bind> run_console P ops = Some (c', h') \<and> screen_ok c'"
proof -
  obtain c1 h1 where "console_clear P (c\<lparr>videoMemory := Some vga\<rparr>) h = Some (c1, h1)" "screen_ok c1"
    using console_clear_ok [of "c\<lparr>videoMemory := Some vga\<rparr>" vga P h] assms by auto
  then show ?thesis using run_console_ok [of "(c1, updateCursor P c1 h1)" P ops] by (auto simp: console_init_def)
qed

theorem console_stays_well_formed_witness:
  "\<exists>c' h'. console_init silent_ports (replicate 2000 0) \<lparr>videoMemory = None, cursorX = 0, cursorY = 0, currentColor = 7\<rparr> ()
      \<bind> run_console silent_ports [Putchar 0x41, SetColor 4 1, Write [0x0A, 0x42], Clear] = Some (c', h') \<and> screen_ok c'"
  by (rule console_stays_well_formed) simp

section \<open>What the keyboard can type\<close>

primrec type_keys :: "u8 list \<Rightarrow> Keyboard \<Rightarrow> u8 list \<times> Keyboard" where
  "type_keys [] k = ([], k)"
| "type_keys (code # codes) k =
     (let (ascii, k) = scancode_to_ascii code k; (as, k) = type_keys codes k in (ascii # as, k))"

text \<open>Shift is held when the last of the shift codes sent is a press.\<close>

fun shift_after :: "u8 list \<Rightarrow> bool \<Rightarrow> bool" where
  "shift_after [] s = s"
| "shift_after (code # codes) s =
     shift_after codes (if code \<in> {0x2A, 0x36} then True else if code \<in> {0xAA, 0xB6} then False else s)"

definition zero_keyboard :: Keyboard where
  "zero_keyboard = \<lparr>shift_pressed = False, precode = 0, normal_map = replicate 256 0, shift_map = replicate 256 0,
     extended_map = replicate 256 0\<rparr>"

definition maps_ok :: "Keyboard \<Rightarrow> bool" where
  "maps_ok k \<longleftrightarrow> normal_map k = set_codes normal_codes (replicate 256 0) \<and>
     shift_map k = set_codes shift_codes (replicate 256 0) \<and> extended_map k = set_codes extended_codes (replicate 256 0)"

lemma keyboard_init_maps: "keyboard_init P zero_keyboard h = Some (k, h') \<Longrightarrow> maps_ok k \<and> \<not> shift_pressed k \<and> precode k = 0"
  by (auto simp: keyboard_init_def zero_keyboard_def maps_ok_def split: bind_splits prod.splits)

lemma scancode_maps: "maps_ok (snd (scancode_to_ascii code k)) = maps_ok k"
  by (simp add: scancode_to_ascii_def maps_ok_def Let_def)

lemma scancode_shift: "shift_pressed (snd (scancode_to_ascii code k)) = shift_after [code] (shift_pressed k)"
  by (auto simp: scancode_to_ascii_def Let_def)

lemma z_only_at_shift:
  "i < 128 \<Longrightarrow> i \<noteq> 0x2A \<Longrightarrow> set_codes normal_codes (replicate 256 0) ! i \<notin> {0x5A, 0x7A} \<and>
     set_codes shift_codes (replicate 256 0) ! i \<notin> {0x5A, 0x7A} \<and> set_codes extended_codes (replicate 256 0) ! i \<notin> {0x5A, 0x7A}"
proof -
  have "list_all (\<lambda>i. i = 0x2A \<or> set_codes normal_codes (replicate 256 0) ! i \<notin> {0x5A, 0x7A} \<and>
     set_codes shift_codes (replicate 256 0) ! i \<notin> {0x5A, 0x7A} \<and> set_codes extended_codes (replicate 256 0) ! i \<notin> {0x5A, 0x7A})
     [0..<128]" by code_simp
  then show "i < 128 \<Longrightarrow> i \<noteq> 0x2A \<Longrightarrow> ?thesis" by (auto simp: list_all_iff)
qed

lemma of_nat_unat_u8: "of_nat (unat (x :: u8)) = x"
  by simp

lemma press_small: "(code :: u8) AND 0x80 = 0 \<Longrightarrow> unat code < 128"
proof -
  have "list_all (\<lambda>n. (of_nat n :: u8) AND 0x80 \<noteq> 0) [128..<256]" by code_simp
  then have "n < 256 \<Longrightarrow> 128 \<le> n \<Longrightarrow> (of_nat n :: u8) AND 0x80 \<noteq> 0" for n
    unfolding list_all_iff set_upt by (metis atLeastLessThan_iff)
  moreover have "unat code < 256" by (rule order_less_le_trans [OF unsigned_less]) simp
  ultimately show "code AND 0x80 = 0 \<Longrightarrow> unat code < 128"
    by (metis linorder_not_less of_nat_unat_u8)
qed

lemma scancode_no_z:
  assumes "maps_ok k"
  shows "fst (scancode_to_ascii code k) \<notin> {0x5A, 0x7A}"
proof -
  have "code \<noteq> 0x2A \<Longrightarrow> unat code \<noteq> 0x2A" by (simp add: word_unat_eq_iff)
  then show ?thesis using z_only_at_shift [of "unat code"] press_small [of code] assms
    by (auto simp: scancode_to_ascii_def maps_ok_def Let_def)
qed

lemma type_keys_shift: "shift_pressed (snd (type_keys codes k)) = shift_after codes (shift_pressed k)"
  by (induction codes arbitrary: k) (simp_all add: case_prod_beta Let_def scancode_shift)

lemma type_keys_no_z: "maps_ok k \<Longrightarrow> 0x5A \<notin> set (fst (type_keys codes k)) \<and> 0x7A \<notin> set (fst (type_keys codes k))"
proof (induction codes arbitrary: k)
  case (Cons code codes)
  then show ?case using scancode_no_z [of k code] by (auto simp: case_prod_beta Let_def scancode_maps)
qed simp

text \<open>
  The keyboard state machine: after \<open>keyboard_init\<close>, for every sequence of scan codes, shift
  is held exactly when the last shift code was a press, and no sequence of codes ever types
  the letter z, small or capital: both tables put it at the code of the left shift key, which is
  taken before the tables are read.
\<close>

theorem keyboard_state_machine:
  assumes "keyboard_init P zero_keyboard h = Some (k, h')"
  shows "shift_pressed (snd (type_keys codes k)) = shift_after codes False \<and>
    0x5A \<notin> set (fst (type_keys codes k)) \<and> 0x7A \<notin> set (fst (type_keys codes k))"
  using keyboard_init_maps [OF assms] type_keys_no_z [of k codes] by (simp add: type_keys_shift)

theorem keyboard_state_machine_witness:
  "\<exists>k h'. keyboard_init silent_ports zero_keyboard () = Some (k, h') \<and>
    shift_pressed (snd (type_keys [0x2A, 0x1E, 0xAA, 0x36] k)) \<and> 0x7A \<notin> set (fst (type_keys [0x2A, 0x1E, 0xAA, 0x36] k))"
proof -
  have "keyboard_drain silent_ports () = Some ()"
    by (subst keyboard_drain.simps) (simp add: silent_ports_def)
  then obtain k where k: "keyboard_init silent_ports zero_keyboard () = Some (k, ())"
    by (simp add: keyboard_init_def silent_ports_def)
  show ?thesis using keyboard_state_machine [OF k, of "[0x2A, 0x1E, 0xAA, 0x36]"] k by auto
qed

end
