(* ===== verification/MemFile.thy ===== *)
theory MemFile
  imports MemTree
begin

text \<open>
  Files of the memory file system as sequences of bytes: what writing, seeking and reading
  through a descriptor do to the contents of the inode.
\<close>

section \<open>Contents\<close>

definition file_ok :: "MemFSInode \<Rightarrow> bool" where
  "file_ok i \<longleftrightarrow>
     (case idata i of None \<Rightarrow> isize i = 0 \<and> icapacity i = 0
      | Some (_, bs) \<Rightarrow> length bs = unat (icapacity i) \<and> isize i \<le> icapacity i)"

lemma length_contents: "file_ok i \<Longrightarrow> length (contents i) = unat (isize i)"
  by (auto simp: file_ok_def contents_def word_le_nat_alt split: option.splits)

text \<open>The memory for a larger buffer is there and the old one can be released.\<close>

definition can_grow :: "u32 \<Rightarrow> u32 \<Rightarrow> MemFS \<Rightarrow> bool" where
  "can_grow a n mf \<longleftrightarrow>
     (\<exists>p mf1. fs_new n mf = Some (p, mf1) \<and> p \<noteq> 0 \<and>
        (case idata (inode_at mf a) of None \<Rightarrow> True | Some (q, _) \<Rightarrow> fs_delete q mf1 \<noteq> None))"

lemma fs_new_same: "fs_new n mf = Some (p, mf1) \<Longrightarrow> \<exists>k. mf1 = mf\<lparr>fs_kernel := k\<rparr>"
  by (auto simp: fs_new_def bind_eq_Some_conv)

lemma fs_delete_same: "fs_delete q mf = Some mf1 \<Longrightarrow> \<exists>k. mf1 = mf\<lparr>fs_kernel := k\<rparr>"
  by (auto simp: fs_delete_def bind_eq_Some_conv)

lemma memfs_grow_ok:
  assumes "a \<noteq> 0" and ok: "file_ok (inode_at mf a)" and "can_grow a n mf" and sz: "isize (inode_at mf a) \<le> n"
  shows "\<exists>k i. memfs_grow a n mf = Some (mf\<lparr>fs_kernel := k, inode_at := (inode_at mf)(a := i)\<rparr>) \<and>
    file_ok i \<and> contents i = contents (inode_at mf a) \<and> icapacity i = n \<and> isize i = isize (inode_at mf a) \<and> idata i \<noteq> None"
proof -
  let ?i = "inode_at mf a"
  obtain p mf1 where p: "fs_new n mf = Some (p, mf1)" "p \<noteq> 0"
      "case idata ?i of None \<Rightarrow> True | Some (q, _) \<Rightarrow> fs_delete q mf1 \<noteq> None"
    using assms(3) by (auto simp: can_grow_def)
  obtain k where k: "mf1 = mf\<lparr>fs_kernel := k\<rparr>" using fs_new_same [OF p(1)] by blast
  have len: "length (fresh_bytes mf1 (unat n)) = unat n" by (simp add: fresh_bytes_def)
  show ?thesis
  proof (cases "idata ?i")
    case None
    then show ?thesis using assms(1) ok p k len
      by (intro exI [of _ k] exI [of _ "?i\<lparr>idata := Some (p, fresh_bytes mf1 (unat n)), icapacity := n\<rparr>"])
        (auto simp: memfs_grow_def get_inode_def upd_inode_def file_ok_def contents_def)
  next
    case (Some qb)
    obtain q bs where qb: "idata ?i = Some (q, bs)" using Some by (cases qb) auto
    let ?new = "take (unat (isize ?i)) bs @ drop (unat (isize ?i)) (fresh_bytes mf1 (unat n))"
    have b: "length bs = unat (icapacity ?i)" "unat (isize ?i) \<le> unat (icapacity ?i)" "unat (isize ?i) \<le> unat n"
      using ok qb sz by (auto simp: file_ok_def word_le_nat_alt)
    have m: "memcpy (fresh_bytes mf1 (unat n)) bs (unat (isize ?i)) = Some ?new"
      using b len by (intro memcpy_eq) auto
    obtain mf2 where d: "fs_delete q mf1 = Some mf2" using p(3) qb by auto
    then obtain k' where k': "mf2 = mf\<lparr>fs_kernel := k'\<rparr>" using fs_delete_same [OF d] k by auto
    show ?thesis using assms(1) p k k' d m b len qb
      by (intro exI [of _ k'] exI [of _ "?i\<lparr>idata := Some (p, ?new), icapacity := n\<rparr>"])
        (simp add: memfs_grow_def get_inode_def upd_inode_def file_ok_def contents_def word_le_nat_alt)
  qed
qed

definition overwrite :: "u8 list \<Rightarrow> nat \<Rightarrow> u8 list \<Rightarrow> u8 list" where
  "overwrite old off new = take off old @ new @ drop (off + length new) old"

text \<open>The copy into a buffer that is large enough, for \<open>n\<close> bytes at \<open>off\<close>.\<close>

lemma contents_write:
  assumes ok: "file_ok i" "idata i = Some (p, bs)" and len: "off \<le> unat (isize i)" "off + n \<le> unat (icapacity i)"
    "n \<le> length buf" and e: "unat e = off + n"
  defines "i' \<equiv> i\<lparr>idata := Some (p, take off bs @ take n buf @ drop n (drop off bs))\<rparr>"
  defines "j \<equiv> (if e > isize i then i'\<lparr>isize := e\<rparr> else i')"
  shows "file_ok j" "contents j = overwrite (contents i) off (take n buf)"
proof -
  have bs: "length bs = unat (icapacity i)" "unat (isize i) \<le> unat (icapacity i)"
    using ok by (auto simp: file_ok_def word_le_nat_alt)
  let ?bs = "take off bs @ take n buf @ drop n (drop off bs)"
  have l: "length ?bs = unat (icapacity i)" using bs len by simp
  show "file_ok j" using bs len l e by (auto simp: j_def i'_def file_ok_def word_le_nat_alt)
  have "contents i = take (unat (isize i)) bs" using ok(2) by (simp add: contents_def)
  moreover have "unat (isize j) = max (unat (isize i)) (off + n)"
    using e by (auto simp: j_def i'_def word_less_nat_alt max_def)
  moreover have "contents j = take (unat (isize j)) ?bs" by (simp add: j_def i'_def contents_def)
  ultimately show "contents j = overwrite (contents i) off (take n buf)"
    using bs len by (auto simp: overwrite_def take_drop max_def min_def not_le add.commute [of n off] intro!: take_all)
qed

lemma memfs_write_ok:
  fixes off sz :: u32
  assumes a: "fd_inode (fd_at mf d) = a" "a \<noteq> 0" and off: "fd_offset (fd_at mf d) = off" "off \<le> isize (inode_at mf a)"
    and ok: "file_ok (inode_at mf a)" and buf: "unat sz \<le> length buf" and small: "(unat off + unat sz) * 2 < 2 ^ 32"
    and grow: "off + sz > icapacity (inode_at mf a) \<Longrightarrow> can_grow a ((off + sz) * 2) mf"
  shows "\<exists>k i. memfs_write d buf sz mf = Some (int (unat sz), mf\<lparr>fs_kernel := k, inode_at := (inode_at mf)(a := i),
      fd_at := (fd_at mf)(d := \<lparr>fd_inode = a, fd_offset = off + sz\<rparr>)\<rparr>) \<and> file_ok i \<and>
    contents i = overwrite (contents (inode_at mf a)) (unat off) (take (unat sz) buf)"
proof -
  have u: "unat (off + sz) = unat off + unat sz" using small by (simp add: unat_word_ariths)
  have u2: "unat ((off + sz) * 2) = (unat off + unat sz) * 2" using small u by (simp add: unat_word_ariths)
  have s: "sint sz = int (unat sz)" using small by (simp add: sint_small)
  have e: "unat (off + sz) \<le> unat ((off + sz) * 2)" "isize (inode_at mf a) \<le> icapacity (inode_at mf a)"
    using u u2 ok by (auto simp: file_ok_def split: option.splits)
  have fd: "fd_at mf d = \<lparr>fd_inode = a, fd_offset = off\<rparr>" using a(1) off(1) by (cases "fd_at mf d") simp
  obtain k i where g: "memfs_reserve a (off + sz) mf =
        Some (mf\<lparr>fs_kernel := k, inode_at := (inode_at mf)(a := i)\<rparr>)"
      and i: "file_ok i" "contents i = contents (inode_at mf a)" "isize i = isize (inode_at mf a)"
        "off + sz \<le> icapacity i"
  proof (cases "off + sz > icapacity (inode_at mf a)")
    case True
    then have "isize (inode_at mf a) \<le> (off + sz) * 2" using e by (auto simp: word_less_nat_alt word_le_nat_alt)
    from memfs_grow_ok [OF a(2) ok grow [OF True] this] show thesis
      using True e(1) that a(2) by (auto simp: word_le_nat_alt memfs_reserve_def get_inode_def)
  next
    case False
    then show thesis
      by (intro that [where k = "fs_kernel mf" and i = "inode_at mf a"]) (use ok a(2) in \<open>auto simp: not_less memfs_reserve_def get_inode_def\<close>)
  qed
  show ?thesis
  proof (cases "sz = 0")
    case True
    have "overwrite (contents i) (unat off) [] = contents i" by (simp add: overwrite_def)
    then show ?thesis using True g i a(2) off(2) s
      by (intro exI [of _ k] exI [of _ i]) (auto simp: memfs_write_def get_inode_def set_offset_def fd Let_def)
  next
    case False
    have le: "unat off + unat sz \<le> unat (icapacity i)" using i(4) u by (simp add: word_le_nat_alt)
    have "0 < unat sz" using False by (simp add: unat_gt_0)
    then obtain p bs where d: "idata i = Some (p, bs)" using i(1) le by (auto simp: file_ok_def split: option.splits)
    let ?i = "i\<lparr>idata := Some (p, take (unat off) bs @ take (unat sz) buf @ drop (unat sz) (drop (unat off) bs))\<rparr>"
    let ?j = "if off + sz > isize i then ?i\<lparr>isize := off + sz\<rparr> else ?i"
    have c: "file_ok ?j" "contents ?j = overwrite (contents i) (unat off) (take (unat sz) buf)"
      using contents_write [OF i(1) d _ le buf u] off(2) i(3) by (simp_all add: word_le_nat_alt)
    have "length bs = unat (icapacity i)" using i(1) d by (auto simp: file_ok_def)
    then have m: "memcpy (drop (unat off) bs) buf (unat sz) = Some (take (unat sz) buf @ drop (unat sz) (drop (unat off) bs))"
      using le buf by (intro memcpy_eq) auto
    show ?thesis using False g i(2,3) a(2) s d m c
      by (intro exI [of _ k] exI [of _ ?j])
        (simp add: memfs_write_def get_inode_def upd_inode_def set_offset_def fd Let_def)
  qed
qed

lemma memfs_read_ok:
  assumes a: "fd_inode (fd_at mf d) = a" "a \<noteq> 0" and off: "fd_offset (fd_at mf d) = off" "off \<le> isize (inode_at mf a)"
    and ok: "file_ok (inode_at mf a)" and small: "unat (isize (inode_at mf a)) < 2 ^ 31"
    and n: "n = min (unat sz) (unat (isize (inode_at mf a)) - unat off)" and buf: "n \<le> length rbuf"
  shows "memfs_read d rbuf sz mf =
    Some (int n, take n (drop (unat off) (contents (inode_at mf a))) @ drop n rbuf, set_offset d (off + of_nat n) mf)"
proof (cases "off \<ge> isize (inode_at mf a)")
  case True
  then have "n = 0" using n off(2) by simp
  moreover have "(fd_at mf d)\<lparr>fd_offset := off\<rparr> = fd_at mf d" using off(1) by (cases "fd_at mf d") simp
  then have "set_offset d off mf = mf" by (simp add: set_offset_def)
  ultimately show ?thesis using True a off by (simp add: memfs_read_def get_inode_def)
next
  case False
  let ?i = "inode_at mf a"
  define r where "r = (if sz < isize ?i - off then sz else isize ?i - off)"
  have lt: "unat off < unat (isize ?i)" using False by (simp add: word_le_nat_alt)
  then obtain p bs where d: "idata ?i = Some (p, bs)" "length bs = unat (icapacity ?i)" "unat (isize ?i) \<le> unat (icapacity ?i)"
    using ok by (auto simp: file_ok_def word_le_nat_alt split: option.splits)
  have "unat (isize ?i - off) = unat (isize ?i) - unat off" using lt by (simp add: unat_sub word_le_nat_alt)
  then have r: "unat r = n" using n by (auto simp: r_def word_less_nat_alt)
  have r2: "r = of_nat n" unfolding r [symmetric] by simp
  have s: "sint r = int n" using sint_small [of r] r n small by auto
  have m: "memcpy rbuf (drop (unat off) bs) n = Some (take n (drop (unat off) bs) @ drop n rbuf)"
    using n buf d lt by (intro memcpy_eq) auto
  have c: "take n (drop (unat off) (contents ?i)) = take n (drop (unat off) bs)"
    using d(1) n by (simp add: contents_def drop_take)
  have "memfs_read d rbuf sz mf =
      do { buffer \<leftarrow> memcpy rbuf (drop (unat off) bs) (unat r); Some (sint r, buffer, set_offset d (off + r) mf) }"
    using False a off d(1) by (simp add: memfs_read_def get_inode_def Let_def r_def)
  then show ?thesis unfolding r s m c by (simp add: r2 [symmetric])
qed

section \<open>Property\<close>

text \<open>
  C18. Bytes written through a descriptor are the bytes read back after seeking to where they
  were written. The write replaces them in the contents of the file, extending it at the
  end, and leaves every other inode as it was.
\<close>

theorem write_then_read:
  fixes off sz :: u32
  assumes "fd_inode (fd_at mf d) = a" and "a \<noteq> 0" and "fd_offset (fd_at mf d) = off" and "off \<le> isize (inode_at mf a)"
    and "file_ok (inode_at mf a)" and "unat (isize (inode_at mf a)) < 2 ^ 31"
    and "unat sz \<le> length buf" and "unat sz \<le> length rbuf" and "(unat off + unat sz) * 2 < 2 ^ 32"
    and "off + sz > icapacity (inode_at mf a) \<Longrightarrow> can_grow a ((off + sz) * 2) mf"
  shows "\<exists>mf1 mf2 mf3. memfs_write d buf sz mf = Some (int (unat sz), mf1) \<and>
    contents (inode_at mf1 a) = overwrite (contents (inode_at mf a)) (unat off) (take (unat sz) buf) \<and>
    (\<forall>x. x \<noteq> a \<longrightarrow> inode_at mf1 x = inode_at mf x) \<and>
    memfs_seek d off mf1 = Some (0, mf2) \<and>
    memfs_read d rbuf sz mf2 = Some (int (unat sz), take (unat sz) buf @ drop (unat sz) rbuf, mf3)"
proof -
  let ?old = "contents (inode_at mf a)"
  obtain k i where w: "memfs_write d buf sz mf = Some (int (unat sz), mf\<lparr>fs_kernel := k, inode_at := (inode_at mf)(a := i),
      fd_at := (fd_at mf)(d := \<lparr>fd_inode = a, fd_offset = off + sz\<rparr>)\<rparr>)"
    and i: "file_ok i" "contents i = overwrite ?old (unat off) (take (unat sz) buf)"
    using memfs_write_ok [OF assms(1-5,7,9,10)] by blast
  let ?mf1 = "mf\<lparr>fs_kernel := k, inode_at := (inode_at mf)(a := i),
      fd_at := (fd_at mf)(d := \<lparr>fd_inode = a, fd_offset = off + sz\<rparr>)\<rparr>"
  let ?mf2 = "set_offset d off ?mf1"
  have old: "length ?old = unat (isize (inode_at mf a))" by (rule length_contents [OF assms(5)])
  have size: "unat (isize i) = max (unat (isize (inode_at mf a))) (unat off + unat sz)"
    using length_contents [OF i(1)] i(2) old assms(4,7) by (auto simp: overwrite_def word_le_nat_alt max_def)
  have seek: "memfs_seek d off ?mf1 = Some (0, ?mf2)"
    using assms(2) size by (simp add: memfs_seek_def get_inode_def word_less_nat_alt)
  have "memfs_read d rbuf sz ?mf2 = Some (int (unat sz), take (unat sz) (drop (unat off) (contents (inode_at ?mf2 a))) @
      drop (unat sz) rbuf, set_offset d (off + of_nat (unat sz)) ?mf2)"
    using assms(2,6,8,9) i(1) size
    by (intro memfs_read_ok) (auto simp: set_offset_def word_le_nat_alt)
  moreover have "take (unat sz) (drop (unat off) (contents (inode_at ?mf2 a))) = take (unat sz) buf"
    using i(2) old assms(4,7) by (simp add: set_offset_def overwrite_def word_le_nat_alt)
  ultimately show ?thesis using w i(2) seek by auto
qed

definition file_fs :: MemFS where
  "file_fs = small_fs\<lparr>inode_at := (inode_at small_fs)(0x2000 := (dir_inode [0x62] 0x1000 0)\<lparr>itype := FT_REG\<rparr>),
     fd_at := (\<lambda>_. \<lparr>fd_inode = 0x2000, fd_offset = 0\<rparr>)\<rparr>"

lemma file_fs_new: "\<exists>mf1. fs_new 6 file_fs = Some (0xC0001020, mf1)"
  by (simp add: fs_new_def operator_new_def km_kmalloc_def on_slab_def file_fs_def small_fs_def fs_memory_def switch_kernel_def
      kmap_memory_def kmalloc_def get_general_cache_def cache_alloc_def
      take_object_def upd_slab_def Let_def)

theorem write_then_read_witness:
  "\<exists>mf1 mf2 mf3. memfs_write 0x9000 [1, 2, 3] 3 file_fs = Some (3, mf1) \<and> contents (inode_at mf1 0x2000) = [1, 2, 3] \<and>
     memfs_seek 0x9000 0 mf1 = Some (0, mf2) \<and> memfs_read 0x9000 [9, 9, 9, 9] 3 mf2 = Some (3, [1, 2, 3, 9], mf3)"
proof -
  have "can_grow 0x2000 ((0 + 3) * 2) file_fs"
    using file_fs_new by (auto simp: can_grow_def file_fs_def dir_inode_def)
  moreover have "file_ok (inode_at file_fs 0x2000)" by (simp add: file_ok_def file_fs_def dir_inode_def)
  ultimately show ?thesis
    using write_then_read [of file_fs "0x9000" "0x2000" 0 3 "[1, 2, 3]" "[9, 9, 9, 9]"]
    by (auto simp: file_fs_def overwrite_def contents_def dir_inode_def)
qed

end
