(* ===== verification/UserSpace.thy ===== *)
theory UserSpace
  imports Shell Syscall Terminal MemFile
begin

text \<open>
  The shell on the kernel: the virtual functions of the descriptors of the memory file system
  and of the console, the file system of the console, and the system calls of the shell as
  the calls of the kernel for its task.
\<close>

section \<open>Objects\<close>

record 'h Objects =
  ob_memfs :: MemFS
  ob_console :: Console
  ob_keyboard :: Keyboard
  ob_hw :: 'h
  g_console_device :: u32

definition on_memfs ::
  "(MemFS \<Rightarrow> ('a \<times> MemFS) option) \<Rightarrow> Kernel \<times> 'h Objects \<Rightarrow> ('a \<times> Kernel \<times> 'h Objects) option" where
  "on_memfs f = (\<lambda>(k, ob).
     do { (r, mf) \<leftarrow> f ((ob_memfs ob)\<lparr>fs_kernel := k\<rparr>); Some (r, fs_kernel mf, ob\<lparr>ob_memfs := mf\<rparr>) })"

definition memfs_descriptor :: "u32 \<Rightarrow> 'h Objects FileDescriptor" where
  "memfs_descriptor d = \<lparr>
     fd_read = \<lambda>b n st. do { ((r, b), st) \<leftarrow> on_memfs (\<lambda>mf. do { (r, b, mf) \<leftarrow> memfs_read d b n mf; Some ((r, b), mf) }) st; Some (r, b, st) },
     fd_write = \<lambda>b n. on_memfs (memfs_write d b n),
     fd_seek = \<lambda>n. on_memfs (memfs_seek d n),
     fd_close = on_memfs (memfs_close d),
     fd_iterate = \<lambda>b n p st. do { (r, b, p) \<leftarrow> memfs_iterate d b n p (ob_memfs (snd st)); Some (r, b, p, st) },
     fd_mmap = \<lambda>_ _ _ _ _ st. Some (0, st)\<rparr>"

definition console_descriptor :: "'h Ports \<Rightarrow> 'h Objects FileDescriptor" where
  "console_descriptor P = \<lparr>
     fd_read = \<lambda>b n (k, ob). do { (r, b, kb, h) \<leftarrow> console_read P b (ob_keyboard ob) (ob_hw ob);
       Some (r, b, k, ob\<lparr>ob_keyboard := kb, ob_hw := h\<rparr>) },
     fd_write = \<lambda>b n (k, ob). do { (r, c, h) \<leftarrow> console_write P (Some b) n (ob_console ob) (ob_hw ob);
       Some (r, k, ob\<lparr>ob_console := c, ob_hw := h\<rparr>) },
     fd_seek = \<lambda>_ st. Some (- 1, st),
     fd_close = \<lambda>st. Some (0, st),
     fd_iterate = \<lambda>b _ p st. Some (- 1, b, p, st),
     fd_mmap = \<lambda>_ _ _ _ _ st. Some (0, st)\<rparr>"

text \<open>The one console device is created by the first \<open>open\<close>; it takes 1036 bytes.\<close>

definition console_fs :: "'h Objects FileSystem" where
  "console_fs = \<lparr>
     vf_open = \<lambda>_ (k, ob).
       if g_console_device ob = 0
       then do { (p, k) \<leftarrow> operator_new 1036 k; Some (p, k, ob\<lparr>g_console_device := p\<rparr>) }
       else Some (g_console_device ob, k, ob),
     vf_stat = \<lambda>_ attr st. Some (0, attr\<lparr>attr_type := FT_CHR, attr_mode := 0x1B6, attr_size := 0\<rparr>, st),
     vf_mkdir = \<lambda>_ st. Some (- 1, st),
     vf_unlink = \<lambda>_ st. Some (- 1, st),
     vf_rmdir = \<lambda>_ st. Some (- 1, st)\<rparr>"

text \<open>
  The calls of the shell. The numbers of \<open>syscall_user.h\<close> lead to these functions, see
  \<open>handler_of\<close>; \<open>pwd\<close> has no handler of its own, and the value that the default handler,
  a function without one, leaves behind is undefined.
\<close>

definition as_current :: "nat \<Rightarrow> (u32 \<Rightarrow> 's Vfs \<Rightarrow> 'a option) \<Rightarrow> 's Vfs \<Rightarrow> 'a option" where
  "as_current cpu f v = do { t \<leftarrow> get_current_task (sched (vkernel v)) cpu; f t v }"

definition kernel_calls ::
  "(u32 \<Rightarrow> 'h Objects FileSystem) \<Rightarrow> (u32 \<Rightarrow> 'h Objects FileDescriptor) \<Rightarrow> nat \<Rightarrow> (nat \<Rightarrow> u8) \<Rightarrow> FileAttribute \<Rightarrow> 'h Objects Vfs Sys" where
  "kernel_calls F G cpu junk attr = \<lparr>
     garbage = junk, garbage_attr = attr,
     syscall_open = \<lambda>path. as_current cpu (sys_open F path),
     syscall_read = \<lambda>fd b n. as_current cpu (sys_read G (word_of_int fd) b n),
     syscall_write = \<lambda>fd b n. as_current cpu (sys_write G (word_of_int fd) b n),
     syscall_close = \<lambda>fd. as_current cpu (sys_close G (word_of_int fd)),
     syscall_chdir = \<lambda>path. chdir F attr path cpu,
     syscall_pwd = \<lambda>_ _ _. None,
     syscall_unlink = vfs_unlink F,
     syscall_stat = vfs_stat F,
     syscall_getdents = \<lambda>fd b n p. sys_getdents G (word_of_int fd) b n p cpu,
     syscall_nanosleep = \<lambda>s n v. do { (r, k) \<leftarrow> nanosleep s n cpu (vkernel v); Some (r, v\<lparr>vkernel := k\<rparr>) }\<rparr>"

section \<open>The console shows what the shell writes\<close>

text \<open>The task that runs on the processor has the console at descriptor 1, and the screen is in order.\<close>

definition on_console ::
  "(u32 \<Rightarrow> 'h Objects FileDescriptor) \<Rightarrow> 'h Ports \<Rightarrow> nat \<Rightarrow> u8 \<Rightarrow> 'h Objects Vfs \<Rightarrow> bool" where
  "on_console G P cpu colour v \<longleftrightarrow>
     (\<exists>t con. get_current_task (sched (vkernel v)) cpu = Some t \<and> t \<noteq> 0 \<and> lookup_fd 1 t v = Some con \<and> con \<noteq> 0 \<and>
        G con = console_descriptor P) \<and>
     screen_ok (ob_console (objects v)) \<and> currentColor (ob_console (objects v)) = colour"

definition screen_of :: "'h Objects Vfs \<Rightarrow> Tty" where
  "screen_of v = tty_of (ob_console (objects v))"

definition show_char :: "u8 \<Rightarrow> u8 \<Rightarrow> Tty \<Rightarrow> Tty" where
  "show_char colour ch = tty_put ch (scast ch OR push_bit 8 (ucast colour)) (0x20 OR push_bit 8 (ucast colour))"

lemma console_fd_write:
  assumes "screen_ok (ob_console ob)" and "currentColor (ob_console ob) = colour" and "unat n \<le> length b"
  shows "\<exists>r c h. fd_write (console_descriptor P) b n (k, ob) = Some (r, k, ob\<lparr>ob_console := c, ob_hw := h\<rparr>) \<and> screen_ok c \<and>
    currentColor c = colour \<and> tty_of c = fold (show_char colour) (take (unat n) b) (tty_of (ob_console ob))"
proof -
  have e: "(\<lambda>ch. tty_put ch (cell ch (ob_console ob)) (blank (ob_console ob))) = show_char colour"
    using assms(2) by (simp add: show_char_def cell_def blank_def fun_eq_iff)
  obtain c h where c: "console_write_loop P (unat n) b (ob_console ob) (ob_hw ob) = Some (c, h)" "screen_ok c"
      "currentColor c = colour" "tty_of c = fold (show_char colour) (take (unat n) b) (tty_of (ob_console ob))"
    using console_write_loop_refines [OF assms(1,3), of P "ob_hw ob"] assms(2) unfolding e by auto
  from c(1) obtain r where "console_write P (Some b) n (ob_console ob) (ob_hw ob) = Some (r, c, h)"
    by (cases "n = 0") (simp_all add: console_write_def)
  with c show ?thesis by (intro exI [of _ r] exI [of _ c] exI [of _ h]) (simp add: console_descriptor_def)
qed

lemma write_console:
  assumes "on_console G P cpu colour v" and "unat n \<le> length b"
  shows "\<exists>r c h. syscall_write (kernel_calls F G cpu junk attr) 1 b n v =
      Some (r, v\<lparr>objects := (objects v)\<lparr>ob_console := c, ob_hw := h\<rparr>\<rparr>) \<and> screen_ok c \<and> currentColor c = colour \<and>
    tty_of c = fold (show_char colour) (take (unat n) b) (screen_of v)"
proof -
  obtain t con where t: "get_current_task (sched (vkernel v)) cpu = Some t" "t \<noteq> 0" "lookup_fd 1 t v = Some con" "con \<noteq> 0"
      "G con = console_descriptor P" and s: "screen_ok (ob_console (objects v))" "currentColor (ob_console (objects v)) = colour"
    using assms(1) by (auto simp: on_console_def)
  obtain r c h where "fd_write (console_descriptor P) b n (vkernel v, objects v) =
        Some (r, vkernel v, (objects v)\<lparr>ob_console := c, ob_hw := h\<rparr>)"
      "screen_ok c" "currentColor c = colour" "tty_of c = fold (show_char colour) (take (unat n) b) (screen_of v)"
    using console_fd_write [OF s assms(2)] unfolding screen_of_def by blast
  then show ?thesis using t
    by (intro exI [of _ r] exI [of _ c] exI [of _ h]) (simp add: kernel_calls_def as_current_def sys_write_def on_objects_def)
qed

lemma lookup_fd_objects [simp]: "lookup_fd m t (v\<lparr>objects := x\<rparr>) = lookup_fd m t v"
  by (simp add: lookup_fd_def context_of_def)

interpretation screen: shell_output "kernel_calls F G cpu junk attr" "on_console G P cpu colour" screen_of "show_char colour"
proof
  fix v and n :: u32 and b :: "u8 list"
  assume "on_console G P cpu colour v" "unat n \<le> length b"
  from write_console [OF this, of F junk attr] this(1)
  show "\<exists>r v'. syscall_write (kernel_calls F G cpu junk attr) 1 b n v = Some (r, v') \<and> on_console G P cpu colour v' \<and>
      screen_of v' = fold (show_char colour) (take (unat n) b) (screen_of v)"
    by (fastforce simp: on_console_def screen_of_def)
qed

section \<open>Reading a file of the memory file system\<close>

text \<open>Descriptor \<open>fd\<close> of the running task is the descriptor \<open>d\<close> of the file system, on the inode \<open>i\<close>.\<close>

definition on_file ::
  "(u32 \<Rightarrow> 'h Objects FileDescriptor) \<Rightarrow> nat \<Rightarrow> int \<Rightarrow> u32 \<Rightarrow> MemFSInode \<Rightarrow> 'h Objects Vfs \<Rightarrow> bool" where
  "on_file G cpu fd d i v \<longleftrightarrow>
     (\<exists>t. get_current_task (sched (vkernel v)) cpu = Some t \<and> lookup_fd (word_of_int fd) t v = Some d) \<and>
     d \<noteq> 0 \<and> G d = memfs_descriptor d \<and> file_ok i \<and> unat (isize i) < 2 ^ 31 \<and>
     (\<exists>a. a \<noteq> 0 \<and> fd_inode (fd_at (ob_memfs (objects v)) d) = a \<and> inode_at (ob_memfs (objects v)) a = i) \<and>
     fd_offset (fd_at (ob_memfs (objects v)) d) \<le> isize i"

definition unread_of :: "u32 \<Rightarrow> MemFSInode \<Rightarrow> 'h Objects Vfs \<Rightarrow> u8 list" where
  "unread_of d i v = drop (unat (fd_offset (fd_at (ob_memfs (objects v)) d))) (contents i)"

lemma read_file:
  assumes "on_file G cpu fd d i v" and "unat n \<le> length b" and m: "m = min (unat n) (length (unread_of d i v))"
  shows "\<exists>mf. syscall_read (kernel_calls F G cpu junk attr) fd b n v =
      Some ((int m, take m (unread_of d i v) @ drop m b), v\<lparr>objects := (objects v)\<lparr>ob_memfs := mf\<rparr>\<rparr>) \<and>
    on_file G cpu fd d i (v\<lparr>objects := (objects v)\<lparr>ob_memfs := mf\<rparr>\<rparr>) \<and>
    unread_of d i (v\<lparr>objects := (objects v)\<lparr>ob_memfs := mf\<rparr>\<rparr>) = drop m (unread_of d i v)"
proof -
  obtain t a where t: "get_current_task (sched (vkernel v)) cpu = Some t" "lookup_fd (word_of_int fd) t v = Some d" "d \<noteq> 0"
      "G d = memfs_descriptor d" "file_ok i" "unat (isize i) < 2 ^ 31"
    and a: "a \<noteq> 0" "fd_inode (fd_at (ob_memfs (objects v)) d) = a" "inode_at (ob_memfs (objects v)) a = i"
      "fd_offset (fd_at (ob_memfs (objects v)) d) \<le> isize i"
    using assms(1) by (auto simp: on_file_def)
  let ?mf = "(ob_memfs (objects v))\<lparr>fs_kernel := vkernel v\<rparr>"
  define off where "off = fd_offset (fd_at (ob_memfs (objects v)) d)"
  define mf where "mf = set_offset d (off + of_nat m) ?mf"
  have len: "length (unread_of d i v) = unat (isize i) - unat off" by (simp add: unread_of_def length_contents [OF t(5)] off_def)
  have "memfs_read d b n ?mf = Some (int m, take m (unread_of d i v) @ drop m b, mf)"
    using memfs_read_ok [of ?mf d a off m n b] a t(5,6) m len assms(2) by (simp add: off_def mf_def unread_of_def)
  then have "syscall_read (kernel_calls F G cpu junk attr) fd b n v =
      Some ((int m, take m (unread_of d i v) @ drop m b), v\<lparr>objects := (objects v)\<lparr>ob_memfs := mf\<rparr>\<rparr>)"
    using t by (simp add: kernel_calls_def as_current_def sys_read_def on_objects_def memfs_descriptor_def on_memfs_def)
      (simp add: mf_def set_offset_def)
  moreover have u: "unat (off + of_nat m) = unat off + m"
  proof -
    have "unat off + m \<le> unat (isize i)" using m len a(4) by (simp add: off_def word_le_nat_alt)
    then show ?thesis using unat_u32_less [of "isize i"] by (simp add: unat_word_ariths unat_of_nat)
  qed
  moreover have "off + of_nat m \<le> isize i" using u m len a(4) by (simp add: word_le_nat_alt off_def)
  ultimately show ?thesis using t a
    by (intro exI [of _ mf]) (auto simp: on_file_def mf_def set_offset_def unread_of_def off_def add.commute)
qed

interpretation file_on_screen: shell_file "kernel_calls F G cpu junk attr"
  "\<lambda>v. on_console G P cpu colour v \<and> on_file G cpu fd d i v \<and> vkernel v = k" screen_of "show_char colour" fd "unread_of d i"
proof
  fix v and n :: u32 and b :: "u8 list"
  assume ok: "on_console G P cpu colour v \<and> on_file G cpu fd d i v \<and> vkernel v = k" and n: "unat n \<le> length b"
  show "\<exists>r v'. syscall_write (kernel_calls F G cpu junk attr) 1 b n v = Some (r, v') \<and>
      (on_console G P cpu colour v' \<and> on_file G cpu fd d i v' \<and> vkernel v' = k) \<and> screen_of v' = fold (show_char colour) (take (unat n) b) (screen_of v)"
    using write_console [OF conjunct1 [OF ok] n, of F junk attr] ok by (fastforce simp: on_console_def on_file_def screen_of_def)
next
  fix v m and n :: u32 and b :: "u8 list"
  assume ok: "on_console G P cpu colour v \<and> on_file G cpu fd d i v \<and> vkernel v = k" and n: "unat n \<le> length b"
    and m: "m = min (unat n) (length (unread_of d i v))"
  show "\<exists>v'. syscall_read (kernel_calls F G cpu junk attr) fd b n v = Some ((int m, take m (unread_of d i v) @ drop m b), v') \<and>
      (on_console G P cpu colour v' \<and> on_file G cpu fd d i v' \<and> vkernel v' = k) \<and> unread_of d i v' = drop m (unread_of d i v) \<and> screen_of v' = screen_of v"
    using read_file [OF conjunct1 [OF conjunct2 [OF ok]] n m, of F junk attr] ok by (fastforce simp: on_console_def screen_of_def)
next
  fix v r v' and n :: u32 and b :: "u8 list"
  assume ok: "on_console G P cpu colour v \<and> on_file G cpu fd d i v \<and> vkernel v = k" and n: "unat n \<le> length b"
    and w: "syscall_write (kernel_calls F G cpu junk attr) 1 b n v = Some (r, v')"
  show "unread_of d i v' = unread_of d i v"
    using write_console [OF conjunct1 [OF ok] n, of F junk attr] w by (auto simp: unread_of_def)
qed

text \<open>Closing the descriptor changes nothing on the screen.\<close>

lemma close_file:
  assumes "on_file G cpu fd d i v" and "operator_delete d (vkernel v) = Some k"
  shows "\<exists>v'. syscall_close (kernel_calls F G cpu junk attr) fd v = Some (0, v') \<and> screen_of v' = screen_of v \<and>
    (\<forall>t. get_current_task (sched (vkernel v)) cpu = Some t \<longrightarrow> lookup_fd (word_of_int fd) t v' = Some 0)"
proof -
  obtain t where t: "get_current_task (sched (vkernel v)) cpu = Some t" "lookup_fd (word_of_int fd) t v = Some d" "d \<noteq> 0"
      "G d = memfs_descriptor d"
    using assms(1) by (auto simp: on_file_def)
  let ?m = "word_of_int fd :: u32"
  obtain c where c: "context_of t v = Some c" "?m < 256" "arr_get (fd_table (context_at (vkernel v) c)) (unat ?m) = Some d"
    using t(2,3) by (auto simp: lookup_fd_def bind_eq_Some_conv split: if_splits)
  have k: "sched k = sched (vkernel v)" "context_at k = context_at (vkernel v)"
    using assms(2) by (auto simp: operator_delete_def bind_eq_Some_conv split: if_splits)
  have tc: "t \<noteq> 0" "c \<noteq> 0" "task_context (task_at (sched (vkernel v)) t) = c" using c(1) by (auto simp: context_of_def Let_def split: if_splits)
  have m: "unat ?m < length (fd_table (context_at (vkernel v) c))" using c(3) by (simp add: arr_get_Some)
  define x where "x = context_at (vkernel v) c"
  define v' where "v' = v\<lparr>vkernel := k\<lparr>context_at := (context_at k)(c := x\<lparr>fd_table := (fd_table x)[unat ?m := 0]\<rparr>)\<rparr>,
      objects := (objects v)\<lparr>ob_memfs := (ob_memfs (objects v))\<lparr>fs_kernel := k\<rparr>\<rparr>\<rparr>"
  have "syscall_close (kernel_calls F G cpu junk attr) fd v = Some (0, v')"
    using t assms(2) tc m
    by (simp add: kernel_calls_def as_current_def sys_close_def on_objects_def memfs_descriptor_def on_memfs_def memfs_close_def
        fs_delete_def context_of_def k upd_context_def v'_def x_def)
  moreover have "lookup_fd ?m t v' = Some 0"
    using tc m c(2) by (simp add: lookup_fd_def context_of_def v'_def k x_def)
  ultimately show ?thesis using t(1) by (auto simp: screen_of_def v'_def)
qed

section \<open>Properties\<close>

text \<open>
  C5. \<open>cat\<close> shows a file on the screen: when opening the path gives a descriptor of the memory file
  system on a file, at its start, and descriptor 1 is the console, the command returns after
  the whole contents of the file went through the terminal, character by character, and the descriptor
  is closed.
\<close>

theorem cat_shows_file:
  assumes "as_current cpu (sys_open F path) v = Some (fd, v1)" and "0 \<le> fd" and "on_console G P cpu colour v1"
    and "on_file G cpu fd d i v1" and "fd_offset (fd_at (ob_memfs (objects v1)) d) = 0"
    and "operator_delete d (vkernel v1) = Some k" and "get_current_task (sched (vkernel v1)) cpu = Some t"
  shows "\<exists>v'. cmd_cat (kernel_calls F G cpu junk attr) 2 [name, path] v = Some v' \<and>
    screen_of v' = fold (show_char colour) (contents i) (screen_of v1) \<and> lookup_fd (word_of_int fd) t v' = Some 0"
proof -
  let ?S = "kernel_calls F G cpu junk attr"
  obtain v2 where v2: "cat_loop ?S fd (locals ?S 1024) v1 = Some v2" "on_file G cpu fd d i v2" "vkernel v2 = vkernel v1"
      "screen_of v2 = fold (show_char colour) (unread_of d i v1) (screen_of v1)"
    using file_on_screen.cat_loop_shows [of G P cpu colour v1 fd d i "vkernel v1" "locals ?S 1024" F junk attr] assms(3,4) by auto
  obtain v3 where v3: "syscall_close ?S fd v2 = Some (0, v3)" "screen_of v3 = screen_of v2"
      "\<forall>t. get_current_task (sched (vkernel v2)) cpu = Some t \<longrightarrow> lookup_fd (word_of_int fd) t v3 = Some 0"
    using close_file [OF v2(2), of k F junk attr] assms(6) v2(3) by auto
  have o: "syscall_open ?S path v = Some (fd, v1)" using assms(1) by (simp add: kernel_calls_def)
  have "unread_of d i v1 = contents i" using assms(5) by (simp add: unread_of_def)
  then show ?thesis using v2 v3 o assms(2,7) by (simp add: cmd_cat_def)
qed
text \<open>A file with three bytes, open through a file system that always returns its descriptor.\<close>

definition cat_fs :: "unit Objects FileSystem" where
  "cat_fs = console_fs\<lparr>vf_open := \<lambda>_ st. Some (0xC0001040, st)\<rparr>"

definition cat_inode :: MemFSInode where
  "cat_inode = (inode_at file_fs 0x2000)\<lparr>idata := Some (0x8000, [0x68, 0x69, 0x0A]), isize := 3, icapacity := 3\<rparr>"

definition cat_table :: "u32 \<Rightarrow> unit Objects FileDescriptor" where
  "cat_table p = (if p = 0x700 then console_descriptor silent_ports else memfs_descriptor p)"

definition cat_vfs :: "unit Objects Vfs" where
  "cat_vfs = \<lparr>vkernel = (vkernel dir_vfs)\<lparr>context_at := (\<lambda>_. (context_at (vkernel dir_vfs) 0x3000)\<lparr>fd_table := (replicate 256 0)[1 := 0x700]\<rparr>)\<rparr>,
     objects = \<lparr>ob_memfs = file_fs\<lparr>inode_at := (\<lambda>_. cat_inode)\<rparr>,
       ob_console = \<lparr>videoMemory = Some (replicate 2000 0x0720), cursorX = 0, cursorY = 3, currentColor = 7\<rparr>,
       ob_keyboard = \<lparr>shift_pressed = False, precode = 0, normal_map = [], shift_map = [], extended_map = []\<rparr>, ob_hw = (), g_console_device = 0x700\<rparr>,
     mount_points = boot_mounts, current_working_directory = replicate 256 0\<rparr>"

lemma cat_vfs_task: "get_current_task (sched (vkernel cat_vfs)) 0 = Some 0x1000" "context_of 0x1000 cat_vfs = Some 0x3000"
    "fd_table (context_at (vkernel cat_vfs) c) = (replicate 256 0)[1 := 0x700]" "next_fd (context_at (vkernel cat_vfs) c) = 3"
  by (simp_all add: cat_vfs_def dir_vfs_def task_vfs_def context_of_def get_current_task_def arr_get_def)

definition cat_open :: "unit Objects Vfs" where
  "cat_open = cat_vfs\<lparr>vkernel := (vkernel cat_vfs)\<lparr>context_at := (context_at (vkernel cat_vfs))
     (0x3000 := (context_at (vkernel cat_vfs) 0x3000)\<lparr>next_fd := 4, fd_table := (replicate 256 0)[1 := 0x700, 3 := 0xC0001040]\<rparr>)\<rparr>\<rparr>"

lemma cat_vfs_open: "as_current 0 (sys_open (\<lambda>_. cat_fs) [0x2F, 0x61, 0]) cat_vfs = Some (3, cat_open)"
proof -
  have "vfs_open (\<lambda>_. cat_fs) [0x2F, 0x61, 0] cat_vfs = Some (0xC0001040, cat_vfs)"
    using boot_find by (simp add: vfs_open_def on_path_def on_objects_def cat_fs_def cat_vfs_def)
  then show ?thesis
    by (simp add: as_current_def sys_open_def cat_vfs_task allocate_fd_def upd_context_def cat_open_def Let_def)
qed

lemma cat_open_ok:
  "on_console cat_table silent_ports 0 7 cat_open" "on_file cat_table 0 3 0xC0001040 cat_inode cat_open"
  "fd_offset (fd_at (ob_memfs (objects cat_open)) 0xC0001040) = 0" "get_current_task (sched (vkernel cat_open)) 0 = Some 0x1000"
proof -
  have t: "get_current_task (sched (vkernel cat_open)) 0 = Some 0x1000" "context_of 0x1000 cat_open = Some 0x3000"
    using cat_vfs_task by (simp_all add: cat_open_def context_of_def)
  have f: "lookup_fd 1 0x1000 cat_open = Some 0x700" "lookup_fd 3 0x1000 cat_open = Some 0xC0001040"
    by (simp_all add: lookup_fd_def t) (simp_all add: cat_open_def word_le_nat_alt)
  have s: "screen_ok (ob_console (objects cat_open))" by (simp add: screen_ok_def cat_open_def cat_vfs_def)
  show "on_console cat_table silent_ports 0 7 cat_open"
    using t f s by (simp add: on_console_def cat_table_def) (simp add: cat_open_def cat_vfs_def)
  have "file_ok cat_inode" "isize cat_inode = 3" by (simp_all add: file_ok_def cat_inode_def)
  then show "on_file cat_table 0 3 0xC0001040 cat_inode cat_open"
    using t f by (simp add: on_file_def cat_table_def) (simp add: cat_open_def cat_vfs_def file_fs_def)
  show "fd_offset (fd_at (ob_memfs (objects cat_open)) 0xC0001040) = 0" by (simp add: cat_open_def cat_vfs_def file_fs_def)
  show "get_current_task (sched (vkernel cat_open)) 0 = Some 0x1000" by (rule t)
qed

lemma cat_open_delete: "\<exists>k. operator_delete 0xC0001040 (vkernel cat_open) = Some k"
  by (simp add: operator_delete_def cat_open_def cat_vfs_def dir_vfs_def task_vfs_def km_kfree_def on_slab_def fs_memory_def
      switch_kernel_def kmap_memory_def kfree_def cache_free_def upd_slab_def set_obj_next_def Let_def)

theorem cat_shows_file_witness:
  "\<exists>v'. cmd_cat (kernel_calls (\<lambda>_. cat_fs) cat_table 0 (\<lambda>_. 0) \<lparr>attr_type = FT_REG, attr_size = 0, attr_mode = 0\<rparr>) 2
      [[0x63, 0x61, 0x74, 0], [0x2F, 0x61, 0]] cat_vfs = Some v' \<and>
    screen_of v' = fold (show_char 7) [0x68, 0x69, 0x0A] (screen_of cat_open) \<and> lookup_fd 3 0x1000 v' = Some 0"
proof -
  obtain k where k: "operator_delete 0xC0001040 (vkernel cat_open) = Some k" using cat_open_delete by blast
  have "contents cat_inode = [0x68, 0x69, 0x0A]" by (simp add: contents_def cat_inode_def)
  then show ?thesis
    using cat_shows_file [OF cat_vfs_open _ cat_open_ok(1-3) k cat_open_ok(4), of "\<lambda>_. 0" "\<lparr>attr_type = FT_REG, attr_size = 0, attr_mode = 0\<rparr>"]
    by simp
qed

text \<open>
  C28. \<open>echo\<close> shows its arguments, one blank between two, and ends the line, as long as no
  argument has a percent sign: the arguments are used as formats, and one that ends in a percent
  sign makes the formatter read behind the string.
\<close>

theorem echo_shows_arguments:
  assumes "on_console G P cpu colour v" and "list_all (\<lambda>a. terminated a \<and> 0x25 \<notin> set (cstr a) \<and> length (cstr a) < 1024) args"
    and "0 \<notin> set lit" and "0x25 \<notin> set lit" and "length lit < 1023"
  shows "(\<exists>v'. cmd_echo (kernel_calls F G cpu junk attr) (Suc (length args)) (name # args) v = Some v' \<and>
      screen_of v' = fold (show_char colour) (joined (map cstr args) @ [0x0A]) (screen_of v)) \<and>
    cmd_echo (kernel_calls F G cpu junk attr) 2 [name, lit @ [0x25, 0]] v = None"
proof
  show "\<exists>v'. cmd_echo (kernel_calls F G cpu junk attr) (Suc (length args)) (name # args) v = Some v' \<and>
      screen_of v' = fold (show_char colour) (joined (map cstr args) @ [0x0A]) (screen_of v)"
    using screen.cmd_echo_shows [OF assms(1,2)] by blast
  show "cmd_echo (kernel_calls F G cpu junk attr) 2 [name, lit @ [0x25, 0]] v = None"
    using format_trailing_percent [OF assms(3,4), of 1024 "locals (kernel_calls F G cpu junk attr) 1024" "[]"] assms(5)
    by (simp add: cmd_echo_def printf_def)
qed

theorem echo_shows_arguments_witness:
  "\<exists>v'. cmd_echo (kernel_calls (\<lambda>_. cat_fs) cat_table 0 (\<lambda>_. 0) \<lparr>attr_type = FT_REG, attr_size = 0, attr_mode = 0\<rparr>) 3
      [[0x65, 0], [0x68, 0x69, 0], [0x21, 0]] cat_open = Some v' \<and>
    screen_of v' = fold (show_char 7) [0x68, 0x69, 0x20, 0x21, 0x0A] (screen_of cat_open)"
  using echo_shows_arguments [OF cat_open_ok(1), of "[[0x68, 0x69, 0], [0x21, 0]]" "[]" "\<lambda>_. cat_fs" "\<lambda>_. 0"
      "\<lparr>attr_type = FT_REG, attr_size = 0, attr_mode = 0\<rparr>" "[0x65, 0]"]
  by (simp add: numeral_3_eq_3)

section \<open>Start-up\<close>

text \<open>What \<open>kernel_main\<close> mounts, in this order, and the files of the kernel's context.\<close>

definition mount_file_systems :: "u32 \<Rightarrow> u32 \<Rightarrow> u32 \<Rightarrow> 's Vfs \<Rightarrow> 's Vfs option" where
  "mount_file_systems ext2fs memfs consolefs v =
     do { v \<leftarrow> register_fs (c_str ''/mnt'') ext2fs v;
          v \<leftarrow> register_fs (c_str ''/'') memfs v;
          register_fs (c_str ''/dev/console'') consolefs v }"

definition initialize_kernel_context ::
  "(u32 \<Rightarrow> 's FileSystem) \<Rightarrow> (u32 \<Rightarrow> 's FileDescriptor) \<Rightarrow> 's Vfs \<Rightarrow> (int \<times> 's Vfs) option" where
  "initialize_kernel_context F G v =
     do { (c, k) \<leftarrow> alloc_Context (vkernel v);
          k \<leftarrow> upd_context c (\<lambda>x. x\<lparr>user_mm := um_init (user_mm x) 0x400000 0xC0400000 page_alloc page_free phys2Virt\<rparr>)
            (k\<lparr>kernel_context := c\<rparr>);
          (fd, v) \<leftarrow> vfs_open F (c_str ''/dev/console'') (v\<lparr>vkernel := k\<rparr>);
          if fd = 0 then None
          else do {
            (_, v) \<leftarrow> on_objects (fd_write (G fd) (c_str ''hello-world\<newline>'') 12) v;
            k \<leftarrow> upd_context c (\<lambda>x. x\<lparr>fd_table := (fd_table x)[0 := fd, 1 := fd, 2 := fd]\<rparr>) (vkernel v);
            Some (0, v\<lparr>vkernel := k\<rparr>) } }"

section \<open>The mount table after start-up\<close>

text \<open>The static table before anything is mounted.\<close>

definition no_mounts :: "MountPoint list" where
  "no_mounts = replicate 16 \<lparr>mp_fs = 0, mp_path = replicate 256 0, mp_used = False\<rparr>"

abbreviation (input) free_mount :: MountPoint where
  "free_mount \<equiv> \<lparr>mp_fs = 0, mp_path = replicate 256 0, mp_used = False\<rparr>"

lemma register_loop_used: "list_all mp_used us \<Longrightarrow>
    register_loop name f (us @ mps) = map_option ((@) us) (register_loop name f mps)"
  by (induction us) (cases "register_loop name f mps"; auto)+

lemma register_loop_free:
  assumes "list_all mp_used us" and "CHR 0x00 \<notin> set name" and "length name < 255"
  shows "register_loop (c_str name) f (us @ replicate (Suc n) free_mount) =
    Some (us @ [mount_entry (map of_char name) f] @ replicate n free_mount)"
proof -
  have c: "cstr (c_str name) = map of_char name" "terminated (c_str name)" using assms(2) by (simp_all add: cstr_c_str) (simp add: c_str_def)
  have n: "256 - length name = Suc (255 - length name)" using assms(3) by simp
  have "take 255 (map of_char name @ replicate 255 0) @ drop 255 (replicate 256 0) = map of_char name @ replicate (256 - length name) (0 :: u8)"
    unfolding n using assms(3) by (simp add: replicate_append_same)
  then have "strncpy (replicate 256 0) (c_str name) 255 = Some (map of_char name @ replicate (256 - length name) 0)"
    using strncpy_eq [OF c(2), of 255 "replicate 256 0"] c(1) by simp
  then show ?thesis using register_loop_used [OF assms(1)] by (simp add: mount_entry_def)
qed

lemma mount_file_systems_table:
  assumes "mount_points v = no_mounts"
  shows "mount_file_systems e m c v = Some (v\<lparr>mount_points :=
    [mount_entry (map of_char ''/mnt'') e, mount_entry (map of_char ''/'') m, mount_entry (map of_char ''/dev/console'') c] @
    replicate 13 free_mount\<rparr>)"
proof -
  let ?e = "mount_entry (map of_char ''/mnt'') e" and ?m = "mount_entry (map of_char ''/'') m"
  have u: "list_all mp_used [?e]" "list_all mp_used [?e, ?m]" by (simp_all add: mount_entry_def)
  have "no_mounts = [] @ replicate (Suc 15) free_mount" by (simp add: no_mounts_def)
  then have 1: "register_loop (c_str ''/mnt'') e no_mounts = Some ([?e] @ replicate (Suc 14) free_mount)"
    using register_loop_free [of "[]" "''/mnt''" e 15] by simp
  have 2: "register_loop (c_str ''/'') m ([?e] @ replicate (Suc 14) free_mount) = Some ([?e, ?m] @ replicate (Suc 13) free_mount)"
    using register_loop_free [OF u(1), of "''/''" m 14] by simp
  have 3: "register_loop (c_str ''/dev/console'') c ([?e, ?m] @ replicate (Suc 13) free_mount) =
      Some ([?e, ?m, mount_entry (map of_char ''/dev/console'') c] @ replicate 13 free_mount)"
    using register_loop_free [OF u(2), of "''/dev/console''" c 13] by simp
  show ?thesis using 1 2 3 assms by (simp only: mount_file_systems_def register_fs_def bind_simps) simp
qed

text \<open>Which file system the table of the start-up gives for a path.\<close>

definition boot_fs :: "u32 \<Rightarrow> u32 \<Rightarrow> u32 \<Rightarrow> u8 list \<Rightarrow> u32 \<times> nat option" where
  "boot_fs e m c s =
     (if take 12 s = map of_char ''/dev/console'' then (c, Some 12)
      else if take 4 s = map of_char ''/mnt'' then (e, Some 4)
      else if take 1 s = map of_char ''/'' then (m, Some 1) else (0, None))"

lemma boot_names3:
  "mount_name (mount_entry (map of_char ''/mnt'') e) = map of_char ''/mnt''"
  "mount_name (mount_entry (map of_char ''/'') e) = map of_char ''/''"
  "mount_name (mount_entry (map of_char ''/dev/console'') e) = map of_char ''/dev/console''"
  "mounts_ok [mount_entry (map of_char ''/mnt'') e, mount_entry (map of_char ''/'') m, mount_entry (map of_char ''/dev/console'') c]"
  "mp_used (mount_entry n e)" "mp_fs (mount_entry n e) = e"
  using mount_entry_simps [of "map of_char ''/mnt''" e] mount_entry_simps [of "map of_char ''/''" e]
    mount_entry_simps [of "map of_char ''/dev/console''" e] mount_entry_simps [of "map of_char ''/''" m]
    mount_entry_simps [of "map of_char ''/dev/console''" c]
  by (simp_all add: mounts_ok_def mount_entry_def)

lemma longest_match_free: "longest_match path (mps @ replicate n free_mount) acc = longest_match path mps acc"
proof (induction mps arbitrary: acc)
  case Nil
  show ?case by (induction n) (simp_all add: matches_def)
qed simp

lemma take_mnt_not_console: "take 12 s = map of_char ''/dev/console'' \<Longrightarrow> take 4 s \<noteq> (map of_char ''/mnt'' :: u8 list)"
proof
  assume a: "take 12 s = (map of_char ''/dev/console'' :: u8 list)" "take 4 s = (map of_char ''/mnt'' :: u8 list)"
  have "take 4 s = take 4 (take 12 s)" by simp
  then show False unfolding a by simp
qed

lemma take_slash:
  "take 12 s = map of_char ''/dev/console'' \<Longrightarrow> take 1 s = (map of_char ''/'' :: u8 list)"
  "take 4 s = map of_char ''/mnt'' \<Longrightarrow> take 1 s = (map of_char ''/'' :: u8 list)"
proof -
  show "take 1 s = (map of_char ''/'' :: u8 list)" if "take 12 s = map of_char ''/dev/console''"
    using arg_cong [OF that, of "take 1"] by simp
  show "take 1 s = (map of_char ''/'' :: u8 list)" if "take 4 s = map of_char ''/mnt''"
    using arg_cong [OF that, of "take 1"] by simp
qed

lemma boot_find_fs:
  assumes "terminated path"
  shows "find_fs path ([mount_entry (map of_char ''/mnt'') e, mount_entry (map of_char ''/'') m,
      mount_entry (map of_char ''/dev/console'') c] @ replicate 13 free_mount) = Some (boot_fs e m c (cstr path))"
proof -
  let ?mps = "[mount_entry (map of_char ''/mnt'') e, mount_entry (map of_char ''/'') m, mount_entry (map of_char ''/dev/console'') c]"
  have ok: "mounts_ok (?mps @ replicate 13 free_mount)" using boot_names3(4) [of e m c] by (simp add: mounts_ok_def list_all_iff)
  have "find_fs path (?mps @ replicate 13 free_mount) = Some (snd (longest_match path ?mps (0, 0, None)))"
    unfolding find_fs_def find_fs_loop_eq [OF assms ok] by (simp only: longest_match_free option.map)
  moreover have "matches path (mount_entry (map of_char ''/mnt'') e) \<longleftrightarrow> take 4 (cstr path) = map of_char ''/mnt''"
      "matches path (mount_entry (map of_char ''/'') m) \<longleftrightarrow> take 1 (cstr path) = map of_char ''/''"
      "matches path (mount_entry (map of_char ''/dev/console'') c) \<longleftrightarrow> take 12 (cstr path) = map of_char ''/dev/console''"
    by (simp_all add: matches_def boot_names3 eval_nat_numeral del: list.map)
  moreover have "length (mount_name (mount_entry (map of_char ''/mnt'') e)) = 4" "length (mount_name (mount_entry (map of_char ''/'') m)) = 1"
      "length (mount_name (mount_entry (map of_char ''/dev/console'') c)) = 12"
    by (simp_all add: boot_names3 del: list.map)
  ultimately show ?thesis
    using take_slash [of "cstr path"] take_mnt_not_console [of "cstr path"]
    by (simp add: boot_fs_def boot_names3(6) del: list.map)
qed

lemma boot_open:
  assumes "mount_points v = [mount_entry (map of_char ''/mnt'') e, mount_entry (map of_char ''/'') m,
      mount_entry (map of_char ''/dev/console'') c] @ replicate 13 free_mount"
    and "F c = console_fs" and "c \<noteq> 0" and "g_console_device (objects v) = 0" and "km_kmalloc (kmem (vkernel v)) 1036 = Some (dev, mm)"
  shows "vfs_open F (c_str ''/dev/console'') v =
    Some (dev, v\<lparr>vkernel := (vkernel v)\<lparr>kmem := mm\<rparr>, objects := (objects v)\<lparr>g_console_device := dev\<rparr>\<rparr>)"
proof -
  have path: "terminated (c_str ''/dev/console'')" "cstr (c_str ''/dev/console'') = map of_char ''/dev/console''"
    by (simp_all add: cstr_c_str) (simp add: c_str_def)
  have "find_fs (c_str ''/dev/console'') (mount_points v) = Some (c, Some 12)"
    unfolding assms(1) boot_find_fs [OF path(1)] path(2) by (simp add: boot_fs_def)
  then show ?thesis using assms(2-5) by (simp add: vfs_open_def on_path_def on_objects_def console_fs_def operator_new_def)
qed

text \<open>
  C22. After start-up the console is the standard input and output of the kernel's context, which the
  first process inherits: entries 0, 1 and 2 of its table of descriptors are the one console
  device, the greeting went to the screen, and a path leads to the console, the disk or the
  memory file system by the longest mount point it begins with.
\<close>

theorem boot_console:
  assumes "mount_points v = no_mounts" and "F c = console_fs" and "c \<noteq> 0" and "g_console_device (objects v) = 0"
    and "alloc_Context (vkernel v) = Some (ctx, k)" and "operator_new 1036 k = Some (dev, k2)" and "dev \<noteq> 0"
    and "G dev = console_descriptor P" and "screen_ok (ob_console (objects v))" and "currentColor (ob_console (objects v)) = colour"
  shows "\<exists>v1 v2. mount_file_systems e m c v = Some v1 \<and> initialize_kernel_context F G v1 = Some (0, v2) \<and>
    kernel_context (vkernel v2) = ctx \<and> take 3 (fd_table (context_at (vkernel v2) ctx)) = [dev, dev, dev] \<and>
    screen_of v2 = fold (show_char colour) (map of_char ''hello-world\<newline>'') (screen_of v) \<and> screen_ok (ob_console (objects v2)) \<and>
    (terminated path \<longrightarrow> find_fs path (mount_points v2) = Some (boot_fs e m c (cstr path)))"
proof -
  let ?mps = "[mount_entry (map of_char ''/mnt'') e, mount_entry (map of_char ''/'') m, mount_entry (map of_char ''/dev/console'') c] @
    replicate 13 free_mount"
  define k1 where "k1 = k\<lparr>kernel_context := ctx, context_at := (context_at k)
    (ctx := (context_at k ctx)\<lparr>user_mm := um_init (user_mm (context_at k ctx)) 0x400000 0xC0400000 page_alloc page_free phys2Virt\<rparr>)\<rparr>"
  have ctx: "ctx \<noteq> 0" "context_at k ctx = new_Context"
    using assms(5) by (auto simp: alloc_Context_def upd_context_def bind_eq_Some_conv split: if_splits)
  obtain mm where mm: "km_kmalloc (kmem k) 1036 = Some (dev, mm)" using assms(6) by (auto simp: operator_new_def bind_eq_Some_conv)
  define ob where "ob = (objects v)\<lparr>g_console_device := dev\<rparr>"
  define v1 where "v1 = v\<lparr>mount_points := ?mps\<rparr>"
  have open': "vfs_open F (c_str ''/dev/console'') (v1\<lparr>vkernel := k1\<rparr>) =
      Some (dev, v1\<lparr>vkernel := k1\<lparr>kmem := mm\<rparr>, objects := ob\<rparr>)"
    using boot_open [of "v1\<lparr>vkernel := k1\<rparr>" e m c F dev mm] assms(2-4) mm by (simp add: k1_def v1_def ob_def)
  obtain r c' h where w: "fd_write (G dev) (c_str ''hello-world\<newline>'') 12 (k1\<lparr>kmem := mm\<rparr>, ob) =
        Some (r, k1\<lparr>kmem := mm\<rparr>, ob\<lparr>ob_console := c', ob_hw := h\<rparr>)" "screen_ok c'"
      "tty_of c' = fold (show_char colour) (take 12 (c_str ''hello-world\<newline>'')) (tty_of (ob_console ob))"
    using console_fd_write [of ob colour 12 "c_str ''hello-world\<newline>''" P "k1\<lparr>kmem := mm\<rparr>"] assms(8-10)
    by (auto simp: ob_def c_str_def)
  define v2 where "v2 = v1\<lparr>vkernel := k1\<lparr>kmem := mm, context_at := (context_at k1)
      (ctx := (context_at k1 ctx)\<lparr>fd_table := (fd_table (context_at k1 ctx))[0 := dev, 1 := dev, 2 := dev]\<rparr>)\<rparr>,
      objects := ob\<lparr>ob_console := c', ob_hw := h\<rparr>\<rparr>"
  have i: "initialize_kernel_context F G v1 = Some (0, v2)"
  proof -
    have "vkernel v1 = vkernel v" by (simp add: v1_def)
    moreover have "upd_context ctx (\<lambda>x. x\<lparr>user_mm := um_init (user_mm x) 0x400000 0xC0400000 page_alloc page_free phys2Virt\<rparr>)
        (k\<lparr>kernel_context := ctx\<rparr>) = Some k1"
      using ctx(1) by (simp add: upd_context_def k1_def)
    ultimately show ?thesis using assms(5,7) ctx(1) open' w(1)
      by (simp add: initialize_kernel_context_def on_objects_def upd_context_def v2_def)
  qed
  have "replicate 256 0 = [0, 0, 0] @ replicate 253 (0 :: u32)" by (simp add: numeral_eq_Suc)
  then have "take 3 ((replicate 256 0)[0 := dev, 1 := dev, 2 := dev]) = [dev, dev, dev]" by (simp add: numeral_eq_Suc)
  then have f: "take 3 (fd_table (context_at (vkernel v2) ctx)) = [dev, dev, dev]" "kernel_context (vkernel v2) = ctx"
    using ctx(2) by (simp_all add: v2_def k1_def new_Context_def)
  have s: "screen_of v2 = fold (show_char colour) (map of_char ''hello-world\<newline>'') (screen_of v)" "screen_ok (ob_console (objects v2))"
    using w by (simp_all add: v2_def screen_of_def ob_def c_str_def)
  have p: "terminated path \<longrightarrow> find_fs path (mount_points v2) = Some (boot_fs e m c (cstr path))"
    using boot_find_fs [of path e m c] by (simp only: v2_def v1_def) simp
  have mt: "mount_file_systems e m c v = Some v1" using mount_file_systems_table [OF assms(1)] by (simp only: v1_def)
  show ?thesis by (rule exI [of _ v1], rule exI [of _ v2], intro conjI) (rule mt i f s p)+
qed

text \<open>A kernel whose free objects are linked, and a system before anything is mounted.\<close>

definition boot_kernel :: Kernel where
  "boot_kernel = (let k = vkernel cat_vfs; a = slab_allocator (kmem k) in
     k\<lparr>kmem := (kmem k)\<lparr>slab_allocator := a\<lparr>heap := (heap a)\<lparr>obj_next := (\<lambda>p. p + 0x400)\<rparr>\<rparr>\<rparr>\<rparr>)"

definition boot_vfs :: "unit Objects Vfs" where
  "boot_vfs = cat_vfs\<lparr>vkernel := boot_kernel, mount_points := no_mounts, objects := (objects cat_vfs)\<lparr>g_console_device := 0\<rparr>\<rparr>"

lemma boot_vfs_memory:
  "\<exists>k k2. alloc_Context (vkernel boot_vfs) = Some (0xC0009020, k) \<and> operator_new 1036 k = Some (0xC0009420, k2)"
  by (simp add: boot_vfs_def boot_kernel_def cat_vfs_def dir_vfs_def task_vfs_def alloc_Context_def operator_new_def km_kmalloc_def
      on_slab_def fs_memory_def switch_kernel_def kmap_memory_def kmalloc_def get_general_cache_def cache_alloc_def
      take_object_def upd_slab_def upd_context_def Let_def)

theorem boot_console_witness:
  "\<exists>v1 v2. mount_file_systems 0x100 0x200 0x300 boot_vfs = Some v1 \<and>
    initialize_kernel_context (\<lambda>_. console_fs) (\<lambda>_. console_descriptor silent_ports) v1 = Some (0, v2) \<and>
    screen_of v2 = fold (show_char 7) (map of_char ''hello-world\<newline>'') (screen_of boot_vfs) \<and>
    find_fs [0x2F, 0x61, 0] (mount_points v2) = Some (0x200, Some 1)"
proof -
  obtain k k2 where k: "alloc_Context (vkernel boot_vfs) = Some (0xC0009020, k)" "operator_new 1036 k = Some (0xC0009420, k2)"
    using boot_vfs_memory by blast
  have b: "mount_points boot_vfs = no_mounts" "g_console_device (objects boot_vfs) = 0" "screen_ok (ob_console (objects boot_vfs))"
      "currentColor (ob_console (objects boot_vfs)) = 7"
    by (simp_all add: boot_vfs_def cat_vfs_def screen_ok_def)
  have "boot_fs 0x100 0x200 0x300 (cstr [0x2F, 0x61, 0]) = (0x200, Some 1)" by (simp add: boot_fs_def)
  then show ?thesis
    using boot_console [OF b(1) _ _ b(2) k _ _ b(3,4), of "\<lambda>_. console_fs" "0x300" "\<lambda>_. console_descriptor silent_ports"
        silent_ports "0x100" "0x200" "[0x2F, 0x61, 0]"]
    by auto
qed

end
