(* ===== verification/SpinLock.thy ===== *)
theory SpinLock
  imports Prelude
begin

text \<open>
  The spin lock, \<open>include/arch/x86/spinlock.h\<close>: its atomic operations, the forms that save and restore
  the interrupt flag, and the interleavings of any number of processors that use one lock.
\<close>

section \<open>The lock\<close>

record SpinLock =
  locked :: u8

abbreviation (input) new_SpinLock :: SpinLock where "new_SpinLock \<equiv> \<lparr>locked = 0\<rparr>"

text \<open>Assignment gives up the lock, unless the two are the same object.\<close>

definition assign_SpinLock :: "bool \<Rightarrow> SpinLock \<Rightarrow> SpinLock" where
  "assign_SpinLock same l = (if same then l else l\<lparr>locked := 0\<rparr>)"

text \<open>One round of the loop of \<open>acquire\<close>: whether the loop ends, and the lock.\<close>

definition acquire_round :: "SpinLock \<Rightarrow> bool \<times> SpinLock" where
  "acquire_round l = (locked l = 0, l\<lparr>locked := 1\<rparr>)"

definition release :: "SpinLock \<Rightarrow> SpinLock" where
  "release l = l\<lparr>locked := 0\<rparr>"

text \<open>
  The flags register of a processor; bit 9 enables interrupts. What \<open>acquire_irqsave\<close> does
  before the loop: the flags it hands to the caller, and the register.
\<close>

abbreviation (input) IF :: u32 where "IF \<equiv> 0x200"

definition irqsave :: "u32 \<Rightarrow> u32 \<times> u32" where
  "irqsave eflags = (eflags, eflags AND NOT IF)"

definition release_irqrestore :: "u32 \<Rightarrow> SpinLock \<Rightarrow> SpinLock \<times> u32" where
  "release_irqrestore flags l = (release l, flags)"

section \<open>Processors\<close>

text \<open>
  A processor is outside, in the loop of \<open>acquire\<close>, or inside the section the lock protects; \<open>saved\<close>
  holds the flags if it came through \<open>acquire_irqsave\<close>.
\<close>

datatype place = Outside | Spinning | Inside

record Processor =
  place :: place
  eflags :: u32
  saved :: "u32 option"

record SpinSystem =
  the_lock :: SpinLock
  processors :: "nat \<Rightarrow> Processor"

text \<open>
  One step of one processor: the call of either form, a round of the loop, the matching
  release, and, outside, any change of the flags.
\<close>

inductive spin_step :: "SpinSystem \<Rightarrow> SpinSystem \<Rightarrow> bool" where
  call: "processors s c = p \<Longrightarrow> place p = Outside \<Longrightarrow>
    spin_step s (s\<lparr>processors := (processors s)(c := p\<lparr>place := Spinning, saved := None\<rparr>)\<rparr>)"
| call_irqsave: "processors s c = p \<Longrightarrow> place p = Outside \<Longrightarrow> irqsave (eflags p) = (flags, e) \<Longrightarrow>
    spin_step s (s\<lparr>processors := (processors s)(c := p\<lparr>place := Spinning, eflags := e, saved := Some flags\<rparr>)\<rparr>)"
| spin: "processors s c = p \<Longrightarrow> place p = Spinning \<Longrightarrow> acquire_round (the_lock s) = (done, l) \<Longrightarrow>
    spin_step s (s\<lparr>the_lock := l, processors := (processors s)(c := p\<lparr>place := if done then Inside else Spinning\<rparr>)\<rparr>)"
| leave: "processors s c = p \<Longrightarrow> place p = Inside \<Longrightarrow> saved p = None \<Longrightarrow>
    spin_step s (s\<lparr>the_lock := release (the_lock s), processors := (processors s)(c := p\<lparr>place := Outside\<rparr>)\<rparr>)"
| leave_irqrestore: "processors s c = p \<Longrightarrow> place p = Inside \<Longrightarrow> saved p = Some flags \<Longrightarrow>
    release_irqrestore flags (the_lock s) = (l, e) \<Longrightarrow>
    spin_step s (s\<lparr>the_lock := l, processors := (processors s)(c := p\<lparr>place := Outside, eflags := e, saved := None\<rparr>)\<rparr>)"
| set_flags: "processors s c = p \<Longrightarrow> place p = Outside \<Longrightarrow>
    spin_step s (s\<lparr>processors := (processors s)(c := p\<lparr>eflags := e\<rparr>)\<rparr>)"

definition spin_start :: "SpinSystem \<Rightarrow> bool" where
  "spin_start s \<longleftrightarrow> the_lock s = new_SpinLock \<and> (\<forall>c. place (processors s c) = Outside)"

section \<open>Mutual exclusion\<close>

text \<open>
  The lock is taken exactly when one processor is inside, and a processor that saved its
  flags has interrupts disabled until it gives the lock back.
\<close>

definition spin_inv :: "SpinSystem \<Rightarrow> bool" where
  "spin_inv s \<longleftrightarrow>
     (\<forall>c d. c \<noteq> d \<and> place (processors s c) = Inside \<longrightarrow> place (processors s d) \<noteq> Inside) \<and>
     (locked (the_lock s) \<noteq> 0 \<longleftrightarrow> (\<exists>c. place (processors s c) = Inside)) \<and>
     (\<forall>c. place (processors s c) \<noteq> Outside \<and> saved (processors s c) \<noteq> None \<longrightarrow> eflags (processors s c) AND IF = 0)"

lemma spin_inv_start: "spin_start s \<Longrightarrow> spin_inv s"
  by (simp add: spin_start_def spin_inv_def)

lemma cleared_IF: "((x :: u32) AND - 513) AND IF = 0"
  by (simp add: and.assoc)

lemma ex_fun_upd:
  "(\<exists>d. place ((f(c := q)) d) = Inside) \<longleftrightarrow> place q = Inside \<or> (\<exists>d. d \<noteq> c \<and> place (f d) = Inside)"
proof
  assume "\<exists>d. place ((f(c := q)) d) = Inside"
  then obtain d where "place ((f(c := q)) d) = Inside" ..
  then show "place q = Inside \<or> (\<exists>d. d \<noteq> c \<and> place (f d) = Inside)"
    by (cases "d = c") auto
next
  assume "place q = Inside \<or> (\<exists>d. d \<noteq> c \<and> place (f d) = Inside)"
  then show "\<exists>d. place ((f(c := q)) d) = Inside"
    by (metis fun_upd_apply)
qed

text \<open>The parts of the invariant after an update of one processor.\<close>

lemma spin_inv_upd:
  assumes "spin_inv s"
    and "place q = Inside \<Longrightarrow> \<forall>d. d \<noteq> c \<longrightarrow> place (processors s d) \<noteq> Inside"
    and "locked l \<noteq> 0 \<longleftrightarrow> place q = Inside \<or> (\<exists>d. d \<noteq> c \<and> place (processors s d) = Inside)"
    and "place q \<noteq> Outside \<Longrightarrow> saved q \<noteq> None \<Longrightarrow> eflags q AND IF = 0"
  shows "spin_inv (s\<lparr>the_lock := l, processors := (processors s)(c := q)\<rparr>)"
proof -
  have exclusive: "c \<noteq> d \<Longrightarrow> place (processors s c) = Inside \<Longrightarrow> place (processors s d) \<noteq> Inside" for c d
    using assms(1) unfolding spin_inv_def by blast
  let ?f = "(processors s)(c := q)"
  have one: "c' \<noteq> d' \<and> place (?f c') = Inside \<longrightarrow> place (?f d') \<noteq> Inside" for c' d'
    using exclusive [of c' d'] assms(2) by (cases "c' = c"; cases "d' = c") auto
  have two: "locked l \<noteq> 0 \<longleftrightarrow> (\<exists>d. place (?f d) = Inside)"
    using assms(3) unfolding ex_fun_upd .
  have three: "place (?f d) \<noteq> Outside \<and> saved (?f d) \<noteq> None \<longrightarrow> eflags (?f d) AND IF = 0" for d
    using assms(1,4) unfolding spin_inv_def by (cases "d = c") simp_all
  have fields: "the_lock (s\<lparr>the_lock := l, processors := ?f\<rparr>) = l" "processors (s\<lparr>the_lock := l, processors := ?f\<rparr>) = ?f"
    by simp_all
  show ?thesis
    unfolding spin_inv_def fields by (intro conjI allI one two three)
qed

lemma spin_inv_lock:
  assumes "spin_inv s" "place (processors s c) \<noteq> Inside"
  shows "locked (the_lock s) \<noteq> 0 \<longleftrightarrow> (\<exists>d. d \<noteq> c \<and> place (processors s d) = Inside)"
proof -
  have "locked (the_lock s) \<noteq> 0 \<longleftrightarrow> (\<exists>d. place (processors s d) = Inside)"
    using assms(1) by (simp add: spin_inv_def)
  with assms(2) show ?thesis
    by metis
qed

lemma spin_inv_alone:
  "spin_inv s \<Longrightarrow> place (processors s c) = Inside \<Longrightarrow> d \<noteq> c \<Longrightarrow> place (processors s d) \<noteq> Inside"
  unfolding spin_inv_def by blast

lemma spin_inv_irq:
  "spin_inv s \<Longrightarrow> place (processors s c) \<noteq> Outside \<Longrightarrow> saved (processors s c) \<noteq> None \<Longrightarrow>
   eflags (processors s c) AND IF = 0"
  by (simp add: spin_inv_def)

lemma spin_inv_upd_same:
  assumes "spin_inv s" "place (processors s c) \<noteq> Inside" "place q \<noteq> Inside"
    and "place q \<noteq> Outside \<Longrightarrow> saved q \<noteq> None \<Longrightarrow> eflags q AND IF = 0"
  shows "spin_inv (s\<lparr>processors := (processors s)(c := q)\<rparr>)"
  using spin_inv_upd [of s q c "the_lock s"] assms spin_inv_lock [of s c] by simp

lemma spin_inv_step: "spin_step s s' \<Longrightarrow> spin_inv s \<Longrightarrow> spin_inv s'"
proof (induction rule: spin_step.induct)
  case (call s c p)
  then show ?case
    by (intro spin_inv_upd_same) simp_all
next
  case (call_irqsave s c p flags e)
  then show ?case
    by (intro spin_inv_upd_same) (auto simp: irqsave_def cleared_IF)
next
  case (spin s c p finished l)
  then have l: "finished \<longleftrightarrow> locked (the_lock s) = 0" "locked l = 1"
    by (auto simp: acquire_round_def)
  have others: "finished \<longleftrightarrow> \<not> (\<exists>d. d \<noteq> c \<and> place (processors s d) = Inside)"
    using spin_inv_lock [OF spin.prems, of c] spin.hyps(1,2) l(1) by auto
  show ?case
    using spin_inv_irq [OF spin.prems, of c] spin.hyps l(2) others
    by (intro spin_inv_upd [OF spin.prems]) (auto split: if_splits)
next
  case (leave s c p)
  then show ?case
    using spin_inv_alone [of s c] by (intro spin_inv_upd) (auto simp: release_def)
next
  case (leave_irqrestore s c p flags l e)
  then show ?case
    using spin_inv_alone [of s c] by (intro spin_inv_upd) (auto simp: release_def release_irqrestore_def)
next
  case (set_flags s c p e)
  then show ?case
    by (intro spin_inv_upd_same) simp_all
qed

lemma spin_inv_reachable: "spin_step\<^sup>*\<^sup>* s s' \<Longrightarrow> spin_inv s \<Longrightarrow> spin_inv s'"
  by (induction rule: rtranclp_induct) (auto intro: spin_inv_step)

text \<open>A processor in the loop enters at its next round exactly when nobody is inside.\<close>

lemma spin_round_enters:
  assumes "spin_inv s" "place (processors s c) = Spinning"
  shows "\<exists>s'. spin_step s s' \<and>
    (place (processors s' c) = Inside \<longleftrightarrow> (\<forall>d. place (processors s d) \<noteq> Inside))"
proof -
  let ?s = "s\<lparr>the_lock := snd (acquire_round (the_lock s)), processors := (processors s)
    (c := (processors s c)\<lparr>place := if fst (acquire_round (the_lock s)) then Inside else Spinning\<rparr>)\<rparr>"
  have "spin_step s ?s"
    by (rule spin_step.spin [OF refl assms(2) prod.collapse [symmetric]])
  moreover have "locked (the_lock s) = 0 \<longleftrightarrow> (\<forall>d. place (processors s d) \<noteq> Inside)"
    using assms(1) unfolding spin_inv_def by blast
  then have "place (processors ?s c) = Inside \<longleftrightarrow> (\<forall>d. place (processors s d) \<noteq> Inside)"
    by (simp add: acquire_round_def)
  ultimately show ?thesis
    by (intro exI [of _ ?s] conjI)
qed

text \<open>
  C21. However any number of processors interleave their calls of \<open>acquire\<close>, \<open>acquire_irqsave\<close>, the rounds of the
  loop and the matching releases, from a new lock: at most one processor is inside the section
  the lock protects, the lock's byte is nonzero exactly while one is, a processor that took the lock with
  \<open>acquire_irqsave\<close> has interrupts disabled until it releases it, and a waiting processor's next
  round takes the lock exactly when no processor is inside.
\<close>

theorem spin_exclusion:
  assumes "spin_start s" and "spin_step\<^sup>*\<^sup>* s s'"
  shows "(c \<noteq> d \<and> place (processors s' c) = Inside \<longrightarrow> place (processors s' d) \<noteq> Inside) \<and>
    (locked (the_lock s') \<noteq> 0 \<longleftrightarrow> (\<exists>c. place (processors s' c) = Inside)) \<and>
    (place (processors s' c) \<noteq> Outside \<and> saved (processors s' c) \<noteq> None \<longrightarrow> eflags (processors s' c) AND IF = 0) \<and>
    (place (processors s' c) = Spinning \<longrightarrow> (\<exists>s''. spin_step s' s'' \<and>
      (place (processors s'' c) = Inside \<longleftrightarrow> (\<forall>d. place (processors s' d) \<noteq> Inside))))"
proof -
  have inv: "spin_inv s'"
    using spin_inv_start [OF assms(1)] spin_inv_reachable [OF assms(2)] by blast
  show ?thesis
    using inv spin_round_enters [OF inv, of c] unfolding spin_inv_def by blast
qed

text \<open>Two processors, the first of which has taken the lock with interrupts disabled.\<close>

definition idle_system :: SpinSystem where
  "idle_system = \<lparr>the_lock = new_SpinLock, processors = (\<lambda>c. \<lparr>place = Outside, eflags = 0x202, saved = None\<rparr>)\<rparr>"

definition taken_system :: SpinSystem where
  "taken_system = \<lparr>the_lock = \<lparr>locked = 1\<rparr>,
     processors = (\<lambda>c. \<lparr>place = Outside, eflags = 0x202, saved = None\<rparr>)(0 := \<lparr>place = Inside, eflags = 2, saved = Some 0x202\<rparr>)\<rparr>"

lemma taken_reachable: "spin_step\<^sup>*\<^sup>* idle_system taken_system"
proof -
  let ?p = "\<lparr>place = Outside, eflags = 0x202, saved = None\<rparr>"
  let ?t = "idle_system\<lparr>processors := (processors idle_system)(0 := ?p\<lparr>place := Spinning, eflags := 2, saved := Some 0x202\<rparr>)\<rparr>"
  have "spin_step idle_system ?t"
    by (rule spin_step.call_irqsave) (simp_all add: idle_system_def irqsave_def)
  moreover have "spin_step ?t taken_system"
    using spin_step.spin [of ?t 0 _ True "\<lparr>locked = 1\<rparr>", OF refl]
    by (simp add: idle_system_def taken_system_def acquire_round_def)
  ultimately show ?thesis
    by (meson converse_rtranclp_into_rtranclp r_into_rtranclp)
qed

theorem spin_exclusion_witness:
  "spin_start idle_system \<and> spin_step\<^sup>*\<^sup>* idle_system taken_system \<and>
   place (processors taken_system 0) = Inside \<and> eflags (processors taken_system 0) AND IF = 0"
proof -
  have start: "spin_start idle_system"
    by (simp add: spin_start_def idle_system_def)
  have inside: "place (processors taken_system 0) = Inside" "saved (processors taken_system 0) \<noteq> None"
    by (simp_all add: taken_system_def)
  show ?thesis
    using spin_exclusion [OF start taken_reachable, of 0 0] start taken_reachable inside by simp
qed

end
