(* ===== verification/Queue.thy ===== *)
theory Queue
  imports Prelude
begin

text \<open>
  The contract of a bounded first-in first-out queue whose requests may be malformed
  (a request is turned into the entry that is stored), with the lemma its clients use: a
  run of operations gives the results of the same run on a plain list. Below it the index
  arithmetic of a ring of \<open>N\<close> slots that leaves one slot free.
\<close>

section \<open>The contract\<close>

datatype 'm queue_op = Enqueue 'm | Dequeue

datatype 'e queue_result = Accepted bool | Taken "'e option"

text \<open>The specification: a list of at most \<open>cap\<close> entries.\<close>

fun fifo_run :: "nat \<Rightarrow> ('m \<Rightarrow> 'e) \<Rightarrow> 'e list \<Rightarrow> 'm queue_op list \<Rightarrow> 'e queue_result list \<times> 'e list" where
  "fifo_run cap entry q [] = ([], q)"
| "fifo_run cap entry q (Enqueue m # ops) =
     (let (rs, q') = fifo_run cap entry (if length q < cap then q @ [entry m] else q) ops
      in (Accepted (length q < cap) # rs, q'))"
| "fifo_run cap entry q (Dequeue # ops) =
     (let (rs, q') = fifo_run cap entry (drop 1 q) ops
      in (Taken (if q = [] then None else Some (hd q)) # rs, q'))"

fun queue_run ::
  "('s \<Rightarrow> 'm \<Rightarrow> (bool \<times> 's) option) \<Rightarrow> ('s \<Rightarrow> ('e option \<times> 's) option) \<Rightarrow> 's \<Rightarrow> 'm queue_op list \<Rightarrow>
   ('e queue_result list \<times> 's) option" where
  "queue_run enq deq s [] = Some ([], s)"
| "queue_run enq deq s (Enqueue m # ops) =
     do { (b, s1) \<leftarrow> enq s m; (rs, s2) \<leftarrow> queue_run enq deq s1 ops; Some (Accepted b # rs, s2) }"
| "queue_run enq deq s (Dequeue # ops) =
     do { (r, s1) \<leftarrow> deq s; (rs, s2) \<leftarrow> queue_run enq deq s1 ops; Some (Taken r # rs, s2) }"

primrec op_ok :: "('m \<Rightarrow> bool) \<Rightarrow> 'm queue_op \<Rightarrow> bool" where
  "op_ok valid (Enqueue m) = valid m"
| "op_ok valid Dequeue = True"

locale bounded_queue =
  fixes enq :: "'s \<Rightarrow> 'm \<Rightarrow> (bool \<times> 's) option"
    and deq :: "'s \<Rightarrow> ('e option \<times> 's) option"
    and items :: "'s \<Rightarrow> 'e list"
    and inv :: "'s \<Rightarrow> bool"
    and valid :: "'m \<Rightarrow> bool"
    and entry :: "'m \<Rightarrow> 'e"
    and cap :: nat
  assumes enq_spec: "inv s \<Longrightarrow> valid m \<Longrightarrow>
      \<exists>s'. enq s m = Some (length (items s) < cap, s') \<and> inv s' \<and>
        items s' = (if length (items s) < cap then items s @ [entry m] else items s)"
    and deq_spec: "inv s \<Longrightarrow>
      \<exists>s'. deq s = Some (if items s = [] then None else Some (hd (items s)), s') \<and> inv s' \<and>
        items s' = drop 1 (items s)"
begin

lemma run_refines:
  assumes "inv s" and "list_all (op_ok valid) ops"
  shows "\<exists>s'. queue_run enq deq s ops = Some (fst (fifo_run cap entry (items s) ops), s') \<and>
    inv s' \<and> items s' = snd (fifo_run cap entry (items s) ops)"
  using assms
proof (induction ops arbitrary: s)
  case (Cons op ops)
  then show ?case
  proof (cases op)
    case (Enqueue m)
    then obtain s1 where s1: "enq s m = Some (length (items s) < cap, s1)" "inv s1"
      "items s1 = (if length (items s) < cap then items s @ [entry m] else items s)"
      using enq_spec Cons.prems by fastforce
    from Cons.IH [OF s1(2)] Cons.prems obtain s2 where
      "queue_run enq deq s1 ops = Some (fst (fifo_run cap entry (items s1) ops), s2)" "inv s2"
      "items s2 = snd (fifo_run cap entry (items s1) ops)" by auto
    then show ?thesis using s1 Enqueue by (simp add: case_prod_beta)
  next
    case Dequeue
    then obtain s1 where s1: "deq s = Some (if items s = [] then None else Some (hd (items s)), s1)" "inv s1"
      "items s1 = drop 1 (items s)"
      using deq_spec Cons.prems by blast
    from Cons.IH [OF s1(2)] Cons.prems obtain s2 where
      "queue_run enq deq s1 ops = Some (fst (fifo_run cap entry (items s1) ops), s2)" "inv s2"
      "items s2 = snd (fifo_run cap entry (items s1) ops)" by auto
    then show ?thesis using s1 Dequeue by (simp add: case_prod_beta)
  qed
qed simp

end

section \<open>Rings\<close>

definition ring_count :: "nat \<Rightarrow> nat \<Rightarrow> nat \<Rightarrow> nat" where
  "ring_count N h t = (if h \<le> t then t - h else N - h + t)"

definition ring_items :: "nat \<Rightarrow> 'a list \<Rightarrow> nat \<Rightarrow> nat \<Rightarrow> 'a list" where
  "ring_items N b h t = map (\<lambda>k. b ! ((h + k) mod N)) [0..<ring_count N h t]"

lemma length_ring_items [simp]: "length (ring_items N b h t) = ring_count N h t"
  by (simp add: ring_items_def)

lemma ring_count_bound: "h < N \<Longrightarrow> t < N \<Longrightarrow> ring_count N h t < N"
  by (auto simp: ring_count_def)

lemma ring_empty_iff: "h < N \<Longrightarrow> t < N \<Longrightarrow> ring_count N h t = 0 \<longleftrightarrow> h = t"
  by (auto simp: ring_count_def)

lemma ring_full_iff: "h < N \<Longrightarrow> t < N \<Longrightarrow> Suc t mod N = h \<longleftrightarrow> ring_count N h t = N - 1"
  by (cases "Suc t = N") (auto simp: ring_count_def)

lemma ring_pos:
  assumes "h < N" and "t < N" and "k \<le> ring_count N h t"
  shows "(h + k) mod N = t \<longleftrightarrow> k = ring_count N h t"
proof (cases "h + k < N")
  case True
  then show ?thesis using assms by (auto simp: ring_count_def split: if_splits)
next
  case False
  then have "(h + k) mod N = h + k - N"
    using assms ring_count_bound [of h N t] by (simp add: le_mod_geq)
  then show ?thesis using False assms by (auto simp: ring_count_def split: if_splits)
qed

lemma ring_count_push:
  "h < N \<Longrightarrow> t < N \<Longrightarrow> ring_count N h t < N - 1 \<Longrightarrow> ring_count N h (Suc t mod N) = Suc (ring_count N h t)"
  by (cases "Suc t = N") (auto simp: ring_count_def split: if_splits)

lemma ring_count_pop:
  "h < N \<Longrightarrow> t < N \<Longrightarrow> h \<noteq> t \<Longrightarrow> Suc (ring_count N (Suc h mod N) t) = ring_count N h t"
  by (cases "Suc h = N") (auto simp: ring_count_def split: if_splits)

lemma ring_push:
  assumes "h < N" and "t < N" and "length b = N" and "ring_count N h t < N - 1"
  shows "ring_items N (b[t := x]) h (Suc t mod N) = ring_items N b h t @ [x]"
proof -
  let ?n = "ring_count N h t"
  have "b[t := x] ! ((h + k) mod N) = b ! ((h + k) mod N)" if "k < ?n" for k
    using ring_pos [OF assms(1,2), of k] that by simp
  moreover have "(h + ?n) mod N = t" using ring_pos [OF assms(1,2), of ?n] by simp
  ultimately show ?thesis
    unfolding ring_items_def ring_count_push [OF assms(1,2,4)] using assms(2,3) by simp
qed

lemma ring_pop:
  assumes "h < N" and "t < N" and "h \<noteq> t"
  shows "ring_items N b h t = b ! h # ring_items N b (Suc h mod N) t"
proof -
  have m: "(Suc h mod N + k) mod N = (h + Suc k) mod N" for k by (simp add: mod_add_left_eq)
  show ?thesis
    unfolding ring_items_def ring_count_pop [OF assms, symmetric] upt_conv_Cons [OF zero_less_Suc] m
    using assms(1) by (simp add: map_Suc_upt [symmetric] comp_def del: upt_Suc)
qed

end
