(* ===== verification/LogBuffer.thy ===== *)
theory LogBuffer
  imports Queue CString
begin

text \<open>
  The log buffer, \<open>lib/log_buffer.cpp\<close>: a ring of 4096 messages between the code that logs
  and the consumer thread. The processor number and the tick count come from outside and
  are arguments. The spin lock around every operation makes it atomic and is left out;
  the consumer thread is given by one round of its loop, with the strings it sends to the
  console and to the serial line.
\<close>

section \<open>State\<close>

abbreviation (input) LOG_BUFFER_SIZE :: nat where "LOG_BUFFER_SIZE \<equiv> 4096"

abbreviation (input) MAX_LOG_MESSAGE_SIZE :: nat where "MAX_LOG_MESSAGE_SIZE \<equiv> 512"

abbreviation LOG_ERR :: u32 where
  "LOG_ERR \<equiv> 3"

record LogMessage =
  cpu_id :: u32
  timestamp :: u32
  level :: u32
  message :: "u8 list"

record LogBuffer =
  buffer :: "LogMessage list"
  head :: u32
  tail :: u32
  consumer_running :: bool

record LogOutput =
  console_out :: "u8 list list"
  serial_out :: "u8 list list"

section \<open>Operations\<close>

text \<open>The new object of \<open>get_instance\<close>, whose buffer holds arbitrary messages.\<close>

definition new_LogBuffer :: "LogMessage list \<Rightarrow> LogBuffer" where
  "new_LogBuffer b = \<lparr>buffer = b, head = 0, tail = 0, consumer_running = False\<rparr>"

definition lb_init :: "LogBuffer \<Rightarrow> LogBuffer" where
  "lb_init lb = lb\<lparr>head := 0, tail := 0, consumer_running := False\<rparr>"

definition is_empty :: "LogBuffer \<Rightarrow> bool" where
  "is_empty lb \<longleftrightarrow> head lb = tail lb"

definition is_full :: "LogBuffer \<Rightarrow> bool" where
  "is_full lb \<longleftrightarrow> (tail lb + 1) mod of_nat LOG_BUFFER_SIZE = head lb"

text \<open>A request: level, message (\<open>None\<close> for null), processor and tick count.\<close>

type_synonym log_request = "u32 \<times> u8 list option \<times> u32 \<times> u32"

fun enqueue :: "LogBuffer \<Rightarrow> log_request \<Rightarrow> (bool \<times> LogBuffer) option" where
  "enqueue lb (lv, None, cpu, ticks) = Some (False, lb)"
| "enqueue lb (lv, Some msg, cpu, ticks) =
     (if is_full lb then Some (False, lb)
      else do { m \<leftarrow> arr_get (buffer lb) (unat (tail lb));
                s \<leftarrow> strncpy (message m) msg (MAX_LOG_MESSAGE_SIZE - 1);
                s \<leftarrow> arr_set s (MAX_LOG_MESSAGE_SIZE - 1) 0;
                b \<leftarrow> arr_set (buffer lb) (unat (tail lb))
                      (m\<lparr>cpu_id := cpu, timestamp := ticks, level := lv, message := s\<rparr>);
                Some (True, lb\<lparr>buffer := b, tail := (tail lb + 1) mod of_nat LOG_BUFFER_SIZE\<rparr>) })"

text \<open>\<open>dequeue\<close> writes the message to its argument and returns whether there was one.\<close>

definition dequeue :: "LogBuffer \<Rightarrow> (LogMessage option \<times> LogBuffer) option" where
  "dequeue lb =
     (if is_empty lb then Some (None, lb)
      else do { m \<leftarrow> arr_get (buffer lb) (unat (head lb));
                Some (Some m, lb\<lparr>head := (head lb + 1) mod of_nat LOG_BUFFER_SIZE\<rparr>) })"

definition get_message_count :: "LogBuffer \<Rightarrow> u32" where
  "get_message_count lb =
     (if tail lb \<ge> head lb then tail lb - head lb
      else of_nat LOG_BUFFER_SIZE - head lb + tail lb)"

definition start_consumer :: "LogBuffer \<Rightarrow> bool \<times> LogBuffer" where
  "start_consumer lb =
     (if \<not> consumer_running lb then (True, lb\<lparr>consumer_running := True\<rparr>) else (False, lb))"

text \<open>One round of the consumer: \<open>Some None\<close> when the thread ends.\<close>

definition consumer_round :: "LogBuffer \<Rightarrow> LogOutput \<Rightarrow> (LogBuffer \<times> LogOutput) option option" where
  "consumer_round lb out =
     (if \<not> consumer_running lb then Some None
      else do { (r, lb') \<leftarrow> dequeue lb;
                case r of
                  None \<Rightarrow> Some (Some (lb', out))
                | Some m \<Rightarrow>
                    if \<not> terminated (message m) then None
                    else Some (Some (lb', out\<lparr>
                      console_out := console_out out @ (if level m \<le> LOG_ERR then [cstr (message m)] else []),
                      serial_out := serial_out out @ [cstr (message m)]\<rparr>)) })"

section \<open>The buffer is a bounded queue\<close>

definition lb_inv :: "LogBuffer \<Rightarrow> bool" where
  "lb_inv lb \<longleftrightarrow> length (buffer lb) = LOG_BUFFER_SIZE \<and> unat (head lb) < LOG_BUFFER_SIZE \<and>
     unat (tail lb) < LOG_BUFFER_SIZE \<and> (\<forall>m \<in> set (buffer lb). length (message m) = MAX_LOG_MESSAGE_SIZE)"

definition messages :: "LogBuffer \<Rightarrow> LogMessage list" where
  "messages lb = ring_items LOG_BUFFER_SIZE (buffer lb) (unat (head lb)) (unat (tail lb))"

text \<open>The message that is stored: the string cut to 511 characters and padded with zeros.\<close>

fun log_entry :: "log_request \<Rightarrow> LogMessage" where
  "log_entry (lv, msg, cpu, ticks) =
     \<lparr>cpu_id = cpu, timestamp = ticks, level = lv,
      message = take 511 (cstr (the msg) @ replicate 511 0) @ [0]\<rparr>"

fun log_valid :: "log_request \<Rightarrow> bool" where
  "log_valid (lv, msg, cpu, ticks) = (case msg of None \<Rightarrow> False | Some s \<Rightarrow> terminated s)"

lemma unat_next:
  assumes "unat (i :: u32) < 4096"
  shows "unat ((i + 1) mod of_nat LOG_BUFFER_SIZE) = Suc (unat i) mod LOG_BUFFER_SIZE"
proof -
  have "unat (i + 1) = Suc (unat i)" using assms by (simp add: unat_word_ariths)
  then show ?thesis by (simp only: unat_mod) simp
qed

lemma is_full_iff: "lb_inv lb \<Longrightarrow> is_full lb \<longleftrightarrow> length (messages lb) = 4095"
  using unat_next [of "tail lb"] ring_full_iff [of "unat (head lb)" 4096 "unat (tail lb)"]
  by (simp add: is_full_def lb_inv_def messages_def word_unat_eq_iff)

lemma is_empty_iff: "lb_inv lb \<Longrightarrow> is_empty lb \<longleftrightarrow> messages lb = []"
  using ring_empty_iff [of "unat (head lb)" 4096 "unat (tail lb)"]
  by (simp add: is_empty_def lb_inv_def messages_def word_unat_eq_iff
      length_0_conv [symmetric] del: length_0_conv)

lemma strncpy_message:
  assumes "length d = 512" and "terminated s"
  shows "strncpy d s 511 \<bind> (\<lambda>s'. arr_set s' 511 0) = Some (take 511 (cstr s @ replicate 511 0) @ [0])"
proof -
  have "strncpy_loop 511 s d 0 = Some (take 0 d @ take 511 (cstr s @ replicate 511 0) @ drop (0 + 511) d)"
    by (rule strncpy_loop_eq) (use assms in auto)
  moreover have "length (drop 511 d) = 1" using assms(1) by simp
  then obtain x where "drop 511 d = [x]" by (metis One_nat_def length_0_conv length_Suc_conv)
  moreover define w where "w = take 511 (cstr s @ replicate 511 0)"
  ultimately have e: "strncpy d s 511 = Some (w @ [x])" by (simp only: strncpy_def) simp
  have "length w = 511" by (simp add: w_def)
  then show ?thesis unfolding e w_def [symmetric] by (simp add: arr_set_def list_update_append)
qed

lemma lb_enqueue:
  assumes inv: "lb_inv lb" and v: "log_valid r"
  shows "\<exists>lb'. enqueue lb r = Some (length (messages lb) < 4095, lb') \<and> lb_inv lb' \<and>
    messages lb' = (if length (messages lb) < 4095 then messages lb @ [log_entry r] else messages lb)"
proof -
  obtain lv s cpu ticks where r: "r = (lv, Some s, cpu, ticks)" and s: "terminated s"
    using v by (cases r) (auto split: option.splits)
  have le: "length (messages lb) < 4096"
    using inv ring_count_bound [of "unat (head lb)" 4096 "unat (tail lb)"]
    by (simp add: lb_inv_def messages_def)
  show ?thesis
  proof (cases "is_full lb")
    case True
    then show ?thesis using r inv is_full_iff [OF inv] by simp
  next
    case False
    then have lt: "length (messages lb) < 4095" using is_full_iff [OF inv] le by simp
    let ?t = "unat (tail lb)"
    have t: "?t < 4096" "unat (head lb) < 4096" "length (buffer lb) = 4096"
      using inv by (simp_all add: lb_inv_def)
    have ml: "length (message (buffer lb ! ?t)) = 512"
      using inv t by (simp add: lb_inv_def)
    let ?lb = "lb\<lparr>buffer := (buffer lb)[?t := log_entry r], tail := (tail lb + 1) mod of_nat LOG_BUFFER_SIZE\<rparr>"
    obtain s1 where s1: "strncpy (message (buffer lb ! ?t)) s 511 = Some s1"
      "arr_set s1 511 0 = Some (message (log_entry r))"
      using strncpy_message [OF ml s] unfolding r log_entry.simps LogMessage.simps option.sel
      by (cases "strncpy (message (buffer lb ! ?t)) s 511") auto
    have u: "m\<lparr>cpu_id := cpu, timestamp := ticks, level := lv, message := message (log_entry r)\<rparr> = log_entry r" for m
      by (cases m) (simp add: r del: take_append)
    have e: "enqueue lb r = Some (True, ?lb)"
      using s1 u False t by (simp add: r del: log_entry.simps)
    have len: "length (message (log_entry r)) = MAX_LOG_MESSAGE_SIZE"
      by (simp add: r)
    have "lb_inv ?lb"
      using inv t len unat_next [OF t(1)] set_update_subset_insert [of "buffer lb" ?t "log_entry r"]
      by (auto simp: lb_inv_def)
    moreover have "messages ?lb = messages lb @ [log_entry r]"
      using ring_push [OF t(2,1,3)] lt unat_next [OF t(1)]
      by (simp add: messages_def)
    ultimately show ?thesis using e lt by simp
  qed
qed

lemma lb_dequeue:
  assumes inv: "lb_inv lb"
  shows "\<exists>lb'. dequeue lb = Some (if messages lb = [] then None else Some (hd (messages lb)), lb') \<and>
    lb_inv lb' \<and> messages lb' = drop 1 (messages lb)"
proof (cases "is_empty lb")
  case True
  then show ?thesis using inv is_empty_iff [OF inv] by (simp add: dequeue_def)
next
  case False
  have t: "unat (tail lb) < 4096" "unat (head lb) < 4096" "length (buffer lb) = 4096"
    using inv by (simp_all add: lb_inv_def)
  have ne: "unat (head lb) \<noteq> unat (tail lb)" using False by (simp add: is_empty_def word_unat_eq_iff)
  have p: "messages lb = buffer lb ! unat (head lb) #
      ring_items 4096 (buffer lb) (Suc (unat (head lb)) mod 4096) (unat (tail lb))"
    using ring_pop [OF t(2,1) ne] by (simp add: messages_def)
  show ?thesis
    using False t inv unat_next [OF t(2)]
    by (simp add: dequeue_def p) (simp add: messages_def lb_inv_def)
qed

interpretation log_queue: bounded_queue enqueue dequeue messages lb_inv log_valid log_entry 4095
  by unfold_locales (use lb_enqueue lb_dequeue in blast)+

lemma get_message_count_eq: "lb_inv lb \<Longrightarrow> unat (get_message_count lb) = length (messages lb)"
proof -
  assume "lb_inv lb"
  then have t: "unat (tail lb) < 4096" "unat (head lb) < 4096" by (simp_all add: lb_inv_def)
  have "unat (4096 - head lb) = 4096 - unat (head lb)" using t(2) by (simp add: unat_sub word_le_nat_alt)
  then have "unat (4096 - head lb + tail lb) = 4096 - unat (head lb) + unat (tail lb)"
    using t by (simp add: unat_word_ariths)
  then show ?thesis
    by (simp add: get_message_count_def messages_def ring_count_def word_le_nat_alt unat_sub)
qed

section \<open>Properties\<close>

text \<open>
  C8. The log buffer is a first-in first-out queue of 4095 messages: after \<open>init\<close>, any
  sequence of \<open>enqueue\<close> and \<open>dequeue\<close> calls returns what the same sequence returns on a plain
  list, with every message cut to 511 characters, and \<open>get_message_count\<close> is the length of
  that list.
\<close>

theorem log_buffer_fifo:
  assumes "length (buffer lb) = LOG_BUFFER_SIZE"
    and "\<forall>m \<in> set (buffer lb). length (message m) = MAX_LOG_MESSAGE_SIZE"
    and "list_all (op_ok log_valid) ops"
  shows "\<exists>lb'. queue_run enqueue dequeue (lb_init lb) ops = Some (fst (fifo_run 4095 log_entry [] ops), lb') \<and>
     unat (get_message_count lb') = length (snd (fifo_run 4095 log_entry [] ops))"
proof -
  have inv: "lb_inv (lb_init lb)"
    using assms(1,2) by (simp add: lb_inv_def lb_init_def)
  have "messages (lb_init lb) = []"
    by (simp add: messages_def lb_init_def ring_items_def ring_count_def)
  then show ?thesis
    using log_queue.run_refines [OF inv assms(3)] get_message_count_eq by fastforce
qed

definition zero_message :: LogMessage where
  "zero_message = \<lparr>cpu_id = 0, timestamp = 0, level = 0, message = replicate 512 0\<rparr>"

theorem log_buffer_fifo_witness:
  "\<exists>lb'. queue_run enqueue dequeue (lb_init (new_LogBuffer (replicate 4096 zero_message)))
      [Dequeue, Enqueue (3, Some [97, 0], 1, 2), Dequeue] =
    Some ([Taken None, Accepted True, Taken (Some (log_entry (3, Some [97, 0], 1, 2)))], lb') \<and>
    unat (get_message_count lb') = 0"
  using log_buffer_fifo [of "new_LogBuffer (replicate 4096 zero_message)"
      "[Dequeue, Enqueue (3, Some [97, 0], 1, 2), Dequeue]"]
  by (simp add: new_LogBuffer_def zero_message_def Let_def
      del: log_entry.simps)

end
