(* ===== verification/Mutex.thy ===== *)
theory Mutex
  imports Sched
begin

text \<open>
  The mutex of \<open>lib/mutex.cpp\<close>. The internal spin lock makes each section between acquiring
  and releasing it atomic: the entry of \<open>lock\<close> up to its first sleep, the part of its loop
  after a sleep, and \<open>unlock\<close>. These sections are functions; how sections of several
  processes interleave is a step relation. The queue of wait nodes, whose nodes nothing else
  points to, is the list of their process identifiers; allocating them does not fail here.
\<close>

section \<open>Operations\<close>

datatype mutex_type = MUTEX_NORMAL | MUTEX_RECURSIVE

record Mutex =
  locked :: bool
  owner :: u32
  recursion :: u32
  mtype :: mutex_type
  wait_list :: "u32 list"

abbreviation MUTEX_WAIT_FOREVER :: u32 where
  "MUTEX_WAIT_FOREVER \<equiv> 0xFFFFFFFF"

definition new_Mutex :: "mutex_type \<Rightarrow> Mutex" where
  "new_Mutex ty = \<lparr>locked = False, owner = 0, recursion = 0, mtype = ty, wait_list = []\<rparr>"

definition addWaiter :: "u32 \<Rightarrow> Mutex \<Rightarrow> Mutex" where
  "addWaiter pid m = m\<lparr>wait_list := wait_list m @ [pid]\<rparr>"

primrec remove_waiter_list :: "u32 \<Rightarrow> u32 list \<Rightarrow> u32 list" where
  "remove_waiter_list pid [] = []"
| "remove_waiter_list pid (p # ps) = (if p = pid then ps else p # remove_waiter_list pid ps)"

definition removeWaiter :: "u32 \<Rightarrow> Mutex \<Rightarrow> Mutex" where
  "removeWaiter pid m = m\<lparr>wait_list := remove_waiter_list pid (wait_list m)\<rparr>"

definition wouldDeadlock :: "u32 \<Rightarrow> Mutex \<Rightarrow> bool" where
  "wouldDeadlock pid m = list_ex (\<lambda>p. p = pid) (wait_list m)"

datatype lock_result = Locked | Failed | Sleep

text \<open>One round of the loop of \<open>lock\<close>, after \<open>elapsed\<close> sleeps.\<close>

definition lock_round :: "u32 \<Rightarrow> u32 \<Rightarrow> u32 \<Rightarrow> Mutex \<Rightarrow> lock_result \<times> Mutex" where
  "lock_round pid timeout elapsed m =
     (if locked m
      then if timeout = 0 \<or> (timeout \<noteq> MUTEX_WAIT_FOREVER \<and> elapsed \<ge> timeout) then (Failed, m)
           else (Sleep, addWaiter pid m)
      else (Locked, m\<lparr>locked := True, owner := pid, recursion := 1\<rparr>))"

definition lock_enter :: "u32 \<Rightarrow> u32 \<Rightarrow> Mutex \<Rightarrow> lock_result \<times> Mutex" where
  "lock_enter pid timeout m =
     (if wouldDeadlock pid m then (Failed, m)
      else if mtype m = MUTEX_RECURSIVE \<and> owner m = pid then (Locked, m\<lparr>recursion := recursion m + 1\<rparr>)
      else lock_round pid timeout 0 m)"

definition lock_wake :: "u32 \<Rightarrow> u32 \<Rightarrow> u32 \<Rightarrow> Mutex \<Rightarrow> lock_result \<times> Mutex" where
  "lock_wake pid timeout elapsed m = lock_round pid timeout elapsed (removeWaiter pid m)"

text \<open>\<open>lock\<close> up to its return or its first sleep, for the current task at the given address.\<close>

definition lock :: "u32 \<Rightarrow> u32 \<Rightarrow> Mutex \<Rightarrow> Sched \<Rightarrow> lock_result \<times> Mutex" where
  "lock current timeout m s =
     (if current = 0 then (Failed, m) else lock_enter (task_id (task_at s current)) timeout m)"

definition tryLock :: "u32 \<Rightarrow> Mutex \<Rightarrow> Sched \<Rightarrow> lock_result \<times> Mutex" where
  "tryLock current m s = lock current 0 m s"

text \<open>The search for the task to wake, through \<open>task->next\<close> from the current task on.\<close>

partial_function (option) wake_loop :: "u32 \<Rightarrow> u32 \<Rightarrow> u32 \<Rightarrow> Sched \<Rightarrow> Sched option" where
  [code]: "wake_loop pid start pcb s =
     (if pcb = 0 then None
      else if task_id (task_at s pcb) = pid
      then upd_task pcb (\<lambda>t. t\<lparr>state := PROCESS_READY, sleep_ticks := 0\<rparr>) s
      else let nxt = task_next (task_at s pcb) in
        if nxt = start then Some s else wake_loop pid start nxt s)"

definition wakeNextWaiter :: "u32 \<Rightarrow> Mutex \<Rightarrow> Sched \<Rightarrow> (Mutex \<times> Sched) option" where
  "wakeNextWaiter current m s =
     (case wait_list m of
        [] \<Rightarrow> Some (m, s)
      | w # ws \<Rightarrow>
          let m' = m\<lparr>wait_list := ws\<rparr> in
          if current = 0 then Some (m', s)
          else do { s' \<leftarrow> wake_loop w current current s; Some (m', s') })"

definition unlock :: "u32 \<Rightarrow> Mutex \<Rightarrow> Sched \<Rightarrow> (bool \<times> Mutex \<times> Sched) option" where
  "unlock current m s =
     (if current = 0 then Some (False, m, s)
      else if owner m \<noteq> task_id (task_at s current) then Some (False, m, s)
      else if mtype m = MUTEX_RECURSIVE \<and> recursion m > 1
      then Some (True, m\<lparr>recursion := recursion m - 1\<rparr>, s)
      else do { (m', s') \<leftarrow> wakeNextWaiter current (m\<lparr>locked := False, owner := 0, recursion := 0\<rparr>) s;
                Some (True, m', s') })"

section \<open>Interleaved processes\<close>

text \<open>
  The system: the mutex, the tasks, for every process its number of nested locks, and for
  one that sleeps in \<open>lock\<close> its timeout and the sleeps so far. A step is one section of one
  task. Processes have non-zero identifiers and nest fewer than \<open>2 ^ 32 - 1\<close> locks.
\<close>

record MutexSystem =
  the_mutex :: Mutex
  tasks :: Sched
  depth :: "u32 \<Rightarrow> nat"
  asleep :: "u32 \<Rightarrow> (u32 \<times> u32) option"

fun apply_result :: "u32 \<Rightarrow> u32 \<Rightarrow> u32 \<Rightarrow> lock_result \<times> Mutex \<Rightarrow> MutexSystem \<Rightarrow> MutexSystem" where
  "apply_result p timeout elapsed (Locked, m) s =
     s\<lparr>the_mutex := m, depth := (depth s)(p := depth s p + 1), asleep := (asleep s)(p := None)\<rparr>"
| "apply_result p timeout elapsed (Failed, m) s = s\<lparr>the_mutex := m, asleep := (asleep s)(p := None)\<rparr>"
| "apply_result p timeout elapsed (Sleep, m) s = s\<lparr>the_mutex := m, asleep := (asleep s)(p := Some (timeout, elapsed))\<rparr>"

inductive mutex_step :: "MutexSystem \<Rightarrow> MutexSystem \<Rightarrow> bool" where
  call_lock: "p \<noteq> 0 \<Longrightarrow> asleep s p = None \<Longrightarrow> Suc (depth s p) < 2 ^ 32 \<Longrightarrow>
     mutex_step s (apply_result p timeout 0 (lock_enter p timeout (the_mutex s)) s)"
| wake_up: "p \<noteq> 0 \<Longrightarrow> asleep s p = Some (timeout, elapsed) \<Longrightarrow>
     mutex_step s (apply_result p timeout (elapsed + 1) (lock_wake p timeout (elapsed + 1) (the_mutex s)) s)"
| call_unlock: "t \<noteq> 0 \<Longrightarrow> task_id (task_at (tasks s) t) = p \<Longrightarrow> p \<noteq> 0 \<Longrightarrow> asleep s p = None \<Longrightarrow>
     unlock t (the_mutex s) (tasks s) = Some (b, m, sc) \<Longrightarrow>
     mutex_step s (s\<lparr>the_mutex := m, tasks := sc, depth := (depth s)(p := if b then depth s p - 1 else depth s p)\<rparr>)"

inductive mutex_reachable :: "mutex_type \<Rightarrow> Sched \<Rightarrow> MutexSystem \<Rightarrow> bool" for ty sc where
  start: "mutex_reachable ty sc \<lparr>the_mutex = new_Mutex ty, tasks = sc, depth = \<lambda>_. 0, asleep = \<lambda>_. None\<rparr>"
| step: "mutex_reachable ty sc s \<Longrightarrow> mutex_step s s' \<Longrightarrow> mutex_reachable ty sc s'"

text \<open>
  The invariant: a free mutex has no owner and nobody holds it; a taken one is held by its
  owner alone, as many times as its counter says.
\<close>

definition mutex_inv :: "MutexSystem \<Rightarrow> bool" where
  "mutex_inv s \<longleftrightarrow>
     (if locked (the_mutex s)
      then owner (the_mutex s) \<noteq> 0 \<and> depth s (owner (the_mutex s)) = unat (recursion (the_mutex s)) \<and>
        0 < recursion (the_mutex s) \<and> (\<forall>p. p \<noteq> owner (the_mutex s) \<longrightarrow> depth s p = 0) \<and>
        (mtype (the_mutex s) = MUTEX_NORMAL \<longrightarrow> recursion (the_mutex s) = 1)
      else owner (the_mutex s) = 0 \<and> (\<forall>p. depth s p = 0))"

lemma lock_round_inv:
  assumes "mutex_inv s" and "p \<noteq> 0" and "locked m = locked (the_mutex s)" and "owner m = owner (the_mutex s)"
    and "recursion m = recursion (the_mutex s)" and "mtype m = mtype (the_mutex s)"
  shows "mutex_inv (apply_result p timeout e (lock_round p timeout el m) s)"
  using assms by (auto simp: lock_round_def mutex_inv_def addWaiter_def)

lemma unat_Suc_word: "Suc (unat (x :: u32)) < 2 ^ 32 \<Longrightarrow> unat (x + 1) = Suc (unat x)"
  by (simp add: unat_word_ariths)

lemma lock_enter_inv:
  assumes "mutex_inv s" and "p \<noteq> 0" and "Suc (depth s p) < 2 ^ 32"
  shows "mutex_inv (apply_result p timeout 0 (lock_enter p timeout (the_mutex s)) s)"
proof (cases "\<not> wouldDeadlock p (the_mutex s) \<and> mtype (the_mutex s) = MUTEX_RECURSIVE \<and> owner (the_mutex s) = p")
  case True
  then have l: "locked (the_mutex s)" using assms(1,2) by (auto simp: mutex_inv_def split: if_splits)
  have u: "unat (recursion (the_mutex s) + 1) = Suc (unat (recursion (the_mutex s)))"
    using assms(1,3) True l by (intro unat_Suc_word) (simp add: mutex_inv_def)
  then have "0 < recursion (the_mutex s) + 1" by (simp add: word_less_nat_alt)
  then show ?thesis using assms(1) True l u by (simp add: lock_enter_def mutex_inv_def)
next
  case False
  then show ?thesis
    using lock_round_inv [OF assms(1,2) refl refl refl refl] assms(1)
    by (auto simp: lock_enter_def mutex_inv_def)
qed

lemma wakeNextWaiter_mutex:
  "wakeNextWaiter t m s = Some (m', s') \<Longrightarrow>
     locked m' = locked m \<and> owner m' = owner m \<and> recursion m' = recursion m \<and> mtype m' = mtype m"
  by (auto simp: wakeNextWaiter_def Let_def split: list.splits bind_splits if_splits)

lemma unlock_inv:
  assumes "mutex_inv s" and "task_id (task_at (tasks s) t) = p" and "p \<noteq> 0"
    and "unlock t (the_mutex s) (tasks s) = Some (b, m, sc)"
  shows "mutex_inv (s\<lparr>the_mutex := m, tasks := sc, depth := (depth s)(p := if b then depth s p - 1 else depth s p)\<rparr>)"
proof (cases "t = 0 \<or> owner (the_mutex s) \<noteq> p")
  case True
  then have "\<not> b \<and> m = the_mutex s" using assms(2,4) by (auto simp: unlock_def split: if_splits)
  then show ?thesis using assms(1) by (simp add: mutex_inv_def)
next
  case own: False
  then have l: "locked (the_mutex s)" using assms(1,3) by (auto simp: mutex_inv_def split: if_splits)
  show ?thesis
  proof (cases "mtype (the_mutex s) = MUTEX_RECURSIVE \<and> recursion (the_mutex s) > 1")
    case True
    then have m: "b" "m = (the_mutex s)\<lparr>recursion := recursion (the_mutex s) - 1\<rparr>"
      using assms(2,4) own by (auto simp: unlock_def)
    have "unat (recursion (the_mutex s) - 1) = unat (recursion (the_mutex s)) - 1"
      using True by (subst unat_minus_one) auto
    moreover have "0 < recursion (the_mutex s) - 1"
      using True calculation by (simp add: word_less_nat_alt)
    ultimately show ?thesis using assms(1) own l m True by (auto simp: mutex_inv_def)
  next
    case False
    then obtain m' where "b" "wakeNextWaiter t ((the_mutex s)\<lparr>locked := False, owner := 0, recursion := 0\<rparr>) (tasks s) = Some (m, sc)"
      using assms(2,4) own by (auto simp: unlock_def split: bind_splits)
    then have m: "b" "\<not> locked m" "owner m = 0" using wakeNextWaiter_mutex by fastforce+
    have "recursion (the_mutex s) = 1"
    proof (cases "mtype (the_mutex s)")
      case MUTEX_NORMAL
      then show ?thesis using assms(1) l by (simp add: mutex_inv_def)
    next
      case MUTEX_RECURSIVE
      then have "\<not> recursion (the_mutex s) > 1" "0 < recursion (the_mutex s)"
        using False assms(1) l by (auto simp: mutex_inv_def)
      then have "unat (recursion (the_mutex s)) = 1" by (simp add: word_less_nat_alt not_less)
      then show ?thesis by (simp add: word_unat_eq_iff)
    qed
    then show ?thesis using assms(1) own l m by (auto simp: mutex_inv_def)
  qed
qed

lemma mutex_step_inv: "mutex_step s s' \<Longrightarrow> mutex_inv s \<Longrightarrow> mutex_inv s'"
proof (induction rule: mutex_step.induct)
  case (call_lock p s timeout)
  then show ?case by (intro lock_enter_inv) auto
next
  case (wake_up p s timeout elapsed)
  then show ?case unfolding lock_wake_def by (intro lock_round_inv) (auto simp: removeWaiter_def)
next
  case (call_unlock t s p b m sc)
  then show ?case by (intro unlock_inv) auto
qed

lemma mutex_reachable_inv: "mutex_reachable ty sc s \<Longrightarrow> mutex_inv s"
proof (induction rule: mutex_reachable.induct)
  case start
  then show ?case by (simp add: mutex_inv_def new_Mutex_def)
qed (rule mutex_step_inv)

section \<open>Properties\<close>

text \<open>
  C4. Mutual exclusion: under every interleaving of \<open>lock\<close> (with any timeout), wake-ups and
  \<open>unlock\<close> by processes with non-zero identifiers, two different processes never hold the
  mutex at the same time, whether it is recursive or not.
\<close>

theorem mutex_exclusion:
  assumes "mutex_reachable ty sc s" and "0 < depth s p" and "0 < depth s q"
  shows "p = q"
  using mutex_reachable_inv [OF assms(1)] assms(2,3) unfolding mutex_inv_def by (metis less_numeral_extra(3))

definition contended :: "Sched \<Rightarrow> MutexSystem" where
  "contended sc = \<lparr>the_mutex = new_Mutex MUTEX_NORMAL, tasks = sc, depth = \<lambda>_. 0, asleep = \<lambda>_. None\<rparr>"

text \<open>Process 1 takes the mutex, then process 2 tries and sleeps.\<close>

definition contended_end :: "Sched \<Rightarrow> MutexSystem" where
  "contended_end sc =
     (let s1 = apply_result 1 7 0 (lock_enter 1 7 (the_mutex (contended sc))) (contended sc)
      in apply_result 2 7 0 (lock_enter 2 7 (the_mutex s1)) s1)"

theorem mutex_exclusion_witness:
  "asleep (contended_end two_tasks) 2 = Some (7, 0) \<and> depth (contended_end two_tasks) 1 = 1 \<and>
   depth (contended_end two_tasks) 2 = 0"
proof -
  let ?s1 = "apply_result 1 7 0 (lock_enter 1 7 (the_mutex (contended two_tasks))) (contended two_tasks)"
  have e: "lock_enter 1 7 (the_mutex (contended two_tasks)) =
      (Locked, (new_Mutex MUTEX_NORMAL)\<lparr>locked := True, owner := 1, recursion := 1\<rparr>)"
    by (simp add: contended_def lock_enter_def wouldDeadlock_def new_Mutex_def lock_round_def)
  have r0: "mutex_reachable MUTEX_NORMAL two_tasks (contended two_tasks)"
    unfolding contended_def by (rule mutex_reachable.start)
  have r1: "mutex_reachable MUTEX_NORMAL two_tasks ?s1"
    by (rule mutex_reachable.step [OF r0]) (rule mutex_step.call_lock; simp add: contended_def)
  have d1: "depth ?s1 2 = 0" "asleep ?s1 2 = None" unfolding e by (simp_all add: contended_def)
  have r2: "mutex_reachable MUTEX_NORMAL two_tasks (contended_end two_tasks)"
    unfolding contended_end_def Let_def
    by (rule mutex_reachable.step [OF r1]) (rule mutex_step.call_lock; simp add: d1)
  have c: "depth (contended_end two_tasks) 1 = 1" "asleep (contended_end two_tasks) 2 = Some (7, 0)"
    unfolding contended_end_def Let_def e
    by (simp_all add: lock_enter_def wouldDeadlock_def new_Mutex_def lock_round_def contended_def)
  then show ?thesis using mutex_exclusion [OF r2, of 1 2] by auto
qed

text \<open>
  The bound on identifiers is needed: for identifier 0, which the first task gets, a
  free recursive mutex already seems to be owned. \<open>lock\<close> returns true and leaves it free,
  and the next process takes it as well.
\<close>

theorem mutex_pid_zero:
  assumes "t \<noteq> 0" "task_id (task_at s t) = 0" "u \<noteq> 0" "task_id (task_at s u) \<noteq> 0"
  defines "m0 \<equiv> new_Mutex MUTEX_RECURSIVE"
  shows "lock t timeout m0 s = (Locked, m0\<lparr>recursion := 1\<rparr>) \<and>
    fst (tryLock u (m0\<lparr>recursion := 1\<rparr>) s) = Locked"
  using assms
  by (simp add: lock_def tryLock_def lock_enter_def wouldDeadlock_def new_Mutex_def lock_round_def)

definition two_ids :: Sched where
  "two_ids = two_tasks\<lparr>task_at := (task_at two_tasks)(0x2000 := (task_at two_tasks 0x2000)\<lparr>task_id := 1\<rparr>)\<rparr>"

theorem mutex_pid_zero_witness:
  "lock 0x1000 5 (new_Mutex MUTEX_RECURSIVE) two_ids = (Locked, (new_Mutex MUTEX_RECURSIVE)\<lparr>recursion := 1\<rparr>) \<and>
   fst (tryLock 0x2000 ((new_Mutex MUTEX_RECURSIVE)\<lparr>recursion := 1\<rparr>) two_ids) = Locked"
  by (rule mutex_pid_zero) (simp_all add: two_ids_def two_tasks_def new_Task_def)

text \<open>
  Releasing a mutex that another process waits for is undefined as long as the tasks
  are not linked through \<open>next\<close> (nothing in the kernel links them): the search for the
  waiter dereferences a null pointer.
\<close>

theorem unlock_with_waiter_undefined:
  assumes "t \<noteq> 0" and "owner m = task_id (task_at s t)" and "mtype m = MUTEX_NORMAL \<or> recursion m \<le> 1"
    and "wait_list m = w # ws" and "w \<noteq> task_id (task_at s t)" and "task_next (task_at s t) = 0"
  shows "unlock t m s = None"
proof -
  have "wake_loop w t 0 s = None" by (simp add: wake_loop.simps)
  then have "wake_loop w t t s = None" using assms by (subst wake_loop.simps) (simp add: Let_def)
  then show ?thesis using assms by (auto simp: unlock_def wakeNextWaiter_def Let_def not_less)
qed

theorem unlock_with_waiter_undefined_witness:
  "unlock 0x1000 \<lparr>locked = True, owner = 0, recursion = 1, mtype = MUTEX_NORMAL, wait_list = [7]\<rparr> two_tasks = None"
  by (rule unlock_with_waiter_undefined [where w = 7 and ws = "[]"]) (simp_all add: two_tasks_def new_Task_def)

end
