(* ===== verification/InitRamFs.thy ===== *)
theory InitRamFs
  imports MemTree
begin

text \<open>
  Loading the initial archive undoes writing it: a writer of the format, the nodes of the file
  tree that the written files are, and the proof that \<open>load_initramfs\<close> adds exactly these.
\<close>

section \<open>Writing an archive\<close>

record CpioFile =
  file_name :: "u8 list"
  file_mode :: nat
  file_bytes :: "u8 list"
  file_meta :: "nat \<Rightarrow> nat"

definition header_field :: "nat \<Rightarrow> nat \<Rightarrow> nat \<Rightarrow> (nat \<Rightarrow> nat) \<Rightarrow> nat \<Rightarrow> nat" where
  "header_field mode fsize nsize meta n =
     (if n = 1 then mode else if n = 6 then fsize else if n = 11 then nsize else meta n)"

definition cpio_header :: "nat \<Rightarrow> nat \<Rightarrow> nat \<Rightarrow> (nat \<Rightarrow> nat) \<Rightarrow> u8 list" where
  "cpio_header mode fsize nsize meta =
     take 6 CPIO_MAGIC @ concat (map (\<lambda>n. hex_print 8 (header_field mode fsize nsize meta n)) [0..<13])"

definition pad4 :: "nat \<Rightarrow> u8 list" where
  "pad4 n = replicate ((4 - n mod 4) mod 4) 0"

definition cpio_entry :: "CpioFile \<Rightarrow> u8 list" where
  "cpio_entry f =
     (let nsize = length (file_name f) + 1; fsize = length (file_bytes f) in
      cpio_header (file_mode f) fsize nsize (file_meta f) @ (file_name f @ [0]) @ pad4 (110 + nsize) @
      file_bytes f @ pad4 fsize)"

definition trailer_name :: "u8 list" where
  "trailer_name = [0x54, 0x52, 0x41, 0x49, 0x4C, 0x45, 0x52, 0x21, 0x21, 0x21]"

definition archive :: "CpioFile list \<Rightarrow> u8 list" where
  "archive files = concat (map cpio_entry files) @ cpio_entry \<lparr>file_name = trailer_name, file_mode = 0, file_bytes = [], file_meta = (\<lambda>_. 0)\<rparr>"

text \<open>
  What the files of an archive are in the tree of the file system: their type, their bytes
  (a directory has none) and the node for a file whose inode is at an address.
\<close>

definition file_type :: "CpioFile \<Rightarrow> FileType" where
  "file_type f = (if file_mode f mod 0x10000 div 0x1000 = 4 then FT_DIR else FT_REG)"

definition file_data :: "CpioFile \<Rightarrow> u8 list" where
  "file_data f = (if file_type f = FT_DIR then [] else file_bytes f)"

definition file_node :: "u32 \<Rightarrow> CpioFile \<Rightarrow> ftree" where
  "file_node a f = Node a (file_name f) (file_type f) (file_data f) []"

definition with_files :: "u32 list \<Rightarrow> CpioFile list \<Rightarrow> ftree \<Rightarrow> ftree" where
  "with_files as files t = Node (faddr t) (fname t) (ftype t) (fbytes t) (rev (map2 file_node as files) @ fsub t)"

text \<open>
  The memory that the files take: an inode for each and a buffer for the bytes, if there are
  any. The addresses of the inodes, or \<open>None\<close> when the kernel runs out of memory.
\<close>

definition allocate_file :: "CpioFile \<Rightarrow> Kernel \<Rightarrow> (u32 \<times> Kernel) option" where
  "allocate_file f k =
     do { (a, k) \<leftarrow> operator_new sizeof_MemFSInode k;
          (p, k) \<leftarrow> (if file_data f = [] then Some (1, k) else operator_new (of_nat (length (file_data f))) k);
          if a = 0 \<or> p = 0 then None else Some (a, k) }"

fun allocate_files :: "CpioFile list \<Rightarrow> Kernel \<Rightarrow> (u32 list \<times> Kernel) option" where
  "allocate_files [] k = Some ([], k)"
| "allocate_files (f # rest) k = do { (a, k) \<leftarrow> allocate_file f k; (as, k) \<leftarrow> allocate_files rest k; Some (a # as, k) }"

text \<open>What the loop does with one entry, and with several.\<close>

definition load_file :: "CpioFile \<Rightarrow> MemFS \<Rightarrow> MemFS option" where
  "load_file f mf =
     load_entry (file_name f @ [0]) (if (of_nat (file_mode f) :: u16) AND 0xF000 = 0x4000 then FT_DIR else FT_REG)
       (file_bytes f) (of_nat (length (file_bytes f))) mf"

fun load_files :: "CpioFile list \<Rightarrow> MemFS \<Rightarrow> MemFS option" where
  "load_files [] mf = Some mf"
| "load_files (f # rest) mf = do { mf \<leftarrow> load_file f mf; load_files rest mf }"

definition writable :: "CpioFile \<Rightarrow> bool" where
  "writable f \<longleftrightarrow> 0 \<notin> set (file_name f) \<and> length (file_name f) < NAME_LEN - 1 \<and> file_mode f < 2 ^ 32 \<and>
     length (file_bytes f) < 2 ^ 32 \<and> \<not> prefix (take 9 trailer_name) (file_name f)"

section \<open>Reading it back\<close>

lemma length_concat_hex: "length (concat (map (\<lambda>n. hex_print 8 (v n)) ns)) = 8 * length ns"
  by (induction ns) auto

lemma length_cpio_header [simp]: "length (cpio_header m a b meta) = 110"
  by (simp add: cpio_header_def length_concat_hex)

lemma field_concat:
  assumes "n < length ns"
  shows "take 8 (drop (8 * n) (concat (map (\<lambda>n. hex_print 8 (v n)) ns))) = hex_print 8 (v (ns ! n))"
  using assms
proof (induction ns arbitrary: n)
  case (Cons m ns)
  then show ?case by (cases n) (auto simp: drop_Cons')
qed simp

lemma cpio_header_field:
  assumes "n < 13"
  shows "take 8 (drop (6 + 8 * n) (cpio_header m a b meta @ rest)) = hex_print 8 (header_field m a b meta n)"
proof -
  let ?c = "concat (map (\<lambda>n. hex_print 8 (header_field m a b meta n)) [0..<13])"
  have l: "length ?c = 104" by (simp add: length_concat_hex)
  have "drop (6 + 8 * n) (cpio_header m a b meta @ rest) = drop (8 * n) (?c @ rest)"
  proof -
    have "length (take 6 CPIO_MAGIC) = 6" by simp
    then have "drop (6 + 8 * n) (take 6 CPIO_MAGIC @ ?c @ rest) = drop (8 * n) (?c @ rest)"
      by (simp only: drop_append drop_all le_add1 append_Nil diff_add_inverse)
    then show ?thesis by (simp only: cpio_header_def append_assoc)
  qed
  also have "take 8 \<dots> = take 8 (drop (8 * n) ?c)" using assms l by simp
  finally show ?thesis using field_concat [of n "[0..<13]" "header_field m a b meta"] assms by simp
qed

lemma foldl_hex8: "v < 2 ^ 32 \<Longrightarrow> foldl hex_step 0 (hex_print 8 v) = (of_nat v :: 'a :: len word)"
  using foldl_hex_print [of v 8 0] by simp

lemma header_at_written:
  assumes "a < 2 ^ 32" and "b < 2 ^ 16" and "m < 2 ^ 32"
  shows "\<exists>h. header_at (cpio_header m a b meta @ rest) = Some h \<and> get_filesize h = of_nat a \<and>
    unat (get_namesize h) = b \<and> get_mode h = of_nat m \<and> magic_match (magic h) = Some True"
proof -
  have "magic_match (take 6 CPIO_MAGIC) = Some True" by code_simp
  moreover have "take 6 (cpio_header m a b meta @ rest) = take 6 CPIO_MAGIC"
    by (simp add: cpio_header_def)
  ultimately show ?thesis using assms
    using cpio_header_field [of 1 m a b meta rest] cpio_header_field [of 6 m a b meta rest] cpio_header_field [of 11 m a b meta rest]
    by (simp add: header_at_def Let_def get_filesize_def get_namesize_def get_mode_def
        header_field_def unat_of_nat foldl_hex8)
qed

lemma length_pad4: "n + length (pad4 n) = (n + 3) div 4 * 4"
proof -
  define q r where "q = n div 4" and "r = n mod 4"
  have n: "n = 4 * q + r" "r < 4" by (simp_all add: q_def r_def)
  have p: "length (pad4 n) = (4 - r) mod 4" by (simp add: pad4_def r_def)
  have d: "(n + 3) div 4 = q + (r + 3) div 4" unfolding n(1) by (simp add: add.assoc)
  consider "r = 0" | "r = 1" | "r = 2" | "r = 3" using n(2) by linarith
  then show ?thesis unfolding p d using n(1) by cases simp_all
qed

lemma ptr_align_eq:
  assumes "unat base mod 4 = 0" and "unat base + i + 3 < 2 ^ 32"
  shows "ptr_align base i = Some ((i + 3) div 4 * 4)"
proof -
  obtain q where "unat base = 4 * q" using assms(1) by auto
  then have "(unat base + (i + 3)) div 4 * 4 - unat base = (i + 3) div 4 * 4" by simp
  then show ?thesis using assms(2) by (simp add: ptr_align_def ptr_add_def)
qed

lemma align_shift: "i mod 4 = 0 \<Longrightarrow> (i + n + 3) div 4 * 4 = i + (n + length (pad4 n))"
  unfolding length_pad4 by (auto simp: add.assoc)

lemma starts_with_eq: "0 \<notin> set ps \<Longrightarrow> starts_with ps (nm @ 0 # xs) = Some (prefix ps nm)"
proof (induction ps arbitrary: nm)
  case (Cons q ps)
  then show ?case by (cases nm) auto
qed simp

lemma create_inode_cstr:
  "terminated s \<Longrightarrow> terminated s' \<Longrightarrow> cstr s = cstr s' \<Longrightarrow> memfs_create_inode s ty mf = memfs_create_inode s' ty mf"
  by (simp add: memfs_create_inode_def strncpy_def strncpy_loop_eq fresh_bytes_def)

lemma load_entry_same:
  assumes "terminated s" "terminated s'" "cstr s = cstr s'" and "content' = content @ xs" and "length content = unat n"
  shows "load_entry s' ty content' n mf = load_entry s ty content n mf"
proof -
  have "memcpy (fresh_bytes m (unat n)) content' (unat n) = memcpy (fresh_bytes m (unat n)) content (unat n)" for m
    using assms(4,5) by (simp add: memcpy_eq fresh_bytes_def)
  then show ?thesis using create_inode_cstr [OF assms(1-3)] by (simp add: load_entry_def cong: if_cong)
qed

lemma cstr_name: "0 \<notin> set nm \<Longrightarrow> cstr (nm @ 0 # xs) = nm"
  by (induction nm) auto

text \<open>One round of the loop, at the start of a written entry.\<close>

lemma load_loop_entry:
  assumes b: "unat base mod 4 = 0" "unat base + length bs + 4 < 2 ^ 32" and bs: "bs = pre @ cpio_entry f @ rest"
    and pre: "length pre mod 4 = 0" and f: "0 \<notin> set (file_name f)" "length (file_name f) < 2 ^ 16 - 1" "file_mode f < 2 ^ 32"
      "length (file_bytes f) < 2 ^ 32"
  shows "load_loop base bs (length pre) mf =
    (if prefix (take 9 trailer_name) (file_name f) then Some mf
     else do { mf \<leftarrow> load_file f mf; load_loop base bs (length (pre @ cpio_entry f)) mf })"
proof -
  define i nsize fsize where "i = length pre" and "nsize = length (file_name f) + 1" and "fsize = length (file_bytes f)"
  define pd pe where "pd = pad4 (110 + nsize)" and "pe = pad4 fsize"
  define p where "p = i + (110 + nsize + length pd)"
  let ?tail = "file_bytes f @ pe @ rest"
  let ?name = "file_name f @ 0 # pd @ ?tail"
  have e: "cpio_entry f = cpio_header (file_mode f) fsize nsize (file_meta f) @ file_name f @ 0 # pd @ file_bytes f @ pe"
    by (simp add: cpio_entry_def Let_def nsize_def fsize_def pd_def pe_def)
  have d: "drop i bs = cpio_header (file_mode f) fsize nsize (file_meta f) @ ?name" by (simp add: bs e i_def)
  have "drop 110 (drop i bs) = ?name" unfolding d by simp
  then have dj: "drop (i + 110) bs = ?name" by (simp add: add.commute)
  have "drop (nsize + length pd) (drop (i + 110) bs) = ?tail" unfolding dj by (simp add: nsize_def)
  then have dp: "drop p bs = ?tail" by (simp add: p_def add_ac)
  have pm: "p mod 4 = 0" using pre unfolding p_def pd_def length_pad4 i_def by (simp add: mod_add_left_eq)
  have le: "length (cpio_entry f) = 110 + nsize + length pd + (fsize + length pe)"
    unfolding e by (simp add: nsize_def fsize_def)
  then have len: "length bs = p + (fsize + length pe) + length rest" by (simp add: bs p_def i_def)
  obtain h where h: "header_at (drop i bs) = Some h" "get_filesize h = of_nat fsize" "unat (get_namesize h) = nsize"
      "get_mode h = of_nat (file_mode f)" "magic_match (magic h) = Some True"
    using header_at_written [of fsize nsize "file_mode f" "file_meta f" ?name] f unfolding d nsize_def fsize_def by auto
  have fs: "unat (of_nat fsize :: u32) = fsize" using f(4) by (simp add: unat_of_nat fsize_def)
  have a1: "ptr_align base (i + (110 + nsize)) = Some p"
    using ptr_align_eq [OF b(1), of "i + (110 + nsize)"] align_shift [of i "110 + nsize"] pre b(2) len
    by (simp add: p_def pd_def i_def)
  have a2: "ptr_align base (p + fsize) = Some (p + (fsize + length pe))"
    using ptr_align_eq [OF b(1), of "p + fsize"] align_shift [OF pm, of fsize] b(2) len by (simp add: pe_def)
  have tr: "is_trailer ?name = Some (prefix (take 9 trailer_name) (file_name f))"
    unfolding is_trailer_def by (subst starts_with_eq) (simp_all add: trailer_name_def)
  have same: "load_entry ?name ty ?tail (of_nat fsize) mf = load_entry (file_name f @ [0]) ty (file_bytes f) (of_nat fsize) mf" for ty
    by (rule load_entry_same) (simp_all add: cstr_name f(1) fs fsize_def [symmetric])
  have "load_loop base bs i mf =
    (if prefix (take 9 trailer_name) (file_name f) then Some mf
     else do { mf \<leftarrow> load_entry ?name (if is_directory h then FT_DIR else FT_REG) ?tail (of_nat fsize) mf;
               load_loop base bs (p + (fsize + length pe)) mf })"
  proof -
    have pa: "ptr_add base i sizeof_CPIOHeader = Some (i + 110)" "ptr_add base (i + 110) nsize = Some (i + (110 + nsize))"
        "ptr_add base p fsize = Some (p + fsize)"
      using b(2) len by (simp_all add: ptr_add_def p_def)
    have lt: "\<not> length bs < i + 110" "\<not> length bs \<le> i + 110" "\<not> length bs < i + (110 + nsize)" "\<not> length bs < p + fsize"
      using len by (simp_all add: p_def nsize_def)
    show ?thesis
      by (subst load_loop.simps) (simp add: pa lt h(1,2,3,5) a1 a2 tr dj dp fs)
  qed
  moreover have "p + (fsize + length pe) = length (pre @ cpio_entry f)" by (simp add: le p_def i_def)
  ultimately show ?thesis unfolding same by (simp add: load_file_def is_directory_def h(4) i_def fsize_def)
qed

lemma length_entry_aligned: "length (cpio_entry f) mod 4 = 0"
proof -
  let ?n = "110 + (length (file_name f) + 1)" and ?m = "length (file_bytes f)"
  have "length (cpio_entry f) = (?n + length (pad4 ?n)) + (?m + length (pad4 ?m))"
    by (simp add: cpio_entry_def Let_def)
  then show ?thesis unfolding length_pad4 by (simp add: mod_add_left_eq)
qed

definition trailer :: CpioFile where
  "trailer = \<lparr>file_name = trailer_name, file_mode = 0, file_bytes = [], file_meta = (\<lambda>_. 0)\<rparr>"

lemma load_loop_files:
  assumes "unat base mod 4 = 0" and "unat base + length bs + 4 < 2 ^ 32" and "list_all writable files"
    and "bs = pre @ concat (map cpio_entry files) @ cpio_entry trailer" and "length pre mod 4 = 0"
  shows "load_loop base bs (length pre) mf = load_files files mf"
  using assms(3-5)
proof (induction files arbitrary: pre mf)
  case Nil
  then show ?case using load_loop_entry [OF assms(1,2), of pre trailer "[]" mf]
    by (simp add: trailer_def trailer_name_def)
next
  case (Cons f files)
  have w: "writable f" "list_all writable files" using Cons.prems(1) by simp_all
  have "load_loop base bs (length pre) mf =
      do { mf \<leftarrow> load_file f mf; load_loop base bs (length (pre @ cpio_entry f)) mf }"
    using load_loop_entry [OF assms(1,2), of pre f "concat (map cpio_entry files) @ cpio_entry trailer" mf] Cons.prems w(1)
    by (simp add: writable_def)
  moreover have "load_loop base bs (length (pre @ cpio_entry f)) m = load_files files m" for m
    using Cons.prems length_entry_aligned [of f]
    by (intro Cons.IH w) (simp_all add: mod_add_eq [symmetric])
  ultimately show ?case by simp
qed

section \<open>The files in the tree\<close>

lemma directory_mode: "(of_nat m :: u16) AND 0xF000 = 0x4000 \<longleftrightarrow> m mod 0x10000 div 0x1000 = 4"
proof -
  have f: "bit (0xF000 :: u16) n \<longleftrightarrow> 12 \<le> n \<and> n < 16" for n
  proof -
    have "bit (push_bit 12 (mask 4) :: u16) n \<longleftrightarrow> 12 \<le> n \<and> n < 16" by (auto simp: bit_push_bit_iff bit_mask_iff)
    moreover have "push_bit 12 (mask 4) = (0xF000 :: u16)" by (simp add: mask_eq_exp_minus_1)
    ultimately show ?thesis by (simp only:)
  qed
  have p: "w AND 0xF000 = push_bit 12 (drop_bit 12 w)" for w :: u16
    by (rule bit_word_eqI) (auto simp only: bit_and_iff f bit_push_bit_iff bit_drop_bit_eq, auto)
  have "drop_bit 12 (w AND 0xF000) = drop_bit 12 w" for w :: u16
    by (rule bit_word_eqI) (simp only: bit_and_iff f bit_drop_bit_eq comp_def, auto dest: bit_imp_le_length)
  then have "(w :: u16) AND 0xF000 = 0x4000 \<longleftrightarrow> drop_bit 12 w = 4" for w
    using p [of w] by (auto dest: arg_cong [where f = "drop_bit 12"])
  moreover have "drop_bit 12 (of_nat m :: u16) = 4 \<longleftrightarrow> m mod 0x10000 div 0x1000 = 4"
    by (simp add: word_unat_eq_iff drop_bit_eq_div unat_div unat_of_nat)
  ultimately show ?thesis by blast
qed

lemma create_inode_mode: "memfs_create_inode name ty mf = Some (a, mf') \<Longrightarrow>
    isize (inode_at mf' a) = 0 \<and> imode (inode_at mf' a) = 0x1ED"
  by (auto simp: memfs_create_inode_def upd_inode_def bind_eq_Some_conv split: if_splits)

lemma link_child_frame:
  assumes "link_child a d mf = Some mf'"
  shows "fs_kernel mf' = fs_kernel mf \<and> fs_root mf' = fs_root mf \<and>
    isize (inode_at mf' x) = isize (inode_at mf x) \<and> imode (inode_at mf' x) = imode (inode_at mf x) \<and>
    (x \<noteq> a \<and> x \<noteq> d \<longrightarrow> inode_at mf' x = inode_at mf x)"
  using assms by (auto simp: link_child_def upd_inode_def get_inode_def split: if_splits)

text \<open>Loading one file adds its node in front of the entries of the root.\<close>

lemma load_file_rep:
  assumes "rep mf t" and "writable f" and "allocate_file f (fs_kernel mf) = Some (a, k)" and "a \<notin> set (faddrs t)"
  shows "\<exists>mf'. load_file f mf = Some mf' \<and> rep mf' (with_files [a] [f] t) \<and> fs_kernel mf' = k \<and>
    isize (inode_at mf' a) = of_nat (length (file_data f)) \<and> imode (inode_at mf' a) = 0x1ED \<and>
    (\<forall>x. x \<noteq> a \<and> x \<noteq> faddr t \<longrightarrow> inode_at mf' x = inode_at mf x)"
proof -
  let ?n = "length (file_data f)"
  have w: "0 \<notin> set (file_name f)" "length (file_name f) < NAME_LEN - 1" "file_mode f < 2 ^ 32" "length (file_bytes f) < 2 ^ 32"
    using assms(2) by (auto simp: writable_def)
  obtain k1 p where k: "operator_new sizeof_MemFSInode (fs_kernel mf) = Some (a, k1)" "a \<noteq> 0" "p \<noteq> 0"
      "(if file_data f = [] then Some (1, k1) else operator_new (of_nat ?n) k1) = Some (p, k)"
  proof -
    obtain a' k1 p k2 where o: "operator_new sizeof_MemFSInode (fs_kernel mf) = Some (a', k1)"
        "(if file_data f = [] then Some (1, k1) else operator_new (of_nat ?n) k1) = Some (p, k2)"
        "(if a' = 0 \<or> p = 0 then None else Some (a', k2)) = Some (a, k)"
      using assms(3) unfolding allocate_file_def by (auto simp: bind_eq_Some_conv split del: if_split)
    moreover have "a' = a" "a \<noteq> 0" "p \<noteq> 0" "k2 = k" using o(3) by (simp_all split: if_splits)
    ultimately show thesis using that by simp
  qed
  let ?mf1 = "mf\<lparr>fs_kernel := k1\<rparr>"
  have new: "fs_new sizeof_MemFSInode mf = Some (a, ?mf1)" using k(1) by (simp add: fs_new_def)
  have nm: "cstr (file_name f @ [0]) = file_name f" "terminated (file_name f @ [0])" using cstr_name [OF w(1), of "[]"] by simp_all
  obtain i where i: "memfs_create_inode (file_name f @ [0]) (file_type f) mf = Some (a, ?mf1\<lparr>inode_at := (inode_at mf)(a := i)\<rparr>)"
      "rep_inode i 0 (file_name f) (file_type f) []" "ichildren i = 0"
    using create_inode_rep [OF new k(2) nm(2)] w(2) unfolding nm(1) by blast
  have m: "imode i = 0x1ED" using create_inode_mode [OF i(1)] by simp
  define j where "j = (if file_data f = [] then i\<lparr>idata := None, isize := 0, icapacity := 0\<rparr>
    else i\<lparr>idata := Some (p, file_data f), isize := of_nat ?n, icapacity := of_nat ?n\<rparr>)"
  define mf2 where "mf2 = mf\<lparr>fs_kernel := k, inode_at := (inode_at mf)(a := j)\<rparr>"
  have n: "unat (of_nat ?n :: u32) = ?n" using w(4) by (simp add: unat_of_nat file_data_def)
  have j: "rep_inode j 0 (file_name f) (file_type f) (file_data f)" "ichildren j = 0" "isize j = of_nat ?n" "imode j = 0x1ED"
    using i(2,3) m n by (auto simp: j_def rep_inode_def contents_def)
  have "load_file f mf = link_child a (fs_root mf) mf2"
  proof -
    have ty: "(if (of_nat (file_mode f) :: u16) AND 0xF000 = 0x4000 then FT_DIR else FT_REG) = file_type f"
      by (simp add: directory_mode file_type_def)
    have e: "file_type f = FT_REG \<and> (of_nat (length (file_bytes f)) :: u32) > 0 \<longleftrightarrow> file_data f \<noteq> []"
      using w(4) by (auto simp: file_data_def file_type_def word_gt_0_no word_neq_0_conv [symmetric] word_unat_eq_iff unat_of_nat)
    have b: "file_data f \<noteq> [] \<Longrightarrow> file_bytes f = file_data f" by (simp add: file_data_def split: if_splits)
    show ?thesis
    proof (cases "file_data f = []")
      case True
      then show ?thesis using i(1) k(2,4) by (simp add: load_file_def ty load_entry_def e upd_inode_def mf2_def j_def)
    next
      case False
      then have c: "memcpy (fresh_bytes m ?n) (file_data f) ?n = Some (file_data f)" for m by (simp add: memcpy_eq fresh_bytes_def)
      have "file_type f = FT_REG" "(of_nat ?n :: u32) > 0" using e b [OF False] False by simp_all
      then show ?thesis using False i(1) k(2-4) c n
        by (simp add: load_file_def ty load_entry_def b fs_new_def upd_inode_def mf2_def j_def)
    qed
  qed
  moreover obtain mf3 where mf3: "link_child a (faddr t) mf2 = Some mf3" "rep mf3 (tree_add (faddr t) (Node a (file_name f) (file_type f) (file_data f) []) t)"
    using link_child_rep [OF assms(1) _ k(2) assms(4) j(1,2), of "[]" t mf2] by (auto simp: mf2_def)
  moreover have "tree_add (faddr t) (Node a (file_name f) (file_type f) (file_data f) []) t = with_files [a] [f] t"
    by (cases t) (simp add: with_files_def file_node_def)
  moreover have "fs_root mf = faddr t" using assms(1) by (simp add: rep_def)
  ultimately show ?thesis using link_child_frame [OF mf3(1)] j(3,4) by (auto simp: mf2_def)
qed

lemma with_files_fields [simp]:
  "faddr (with_files as files t) = faddr t" "with_files [] files t = t"
  by (cases t; simp add: with_files_def)+

lemma with_files_step: "with_files as files (with_files [a] [f] t) = with_files (a # as) (f # files) t"
  by (simp add: with_files_def)

lemma with_files_addrs: "set (faddrs (with_files [a] [f] t)) = insert a (set (faddrs t))"
  by (cases t) (auto simp: with_files_def file_node_def)

lemma load_files_rep:
  assumes "rep mf t" and "list_all writable files" and "allocate_files files (fs_kernel mf) = Some (as, k)"
    and "distinct as" and "set as \<inter> set (faddrs t) = {}"
  shows "\<exists>mf'. load_files files mf = Some mf' \<and> rep mf' (with_files as files t) \<and> fs_kernel mf' = k \<and>
    list_all2 (\<lambda>a f. isize (inode_at mf' a) = of_nat (length (file_data f)) \<and> imode (inode_at mf' a) = 0x1ED) as files \<and>
    (\<forall>x. x \<notin> set as \<and> x \<noteq> faddr t \<longrightarrow> inode_at mf' x = inode_at mf x)"
  using assms
proof (induction files arbitrary: mf t as)
  case (Cons f files)
  then obtain a as' k' where a: "as = a # as'" "allocate_file f (fs_kernel mf) = Some (a, k')"
      "allocate_files files k' = Some (as', k)"
    by (auto simp: bind_eq_Some_conv)
  have w: "writable f" "list_all writable files" and d: "a \<notin> set (faddrs t)" "a \<notin> set as'" "distinct as'"
    using Cons.prems a(1) by auto
  obtain mf1 where 1: "load_file f mf = Some mf1" "rep mf1 (with_files [a] [f] t)" "fs_kernel mf1 = k'"
      "isize (inode_at mf1 a) = of_nat (length (file_data f))" "imode (inode_at mf1 a) = 0x1ED"
      "\<forall>x. x \<noteq> a \<and> x \<noteq> faddr t \<longrightarrow> inode_at mf1 x = inode_at mf x"
    using load_file_rep [OF Cons.prems(1) w(1) a(2) d(1)] by blast
  have "set as' \<inter> set (faddrs (with_files [a] [f] t)) = {}" using Cons.prems(5) a(1) d(2) by (auto simp: with_files_addrs)
  then obtain mf' where 2: "load_files files mf1 = Some mf'" "rep mf' (with_files as' files (with_files [a] [f] t))" "fs_kernel mf' = k"
      "list_all2 (\<lambda>a f. isize (inode_at mf' a) = of_nat (length (file_data f)) \<and> imode (inode_at mf' a) = 0x1ED) as' files"
      "\<forall>x. x \<notin> set as' \<and> x \<noteq> faddr t \<longrightarrow> inode_at mf' x = inode_at mf1 x"
    using Cons.IH [OF 1(2) w(2) _ d(3)] a(3) 1(3) by auto
  have "a \<noteq> faddr t" using d(1) by auto
  then have "inode_at mf' a = inode_at mf1 a" using 2(5) d(2) by blast
  then show ?case using 1 2 a(1) by (intro exI [of _ mf']) (simp add: with_files_step)
qed simp

section \<open>Property\<close>

text \<open>
  C19. Loading an archive that was written from a list of files returns 0 and puts exactly these
  files into the tree of the file system: their nodes come in front of the entries of the
  root, the last file first, each with the name, the type and the bytes that were written, and
  everything else of the tree stays. The size of each inode is the number of bytes, its mode is 0755, the
  kernel has given out just the memory for the inodes and the bytes, and no other inode changes.
  The archive lies at an aligned address and ends at least four bytes before the end of the
  address space; names contain no zero byte, have at most 254 characters and do not start like that of the
  trailer; the kernel has the memory, at addresses that no inode of the tree has.
\<close>

theorem load_initramfs_archive:
  assumes "unat base mod 4 = 0" and "unat base + length (archive files) + 4 < 2 ^ 32" and "list_all writable files"
    and "rep mf t" and "allocate_files files (fs_kernel mf) = Some (as, k)" and "distinct as" and "set as \<inter> set (faddrs t) = {}"
  shows "\<exists>mf'. load_initramfs base (archive files) mf = Some (0, mf') \<and> rep mf' (with_files as files t) \<and>
    fs_kernel mf' = k \<and>
    list_all2 (\<lambda>a f. isize (inode_at mf' a) = of_nat (length (file_data f)) \<and> imode (inode_at mf' a) = 0x1ED) as files \<and>
    (\<forall>x. x \<notin> set as \<and> x \<noteq> faddr t \<longrightarrow> inode_at mf' x = inode_at mf x)"
proof -
  have a: "archive files = [] @ concat (map cpio_entry files) @ cpio_entry trailer"
    by (simp add: archive_def trailer_def)
  have "length (archive files) \<ge> 110" unfolding a by (simp add: cpio_entry_def Let_def)
  then have "load_initramfs base (archive files) mf = map_option (\<lambda>mf. (0, mf)) (load_files files mf)"
    using load_loop_files [OF assms(1-3) a, of mf] by (cases "load_files files mf") (simp_all add: load_initramfs_def)
  then show ?thesis using load_files_rep [OF assms(4,3,5-7)] by auto
qed

definition one_file :: CpioFile where
  "one_file = \<lparr>file_name = [0x69], file_mode = 0x81A4, file_bytes = [1, 2, 3], file_meta = (\<lambda>_. 1)\<rparr>"


lemma small_fs_file: "\<exists>k. allocate_files [one_file] (fs_kernel small_fs) = Some ([0xC0007020], k)"
proof -
  have "length (file_data one_file) = 3" "file_data one_file \<noteq> []" by (simp_all add: file_data_def file_type_def one_file_def)
  moreover have "get_general_cache 288 = Some 6" "get_general_cache 3 = Some 0" by code_simp+
  ultimately show ?thesis
  by (simp add: allocate_file_def operator_new_def km_kmalloc_def on_slab_def small_fs_def fs_memory_def switch_kernel_def
      kmap_memory_def kmalloc_def cache_alloc_def
      take_object_def upd_slab_def Let_def)
qed

theorem load_initramfs_archive_witness:
  "\<exists>mf'. load_initramfs 0x100000 (archive [one_file]) small_fs = Some (0, mf') \<and>
     rep mf' (Node 0x1000 [] FT_DIR [] [Node 0xC0007020 [0x69] FT_REG [1, 2, 3] [], Node 0x2000 [0x61] FT_DIR [] []]) \<and>
     isize (inode_at mf' 0xC0007020) = 3"
proof -
  have "length (archive [one_file]) = 240" by (simp add: archive_def one_file_def cpio_entry_def trailer_name_def pad4_def)
  moreover have "writable one_file" by (simp add: writable_def one_file_def trailer_name_def)
  moreover obtain k where "allocate_files [one_file] (fs_kernel small_fs) = Some ([0xC0007020], k)" using small_fs_file by auto
  moreover have "with_files [0xC0007020] [one_file] small_tree =
      Node 0x1000 [] FT_DIR [] [Node 0xC0007020 [0x69] FT_REG [1, 2, 3] [], Node 0x2000 [0x61] FT_DIR [] []]"
      "length (file_data one_file) = 3" "0xC0007020 \<notin> set (faddrs small_tree)"
    by (simp_all add: with_files_def small_tree_def file_node_def file_data_def file_type_def one_file_def)
  ultimately show ?thesis using load_initramfs_archive [of "0x100000" "[one_file]" small_fs small_tree "[0xC0007020]" k] small_fs_rep
    by auto
qed

end
