(* ===== verification/PageCache.thy ===== *)
theory PageCache
  imports BlockDev
begin

text \<open>
  The page cache of \<open>kernel/fs/SimplePageCache.cpp\<close> over a hash table of pages. A bucket is the
  list of its nodes, which nothing else points to; a pointer to a page is its key. The mutex
  makes each operation atomic. The device is an argument: its virtual functions.
\<close>

section \<open>The hash table\<close>

record Page =
  page_data :: "u8 list"
  page_size :: u32
  dirty :: bool

record HashList =
  buckets :: "(u64 \<times> Page) list list"
  hl_size :: u32

abbreviation (input) BUCKET_COUNT :: u32 where "BUCKET_COUNT \<equiv> 256"

definition new_HashList :: HashList where
  "new_HashList = \<lparr>buckets = replicate (unat BUCKET_COUNT) [], hl_size = 0\<rparr>"

definition hl_hash :: "u64 \<Rightarrow> nat" where
  "hl_hash key = unat ((ucast key :: u32) mod BUCKET_COUNT)"

definition hl_find :: "HashList \<Rightarrow> u64 \<Rightarrow> Page option" where
  "hl_find t key = map_of (buckets t ! hl_hash key) key"

primrec replace_node :: "u64 \<Rightarrow> Page \<Rightarrow> (u64 \<times> Page) list \<Rightarrow> (u64 \<times> Page) list option" where
  "replace_node key v [] = None"
| "replace_node key v (n # ns) =
     (if fst n = key then Some ((key, v) # ns) else map_option ((#) n) (replace_node key v ns))"

definition hl_insert :: "HashList \<Rightarrow> u64 \<Rightarrow> Page \<Rightarrow> HashList" where
  "hl_insert t key v =
     (let i = hl_hash key; b = buckets t ! i in
      case replace_node key v b of
        Some b' \<Rightarrow> t\<lparr>buckets := (buckets t)[i := b']\<rparr>
      | None \<Rightarrow> t\<lparr>buckets := (buckets t)[i := (key, v) # b], hl_size := hl_size t + 1\<rparr>)"

primrec remove_node_list :: "u64 \<Rightarrow> (u64 \<times> Page) list \<Rightarrow> (u64 \<times> Page) list option" where
  "remove_node_list key [] = None"
| "remove_node_list key (n # ns) =
     (if fst n = key then Some ns else map_option ((#) n) (remove_node_list key ns))"

definition hl_erase :: "HashList \<Rightarrow> u64 \<Rightarrow> bool \<times> HashList" where
  "hl_erase t key =
     (let i = hl_hash key in
      case remove_node_list key (buckets t ! i) of
        Some b' \<Rightarrow> (True, t\<lparr>buckets := (buckets t)[i := b'], hl_size := hl_size t - 1\<rparr>)
      | None \<Rightarrow> (False, t))"

definition hl_clear :: "HashList \<Rightarrow> HashList" where
  "hl_clear t = t\<lparr>buckets := map (\<lambda>_. []) (buckets t), hl_size := 0\<rparr>"

definition hl_for_each :: "(Page \<Rightarrow> Page) \<Rightarrow> HashList \<Rightarrow> HashList" where
  "hl_for_each f t = t\<lparr>buckets := map (map (\<lambda>(k, v). (k, f v))) (buckets t)\<rparr>"

section \<open>The cache\<close>

record 'd BlockDevice =
  bd_read :: "u32 \<Rightarrow> u8 list \<Rightarrow> 'd \<Rightarrow> (bool \<times> u8 list \<times> 'd) option"
  bd_write :: "u32 \<Rightarrow> u8 list \<Rightarrow> 'd \<Rightarrow> (bool \<times> 'd) option"
  bd_info :: BlockDeviceInfo

record SimplePageCache =
  cache :: HashList
  pc_page_size :: u32
  max_pages :: u32
  pc_fresh :: "nat \<Rightarrow> u8"

definition new_SimplePageCache :: "u32 \<Rightarrow> u32 \<Rightarrow> (nat \<Rightarrow> u8) \<Rightarrow> SimplePageCache" where
  "new_SimplePageCache psize mx fresh = \<lparr>cache = new_HashList, pc_page_size = psize, max_pages = mx, pc_fresh = fresh\<rparr>"

definition pc_exists :: "u64 \<Rightarrow> SimplePageCache \<Rightarrow> bool" where
  "pc_exists key c \<longleftrightarrow> hl_find (cache c) key \<noteq> None"

text \<open>The page is read into fresh memory; the result of the device is not looked at.\<close>

definition get_page :: "'d BlockDevice \<Rightarrow> u64 \<Rightarrow> SimplePageCache \<Rightarrow> 'd \<Rightarrow> (Page \<times> SimplePageCache \<times> 'd) option" where
  "get_page D key c d =
     (case hl_find (cache c) key of
        Some p \<Rightarrow> Some (p, c, d)
      | None \<Rightarrow>
          do { (_, bytes, d) \<leftarrow> bd_read D (ucast key) (map (pc_fresh c) [0..<unat (pc_page_size c)]) d;
               let p = \<lparr>page_data = bytes, page_size = pc_page_size c, dirty = False\<rparr>;
               Some (p, c\<lparr>cache := hl_insert (cache c) key p\<rparr>, d) })"

definition read_page :: "u64 \<Rightarrow> u32 \<Rightarrow> u8 list \<Rightarrow> u32 \<Rightarrow> SimplePageCache \<Rightarrow> (u32 \<times> u8 list) option" where
  "read_page key offset buf sz c =
     (case hl_find (cache c) key of
        None \<Rightarrow> Some (0, buf)
      | Some p \<Rightarrow>
          if offset \<ge> pc_page_size c then Some (0, buf)
          else let n = min sz (pc_page_size c - offset) in
            do { buf \<leftarrow> memcpy buf (drop (unat offset) (page_data p)) (unat n); Some (n, buf) })"

definition write_page :: "u64 \<Rightarrow> u32 \<Rightarrow> u8 list \<Rightarrow> u32 \<Rightarrow> SimplePageCache \<Rightarrow> (u32 \<times> SimplePageCache) option" where
  "write_page key offset buf sz c =
     (case hl_find (cache c) key of
        None \<Rightarrow> Some (0, c)
      | Some p \<Rightarrow>
          if offset \<ge> pc_page_size c then Some (0, c)
          else let n = min sz (pc_page_size c - offset) in
            do { tail \<leftarrow> memcpy (drop (unat offset) (page_data p)) buf (unat n);
                 Some (n, c\<lparr>cache := hl_insert (cache c) key
                   (p\<lparr>page_data := take (unat offset) (page_data p) @ tail, dirty := True\<rparr>)\<rparr>) })"

definition mark_dirty :: "u64 \<Rightarrow> SimplePageCache \<Rightarrow> SimplePageCache" where
  "mark_dirty key c =
     (case hl_find (cache c) key of
        None \<Rightarrow> c | Some p \<Rightarrow> c\<lparr>cache := hl_insert (cache c) key (p\<lparr>dirty := True\<rparr>)\<rparr>)"

definition pc_flush :: "u64 \<Rightarrow> SimplePageCache \<Rightarrow> bool \<times> SimplePageCache" where
  "pc_flush key c =
     (case hl_find (cache c) key of
        None \<Rightarrow> (False, c)
      | Some p \<Rightarrow>
          if \<not> dirty p then (True, c)
          else (True, c\<lparr>cache := hl_insert (cache c) key (p\<lparr>dirty := False\<rparr>)\<rparr>))"

definition flush_all :: "SimplePageCache \<Rightarrow> SimplePageCache" where
  "flush_all c = c\<lparr>cache := hl_for_each (\<lambda>p. if dirty p then p\<lparr>dirty := False\<rparr> else p) (cache c)\<rparr>"

definition pc_invalidate :: "u64 \<Rightarrow> SimplePageCache \<Rightarrow> SimplePageCache" where
  "pc_invalidate key c =
     (if hl_find (cache c) key \<noteq> None then c\<lparr>cache := snd (hl_erase (cache c) key)\<rparr> else c)"

definition pc_clear :: "SimplePageCache \<Rightarrow> SimplePageCache" where
  "pc_clear c = c\<lparr>cache := hl_clear (cache c)\<rparr>"

definition page_count :: "SimplePageCache \<Rightarrow> u32" where
  "page_count c = hl_size (cache c)"

text \<open>The loop of \<open>set_max_pages\<close> has no body: it does not end when there are too many pages.\<close>

partial_function (option) shrink_loop :: "SimplePageCache \<Rightarrow> SimplePageCache option" where
  [code]: "shrink_loop c = (if hl_size (cache c) > max_pages c then shrink_loop c else Some c)"

definition set_max_pages :: "u32 \<Rightarrow> SimplePageCache \<Rightarrow> SimplePageCache option" where
  "set_max_pages n c = shrink_loop (c\<lparr>max_pages := n\<rparr>)"

section \<open>Maps from keys to values\<close>

text \<open>What a client of the table relies on, and what follows for any sequence of updates.\<close>

datatype ('k, 'v) update = Put 'k 'v | Drop 'k

locale key_map =
  fixes ok :: "'m \<Rightarrow> bool" and find :: "'m \<Rightarrow> 'k \<Rightarrow> 'v option"
    and put :: "'m \<Rightarrow> 'k \<Rightarrow> 'v \<Rightarrow> 'm" and drop_key :: "'m \<Rightarrow> 'k \<Rightarrow> 'm"
  assumes ok_put: "ok m \<Longrightarrow> ok (put m k v)"
    and ok_drop: "ok m \<Longrightarrow> ok (drop_key m k)"
    and find_put: "ok m \<Longrightarrow> find (put m k v) = (find m)(k \<mapsto> v)"
    and find_drop: "ok m \<Longrightarrow> find (drop_key m k) = (find m)(k := None)"
begin

fun apply_update :: "('k, 'v) update \<Rightarrow> 'm \<Rightarrow> 'm" where
  "apply_update (Put k v) m = put m k v"
| "apply_update (Drop k) m = drop_key m k"

fun map_update :: "('k, 'v) update \<Rightarrow> ('k \<rightharpoonup> 'v) \<Rightarrow> ('k \<rightharpoonup> 'v)" where
  "map_update (Put k v) f = f(k \<mapsto> v)"
| "map_update (Drop k) f = f(k := None)"

lemma updates_refine: "ok m \<Longrightarrow> ok (fold apply_update us m) \<and> find (fold apply_update us m) = fold map_update us (find m)"
proof (induction us arbitrary: m)
  case (Cons u us)
  then have "ok (apply_update u m)" "find (apply_update u m) = map_update u (find m)"
    by (cases u; simp add: ok_put ok_drop find_put find_drop)+
  with Cons.IH show ?case by simp
qed simp

lemma put_unchanged: "ok m \<Longrightarrow> find m k = Some v \<Longrightarrow> find (put m k v) = find m"
  by (simp add: find_put fun_upd_idem)

end

section \<open>The table is such a map\<close>

definition hl_ok :: "HashList \<Rightarrow> bool" where
  "hl_ok t \<longleftrightarrow> length (buckets t) = 256 \<and>
     (\<forall>i < 256. distinct (map fst (buckets t ! i)) \<and> (\<forall>k \<in> fst ` set (buckets t ! i). hl_hash k = i))"

lemma hl_hash_less [simp]: "hl_hash k < 256"
  by (simp add: hl_hash_def unat_mod)

lemma replace_node_None: "replace_node k v b = None \<longleftrightarrow> k \<notin> fst ` set b"
  by (induction b) auto

lemma replace_node_Some:
  "replace_node k v b = Some b' \<Longrightarrow> map fst b' = map fst b \<and> map_of b' = (map_of b)(k \<mapsto> v)"
  by (induction b arbitrary: b') (auto split: if_splits simp: fun_upd_twist)

lemma remove_node_None: "remove_node_list k b = None \<longleftrightarrow> k \<notin> fst ` set b"
  by (induction b) auto

lemma remove_node_Some:
  "remove_node_list k b = Some b' \<Longrightarrow> distinct (map fst b) \<Longrightarrow>
    distinct (map fst b') \<and> fst ` set b' \<subseteq> fst ` set b \<and> map_of b' = (map_of b)(k := None)"
proof (induction b arbitrary: b')
  case (Cons n b)
  show ?case
  proof (cases "fst n = k")
    case True
    then have "map_of b k = None" using Cons.prems(2) by (auto simp: map_of_eq_None_iff)
    then show ?thesis using True Cons.prems by (auto simp: fun_eq_iff)
  next
    case False
    then obtain c where c: "remove_node_list k b = Some c" "b' = n # c" using Cons.prems(1) by auto
    then show ?thesis using Cons.IH [OF c(1)] Cons.prems(2) False by (cases n) (auto simp: fun_upd_twist)
  qed
qed simp

lemma hl_bucket_update:
  assumes ok: "hl_ok t" and b: "distinct (map fst b')" "fst ` set b' \<subseteq> insert k (fst ` set (buckets t ! hl_hash k))"
    and m: "map_of b' = (map_of (buckets t ! hl_hash k))(k := x)"
  shows "hl_ok (t\<lparr>buckets := (buckets t)[hl_hash k := b'], hl_size := n\<rparr>)"
    and "hl_find (t\<lparr>buckets := (buckets t)[hl_hash k := b'], hl_size := n\<rparr>) = (hl_find t)(k := x)"
proof -
  have l: "length (buckets t) = 256" using ok by (simp add: hl_ok_def)
  have "hl_hash a = hl_hash k" if "a \<in> fst ` set b'" for a
    using that b(2) ok hl_hash_less [of k] unfolding hl_ok_def by blast
  then show "hl_ok (t\<lparr>buckets := (buckets t)[hl_hash k := b'], hl_size := n\<rparr>)"
    using ok b(1) l by (auto simp: hl_ok_def nth_list_update)
  show "hl_find (t\<lparr>buckets := (buckets t)[hl_hash k := b'], hl_size := n\<rparr>) = (hl_find t)(k := x)"
    using m l by (auto simp: hl_find_def fun_eq_iff nth_list_update)
qed

lemma hl_insert_ok:
  assumes "hl_ok t"
  shows "hl_ok (hl_insert t k v)" and "hl_find (hl_insert t k v) = (hl_find t)(k \<mapsto> v)"
proof -
  let ?b = "buckets t ! hl_hash k"
  have d: "distinct (map fst ?b)" using assms by (simp add: hl_ok_def)
  have "hl_ok (hl_insert t k v) \<and> hl_find (hl_insert t k v) = (hl_find t)(k \<mapsto> v)"
  proof (cases "replace_node k v ?b")
    case None
    then have "k \<notin> fst ` set ?b" by (simp add: replace_node_None)
    with d None hl_bucket_update [OF assms, of "(k, v) # ?b" k "Some v" "hl_size t + 1"]
    show ?thesis by (auto simp: hl_insert_def Let_def)
  next
    case (Some b')
    then have r: "map fst b' = map fst ?b" "map_of b' = (map_of ?b)(k \<mapsto> v)" using replace_node_Some by blast+
    then have "fst ` set b' = fst ` set ?b" by (metis list.set_map)
    with r d Some hl_bucket_update [OF assms, of b' k "Some v" "hl_size t"]
    show ?thesis by (auto simp: hl_insert_def Let_def)
  qed
  then show "hl_ok (hl_insert t k v)" and "hl_find (hl_insert t k v) = (hl_find t)(k \<mapsto> v)" by simp_all
qed

lemma hl_erase_ok:
  assumes "hl_ok t"
  shows "hl_ok (snd (hl_erase t k)) \<and> hl_find (snd (hl_erase t k)) = (hl_find t)(k := None)"
proof -
  let ?b = "buckets t ! hl_hash k"
  have d: "distinct (map fst ?b)" using assms by (simp add: hl_ok_def)
  show ?thesis
  proof (cases "remove_node_list k ?b")
    case None
    then have "hl_find t k = None" by (simp add: remove_node_None hl_find_def map_of_eq_None_iff)
    then show ?thesis using None assms by (simp add: hl_erase_def Let_def fun_upd_idem)
  next
    case (Some b')
    with remove_node_Some [OF Some d] hl_bucket_update [OF assms, of b' k None "hl_size t - 1"]
    show ?thesis by (auto simp: hl_erase_def Let_def)
  qed
qed

interpretation page_table: key_map hl_ok hl_find hl_insert "\<lambda>t k. snd (hl_erase t k)"
  by unfold_locales (simp_all add: hl_insert_ok hl_erase_ok)

lemma hl_for_each_ok:
  assumes "hl_ok t"
  shows "hl_ok (hl_for_each f t) \<and> hl_find (hl_for_each f t) = (\<lambda>k. map_option f (hl_find t k))"
proof -
  define g where "g = (\<lambda>(k :: u64, v). (k, f v))"
  have b: "buckets (hl_for_each f t) = map (map g) (buckets t)" by (simp add: hl_for_each_def g_def)
  have m: "map fst (map g b) = map fst b" for b by (induction b) (auto simp: g_def)
  then have k: "fst ` set (map g b) = fst ` set b" for b by (metis list.set_map)
  have "map_of (map g b) k = map_option f (map_of b k)" for b k by (simp add: g_def map_of_map)
  moreover have "hl_ok (hl_for_each f t)"
    unfolding hl_ok_def b
  proof (intro conjI allI impI)
    show "length (map (map g) (buckets t)) = 256" using assms by (simp add: hl_ok_def)
    fix i :: nat
    assume i: "i < 256"
    then have e: "map (map g) (buckets t) ! i = map g (buckets t ! i)" using assms by (simp add: hl_ok_def)
    show "distinct (map fst (map (map g) (buckets t) ! i))" "\<forall>k \<in> fst ` set (map (map g) (buckets t) ! i). hl_hash k = i"
      unfolding e m k using assms i by (simp_all add: hl_ok_def)
  qed
  moreover have "length (buckets t) = 256" using assms by (simp add: hl_ok_def)
  ultimately show ?thesis by (simp add: hl_find_def b fun_eq_iff)
qed

lemma hl_clear_ok: "hl_ok t \<Longrightarrow> hl_ok (hl_clear t) \<and> hl_find (hl_clear t) = Map.empty"
  by (auto simp: hl_ok_def hl_clear_def hl_find_def fun_eq_iff)

section \<open>Property\<close>

text \<open>
  The operations as data, one step of the cache, and the specification over the contents of
  the pages: a partial map from block numbers to bytes.
\<close>

datatype cache_op = Get u64 | Read u64 u32 "u8 list" u32 | Write u64 u32 "u8 list" u32 | MarkDirty u64
  | Flush u64 | FlushAll | Invalidate u64 | Clear

fun cache_step :: "'d BlockDevice \<Rightarrow> cache_op \<Rightarrow> SimplePageCache \<times> 'd \<Rightarrow> (u8 list \<times> SimplePageCache \<times> 'd) option" where
  "cache_step D (Get k) (c, d) = do { (p, c, d) \<leftarrow> get_page D k c d; Some (page_data p, c, d) }"
| "cache_step D (Read k off buf n) (c, d) = do { (_, buf) \<leftarrow> read_page k off buf n c; Some (buf, c, d) }"
| "cache_step D (Write k off buf n) (c, d) = do { (_, c) \<leftarrow> write_page k off buf n c; Some ([], c, d) }"
| "cache_step D (MarkDirty k) (c, d) = Some ([], mark_dirty k c, d)"
| "cache_step D (Flush k) (c, d) = Some ([], snd (pc_flush k c), d)"
| "cache_step D FlushAll (c, d) = Some ([], flush_all c, d)"
| "cache_step D (Invalidate k) (c, d) = Some ([], pc_invalidate k c, d)"
| "cache_step D Clear (c, d) = Some ([], pc_clear c, d)"

definition contents_of :: "SimplePageCache \<Rightarrow> u64 \<rightharpoonup> u8 list" where
  "contents_of c k = map_option page_data (hl_find (cache c) k)"

definition cache_ok :: "u32 \<Rightarrow> (nat \<Rightarrow> u8) \<Rightarrow> SimplePageCache \<Rightarrow> bool" where
  "cache_ok sz fresh c \<longleftrightarrow> hl_ok (cache c) \<and> pc_page_size c = sz \<and> pc_fresh c = fresh"

fun spec_step :: "u32 \<Rightarrow> (nat \<Rightarrow> u8) \<Rightarrow> 'd BlockDevice \<Rightarrow> cache_op \<Rightarrow> (u64 \<rightharpoonup> u8 list) \<times> 'd \<Rightarrow>
    (u8 list \<times> (u64 \<rightharpoonup> u8 list) \<times> 'd) option" where
  "spec_step sz fresh D (Get k) (m, d) =
     (case m k of Some bs \<Rightarrow> Some (bs, m, d)
      | None \<Rightarrow> do { (_, bs, d) \<leftarrow> bd_read D (ucast k) (map fresh [0..<unat sz]) d; Some (bs, m(k \<mapsto> bs), d) })"
| "spec_step sz fresh D (Read k off buf n) (m, d) =
     (case m k of
        Some bs \<Rightarrow> if off < sz
          then do { buf \<leftarrow> memcpy buf (drop (unat off) bs) (unat (min n (sz - off))); Some (buf, m, d) }
          else Some (buf, m, d)
      | None \<Rightarrow> Some (buf, m, d))"
| "spec_step sz fresh D (Write k off buf n) (m, d) =
     (case m k of
        Some bs \<Rightarrow> if off < sz
          then do { tl \<leftarrow> memcpy (drop (unat off) bs) buf (unat (min n (sz - off)));
                    Some ([], m(k \<mapsto> take (unat off) bs @ tl), d) }
          else Some ([], m, d)
      | None \<Rightarrow> Some ([], m, d))"
| "spec_step sz fresh D (Invalidate k) (m, d) = Some ([], m(k := None), d)"
| "spec_step sz fresh D Clear (m, d) = Some ([], Map.empty, d)"
| "spec_step sz fresh D _ (m, d) = Some ([], m, d)"

lemma contents_of_insert:
  "hl_ok (cache c) \<Longrightarrow> contents_of (c\<lparr>cache := hl_insert (cache c) k p\<rparr>) = (contents_of c)(k \<mapsto> page_data p)"
  by (simp add: contents_of_def fun_eq_iff page_table.find_put)

lemma contents_of_put_same:
  "hl_ok (cache c) \<Longrightarrow> hl_find (cache c) k = Some p \<Longrightarrow> page_data p' = page_data p \<Longrightarrow>
    contents_of (c\<lparr>cache := hl_insert (cache c) k p'\<rparr>) = contents_of c"
  by (simp add: contents_of_insert) (simp add: contents_of_def fun_upd_idem)

lemma cache_ok_insert: "cache_ok sz fresh c \<Longrightarrow> cache_ok sz fresh (c\<lparr>cache := hl_insert (cache c) k p\<rparr>)"
  by (simp add: cache_ok_def page_table.ok_put)

lemma step_refines:
  assumes "cache_ok sz fresh c"
  shows "(case cache_step D op (c, d) of None \<Rightarrow> spec_step sz fresh D op (contents_of c, d) = None
    | Some (out, c', d') \<Rightarrow> spec_step sz fresh D op (contents_of c, d) = Some (out, contents_of c', d') \<and> cache_ok sz fresh c')"
proof -
  have ok: "hl_ok (cache c)" "pc_page_size c = sz" "pc_fresh c = fresh" using assms by (simp_all add: cache_ok_def)
  have find: "contents_of c k = map_option page_data (hl_find (cache c) k)" for k by (simp add: contents_of_def)
  note facts = ok find assms contents_of_insert [OF ok(1)] contents_of_put_same [OF ok(1)] cache_ok_insert [OF assms]
  have fa: "contents_of (flush_all c) = contents_of c" "cache_ok sz fresh (flush_all c)"
    using hl_for_each_ok [OF ok(1)] assms
    by (auto simp: flush_all_def contents_of_def cache_ok_def fun_eq_iff option.map_comp intro!: option.map_cong0)
  have cl: "contents_of (pc_clear c) = Map.empty" "cache_ok sz fresh (pc_clear c)"
    using hl_clear_ok [OF ok(1)] assms by (auto simp: pc_clear_def contents_of_def cache_ok_def)
  have inv: "contents_of (pc_invalidate k c) = (contents_of c)(k := None)" "cache_ok sz fresh (pc_invalidate k c)" for k
    using hl_erase_ok [OF ok(1), of k] assms
    by (auto simp: pc_invalidate_def contents_of_def cache_ok_def fun_eq_iff)
  show ?thesis
  proof (cases op)
    case (Get k)
    then show ?thesis by (cases "hl_find (cache c) k") (auto simp: facts get_page_def Let_def split: option.splits bind_splits)
  next
    case (Read k off buf n)
    then show ?thesis by (cases "hl_find (cache c) k") (auto simp: facts read_page_def Let_def not_le split: option.splits bind_splits)
  next
    case (Write k off buf n)
    then show ?thesis by (cases "hl_find (cache c) k") (auto simp: facts write_page_def Let_def not_le split: option.splits bind_splits)
  next
    case (MarkDirty k)
    then show ?thesis by (cases "hl_find (cache c) k") (auto simp: facts mark_dirty_def)
  next
    case (Flush k)
    then show ?thesis by (cases "hl_find (cache c) k") (auto simp: facts pc_flush_def)
  qed (simp_all add: fa cl inv)
qed

fun run_cache :: "'d BlockDevice \<Rightarrow> cache_op list \<Rightarrow> SimplePageCache \<times> 'd \<Rightarrow> (u8 list list \<times> SimplePageCache \<times> 'd) option" where
  "run_cache D [] (c, d) = Some ([], c, d)"
| "run_cache D (op # ops) (c, d) =
     do { (r, c, d) \<leftarrow> cache_step D op (c, d); (rs, c, d) \<leftarrow> run_cache D ops (c, d); Some (r # rs, c, d) }"

fun run_spec :: "u32 \<Rightarrow> (nat \<Rightarrow> u8) \<Rightarrow> 'd BlockDevice \<Rightarrow> cache_op list \<Rightarrow> (u64 \<rightharpoonup> u8 list) \<times> 'd \<Rightarrow>
    (u8 list list \<times> (u64 \<rightharpoonup> u8 list) \<times> 'd) option" where
  "run_spec sz fresh D [] (m, d) = Some ([], m, d)"
| "run_spec sz fresh D (op # ops) (m, d) =
     do { (r, m, d) \<leftarrow> spec_step sz fresh D op (m, d); (rs, m, d) \<leftarrow> run_spec sz fresh D ops (m, d); Some (r # rs, m, d) }"

lemma run_cache_refines:
  "cache_ok sz fresh c \<Longrightarrow> map_option (\<lambda>(rs, c, d). (rs, contents_of c, d)) (run_cache D ops (c, d)) =
    run_spec sz fresh D ops (contents_of c, d)"
proof (induction ops arbitrary: c d)
  case (Cons op ops)
  show ?case
  proof (cases "cache_step D op (c, d)")
    case None
    then show ?thesis using step_refines [OF Cons.prems, of D op d] by simp
  next
    case (Some r)
    obtain out c' d' where r: "r = (out, c', d')" by (cases r)
    then have s: "spec_step sz fresh D op (contents_of c, d) = Some (out, contents_of c', d')" "cache_ok sz fresh c'"
      using step_refines [OF Cons.prems, of D op d] Some by auto
    show ?thesis using Cons.IH [OF s(2), of d'] Some r s(1)
      by (cases "run_cache D ops (c', d')") (auto split: bind_splits)
  qed
qed simp

text \<open>
  C3. Every sequence of operations on a new cache returns what the specification returns: the
  cache is a map from block numbers to the bytes of the page, filled from the device on the
  first access. Flushing leaves the device alone, and invalidating or clearing drops what was
  written, so the next access reads the old block.
\<close>

theorem page_cache_refines:
  "map_option (\<lambda>(rs, c, d). (rs, contents_of c, d)) (run_cache D ops (new_SimplePageCache sz mx fresh, d)) =
   run_spec sz fresh D ops (Map.empty, d)"
proof -
  let ?c = "new_SimplePageCache sz mx fresh"
  have ok: "hl_ok new_HashList" by (simp add: hl_ok_def new_HashList_def)
  have "contents_of ?c = Map.empty"
    by (simp add: contents_of_def new_SimplePageCache_def hl_find_def new_HashList_def fun_eq_iff)
  moreover have "cache_ok sz fresh ?c" using ok by (simp add: cache_ok_def new_SimplePageCache_def)
  ultimately show ?thesis using run_cache_refines [of sz fresh ?c D ops d] by simp
qed

text \<open>C40. \<open>set_max_pages\<close> ends exactly when the cache holds no more pages than the new limit.\<close>

theorem set_max_pages_ends_iff:
  "set_max_pages n c = (if page_count c > n then None else Some (c\<lparr>max_pages := n\<rparr>))"
proof -
  have "\<not> hl_size (cache c) > max_pages c" if "shrink_loop c = Some c'" for c c'
    by (rule shrink_loop.raw_induct [where P = "\<lambda>c _. \<not> hl_size (cache c) > max_pages c", OF _ that])
      (auto split: if_splits)
  then have "hl_size (cache c) > max_pages c \<Longrightarrow> shrink_loop c = None" for c by (cases "shrink_loop c") auto
  moreover have "\<not> hl_size (cache c) > max_pages c \<Longrightarrow> shrink_loop c = Some c" for c by (subst shrink_loop.simps) simp
  ultimately show ?thesis by (simp add: set_max_pages_def page_count_def)
qed

end
