(* ===== verification/Ext2.thy ===== *)
theory Ext2
  imports PageCache
begin

text \<open>
  The EXT2 file system of \<open>drivers/ext2.cpp\<close>. Structures on the disk are bytes; their fields
  are read at the offsets the C++ structures give them. The state holds the device, whose
  virtual functions are an argument, the super block, the page cache and the bytes of fresh
  buffers. Allocations succeed; a null inode is \<open>None\<close> inside the result.
\<close>

section \<open>Bytes\<close>

definition get16 :: "u8 list \<Rightarrow> nat \<Rightarrow> u16 option" where
  "get16 bs i = (if i + 2 \<le> length bs then Some (ucast (bs ! i) OR push_bit 8 (ucast (bs ! (i + 1)))) else None)"

definition get32 :: "u8 list \<Rightarrow> nat \<Rightarrow> u32 option" where
  "get32 bs i =
     (if i + 4 \<le> length bs
      then Some (ucast (bs ! i) OR push_bit 8 (ucast (bs ! (i + 1))) OR push_bit 16 (ucast (bs ! (i + 2))) OR
                 push_bit 24 (ucast (bs ! (i + 3))))
      else None)"

definition put_at :: "u8 list \<Rightarrow> nat \<Rightarrow> u8 list \<Rightarrow> u8 list option" where
  "put_at bs i xs = (if i + length xs \<le> length bs then Some (take i bs @ xs @ drop (i + length xs) bs) else None)"

definition bytes16 :: "u16 \<Rightarrow> u8 list" where
  "bytes16 v = [ucast v, ucast (drop_bit 8 v)]"

definition bytes32 :: "u32 \<Rightarrow> u8 list" where
  "bytes32 v = [ucast v, ucast (drop_bit 8 v), ucast (drop_bit 16 v), ucast (drop_bit 24 v)]"

section \<open>State\<close>

record Ext2SuperBlock =
  inodes_count :: u32
  blocks_count :: u32
  first_data_block :: u32
  log_block_size :: u32
  sb_magic :: u16
  inode_size :: u16

record 'd Ext2FileSystem =
  ex_device :: 'd
  super_block :: Ext2SuperBlock
  bg_inode_table :: u32
  root_inodes :: "u8 list"
  current_dir_inode :: u32
  ex_cache :: SimplePageCache
  ex_fresh :: "nat \<Rightarrow> u8"

record Ext2FileDescriptor =
  m_inode :: u32
  m_position :: u32

abbreviation (input) EXT2_MAGIC :: u16 where "EXT2_MAGIC \<equiv> 0xEF53"
abbreviation (input) EXT2_ROOT_INO :: u32 where "EXT2_ROOT_INO \<equiv> 2"
abbreviation (input) FT_DIR :: u8 where "FT_DIR \<equiv> 2"
abbreviation (input) sizeof_Ext2Inode :: nat where "sizeof_Ext2Inode \<equiv> 128"

definition fresh_block :: "'d Ext2FileSystem \<Rightarrow> u32 \<Rightarrow> u8 list" where
  "fresh_block e n = map (ex_fresh e) [0..<unat n]"

definition dev_read :: "'d BlockDevice \<Rightarrow> u32 \<Rightarrow> u8 list \<Rightarrow> 'd Ext2FileSystem \<Rightarrow> (bool \<times> u8 list \<times> 'd Ext2FileSystem) option" where
  "dev_read D n buf e = do { (ok, buf, d) \<leftarrow> bd_read D n buf (ex_device e); Some (ok, buf, e\<lparr>ex_device := d\<rparr>) }"

definition dev_write :: "'d BlockDevice \<Rightarrow> u32 \<Rightarrow> u8 list \<Rightarrow> 'd Ext2FileSystem \<Rightarrow> (bool \<times> 'd Ext2FileSystem) option" where
  "dev_write D n buf e = do { (ok, d) \<leftarrow> bd_write D n buf (ex_device e); Some (ok, e\<lparr>ex_device := d\<rparr>) }"

text \<open>\<open>1024 << log_block_size\<close> in 32 bits, undefined beyond them.\<close>

abbreviation (input) sb_block_size :: "Ext2SuperBlock \<Rightarrow> u32 option" where
  "sb_block_size sb \<equiv> (if log_block_size sb < 22 then Some (push_bit (unat (log_block_size sb)) 1024) else None)"

definition parse_super :: "u8 list \<Rightarrow> Ext2SuperBlock option" where
  "parse_super bs =
     do { ic \<leftarrow> get32 bs 0; bc \<leftarrow> get32 bs 4; fd \<leftarrow> get32 bs 20; lb \<leftarrow> get32 bs 24; mg \<leftarrow> get16 bs 56; is \<leftarrow> get16 bs 88;
          Some \<lparr>inodes_count = ic, blocks_count = bc, first_data_block = fd, log_block_size = lb, sb_magic = mg, inode_size = is\<rparr> }"

definition ino_mode :: "u8 list \<Rightarrow> u16 option" where "ino_mode i = get16 i 0"
definition ino_size :: "u8 list \<Rightarrow> u32 option" where "ino_size i = get32 i 4"
definition ino_links :: "u8 list \<Rightarrow> u16 option" where "ino_links i = get16 i 26"
definition ino_blocks :: "u8 list \<Rightarrow> u32 option" where "ino_blocks i = get32 i 28"

text \<open>\<open>i_block[k]\<close>, an array of 15 words.\<close>

definition i_block :: "u8 list \<Rightarrow> nat \<Rightarrow> u32 option" where
  "i_block i k = (if k < 15 then get32 i (40 + 4 * k) else None)"

abbreviation (input) is_dir_mode :: "u16 \<Rightarrow> bool" where
  "is_dir_mode m \<equiv> m AND 0xF000 = 0x4000"

section \<open>The super block and inodes\<close>

definition read_super_block :: "'d BlockDevice \<Rightarrow> 'd Ext2FileSystem \<Rightarrow> (bool \<times> 'd Ext2FileSystem) option" where
  "read_super_block D e =
     do { (ok, buffer, e) \<leftarrow> dev_read D 0 (fresh_block e 4096) e;
          if \<not> ok then Some (False, e)
          else do {
            sb \<leftarrow> parse_super (drop 1024 buffer);
            let e = e\<lparr>super_block := sb\<rparr>;
            if sb_magic sb \<noteq> EXT2_MAGIC then Some (False, e)
            else do {
              (ok, buffer, e) \<leftarrow> dev_read D (first_data_block sb + 1) (fresh_block e 4096) e;
              if \<not> ok then Some (False, e)
              else do {
                table \<leftarrow> get32 buffer 8;
                let e = e\<lparr>bg_inode_table := table\<rparr>;
                if inode_size sb = 0 \<or> inode_size sb > 4096 then None
                else do {
                  let off = 1 mod (4096 div unat (inode_size sb)) * unat (inode_size sb);
                  (ok, buffer, e) \<leftarrow> dev_read D table (fresh_block e 4096) e;
                  if \<not> ok then Some (False, e)
                  else do { root \<leftarrow> memcpy (replicate sizeof_Ext2Inode 0) (drop off buffer) sizeof_Ext2Inode;
                            Some (True, e\<lparr>root_inodes := root\<rparr>) } } } } } }"

text \<open>The constructor, on the memory of the object before it: what it does not set keeps its bytes.\<close>

definition new_Ext2FileSystem :: "'d BlockDevice \<Rightarrow> 'd Ext2FileSystem \<Rightarrow> 'd Ext2FileSystem option" where
  "new_Ext2FileSystem D e =
     map_option snd (read_super_block D
       (e\<lparr>super_block := \<lparr>inodes_count = 0, blocks_count = 0, first_data_block = 0, log_block_size = 0,
                          sb_magic = 0, inode_size = 0\<rparr>,
          current_dir_inode := 2, ex_cache := new_SimplePageCache 4096 1024 (ex_fresh e)\<rparr>))"

definition read_inode :: "'d BlockDevice \<Rightarrow> u32 \<Rightarrow> 'd Ext2FileSystem \<Rightarrow> (u8 list option \<times> 'd Ext2FileSystem) option" where
  "read_inode D n e =
     do { let sb = super_block e;
          bsize \<leftarrow> sb_block_size sb;
          if n = 0 \<or> n > inodes_count sb then Some (None, e)
          else if inode_size sb = 0 \<or> bsize div ucast (inode_size sb) = 0 then None
          else do {
            let per_block = bsize div ucast (inode_size sb);
            (ok, block, e) \<leftarrow> dev_read D ((n - 1) div per_block + bg_inode_table e) (fresh_block e bsize) e;
            if \<not> ok then Some (None, e)
            else do { let off = (n - 1) mod per_block * ucast (inode_size sb);
                      inode \<leftarrow> memcpy (replicate sizeof_Ext2Inode 0) (drop (unat off) block) sizeof_Ext2Inode;
                      Some (Some inode, e) } } }"

definition write_inode :: "'d BlockDevice \<Rightarrow> u32 \<Rightarrow> u8 list option \<Rightarrow> 'd Ext2FileSystem \<Rightarrow> (bool \<times> 'd Ext2FileSystem) option" where
  "write_inode D n inode e =
     (case inode of
        None \<Rightarrow> Some (False, e)
      | Some i \<Rightarrow>
          if n = 0 \<or> n > inodes_count (super_block e) then Some (False, e)
          else let bsize = sector_size (bd_info D); per_block = bsize div of_nat sizeof_Ext2Inode in
            if per_block = 0 then None
            else do {
              let block_num = (n - 1) div per_block + first_data_block (super_block e);
              (ok, block, e) \<leftarrow> dev_read D block_num (fresh_block e bsize) e;
              if \<not> ok then Some (False, e)
              else do { block \<leftarrow> put_at block (unat ((n - 1) mod per_block) * sizeof_Ext2Inode) (take sizeof_Ext2Inode i);
                        dev_write D block_num block e } })"

text \<open>The search for a block of zeros; \<open>k\<close> blocks remain.\<close>

primrec allocate_block_loop :: "'d BlockDevice \<Rightarrow> nat \<Rightarrow> u32 \<Rightarrow> u8 list \<Rightarrow> 'd Ext2FileSystem \<Rightarrow> (u32 \<times> 'd Ext2FileSystem) option" where
  "allocate_block_loop D 0 i buf e = Some (0, e)"
| "allocate_block_loop D (Suc k) i buf e =
     do { (ok, buf, e) \<leftarrow> dev_read D i buf e;
          if ok \<and> list_all (\<lambda>b. b = 0) (take (unat (sector_size (bd_info D))) buf) then Some (i, e)
          else allocate_block_loop D k (i + 1) buf e }"

definition allocate_block :: "'d BlockDevice \<Rightarrow> 'd Ext2FileSystem \<Rightarrow> (u32 \<times> 'd Ext2FileSystem) option" where
  "allocate_block D e =
     (let sb = super_block e in
      allocate_block_loop D (unat (blocks_count sb) - unat (first_data_block sb)) (first_data_block sb)
        (fresh_block e (sector_size (bd_info D))) e)"

partial_function (option) allocate_inode_loop :: "'d BlockDevice \<Rightarrow> u32 \<Rightarrow> 'd Ext2FileSystem \<Rightarrow> (u32 \<times> 'd Ext2FileSystem) option" where
  [code]: "allocate_inode_loop D i e =
     (if i \<le> inodes_count (super_block e)
      then do {
        (inode, e) \<leftarrow> read_inode D i e;
        free \<leftarrow> (case inode of None \<Rightarrow> Some False | Some n \<Rightarrow> map_option (\<lambda>m. m = 0) (ino_mode n));
        if free then Some (i, e) else allocate_inode_loop D (i + 1) e }
      else Some (0, e))"

definition allocate_inode :: "'d BlockDevice \<Rightarrow> 'd Ext2FileSystem \<Rightarrow> (u32 \<times> 'd Ext2FileSystem) option" where
  "allocate_inode D e = allocate_inode_loop D 1 e"

definition ext2_mkdir :: "'d BlockDevice \<Rightarrow> u8 list \<Rightarrow> 'd Ext2FileSystem \<Rightarrow> (int \<times> 'd Ext2FileSystem) option" where
  "ext2_mkdir D path e =
     do { (new_inode, e) \<leftarrow> allocate_inode D e;
          if new_inode = 0 then Some (- 1, e)
          else do {
            bsize \<leftarrow> sb_block_size (super_block e);
            (b0, e) \<leftarrow> allocate_block D e;
            i \<leftarrow> put_at (replicate sizeof_Ext2Inode 0) 0 (bytes16 0x41FF);
            i \<leftarrow> put_at i 4 (bytes32 bsize);
            i \<leftarrow> put_at i 28 (bytes32 1);
            i \<leftarrow> put_at i 40 (bytes32 b0);
            (_, e) \<leftarrow> write_inode D new_inode (Some i) e;
            let block = fresh_block e bsize;
            block \<leftarrow> put_at block 0 (bytes32 new_inode @ bytes16 12 @ [1]);
            block \<leftarrow> put_at block 8 [0x2E];
            block \<leftarrow> put_at block 12 (bytes32 (current_dir_inode e) @ bytes16 (ucast (bsize - 12)) @ [2]);
            block \<leftarrow> put_at block 20 [0x2E, 0x2E];
            (_, e) \<leftarrow> dev_write D b0 block e;
            Some (0, e) } }"

section \<open>Paths\<close>

text \<open>
  The entries of a directory block: the inode, the length of the record, the length of the
  name, the type, the name. The result is the inode and the type of the entry that matches.
  The log messages of the loop are not modelled.
\<close>

partial_function (option) find_entry :: "u8 list \<Rightarrow> nat \<Rightarrow> nat \<Rightarrow> u8 list \<Rightarrow> (u32 \<times> u8) option option" where
  [code]: "find_entry block bsize pos token =
     (if pos < bsize
      then do {
        inode \<leftarrow> get32 block pos;
        match \<leftarrow> (if inode = 0 then Some False
                 else do { name_len \<leftarrow> arr_get block (pos + 6);
                           len \<leftarrow> strlen token;
                           if unat name_len \<noteq> len then Some False
                           else map_option (\<lambda>r. r = 0) (memcmp (drop (pos + 8) block) token len) });
        if match then do { file_type \<leftarrow> arr_get block (pos + 7); Some (Some (inode, file_type)) }
        else do { rec_len \<leftarrow> get16 block (pos + 4); find_entry block bsize (pos + unat rec_len) token } }
      else Some None)"

primrec search_blocks ::
  "'d BlockDevice \<Rightarrow> u8 list \<Rightarrow> u32 \<Rightarrow> u8 list \<Rightarrow> nat \<Rightarrow> nat \<Rightarrow> u8 list \<Rightarrow> 'd Ext2FileSystem \<Rightarrow>
    ((u32 \<times> u8) option \<times> 'd Ext2FileSystem) option" where
  "search_blocks D inode bsize token 0 i block e = Some (None, e)"
| "search_blocks D inode bsize token (Suc k) i block e =
     do { b \<leftarrow> i_block inode i;
          (_, block, e) \<leftarrow> dev_read D b block e;
          r \<leftarrow> find_entry block (unat bsize) 0 token;
          (case r of Some x \<Rightarrow> Some (Some x, e) | None \<Rightarrow> search_blocks D inode bsize token k (i + 1) block e) }"

text \<open>
  The loop over the components. The inode is printed before it is compared with null, so a
  null inode is undefined.
\<close>

partial_function (option) open_loop ::
  "'d BlockDevice \<Rightarrow> u32 \<Rightarrow> u8 list option \<Rightarrow> StrtokState \<Rightarrow> 'd Ext2FileSystem \<Rightarrow> (u32 \<times> 'd Ext2FileSystem) option" where
  [code]: "open_loop D current token st e =
     (case token of
        None \<Rightarrow> Some (current, e)
      | Some tok \<Rightarrow>
          do { (r, e) \<leftarrow> read_inode D current e;
               inode \<leftarrow> r;
               mode \<leftarrow> ino_mode inode;
               if \<not> is_dir_mode mode then Some (0, e)
               else do {
                 bsize \<leftarrow> sb_block_size (super_block e);
                 n \<leftarrow> ino_blocks inode;
                 (found, e) \<leftarrow> search_blocks D inode bsize tok (unat n) 0 (fresh_block e bsize) e;
                 (case found of
                    None \<Rightarrow> Some (0, e)
                  | Some (ino, ty) \<Rightarrow>
                      do { let e = (if ty = FT_DIR then e\<lparr>current_dir_inode := ino\<rparr> else e);
                           (t, st) \<leftarrow> strtok None [0x2F, 0] st;
                           open_loop D ino (map_option (\<lambda>i. drop i (tok_buf st)) t) st e }) } })"

definition ext2_open :: "'d BlockDevice \<Rightarrow> u8 list \<Rightarrow> 'd Ext2FileSystem \<Rightarrow> (Ext2FileDescriptor option \<times> 'd Ext2FileSystem) option" where
  "ext2_open D path e =
     do { parts \<leftarrow> strdup path;
          (t, st) \<leftarrow> strtok (Some parts) [0x2F, 0] \<lparr>tok_buf = [], tok_last = None\<rparr>;
          (ino, e) \<leftarrow> open_loop D EXT2_ROOT_INO (map_option (\<lambda>i. drop i (tok_buf st)) t) st e;
          Some (if ino = 0 then None else Some \<lparr>m_inode = ino, m_position = 0\<rparr>, e) }"

text \<open>The size of the file and whether it is a directory.\<close>

definition ext2_stat :: "'d BlockDevice \<Rightarrow> u8 list \<Rightarrow> 'd Ext2FileSystem \<Rightarrow> ((int \<times> (u32 \<times> bool) option) \<times> 'd Ext2FileSystem) option" where
  "ext2_stat D path e =
     do { (fd, e) \<leftarrow> ext2_open D path e;
          (case fd of
             None \<Rightarrow> Some ((- 1, None), e)
           | Some f \<Rightarrow>
               do { (r, e) \<leftarrow> read_inode D (m_inode f) e;
                    inode \<leftarrow> r; sz \<leftarrow> ino_size inode; mode \<leftarrow> ino_mode inode;
                    Some ((0, Some (sz, is_dir_mode mode)), e) }) }"

definition ext2_unlink :: "'d BlockDevice \<Rightarrow> u8 list \<Rightarrow> 'd Ext2FileSystem \<Rightarrow> (int \<times> 'd Ext2FileSystem) option" where
  "ext2_unlink D path e =
     do { (fd, e) \<leftarrow> ext2_open D path e;
          (case fd of
             None \<Rightarrow> Some (- 1, e)
           | Some f \<Rightarrow>
               do { (r, e) \<leftarrow> read_inode D (m_inode f) e;
                    inode \<leftarrow> r; links \<leftarrow> ino_links inode;
                    inode \<leftarrow> put_at inode 26 (bytes16 (links - 1));
                    (_, e) \<leftarrow> write_inode D (m_inode f) (Some inode) e;
                    n \<leftarrow> ino_blocks inode;
                    if links - 1 = 0 \<and> n > 15 then None else Some (0, e) }) }"

definition ext2_rmdir :: "'d BlockDevice \<Rightarrow> u8 list \<Rightarrow> 'd Ext2FileSystem \<Rightarrow> (int \<times> 'd Ext2FileSystem) option" where
  "ext2_rmdir D path e = ext2_unlink D path e"

section \<open>Open files\<close>

text \<open>Positions are \<open>off_t\<close>, a signed 32 bit integer of the i386 target, kept as its bits.\<close>

definition ext2_seek ::
  "'d BlockDevice \<Rightarrow> u32 \<Rightarrow> Ext2FileDescriptor \<Rightarrow> 'd Ext2FileSystem \<Rightarrow> (int \<times> Ext2FileDescriptor \<times> 'd Ext2FileSystem) option" where
  "ext2_seek D offset f e =
     do { (r, e) \<leftarrow> read_inode D (m_inode f) e;
          (case r of
             None \<Rightarrow> Some (0, f, e)
           | Some inode \<Rightarrow>
               do { sz \<leftarrow> ino_size inode;
                    if sint offset < 0 \<or> offset > sz then Some (- 1, f, e)
                    else Some (sint offset, f\<lparr>m_position := offset\<rparr>, e) }) }"

definition page_bytes :: "'d BlockDevice \<Rightarrow> u32 \<Rightarrow> 'd Ext2FileSystem \<Rightarrow> (u8 list \<times> 'd Ext2FileSystem) option" where
  "page_bytes D b e =
     do { (p, c, d) \<leftarrow> get_page D (ucast b) (ex_cache e) (ex_device e);
          Some (page_data p, e\<lparr>ex_cache := c, ex_device := d\<rparr>) }"

definition get_block_id :: "'d BlockDevice \<Rightarrow> u32 \<Rightarrow> u8 list \<Rightarrow> 'd Ext2FileSystem \<Rightarrow> (u32 \<times> 'd Ext2FileSystem) option" where
  "get_block_id D idx inode e =
     (if idx < 12 then do { b \<leftarrow> i_block inode (unat idx); Some (b, e) }
      else if idx < 12 + 256 then
        do { ind \<leftarrow> i_block inode 12;
             (bytes, e) \<leftarrow> page_bytes D ind e;
             b \<leftarrow> get32 bytes (unat ((idx - 12) * 4));
             Some (b, e) }
      else if idx < 12 + 256 + 256 * 256 then
        do { ind \<leftarrow> i_block inode 13;
             (bytes, e) \<leftarrow> page_bytes D ind e;
             dbl \<leftarrow> get32 bytes (unat ((idx - 12 - 256) mod (256 * 256) * 4));
             (bytes, e) \<leftarrow> page_bytes D dbl e;
             b \<leftarrow> get32 bytes (unat ((idx - 12 - 256) mod 256 * 4));
             Some (b, e) }
      else Some (0, e))"

text \<open>The loop of \<open>read\<close>: the position, the bytes still to read and those read.\<close>

partial_function (option) ext2_read_loop ::
  "'d BlockDevice \<Rightarrow> u8 list \<Rightarrow> u32 \<Rightarrow> u32 \<Rightarrow> u32 \<Rightarrow> u8 list \<Rightarrow> 'd Ext2FileSystem \<Rightarrow> (u32 \<times> u32 \<times> u8 list \<times> 'd Ext2FileSystem) option" where
  [code]: "ext2_read_loop D inode pos n done buf e =
     (if n > 0
      then do {
        (b, e) \<leftarrow> get_block_id D (pos div 4096) inode e;
        (bytes, e) \<leftarrow> page_bytes D b e;
        let off = pos mod 4096;
        let copy_size = min (4096 - off) n;
        tail \<leftarrow> memcpy (drop (unat done) buf) (drop (unat off) bytes) (unat copy_size);
        ext2_read_loop D inode (pos + copy_size) (n - copy_size) (done + copy_size) (take (unat done) buf @ tail) e }
      else Some (done, pos, buf, e))"

definition ext2_read ::
  "'d BlockDevice \<Rightarrow> u8 list \<Rightarrow> u32 \<Rightarrow> Ext2FileDescriptor \<Rightarrow> 'd Ext2FileSystem \<Rightarrow>
    (int \<times> u8 list \<times> Ext2FileDescriptor \<times> 'd Ext2FileSystem) option" where
  "ext2_read D buf n f e =
     do { (r, e) \<leftarrow> read_inode D (m_inode f) e;
          (case r of
             None \<Rightarrow> Some (- 1, buf, f, e)
           | Some inode \<Rightarrow>
               do { sz \<leftarrow> ino_size inode;
                    (total, pos, buf, e) \<leftarrow> ext2_read_loop D inode (m_position f) (min n (sz - m_position f)) 0 buf e;
                    Some (sint total, buf, f\<lparr>m_position := pos\<rparr>, e) }) }"

text \<open>The loop of \<open>write\<close>, over sectors; it stops early when no block is free or the device fails.\<close>

partial_function (option) ext2_write_loop ::
  "'d BlockDevice \<Rightarrow> u8 list \<Rightarrow> u32 \<Rightarrow> u32 \<Rightarrow> u8 list \<Rightarrow> u32 \<Rightarrow> 'd Ext2FileSystem \<Rightarrow> (u32 \<times> u32 \<times> u8 list \<times> 'd Ext2FileSystem) option" where
  [code]: "ext2_write_loop D src n written inode pos e =
     (if written < n
      then do {
        let bsize = sector_size (bd_info D);
        if bsize = 0 then None
        else do {
          let idx = pos div bsize;
          let off = pos mod bsize;
          blocks \<leftarrow> ino_blocks inode;
          (new_block, e) \<leftarrow> (if idx \<ge> blocks then allocate_block D e else Some (1, e));
          if new_block = 0 then Some (written, pos, inode, e)
          else do {
            inode \<leftarrow> (if idx \<ge> blocks
                      then do { _ \<leftarrow> i_block inode (unat idx);
                                i \<leftarrow> put_at inode (40 + 4 * unat idx) (bytes32 new_block);
                                put_at i 28 (bytes32 (blocks + 1)) }
                      else Some inode);
            b \<leftarrow> i_block inode (unat idx);
            (_, block, e) \<leftarrow> (if off > 0 \<or> n - written < bsize then dev_read D b (fresh_block e bsize) e
                              else Some (True, fresh_block e bsize, e));
            let k = min (n - written) (bsize - off);
            tail \<leftarrow> memcpy (drop (unat off) block) (drop (unat written) src) (unat k);
            (ok, e) \<leftarrow> dev_write D b (take (unat off) block @ tail) e;
            if \<not> ok then Some (written, pos, inode, e)
            else do {
              sz \<leftarrow> ino_size inode;
              inode \<leftarrow> (if pos + k > sz then put_at inode 4 (bytes32 (pos + k)) else Some inode);
              ext2_write_loop D src n (written + k) inode (pos + k) e } } } }
      else Some (written, pos, inode, e))"

definition ext2_write ::
  "'d BlockDevice \<Rightarrow> u8 list \<Rightarrow> u32 \<Rightarrow> Ext2FileDescriptor \<Rightarrow> 'd Ext2FileSystem \<Rightarrow> (int \<times> Ext2FileDescriptor \<times> 'd Ext2FileSystem) option" where
  "ext2_write D src n f e =
     do { (r, e) \<leftarrow> read_inode D (m_inode f) e;
          (case r of
             None \<Rightarrow> Some (0, f, e)
           | Some inode \<Rightarrow>
               do { mode \<leftarrow> ino_mode inode;
                    if is_dir_mode mode then Some (0, f, e)
                    else do {
                      (total, pos, inode, e) \<leftarrow> ext2_write_loop D src n 0 inode (m_position f) e;
                      (_, e) \<leftarrow> write_inode D (m_inode f) (Some inode) e;
                      Some (sint total, f\<lparr>m_position := pos\<rparr>, e) } }) }"

text \<open>
  The directory records of \<open>iterate\<close>: 12 bytes, the name from byte 11, its zero, up to a multiple
  of four. The state is the output, the bytes written, the position and the file system.
\<close>

definition entry_type :: "'d BlockDevice \<Rightarrow> u32 \<Rightarrow> 'd Ext2FileSystem \<Rightarrow> (u8 \<times> 'd Ext2FileSystem) option" where
  "entry_type D ino e =
     do { (r, e) \<leftarrow> read_inode D ino e;
          (case r of
             None \<Rightarrow> Some (0, e)
           | Some i \<Rightarrow> do { m \<leftarrow> ino_mode i;
                           Some (if is_dir_mode m then 2 else if m AND 0xF000 = 0x8000 then 1 else 0, e) }) }"

partial_function (option) iterate_entries ::
  "'d BlockDevice \<Rightarrow> u8 list \<Rightarrow> u32 \<Rightarrow> u32 \<Rightarrow> nat \<Rightarrow> u8 list \<Rightarrow> u32 \<Rightarrow> u32 \<Rightarrow> 'd Ext2FileSystem \<Rightarrow>
    (u8 list \<times> u32 \<times> u32 \<times> 'd Ext2FileSystem) option" where
  [code]: "iterate_entries D block bsize sz pos out written cur e =
     (if pos < unat bsize
      then do {
        ino \<leftarrow> get32 block pos;
        (full, out, written, e) \<leftarrow>
          (if ino = 0 then Some (False, out, written, e)
           else do {
             (ty, e) \<leftarrow> entry_type D ino e;
             name_len \<leftarrow> arr_get block (pos + 6);
             let reclen = ((12 + ucast name_len + 1 + 3) AND NOT 3 :: u32);
             if written + reclen > sz then Some (True, out, written, e)
             else do {
               name \<leftarrow> memcpy (replicate (unat name_len) 0) (drop (pos + 8) block) (unat name_len);
               out \<leftarrow> put_at out (unat written)
                 (bytes32 ino @ bytes32 (cur + of_nat pos) @ bytes16 (ucast reclen) @ [ty] @ name @ [0]);
               Some (False, out, written + reclen, e) } });
        if full then Some (out, written, cur, e)
        else do {
          rec_len \<leftarrow> get16 block (pos + 4);
          let cur = cur + ucast rec_len;
          if written + 12 > sz then Some (out, written, cur, e)
          else iterate_entries D block bsize sz (pos + unat rec_len) out written cur e } }
      else Some (out, written, cur, e))"

primrec iterate_blocks ::
  "'d BlockDevice \<Rightarrow> u8 list \<Rightarrow> u32 \<Rightarrow> u32 \<Rightarrow> nat \<Rightarrow> nat \<Rightarrow> nat \<Rightarrow> u8 list \<Rightarrow> u8 list \<Rightarrow> u32 \<Rightarrow> u32 \<Rightarrow> 'd Ext2FileSystem \<Rightarrow>
    (u8 list \<times> u32 \<times> u32 \<times> 'd Ext2FileSystem) option" where
  "iterate_blocks D inode bsize sz 0 i off block out written cur e = Some (out, written, cur, e)"
| "iterate_blocks D inode bsize sz (Suc k) i off block out written cur e =
     (if written \<ge> sz then Some (out, written, cur, e)
      else do {
        b \<leftarrow> i_block inode i;
        (ok, block, e) \<leftarrow> dev_read D b block e;
        if \<not> ok then iterate_blocks D inode bsize sz k (i + 1) 0 block out written cur e
        else do {
          first \<leftarrow> get16 block (off + 4);
          if first = 0 then Some (out, written, cur, e)
          else do {
            (out, written, cur, e) \<leftarrow> iterate_entries D block bsize sz off out written cur e;
            iterate_blocks D inode bsize sz k (i + 1) 0 block out written cur e } } })"

text \<open>The result, the output and the new position.\<close>

definition ext2_iterate ::
  "'d BlockDevice \<Rightarrow> u8 list \<Rightarrow> u32 \<Rightarrow> u32 \<Rightarrow> Ext2FileDescriptor \<Rightarrow> 'd Ext2FileSystem \<Rightarrow> (int \<times> u8 list \<times> u32 \<times> 'd Ext2FileSystem) option" where
  "ext2_iterate D out sz pos f e =
     do { (r, e) \<leftarrow> read_inode D (m_inode f) e;
          (case r of
             None \<Rightarrow> Some (- 1, out, pos, e)
           | Some inode \<Rightarrow>
               do { mode \<leftarrow> ino_mode inode;
                    if \<not> is_dir_mode mode then Some (- 1, out, pos, e)
                    else do {
                      bsize \<leftarrow> sb_block_size (super_block e);
                      n \<leftarrow> ino_blocks inode;
                      let idx = pos div bsize;
                      (out, written, cur, e) \<leftarrow>
                        iterate_blocks D inode bsize sz (unat n - unat idx) (unat idx) (unat (pos mod bsize))
                          (fresh_block e bsize) out 0 pos e;
                      Some (sint written, out, cur, e) } }) }"

text \<open>\<open>mmap\<close> is not supported: the inode is read and the result is \<open>-1\<close>.\<close>

definition ext2_mmap :: "'d BlockDevice \<Rightarrow> Ext2FileDescriptor \<Rightarrow> 'd Ext2FileSystem \<Rightarrow> (u32 \<times> 'd Ext2FileSystem) option" where
  "ext2_mmap D f e = do { (_, e) \<leftarrow> read_inode D (m_inode f) e; Some (- 1, e) }"

section \<open>Reading a file\<close>

text \<open>A device whose blocks in \<open>V\<close> can be read: \<open>blk d n\<close> are the 4096 bytes of block \<open>n\<close>.\<close>

definition block_reader :: "'d BlockDevice \<Rightarrow> u32 set \<Rightarrow> ('d \<Rightarrow> u32 \<Rightarrow> u8 list) \<Rightarrow> bool" where
  "block_reader D V blk \<longleftrightarrow>
     (\<forall>n d buf. n \<in> V \<and> length buf = 4096 \<longrightarrow>
        length (blk d n) = 4096 \<and> (\<exists>d'. bd_read D n buf d = Some (True, blk d n, d') \<and> blk d' = blk d))"

text \<open>The pages of the cache are the blocks of the device.\<close>

definition cache_agrees :: "('d \<Rightarrow> u32 \<Rightarrow> u8 list) \<Rightarrow> 'd Ext2FileSystem \<Rightarrow> bool" where
  "cache_agrees blk e \<longleftrightarrow> hl_ok (cache (ex_cache e)) \<and> pc_page_size (ex_cache e) = 4096 \<and>
     (\<forall>n p. hl_find (cache (ex_cache e)) (ucast n) = Some p \<longrightarrow> page_data p = blk (ex_device e) n)"

text \<open>
  The block of index \<open>i\<close> of a file, of the first 268: twelve are named by the inode, the others
  by the block of pointers that it names. \<open>file_byte\<close> is the byte at a position.
\<close>

definition file_block :: "(u32 \<Rightarrow> u8 list) \<Rightarrow> u8 list \<Rightarrow> nat \<Rightarrow> u32" where
  "file_block rd inode i =
     the (if i < 12 then get32 inode (40 + 4 * i) else get32 (rd (the (get32 inode 88))) (4 * (i - 12)))"

definition file_byte :: "(u32 \<Rightarrow> u8 list) \<Rightarrow> u8 list \<Rightarrow> nat \<Rightarrow> u8" where
  "file_byte rd inode p = rd (file_block rd inode (p div 4096)) ! (p mod 4096)"

definition file_on :: "u32 set \<Rightarrow> (u32 \<Rightarrow> u8 list) \<Rightarrow> u8 list \<Rightarrow> nat \<Rightarrow> bool" where
  "file_on V rd inode sz \<longleftrightarrow> length inode = 128 \<and> sz \<le> 268 * 4096 \<and>
     (\<forall>i. i * 4096 < sz \<longrightarrow> file_block rd inode i \<in> V) \<and> (12 * 4096 < sz \<longrightarrow> the (get32 inode 88) \<in> V)"

lemma ucast_block_key: "(ucast (ucast (b :: u32) :: u64) :: u32) = b"
  by (rule bit_word_eqI) (simp add: bit_simps)

lemma ucast_block_key_eq: "(ucast (b :: u32) :: u64) = ucast (n :: u32) \<longleftrightarrow> b = n"
  by (metis ucast_block_key)

lemma page_bytes_ok:
  assumes D: "block_reader D V blk" and b: "b \<in> V" and c: "cache_agrees blk e"
  shows "\<exists>e'. page_bytes D b e = Some (blk (ex_device e) b, e') \<and> cache_agrees blk e' \<and> blk (ex_device e') = blk (ex_device e)"
proof (cases "hl_find (cache (ex_cache e)) (ucast b)")
  case None
  define buf where "buf = map (pc_fresh (ex_cache e)) [0..<unat (pc_page_size (ex_cache e))]"
  have "length buf = 4096" using c by (simp add: buf_def cache_agrees_def)
  then obtain d' where d': "bd_read D b buf (ex_device e) = Some (True, blk (ex_device e) b, d')" "blk d' = blk (ex_device e)"
    using D b unfolding block_reader_def by blast
  define p where "p = \<lparr>page_data = blk (ex_device e) b, page_size = pc_page_size (ex_cache e), dirty = False\<rparr>"
  define e' where "e' = e\<lparr>ex_cache := (ex_cache e)\<lparr>cache := hl_insert (cache (ex_cache e)) (ucast b) p\<rparr>, ex_device := d'\<rparr>"
  have "page_bytes D b e = Some (blk (ex_device e) b, e')"
    using None d'(1) by (simp add: page_bytes_def get_page_def buf_def [symmetric] ucast_block_key e'_def p_def Let_def)
  moreover have "cache_agrees blk e'" using c d'(2)
    by (auto simp: cache_agrees_def e'_def hl_insert_ok ucast_block_key_eq p_def split: if_splits)
  ultimately show ?thesis using d'(2) by (auto simp: e'_def)
next
  case (Some p)
  then show ?thesis using c by (auto simp: page_bytes_def get_page_def cache_agrees_def)
qed

lemma get32_Some: "i + 4 \<le> length bs \<Longrightarrow> get32 bs i = Some (the (get32 bs i))"
  by (simp add: get32_def)

lemma get_block_id_ok:
  assumes D: "block_reader D V blk" and c: "cache_agrees blk e" and f: "file_on V (blk (ex_device e)) inode sz"
    and idx: "unat idx * 4096 < sz"
  shows "\<exists>e'. get_block_id D idx inode e = Some (file_block (blk (ex_device e)) inode (unat idx), e') \<and>
    cache_agrees blk e' \<and> blk (ex_device e') = blk (ex_device e)"
proof (cases "idx < 12")
  case True
  then have "unat idx < 12" by (simp add: word_less_nat_alt)
  then show ?thesis using True c f by (auto simp: get_block_id_def i_block_def file_block_def get32_def file_on_def)
next
  case False
  then have ge: "12 \<le> unat idx" by (simp add: word_less_nat_alt)
  have lt: "unat idx < 268" using idx f by (simp add: file_on_def)
  have sub: "unat (idx - 12) = unat idx - 12" using ge by (simp add: unat_sub word_le_nat_alt)
  have off: "unat ((idx - 12) * 4) = 4 * (unat idx - 12)"
  proof -
    have "unat idx - 12 < 1073741824" using lt by simp
    then show ?thesis using sub unat_mult_lem [of "idx - 12" 4] by (simp del: left_diff_distrib_numeral)
  qed
  define ind where "ind = the (get32 inode 88)"
  have V: "ind \<in> V" using f idx ge by (simp add: file_on_def ind_def)
  have i12: "i_block inode 12 = Some ind" using f by (simp add: i_block_def get32_def ind_def file_on_def)
  have len: "length (blk (ex_device e) ind) = 4096" using D V unfolding block_reader_def
    by (metis length_replicate)
  obtain e' where "page_bytes D ind e = Some (blk (ex_device e) ind, e')" "cache_agrees blk e'" "blk (ex_device e') = blk (ex_device e)"
    using page_bytes_ok [OF D V c] by blast
  moreover have "get32 (blk (ex_device e) ind) (4 * (unat idx - 12)) = Some (file_block (blk (ex_device e)) inode (unat idx))"
    using get32_Some [of "4 * (unat idx - 12)" "blk (ex_device e) ind"] len lt ge by (simp add: file_block_def ind_def [symmetric])
  moreover have "idx < 268" using lt by (simp add: word_less_nat_alt)
  ultimately show ?thesis using False i12 off by (simp add: get_block_id_def)
qed

lemma file_bytes_in_block:
  assumes "p mod 4096 + c \<le> 4096" and "length (rd (file_block rd inode (p div 4096))) = 4096"
  shows "take c (drop (p mod 4096) (rd (file_block rd inode (p div 4096)))) = map (file_byte rd inode) [p..<p + c]"
proof (rule nth_equalityI)
  fix i
  assume "i < length (take c (drop (p mod 4096) (rd (file_block rd inode (p div 4096)))))"
  then have i: "i < c" by simp
  then have "p mod 4096 + i < 4096" using assms(1) by simp
  moreover have "p + i = p mod 4096 + i + p div 4096 * 4096" by simp
  ultimately have "(p + i) div 4096 = p div 4096" "(p + i) mod 4096 = p mod 4096 + i"
    by (metis add.commute add.right_neutral div_less div_mult_self1 zero_neq_numeral, metis mod_less mod_mult_self1)
  then show "take c (drop (p mod 4096) (rd (file_block rd inode (p div 4096)))) ! i = map (file_byte rd inode) [p..<p + c] ! i"
    using i assms by (simp add: file_byte_def)
qed (use assms in auto)

text \<open>One round of the loop copies the part of one block.\<close>

lemma ext2_read_loop_step:
  assumes D: "block_reader D V blk" and agrees: "cache_agrees blk e" and on: "file_on V (blk (ex_device e)) inode sz"
    and sz: "unat pos + unat n \<le> sz" and buf: "unat don + unat n \<le> length buf" and n: "n \<noteq> 0"
  shows "\<exists>c e'. 0 < unat c \<and> unat c \<le> unat n \<and> cache_agrees blk e' \<and> blk (ex_device e') = blk (ex_device e) \<and>
    ext2_read_loop D inode pos n don buf e = ext2_read_loop D inode (pos + c) (n - c) (don + c)
      (take (unat don) buf @ map (file_byte (blk (ex_device e)) inode) [unat pos..<unat pos + unat c] @ drop (unat don + unat c) buf) e'"
proof -
  let ?rd = "blk (ex_device e)"
  define c where "c = min (4096 - pos mod 4096) n"
  define b where "b = file_block ?rd inode (unat pos div 4096)"
  have idx: "unat (pos div 4096) = unat pos div 4096" and off: "unat (pos mod 4096) = unat pos mod 4096"
    by (simp_all add: unat_div unat_mod)
  have room: "unat (4096 - pos mod 4096) = 4096 - unat pos mod 4096"
    using off by (subst unat_sub) (auto simp: word_le_nat_alt)
  have n0: "0 < unat n" using n by (simp add: unat_gt_0)
  have c: "unat c = min (4096 - unat pos mod 4096) (unat n)"
    using room by (auto simp: c_def min_def word_le_nat_alt)
  then have c0: "0 < unat c" "unat c \<le> unat n" using n0 by auto
  have lt: "unat (pos div 4096) * 4096 < sz" using idx sz n0 by (simp add: div_times_less_eq_dividend le_less_trans)
  obtain e1 where e1: "get_block_id D (pos div 4096) inode e = Some (b, e1)" "cache_agrees blk e1" "blk (ex_device e1) = ?rd"
    using get_block_id_ok [OF D agrees on lt] by (auto simp: b_def idx)
  have V: "b \<in> V" using on lt idx by (simp add: file_on_def b_def)
  obtain e2 where e2: "page_bytes D b e1 = Some (?rd b, e2)" "cache_agrees blk e2" "blk (ex_device e2) = ?rd"
    using page_bytes_ok [OF D V e1(2)] e1(3) by auto
  have len: "length (?rd b) = 4096" using D V unfolding block_reader_def by (metis length_replicate)
  have cp: "memcpy (drop (unat don) buf) (drop (unat (pos mod 4096)) (?rd b)) (unat c) =
      Some (map (file_byte ?rd inode) [unat pos..<unat pos + unat c] @ drop (unat don + unat c) buf)"
    using file_bytes_in_block [of "unat pos" "unat c" ?rd inode] len c c0 off buf by (simp add: memcpy_eq b_def add.commute)
  have "ext2_read_loop D inode pos n don buf e = ext2_read_loop D inode (pos + c) (n - c) (don + c)
      (take (unat don) buf @ map (file_byte ?rd inode) [unat pos..<unat pos + unat c] @ drop (unat don + unat c) buf) e2"
    using n e1(1) e2(1) cp by (subst ext2_read_loop.simps) (simp add: c_def [symmetric] word_neq_0_conv Let_def)
  then show ?thesis using c0 e2 by blast
qed

lemma ext2_read_loop_ok:
  assumes D: "block_reader D V blk" and "cache_agrees blk e" and "file_on V (blk (ex_device e)) inode sz"
    and "unat pos + unat n \<le> sz" and "unat don + unat n \<le> length buf" and "unat don + unat n < 2 ^ 32"
  shows "\<exists>e'. ext2_read_loop D inode pos n don buf e =
      Some (don + n, pos + n, take (unat don) buf @ map (file_byte (blk (ex_device e)) inode) [unat pos..<unat pos + unat n] @
        drop (unat don + unat n) buf, e') \<and> cache_agrees blk e' \<and> blk (ex_device e') = blk (ex_device e)"
  using assms(2-)
proof (induction "unat n" arbitrary: pos n don buf e rule: less_induct)
  case less
  show ?case
  proof (cases "n = 0")
    case True
    then show ?thesis using less.prems by (subst ext2_read_loop.simps) auto
  next
    case False
    let ?rd = "blk (ex_device e)"
    obtain c e2 where c0: "0 < unat c" "unat c \<le> unat n" and e2: "cache_agrees blk e2" "blk (ex_device e2) = ?rd"
      and step: "ext2_read_loop D inode pos n don buf e = ext2_read_loop D inode (pos + c) (n - c) (don + c)
        (take (unat don) buf @ map (file_byte ?rd inode) [unat pos..<unat pos + unat c] @ drop (unat don + unat c) buf) e2"
      using ext2_read_loop_step [OF D less.prems(1-4) False] by blast
    define part where "part = map (file_byte ?rd inode) [unat pos..<unat pos + unat c]"
    define buf' where "buf' = take (unat don) buf @ part @ drop (unat don + unat c) buf"
    have pl: "length part = unat c" by (simp add: part_def)
    have sz: "sz \<le> 268 * 4096" using less.prems(2) by (simp add: file_on_def)
    have u: "unat (n - c) = unat n - unat c" "unat (pos + c) = unat pos + unat c" "unat (don + c) = unat don + unat c"
      using c0 less.prems(3,5) sz by (simp_all add: unat_sub word_le_nat_alt unat_word_ariths)
    have pre: "unat (n - c) < unat n" "file_on V (blk (ex_device e2)) inode sz" "unat (pos + c) + unat (n - c) \<le> sz"
        "unat (don + c) + unat (n - c) \<le> length buf'" "unat (don + c) + unat (n - c) < 2 ^ 32"
      using u c0 less.prems e2(2) pl by (auto simp: buf'_def)
    obtain e3 where e3: "ext2_read_loop D inode (pos + c) (n - c) (don + c) buf' e2 =
        Some (don + c + (n - c), pos + c + (n - c), take (unat (don + c)) buf' @
          map (file_byte ?rd inode) [unat (pos + c)..<unat (pos + c) + unat (n - c)] @ drop (unat (don + c) + unat (n - c)) buf', e3)"
        "cache_agrees blk e3" "blk (ex_device e3) = ?rd"
      using less.hyps [OF pre(1) e2(1) pre(2-5)] e2(2) by auto
    have up: "[unat pos..<unat pos + unat n] = [unat pos..<unat pos + unat c] @ [unat pos + unat c..<unat pos + unat n]"
      using c0 upt_add_eq_append [of "unat pos" "unat pos + unat c" "unat n - unat c"] by simp
    have "take (unat (don + c)) buf' = take (unat don) buf @ part" "drop (unat (don + c) + unat (n - c)) buf' = drop (unat don + unat n) buf"
      using u pl c0 less.prems(4) by (simp_all add: buf'_def add.commute)
    then show ?thesis using e3 step u c0 by (auto simp: up part_def buf'_def)
  qed
qed

section \<open>Properties\<close>

text \<open>
  C9. Reading an open file of at most 268 blocks returns its bytes from the position, as many
  as were asked for or as remain, moves the position past them and leaves the cache in
  agreement with the device, whatever pages were cached before.
\<close>

theorem ext2_read_file:
  assumes "block_reader D V blk" and "read_inode D (m_inode f) e = Some (Some inode, e1)" and "cache_agrees blk e1"
    and "ino_size inode = Some sz" and "file_on V (blk (ex_device e1)) inode (unat sz)" and "m_position f \<le> sz"
    and "m = min (unat n) (unat sz - unat (m_position f))" and "m \<le> length buf"
  shows "\<exists>e'. ext2_read D buf n f e =
      Some (int m, map (file_byte (blk (ex_device e1)) inode) [unat (m_position f)..<unat (m_position f) + m] @ drop m buf,
        f\<lparr>m_position := m_position f + of_nat m\<rparr>, e') \<and> cache_agrees blk e'"
proof -
  define k where "k = min n (sz - m_position f)"
  have le: "unat (m_position f) \<le> unat sz" using assms(6) by (simp add: word_le_nat_alt)
  have k: "unat k = m" using assms(6,7) by (auto simp: k_def min_def word_le_nat_alt unat_sub)
  have small: "unat sz \<le> 268 * 4096" using assms(5) by (simp add: file_on_def)
  have m: "m \<le> unat sz - unat (m_position f)" using assms(7) by simp
  have si: "sint k = int m" using sint_small [of k] k m small by simp
  obtain e' where "ext2_read_loop D inode (m_position f) k 0 buf e1 =
      Some (0 + k, m_position f + k, take (unat (0 :: u32)) buf @
        map (file_byte (blk (ex_device e1)) inode) [unat (m_position f)..<unat (m_position f) + unat k] @
        drop (unat (0 :: u32) + unat k) buf, e')" "cache_agrees blk e'"
  proof -
    have "unat (m_position f) + unat k \<le> unat sz" "unat (0 :: u32) + unat k \<le> length buf" "unat (0 :: u32) + unat k < 2 ^ 32"
      using k m le small assms(8) by auto
    from ext2_read_loop_ok [OF assms(1,3,5) this] show thesis using that by blast
  qed
  moreover have "k = of_nat m" by (simp flip: k)
  ultimately show ?thesis using assms(2,4) k si by (auto simp: ext2_read_def k_def [symmetric])
qed

text \<open>A device with a table of inodes in block 3, whose first inode is a file in the blocks 10 and 11.\<close>

definition two_block_inode :: "u8 list" where
  "two_block_inode = replicate 4 0 @ bytes32 5000 @ replicate 32 0 @ bytes32 10 @ bytes32 11 @ replicate 80 0"

definition small_block :: "u32 \<Rightarrow> u8 list" where
  "small_block n = (if n = 3 then two_block_inode @ replicate 3968 0 else replicate 4096 (ucast n))"

definition small_device :: "unit BlockDevice" where
  "small_device = \<lparr>bd_read = \<lambda>n buf d. Some (True, small_block n, d), bd_write = \<lambda>n buf d. Some (True, d),
     bd_info = \<lparr>sector_size = 512, total_sectors = 800, read_only = False\<rparr>\<rparr>"

definition small_ext2 :: "unit Ext2FileSystem" where
  "small_ext2 = \<lparr>ex_device = (),
     super_block = \<lparr>inodes_count = 32, blocks_count = 100, first_data_block = 0, log_block_size = 2, sb_magic = EXT2_MAGIC,
       inode_size = 128\<rparr>,
     bg_inode_table = 3, root_inodes = [], current_dir_inode = 2,
     ex_cache = new_SimplePageCache 4096 1024 (\<lambda>_. 0), ex_fresh = (\<lambda>_. 0)\<rparr>"

lemma length_two_block_inode [simp]: "length two_block_inode = 128"
  by (simp add: two_block_inode_def bytes32_def)

lemma small_device_reader: "block_reader small_device UNIV (\<lambda>_. small_block)"
  by (simp add: block_reader_def small_device_def small_block_def)

lemma small_read_inode: "read_inode small_device 1 small_ext2 = Some (Some two_block_inode, small_ext2)"
  by (simp add: read_inode_def small_ext2_def small_device_def dev_read_def small_block_def
      memcpy_eq Let_def)

lemma two_block_fields: "ino_size two_block_inode = Some 5000" "get32 two_block_inode 40 = Some 10"
  "get32 two_block_inode 44 = Some 11"
  by code_simp+

lemma new_cache_agrees: "cache_agrees blk (small_ext2\<lparr>ex_device := d\<rparr>)"
  by (simp add: cache_agrees_def small_ext2_def new_SimplePageCache_def new_HashList_def hl_ok_def hl_find_def)

theorem ext2_read_file_witness:
  "\<exists>e'. ext2_read small_device [1, 2, 3, 4] 3 \<lparr>m_inode = 1, m_position = 4095\<rparr> small_ext2 =
     Some (3, [10, 11, 11, 4], \<lparr>m_inode = 1, m_position = 4098\<rparr>, e') \<and> cache_agrees (\<lambda>_. small_block) e'"
proof -
  let ?f = "\<lparr>m_inode = 1, m_position = 4095\<rparr>"
  have inode: "read_inode small_device (m_inode ?f) small_ext2 = Some (Some two_block_inode, small_ext2)"
    by (simp add: small_read_inode)
  have agrees: "cache_agrees (\<lambda>_. small_block) small_ext2"
    using new_cache_agrees [of _ "()"] by (simp add: small_ext2_def)
  have on: "file_on UNIV ((\<lambda>_. small_block) (ex_device small_ext2)) two_block_inode (unat (5000 :: u32))"
    by (simp add: file_on_def)
  have pos: "m_position ?f \<le> 5000" "(3 :: nat) = min (unat (3 :: u32)) (unat (5000 :: u32) - unat (m_position ?f))"
    "3 \<le> length [1 :: u8, 2, 3, 4]"
    by simp_all
  have bytes: "map (file_byte small_block two_block_inode) [unat (m_position ?f)..<unat (m_position ?f) + 3] = [10, 11, 11]"
    by (simp add: upt_rec file_byte_def file_block_def two_block_fields small_block_def)
  have rest: "drop 3 [1 :: u8, 2, 3, 4] = [4]" "?f\<lparr>m_position := m_position ?f + of_nat 3\<rparr> = \<lparr>m_inode = 1, m_position = 4098\<rparr>"
    by simp_all
  from ext2_read_file [OF small_device_reader inode agrees two_block_fields(1) on pos] show ?thesis
    unfolding bytes rest by simp
qed

end
