(* ===== verification/Elf.thy ===== *)
theory Elf
  imports Prelude
begin

text \<open>
  The ELF loader of \<open>kernel/process/elf_loader.cpp\<close> and \<open>elf_loader_reloc.cpp\<close>. Memory maps the
  addresses of the process to bytes; the file and the segments lie in the same memory, and
  address arithmetic wraps around. The fields of the structures are read at their offsets.
\<close>

section \<open>Memory\<close>

type_synonym bytes_at = "u32 \<Rightarrow> u8"

definition rd16 :: "bytes_at \<Rightarrow> u32 \<Rightarrow> u16" where
  "rd16 m a = ucast (m a) OR push_bit 8 (ucast (m (a + 1)))"

definition rd32 :: "bytes_at \<Rightarrow> u32 \<Rightarrow> u32" where
  "rd32 m a = ucast (m a) OR push_bit 8 (ucast (m (a + 1))) OR push_bit 16 (ucast (m (a + 2))) OR push_bit 24 (ucast (m (a + 3)))"

definition wr32 :: "bytes_at \<Rightarrow> u32 \<Rightarrow> u32 \<Rightarrow> bytes_at" where
  "wr32 m a v = m(a := ucast v, a + 1 := ucast (drop_bit 8 v), a + 2 := ucast (drop_bit 16 v), a + 3 := ucast (drop_bit 24 v))"

abbreviation (input) ELF_MAGIC :: u32 where "ELF_MAGIC \<equiv> 0x464C457F"
abbreviation (input) ET_EXEC :: u16 where "ET_EXEC \<equiv> 2"
abbreviation (input) ET_DYN :: u16 where "ET_DYN \<equiv> 3"
abbreviation (input) sizeof_ElfHeader :: u32 where "sizeof_ElfHeader \<equiv> 52"

section \<open>Segments\<close>

primrec copy_bytes :: "nat \<Rightarrow> u32 \<Rightarrow> u32 \<Rightarrow> bytes_at \<Rightarrow> bytes_at" where
  "copy_bytes 0 dest src m = m"
| "copy_bytes (Suc n) dest src m = copy_bytes n (dest + 1) (src + 1) (m(dest := m src))"

primrec zero_bytes :: "nat \<Rightarrow> u32 \<Rightarrow> bytes_at \<Rightarrow> bytes_at" where
  "zero_bytes 0 dest m = m"
| "zero_bytes (Suc n) dest m = zero_bytes n (dest + 1) (m(dest := 0))"

record ProgramHeader =
  ph_type :: u32
  ph_offset :: u32
  ph_vaddr :: u32
  ph_filesz :: u32
  ph_memsz :: u32

definition read_phdr :: "bytes_at \<Rightarrow> u32 \<Rightarrow> ProgramHeader" where
  "read_phdr m a = \<lparr>ph_type = rd32 m a, ph_offset = rd32 m (a + 4), ph_vaddr = rd32 m (a + 8),
     ph_filesz = rd32 m (a + 16), ph_memsz = rd32 m (a + 20)\<rparr>"

text \<open>
  One round of the loop over the program headers; the state has the address and the number
  of entries of the dynamic table. The types are \<open>PT_LOAD\<close>, \<open>PT_DYNAMIC\<close> and \<open>PT_GNU_EH_FRAME\<close>.
\<close>

definition load_segment :: "u32 \<Rightarrow> u32 \<Rightarrow> ProgramHeader \<Rightarrow> bytes_at \<times> u32 \<times> u32 \<Rightarrow> bytes_at \<times> u32 \<times> u32" where
  "load_segment elf base ph st =
     (case st of (m, dyn, dyn_size) \<Rightarrow>
      let dest = ph_vaddr ph + base; src = elf + ph_offset ph; n = unat (ph_filesz ph) in
      if ph_type ph = 1
      then (zero_bytes (unat (ph_memsz ph) - n) (dest + ph_filesz ph) (copy_bytes n dest src m), dyn, dyn_size)
      else if ph_type ph = 2 then (copy_bytes n dest src m, src, ph_filesz ph div 8)
      else if ph_type ph = 0x6474e550 then (copy_bytes n dest src m, dyn, dyn_size)
      else st)"

text \<open>The headers, and their number, are read from the memory as it is then.\<close>

lemma unat_u16_less: "unat (x :: u16) < 65536"
  by (rule order_less_le_trans [OF unsigned_less]) simp

lemma count_u16: "i < unat (x :: u16) \<Longrightarrow> 65535 - i < 65536 - i"
  using unat_u16_less [of x] by linarith

function load_segments :: "u32 \<Rightarrow> u32 \<Rightarrow> u32 \<Rightarrow> nat \<Rightarrow> bytes_at \<times> u32 \<times> u32 \<Rightarrow> bytes_at \<times> u32 \<times> u32" where
  "load_segments elf base ph i st =
     (if i < unat (rd16 (fst st) (elf + 44))
      then load_segments elf base ph (i + 1) (load_segment elf base (read_phdr (fst st) (ph + of_nat i * 32)) st)
      else st)"
  by pat_completeness auto
termination
  by (relation "measure (\<lambda>(_, _, _, i, _). 65536 - i)") (auto simp: count_u16)

declare load_segments.simps [simp del]

section \<open>Relocations\<close>

definition get_symbol_value :: "bytes_at \<Rightarrow> u32 \<Rightarrow> u32 \<Rightarrow> u32" where
  "get_symbol_value m s base = (if rd32 m (s + 4) = 0 then 0 else rd32 m (s + 4) + base)"

text \<open>One entry; \<open>None\<close> inside the result is a type that is not supported.\<close>

definition relocate :: "u32 \<Rightarrow> u32 \<Rightarrow> u32 \<Rightarrow> bytes_at \<Rightarrow> bytes_at option" where
  "relocate rel symtab base m =
     (let offset = rd32 m rel; info = rd32 m (rel + 4); ty = info AND 0xFF;
          addr = offset + base; value = get_symbol_value m (symtab + drop_bit 8 info * 16) base in
      if ty = 0 then Some m
      else if ty = 1 \<or> ty = 6 \<or> ty = 7 then Some (wr32 m addr value)
      else if ty = 2 then Some (wr32 m addr (value - addr))
      else if ty = 8 then Some (wr32 m addr (rd32 m addr + base))
      else None)"

text \<open>The result says whether all entries were processed; the memory keeps what was written.\<close>

primrec process_relocations :: "nat \<Rightarrow> u32 \<Rightarrow> u32 \<Rightarrow> u32 \<Rightarrow> bytes_at \<Rightarrow> bool \<times> bytes_at" where
  "process_relocations 0 rel symtab base m = (True, m)"
| "process_relocations (Suc n) rel symtab base m =
     (case relocate rel symtab base m of
        None \<Rightarrow> (False, m)
      | Some m \<Rightarrow> process_relocations n (rel + 8) symtab base m)"

record DynTables =
  d_rel :: u32
  d_rel_size :: u32
  d_plt :: u32
  d_plt_size :: u32
  d_sym :: u32
  d_str :: u32

primrec scan_dynamic :: "u32 \<Rightarrow> nat \<Rightarrow> u32 \<Rightarrow> bytes_at \<Rightarrow> DynTables \<Rightarrow> DynTables" where
  "scan_dynamic elf 0 a m d = d"
| "scan_dynamic elf (Suc n) a m d =
     (let tag = rd32 m a; v = rd32 m (a + 4) in
      scan_dynamic elf n (a + 8) m
        (if tag = 6 then d\<lparr>d_sym := elf + v\<rparr>
         else if tag = 5 then d\<lparr>d_str := elf + v\<rparr>
         else if tag = 17 then d\<lparr>d_rel := elf + v\<rparr>
         else if tag = 18 then d\<lparr>d_rel_size := v div 8\<rparr>
         else if tag = 23 then d\<lparr>d_plt := elf + v\<rparr>
         else if tag = 2 then d\<lparr>d_plt_size := v div 8\<rparr>
         else d))"

definition process_dynamic :: "u32 \<Rightarrow> u32 \<Rightarrow> u32 \<Rightarrow> u32 \<Rightarrow> bytes_at \<Rightarrow> bool \<times> bytes_at" where
  "process_dynamic elf dyn dyn_size base m =
     (let d = scan_dynamic elf (unat dyn_size) dyn m
                \<lparr>d_rel = 0, d_rel_size = 0, d_plt = 0, d_plt_size = 0, d_sym = 0, d_str = 0\<rparr>;
          tables = d_sym d \<noteq> 0 \<and> d_str d \<noteq> 0;
          (ok, m) = (if d_rel d \<noteq> 0 \<and> d_rel_size d > 0 \<and> tables
                     then process_relocations (unat (d_rel_size d)) (d_rel d) (d_sym d) base m else (True, m)) in
      if \<not> ok then (False, m)
      else if d_plt d \<noteq> 0 \<and> d_plt_size d > 0 \<and> tables
      then process_relocations (unat (d_plt_size d)) (d_plt d) (d_sym d) base m
      else (True, m))"

section \<open>Sections\<close>

text \<open>The first pass: the addresses of the symbol table and of its strings, 0 if there are none.\<close>

primrec find_symtab :: "u32 \<Rightarrow> u32 \<Rightarrow> u16 \<Rightarrow> nat \<Rightarrow> nat \<Rightarrow> bytes_at \<Rightarrow> u32 \<times> u32 \<Rightarrow> u32 \<times> u32" where
  "find_symtab elf sh shnum 0 i m r = r"
| "find_symtab elf sh shnum (Suc n) i m r =
     (let a = sh + of_nat i * 40; link = rd32 m (a + 24) in
      find_symtab elf sh shnum n (i + 1) m
        (if rd32 m (a + 4) = 2
         then (elf + rd32 m (a + 16), if link < ucast shnum then elf + rd32 m (sh + link * 40 + 16) else snd r)
         else r))"

function relocate_sections :: "u32 \<Rightarrow> u32 \<Rightarrow> u32 \<Rightarrow> u32 \<Rightarrow> nat \<Rightarrow> bytes_at \<Rightarrow> bool \<times> bytes_at" where
  "relocate_sections elf sh symtab base i m =
     (if i < unat (rd16 m (elf + 48))
      then let a = sh + of_nat i * 40;
               (ok, m) = (if rd32 m (a + 4) = 9
                          then process_relocations (unat (rd32 m (a + 20) div 8)) (elf + rd32 m (a + 16)) symtab base m
                          else (True, m)) in
        if ok then relocate_sections elf sh symtab base (i + 1) m else (False, m)
      else (True, m))"
  by pat_completeness auto
termination
  by (relation "measure (\<lambda>(_, _, _, _, i, _). 65536 - i)") (auto simp: count_u16)

declare relocate_sections.simps [simp del]

section \<open>The loader\<close>

definition load_elf :: "u32 \<Rightarrow> u32 \<Rightarrow> u32 \<Rightarrow> bytes_at \<Rightarrow> bool \<times> bytes_at" where
  "load_elf elf sz base m =
     (if elf = 0 \<or> sz < sizeof_ElfHeader then (False, m)
      else if rd32 m elf \<noteq> ELF_MAGIC then (False, m)
      else if rd16 m (elf + 16) \<noteq> ET_EXEC \<and> rd16 m (elf + 16) \<noteq> ET_DYN then (False, m)
      else let (m, dyn, dyn_size) = load_segments elf base (elf + rd32 m (elf + 28)) 0 (m, 0, 0);
               (ok, m) = (if rd16 m (elf + 16) = ET_DYN \<and> dyn \<noteq> 0 then process_dynamic elf dyn dyn_size base m else (True, m));
               shoff = rd32 m (elf + 32); shnum = rd16 m (elf + 48) in
        if \<not> ok then (False, m)
        else if shoff \<noteq> 0 \<and> shnum > 0
        then let sh = elf + shoff; (symtab, strtab) = find_symtab elf sh shnum (unat shnum) 0 m (0, 0) in
          if symtab \<noteq> 0 \<and> strtab \<noteq> 0 then relocate_sections elf sh symtab base 0 m else (True, m)
        else (True, m))"

section \<open>What is loaded\<close>

lemma unat_minus_one_word: "unat (- 1 :: u32) = 4294967295"
  by (simp add: unsigned_minus_1_eq_mask mask_eq_exp_minus_1)

lemma zero_bytes_eq: "n \<le> 2 ^ 32 \<Longrightarrow> zero_bytes n dest m a = (if unat (a - dest) < n then 0 else m a)"
proof (induction n arbitrary: dest m)
  case (Suc n)
  have "unat (a - (dest + 1)) = unat (a - dest) - 1" if "a \<noteq> dest"
    using that unat_minus_one [of "a - dest"] by (simp add: diff_diff_add)
  moreover have "0 < unat (a - dest)" if "a \<noteq> dest" using that by (simp add: unat_gt_0)
  moreover have "\<not> unat (- 1 :: u32) < n" using Suc.prems by (simp add: unat_minus_one_word)
  ultimately show ?case using Suc by (cases "a = dest") auto
qed simp

lemma copy_bytes_eq:
  "n \<le> 2 ^ 32 \<Longrightarrow> (\<And>i. i < n \<Longrightarrow> n \<le> unat (src + of_nat i - dest)) \<Longrightarrow>
    copy_bytes n dest src m a = (if unat (a - dest) < n then m (src + (a - dest)) else m a)"
proof (induction n arbitrary: dest src m)
  case (Suc n)
  have step: "unat (x - (dest + 1)) = unat (x - dest) - 1" "0 < unat (x - dest)" if "x \<noteq> dest" for x
    using that unat_minus_one [of "x - dest"] by (simp_all add: diff_diff_add unat_gt_0)
  have away: "src + of_nat i \<noteq> dest" if "i < Suc n" for i using Suc.prems(2) [OF that] by auto
  have "n \<le> unat (src + 1 + of_nat i - (dest + 1))" if "i < n" for i
    using Suc.prems(2) [of i] that by (simp add: algebra_simps)
  then have IH: "copy_bytes n (dest + 1) (src + 1) (m(dest := m src)) a =
      (if unat (a - (dest + 1)) < n then (m(dest := m src)) (src + 1 + (a - (dest + 1))) else (m(dest := m src)) a)"
    using Suc.IH [of "src + 1" "dest + 1"] Suc.prems(1) by simp
  show ?case
  proof (cases "a = dest")
    case True
    moreover have "\<not> unat (- 1 :: u32) < n" using Suc.prems(1) by (simp add: unat_minus_one_word)
    ultimately show ?thesis using IH by simp
  next
    case False
    have "src + (a - dest) \<noteq> dest" if "unat (a - dest) < Suc n"
      using away [OF that] by simp
    then show ?thesis using IH False step [OF False] by (auto simp: algebra_simps)
  qed
qed simp

text \<open>The file in memory, the addresses that a segment covers, and the bytes it puts there.\<close>

definition in_file :: "u32 \<Rightarrow> u32 \<Rightarrow> u32 \<Rightarrow> bool" where
  "in_file elf sz a \<longleftrightarrow> unat (a - elf) < unat sz"

definition covers :: "u32 \<Rightarrow> u32 \<Rightarrow> ProgramHeader \<Rightarrow> bool" where
  "covers base a ph \<longleftrightarrow> ph_type ph = 1 \<and> unat (a - (ph_vaddr ph + base)) < max (unat (ph_filesz ph)) (unat (ph_memsz ph))"

definition image_byte :: "bytes_at \<Rightarrow> u32 \<Rightarrow> u32 \<Rightarrow> u32 \<Rightarrow> ProgramHeader \<Rightarrow> u8" where
  "image_byte m elf base a ph =
     (let d = a - (ph_vaddr ph + base) in if unat d < unat (ph_filesz ph) then m (elf + ph_offset ph + d) else 0)"

definition segment_ok :: "u32 \<Rightarrow> u32 \<Rightarrow> u32 \<Rightarrow> ProgramHeader \<Rightarrow> bool" where
  "segment_ok elf sz base ph \<longleftrightarrow> ph_type ph \<noteq> 2 \<and> ph_type ph \<noteq> 0x6474e550 \<and>
     unat (ph_offset ph) + unat (ph_filesz ph) \<le> unat sz \<and> (\<forall>a. covers base a ph \<longrightarrow> \<not> in_file elf sz a)"

lemma unat_sub_wrap: "unat x < unat y \<Longrightarrow> unat (x - y :: u32) = unat x + 2 ^ 32 - unat y"
  by (simp add: unat_sub_if' unat_sub_if_size word_size)

lemma load_segment_mem:
  assumes ok: "segment_ok elf sz base ph" and same: "\<And>a. in_file elf sz a \<Longrightarrow> m' a = m a"
  shows "load_segment elf base ph (m', d, n) =
    (\<lambda>a. if covers base a ph then image_byte m elf base a ph else m' a, d, n)"
proof (cases "ph_type ph = 1")
  case True
  let ?dest = "ph_vaddr ph + base" and ?src = "elf + ph_offset ph" and ?f = "unat (ph_filesz ph)"
  have lt: "?f < 2 ^ 32" "unat (ph_memsz ph) < 2 ^ 32" using unat_u32_less by simp_all
  have src: "in_file elf sz (?src + of_nat i)" if "i < ?f" for i
  proof -
    have "unat (ph_offset ph + of_nat i) = unat (ph_offset ph) + i"
      using ok that lt(1) unat_u32_less [of sz] by (simp add: segment_ok_def unat_word_ariths unat_of_nat)
    then show ?thesis using ok that by (simp add: in_file_def segment_ok_def add.assoc)
  qed
  have "?f \<le> unat (?src + of_nat i - ?dest)" if "i < ?f" for i
    using src [OF that] ok True by (force simp: segment_ok_def covers_def not_less)
  then have c: "copy_bytes ?f ?dest ?src m' a = (if unat (a - ?dest) < ?f then m' (?src + (a - ?dest)) else m' a)" for a
    using copy_bytes_eq lt(1) by simp
  have img: "m' (?src + (a - ?dest)) = m (?src + (a - ?dest))" if "unat (a - ?dest) < ?f" for a
    using same [OF src [OF that]] by simp
  have gap: "unat (a - (?dest + ph_filesz ph)) = unat (a - ?dest) - ?f" if "?f \<le> unat (a - ?dest)" for a
    using that by (simp add: diff_diff_add [symmetric] unat_sub word_le_nat_alt)
  have below: "unat (a - (?dest + ph_filesz ph)) = unat (a - ?dest) + 2 ^ 32 - ?f" if "unat (a - ?dest) < ?f" for a
    using that unat_sub_wrap [of "a - ?dest" "ph_filesz ph"] by (simp add: diff_diff_add)
  have "zero_bytes (unat (ph_memsz ph) - ?f) (?dest + ph_filesz ph) (copy_bytes ?f ?dest ?src m') a =
      (if covers base a ph then image_byte m elf base a ph else m' a)" for a
  proof (cases "unat (a - ?dest) < ?f")
    case True
    then have "\<not> unat (a - (?dest + ph_filesz ph)) < unat (ph_memsz ph) - ?f" using below [OF True] lt by linarith
    then show ?thesis using True c img [OF True] \<open>ph_type ph = 1\<close> lt
      by (simp add: zero_bytes_eq covers_def image_byte_def Let_def less_max_iff_disj)
  next
    case False
    then show ?thesis using c gap [of a] \<open>ph_type ph = 1\<close> lt
      by (auto simp: zero_bytes_eq covers_def image_byte_def Let_def less_max_iff_disj)
  qed
  then show ?thesis using True by (simp add: load_segment_def Let_def fun_eq_iff)
qed (use ok in \<open>auto simp: load_segment_def segment_ok_def covers_def\<close>)

lemma rd_cong:
  assumes "\<And>i. i < 4 \<Longrightarrow> m' (a + of_nat i) = m (a + of_nat i)"
  shows "rd32 m' a = rd32 m a"
  using assms [of 0] assms [of 1] assms [of 2] assms [of 3] by (simp add: rd32_def)

lemma rd16_cong: "m' a = m a \<Longrightarrow> m' (a + 1) = m (a + 1) \<Longrightarrow> rd16 m' a = rd16 m a"
  by (simp add: rd16_def)

lemma in_file_offset: "k < unat sz \<Longrightarrow> in_file elf sz (elf + of_nat k)"
  using unat_u32_less [of sz] by (simp add: in_file_def unat_of_nat)

definition file_same :: "u32 \<Rightarrow> u32 \<Rightarrow> bytes_at \<Rightarrow> bytes_at \<Rightarrow> bool" where
  "file_same elf sz m' m \<longleftrightarrow> (\<forall>a. in_file elf sz a \<longrightarrow> m' a = m a)"

lemma rd32_file:
  assumes "file_same elf sz m' m" and "k + 4 \<le> unat sz"
  shows "rd32 m' (elf + of_nat k) = rd32 m (elf + of_nat k)"
proof (rule rd_cong)
  fix i :: nat
  assume "i < 4"
  then show "m' (elf + of_nat k + of_nat i) = m (elf + of_nat k + of_nat i)"
    using assms in_file_offset [of "k + i" sz elf] by (simp add: file_same_def add.assoc)
qed

lemma read_phdr_file:
  assumes same: "file_same elf sz m' m" and k: "k + 32 \<le> unat sz"
  shows "read_phdr m' (elf + of_nat k) = read_phdr m (elf + of_nat k)"
  using rd32_file [OF same, of k] rd32_file [OF same, of "k + 4"] rd32_file [OF same, of "k + 8"]
    rd32_file [OF same, of "k + 16"] rd32_file [OF same, of "k + 20"] k
  by (simp add: read_phdr_def add.assoc)

text \<open>The memory after the segments of a list: the last one that covers an address determines it.\<close>

definition loaded :: "bytes_at \<Rightarrow> u32 \<Rightarrow> u32 \<Rightarrow> ProgramHeader list \<Rightarrow> bytes_at" where
  "loaded m elf base phs a =
     (case find (covers base a) (rev phs) of Some ph \<Rightarrow> image_byte m elf base a ph | None \<Rightarrow> m a)"

definition program_headers :: "bytes_at \<Rightarrow> u32 \<Rightarrow> ProgramHeader list" where
  "program_headers m elf =
     map (\<lambda>i. read_phdr m (elf + rd32 m (elf + 28) + of_nat i * 32)) [0..<unat (rd16 m (elf + 44))]"

definition image_ok :: "bytes_at \<Rightarrow> u32 \<Rightarrow> u32 \<Rightarrow> u32 \<Rightarrow> bool" where
  "image_ok m elf sz base \<longleftrightarrow> elf \<noteq> 0 \<and> 52 \<le> unat sz \<and> rd32 m elf = ELF_MAGIC \<and> rd16 m (elf + 16) = ET_EXEC \<and>
     rd32 m (elf + 32) = 0 \<and> unat (rd32 m (elf + 28)) + unat (rd16 m (elf + 44)) * 32 \<le> unat sz \<and>
     list_all (segment_ok elf sz base) (program_headers m elf)"

lemma loaded_Nil: "loaded m elf base [] = m"
  by (simp add: loaded_def fun_eq_iff)

lemma loaded_file:
  assumes "list_all (segment_ok elf sz base) phs" and "in_file elf sz a"
  shows "loaded m elf base phs a = m a"
proof -
  have "find (covers base a) (rev phs) = None" using assms by (auto simp: find_None_iff list_all_iff segment_ok_def)
  then show ?thesis by (simp add: loaded_def)
qed

lemma loaded_snoc:
  assumes "list_all (segment_ok elf sz base) phs" and "segment_ok elf sz base ph"
  shows "load_segment elf base ph (loaded m elf base phs, d, n) = (loaded m elf base (phs @ [ph]), d, n)"
proof -
  have "load_segment elf base ph (loaded m elf base phs, d, n) =
      (\<lambda>a. if covers base a ph then image_byte m elf base a ph else loaded m elf base phs a, d, n)"
    using load_segment_mem [OF assms(2), of "loaded m elf base phs" m] loaded_file [OF assms(1)] by blast
  then show ?thesis by (auto simp: loaded_def)
qed

lemma load_segments_eq:
  assumes ok: "image_ok m elf sz base" and "i \<le> length (program_headers m elf)"
  shows "load_segments elf base (elf + rd32 m (elf + 28)) i (loaded m elf base (take i (program_headers m elf)), d, n) =
    (loaded m elf base (program_headers m elf), d, n)"
  using assms(2)
proof (induction "length (program_headers m elf) - i" arbitrary: i)
  case 0
  let ?phs = "program_headers m elf"
  have segs: "list_all (segment_ok elf sz base) ?phs" using ok by (simp add: image_ok_def)
  have "rd16 (loaded m elf base ?phs) (elf + 44) = rd16 m (elf + 44)"
    using loaded_file [OF segs, of _ m] in_file_offset [of 44 sz elf] in_file_offset [of 45 sz elf] ok
    by (intro rd16_cong) (simp_all add: image_ok_def add.assoc)
  then show ?case using 0 by (subst load_segments.simps) (simp add: program_headers_def)
next
  case (Suc k)
  let ?phs = "program_headers m elf" and ?m' = "loaded m elf base (take i (program_headers m elf))"
  have i: "i < length ?phs" using Suc.hyps(2) by simp
  have segs: "list_all (segment_ok elf sz base) ?phs" using ok by (simp add: image_ok_def)
  then have segs_i: "list_all (segment_ok elf sz base) (take i ?phs)" and ph: "segment_ok elf sz base (?phs ! i)"
    using i by (auto simp: list_all_iff dest: in_set_takeD)
  have same: "?m' a = m a" if "in_file elf sz a" for a using loaded_file [OF segs_i that] .
  have "rd16 ?m' (elf + 44) = rd16 m (elf + 44)"
    using same in_file_offset [of 44 sz elf] in_file_offset [of 45 sz elf] ok
    by (intro rd16_cong) (simp_all add: image_ok_def add.assoc)
  then have more: "i < unat (rd16 ?m' (elf + 44))" using i by (simp add: program_headers_def)
  have "unat (rd32 m (elf + 28)) + i * 32 + 32 \<le> unat sz"
    using ok i by (auto simp: image_ok_def program_headers_def)
  moreover have "file_same elf sz ?m' m" using same by (simp add: file_same_def)
  ultimately
  have hdr: "read_phdr ?m' (elf + rd32 m (elf + 28) + of_nat i * 32) = ?phs ! i"
    using i read_phdr_file [of elf sz ?m' m "unat (rd32 m (elf + 28)) + i * 32"] by (simp add: program_headers_def add.assoc)
  have "load_segment elf base (?phs ! i) (?m', d, n) = (loaded m elf base (take (i + 1) ?phs), d, n)"
    using loaded_snoc [OF segs_i ph] i by (simp add: take_Suc_conv_app_nth)
  then show ?case using Suc.hyps(1) [of "i + 1"] Suc.hyps(2) more hdr i
    by (subst load_segments.simps) simp
qed

section \<open>Property\<close>


text \<open>A file at \<open>0x1000\<close> with one segment of two bytes and two zeros, loaded at \<open>0x8000\<close>.\<close>

definition tiny_elf :: bytes_at where
  "tiny_elf a =
     (let bs = [0x7F, 0x45, 0x4C, 0x46] @ replicate 12 0 @ [2, 0] @ replicate 10 0 @ [52, 0, 0, 0] @ replicate 12 0 @ [1, 0] @
        replicate 6 0 @ [1, 0, 0, 0, 84, 0, 0, 0, 0, 0x80, 0, 0, 0, 0, 0, 0, 2, 0, 0, 0, 4, 0, 0, 0] @ replicate 8 0 @ [0x90, 0xC3];
          k = unat (a - 0x1000) in
      if k < 86 then bs ! k else 0xFF)"

definition tiny_header :: ProgramHeader where
  "tiny_header = \<lparr>ph_type = 1, ph_offset = 84, ph_vaddr = 0x8000, ph_filesz = 2, ph_memsz = 4\<rparr>"

lemma tiny_fields: "rd32 tiny_elf 0x1000 = ELF_MAGIC" "rd16 tiny_elf 0x1010 = 2" "rd32 tiny_elf 0x101C = 52"
  "rd32 tiny_elf 0x1020 = 0" "rd16 tiny_elf 0x102C = 1" "read_phdr tiny_elf 0x1034 = tiny_header"
  by code_simp+

lemma tiny_headers: "program_headers tiny_elf 0x1000 = [tiny_header]"
  using tiny_fields by (simp add: program_headers_def)

lemma tiny_ok: "image_ok tiny_elf 0x1000 86 0"
proof -
  have "\<not> in_file 0x1000 86 a" if "unat (a - 0x8000) < 4" for a :: u32
  proof -
    have "a - 0x8000 \<in> {0, 1, 2, 3}" using that by (auto simp: word_unat_eq_iff)
    then have "a \<in> {0x8000, 0x8001, 0x8002, 0x8003}" by (auto simp: diff_eq_eq)
    then show ?thesis by (auto simp: in_file_def)
  qed
  then have "segment_ok 0x1000 86 0 tiny_header" by (auto simp: segment_ok_def covers_def tiny_header_def)
  then show ?thesis using tiny_fields by (simp add: image_ok_def tiny_headers)
qed


end
