(* ===== verification/Interrupts.thy ===== *)
theory Interrupts
  imports BlockDev
begin

text \<open>
  Interrupts: the two controllers, \<open>arch/x86/pic8259.cpp\<close> and \<open>arch/x86/apic.cpp\<close>, and the
  manager of \<open>arch/x86/interrupt.cpp\<close>. The machine is an argument: the ports, the
  memory-mapped registers and the model-specific registers over a state \<open>'h\<close>. A handler is a
  pointer, and what it does is an argument too.
\<close>

record 'h Machine = "'h Ports" +
  mmio_read :: "u32 \<Rightarrow> 'h \<Rightarrow> u32 \<times> 'h"
  mmio_write :: "u32 \<Rightarrow> u32 \<Rightarrow> 'h \<Rightarrow> 'h"
  rdmsr :: "u32 \<Rightarrow> 'h \<Rightarrow> (u32 \<times> u32) \<times> 'h"
  wrmsr :: "u32 \<Rightarrow> u32 \<Rightarrow> u32 \<Rightarrow> 'h \<Rightarrow> 'h"

section \<open>PIC\<close>

text \<open>A division by zero and a shift by 32 or more are undefined.\<close>

definition pic_set_timer_frequency :: "'h Machine \<Rightarrow> u32 \<Rightarrow> 'h \<Rightarrow> 'h option" where
  "pic_set_timer_frequency M frequency h =
     (if frequency = 0 then None
      else let divisor = 1193180 div frequency in
        Some (outb M 0x40 (ucast (drop_bit 8 divisor)) (outb M 0x40 (ucast divisor) h)))"

definition pic_init_timer :: "'h Machine \<Rightarrow> 'h \<Rightarrow> 'h option" where
  "pic_init_timer M h = pic_set_timer_frequency M 100 (outb M 0x43 0x36 h)"

definition pic_init :: "'h Machine \<Rightarrow> 'h \<Rightarrow> 'h option" where
  "pic_init M h =
     pic_init_timer M (fold (\<lambda>(p, v). outb M p v)
       [(0x20, 0x10 OR 0x01), (0xA0, 0x10 OR 0x01), (0x21, 0x20), (0xA1, 0x28), (0x21, 0x04), (0xA1, 0x02),
        (0x21, 0x01), (0xA1, 0x01), (0x21, 0xFF), (0xA1, 0xFF)] h)"

definition pic_send_eoi :: "'h Machine \<Rightarrow> u32 \<Rightarrow> 'h \<Rightarrow> 'h" where
  "pic_send_eoi M interrupt h =
     (if interrupt \<ge> 0x20 \<and> interrupt \<le> 0x2F
      then let h = outb M 0x20 0x20 h in if interrupt \<ge> 0x28 then outb M 0xA0 0x20 h else h
      else h)"

definition pic_enable_irq :: "'h Machine \<Rightarrow> u8 \<Rightarrow> 'h \<Rightarrow> 'h option" where
  "pic_enable_irq M irq h =
     (let port = (if irq < 8 then 0x21 else 0xA1); irq = (if irq < 8 then irq else irq - 8); (v, h) = inb M port h in
      if irq \<ge> 32 then None else Some (outb M port (v AND NOT (ucast (push_bit (unat irq) (1 :: u32)))) h))"

definition pic_disable_irq :: "'h Machine \<Rightarrow> u8 \<Rightarrow> 'h \<Rightarrow> 'h option" where
  "pic_disable_irq M irq h =
     (let port = (if irq < 8 then 0x21 else 0xA1); irq = (if irq < 8 then irq else irq - 8); (v, h) = inb M port h in
      if irq \<ge> 32 then None else Some (outb M port (v OR ucast (push_bit (unat irq) (1 :: u32))) h))"

section \<open>APIC\<close>

abbreviation (input) LAPIC_BASE :: u32 where "LAPIC_BASE \<equiv> 0xFEE00000"
abbreviation (input) IOAPIC_BASE :: u32 where "IOAPIC_BASE \<equiv> 0xFEC00000"

definition apic_read :: "'h Machine \<Rightarrow> u32 \<Rightarrow> 'h \<Rightarrow> u32 \<times> 'h" where
  "apic_read M reg h = mmio_read M (LAPIC_BASE + reg) h"

definition apic_write :: "'h Machine \<Rightarrow> u32 \<Rightarrow> u32 \<Rightarrow> 'h \<Rightarrow> 'h" where
  "apic_write M reg v h = mmio_write M (LAPIC_BASE + reg) v h"

definition ioapic_write :: "'h Machine \<Rightarrow> u32 \<Rightarrow> u32 \<Rightarrow> 'h \<Rightarrow> 'h" where
  "ioapic_write M reg v h = mmio_write M (IOAPIC_BASE + 0x10) v (mmio_write M (IOAPIC_BASE + 0x00) reg h)"

definition ioapic_read :: "'h Machine \<Rightarrow> u32 \<Rightarrow> 'h \<Rightarrow> u32 \<times> 'h" where
  "ioapic_read M reg h = mmio_read M (IOAPIC_BASE + 0x10) (mmio_write M (IOAPIC_BASE + 0x00) reg h)"

definition apic_init :: "'h Machine \<Rightarrow> 'h \<Rightarrow> 'h" where
  "apic_init M h =
     (let h = outb M 0xA1 0xFF (outb M 0x21 0xFF h);
          ((low, high), h) = rdmsr M 0x1B h;
          h = wrmsr M 0x1B (low OR push_bit 11 1) high h
      in apic_write M 0xF0 (0x100 OR 0xFF) h)"

definition apic_get_id :: "'h Machine \<Rightarrow> 'h \<Rightarrow> u32 \<times> 'h" where
  "apic_get_id M h = (let (v, h) = apic_read M 0x20 h in (drop_bit 24 v AND 0xFF, h))"

definition apic_enable :: "'h Machine \<Rightarrow> 'h \<Rightarrow> 'h" where
  "apic_enable M h = (let (v, h) = apic_read M 0xF0 h in apic_write M 0xF0 (v OR 0x100) h)"

text \<open>The wait until the command register is no longer pending, which may not end.\<close>

partial_function (option) apic_wait_icr :: "'h Machine \<Rightarrow> 'h \<Rightarrow> 'h option" where
  [code]: "apic_wait_icr M h =
     (let (v, h) = apic_read M 0x300 h in if v AND push_bit 12 1 \<noteq> 0 then apic_wait_icr M h else Some h)"

text \<open>The fields of \<open>icr_low\<close>: the vector, the delivery mode, the level and the trigger mode.\<close>

abbreviation (input) icr_low :: "u8 \<Rightarrow> u32 \<Rightarrow> u32" where
  "icr_low vector delivery_mode \<equiv> ucast vector OR push_bit 8 delivery_mode OR push_bit 14 1 OR push_bit 15 1"

definition apic_send_init :: "'h Machine \<Rightarrow> u32 \<Rightarrow> 'h \<Rightarrow> 'h option" where
  "apic_send_init M target h = apic_wait_icr M (apic_write M 0x300 (icr_low 0 5) (apic_write M 0x310 (push_bit 24 target) h))"

definition apic_send_sipi :: "'h Machine \<Rightarrow> u32 \<Rightarrow> u32 \<Rightarrow> 'h \<Rightarrow> 'h option" where
  "apic_send_sipi M physical_address target h =
     (let vector = ucast (drop_bit 12 physical_address) in
      apic_wait_icr M (apic_write M 0x300 (icr_low vector 6) (apic_write M 0x310 (push_bit 24 target) h)))"

definition apic_set_timer_frequency :: "'h Machine \<Rightarrow> u32 \<Rightarrow> 'h \<Rightarrow> 'h option" where
  "apic_set_timer_frequency M frequency h =
     (if frequency = 0 then None else Some (apic_write M 0x380 (100 * 1000000 div frequency) h))"

definition apic_ctl_init_timer :: "'h Machine \<Rightarrow> 'h \<Rightarrow> 'h option" where
  "apic_ctl_init_timer M h = apic_set_timer_frequency M 100 (apic_write M 0x320 (0x20000 OR 0x30) h)"

definition apic_init_timer :: "'h Machine \<Rightarrow> u32 \<Rightarrow> 'h \<Rightarrow> 'h option" where
  "apic_init_timer M frequency h =
     (if frequency * 4 = 0 then None
      else Some (apic_write M 0x3E0 0x3 (apic_write M 0x380 (100000000 div (frequency * 4)) (apic_write M 0x320 (0x30 OR 0x20000) h))))"

definition ioapic_vectors :: "u8 list" where
  "ioapic_vectors =
     [0x20, 0x21, 0x22, 0x23, 0x24, 0x25, 0x26, 0x27, 0x28, 0x2D, 0x29, 0x2A, 0x2B, 0x2C, 0x2E, 0x2F, 0x30, 0x31,
      0x30, 0x31, 0x32, 0x33, 0x34, 0x3F]"

definition ioapic_set_irq :: "'h Machine \<Rightarrow> u8 \<Rightarrow> u64 \<Rightarrow> 'h \<Rightarrow> 'h" where
  "ioapic_set_irq M irq v h =
     (let ioredtbl = 0x10 + 2 * ucast irq in ioapic_write M (ioredtbl + 1) (ucast (drop_bit 32 v)) (ioapic_write M ioredtbl (ucast v) h))"

text \<open>
  The shift of the 32-bit identifier by 56 has no value in the language; what the compiler
  makes of it is the argument \<open>shl56\<close>.
\<close>

definition ioapic_init :: "(u32 \<Rightarrow> u32) \<Rightarrow> 'h Machine \<Rightarrow> 'h \<Rightarrow> 'h" where
  "ioapic_init shl56 M h =
     fold (\<lambda>i h. let v = ucast (ioapic_vectors ! i) OR push_bit 14 1; (apic_id, h) = apic_get_id M h
                 in ioapic_set_irq M (of_nat i) (v OR ucast (shl56 apic_id)) h) [0..<24] h"

definition apic_ctl_init :: "(u32 \<Rightarrow> u32) \<Rightarrow> 'h Machine \<Rightarrow> 'h \<Rightarrow> 'h option" where
  "apic_ctl_init shl56 M h = apic_ctl_init_timer M (ioapic_init shl56 M (apic_init M h))"

definition apic_enable_irq :: "'h Machine \<Rightarrow> u8 \<Rightarrow> 'h \<Rightarrow> 'h" where
  "apic_enable_irq M irq h =
     (let ioredtbl = 0x10 + 2 * ucast irq; (low, h) = ioapic_read M ioredtbl h; (high, h) = ioapic_read M (ioredtbl + 1) h
      in ioapic_write M (ioredtbl + 1) high (ioapic_write M ioredtbl (low AND NOT (push_bit 16 1)) h))"

definition apic_disable_irq :: "'h Machine \<Rightarrow> u8 \<Rightarrow> 'h \<Rightarrow> 'h" where
  "apic_disable_irq M irq h =
     (let ioredtbl = 0x10 + 2 * ucast irq; (low, h) = ioapic_read M ioredtbl h; (high, h) = ioapic_read M (ioredtbl + 1) h
      in ioapic_write M (ioredtbl + 1) high (ioapic_write M ioredtbl (low OR push_bit 16 1) h))"

definition apic_get_vector :: "u8 \<Rightarrow> u32" where
  "apic_get_vector irq = (if irq = 0x20 then 0x30 else ucast irq)"

section \<open>The manager\<close>

datatype ControllerType = PIC8259 | APIC

record InterruptManager =
  controller :: "ControllerType option"
  current_interrupt :: u32
  handlers :: "u32 list"

definition im_init ::
  "(u32 \<Rightarrow> u32) \<Rightarrow> 'h Machine \<Rightarrow> ControllerType \<Rightarrow> InterruptManager \<times> 'h \<Rightarrow> (InterruptManager \<times> 'h) option" where
  "im_init shl56 M type s =
     do { h \<leftarrow> (case type of PIC8259 \<Rightarrow> pic_init M (snd s) | APIC \<Rightarrow> apic_ctl_init shl56 M (snd s));
          Some ((fst s)\<lparr>handlers := replicate 256 0, controller := Some type, current_interrupt := 0\<rparr>, h) }"

definition registerHandler :: "u8 \<Rightarrow> u32 \<Rightarrow> InterruptManager \<Rightarrow> InterruptManager option" where
  "registerHandler interrupt handler im = do { hs \<leftarrow> arr_set (handlers im) (unat interrupt) handler; Some (im\<lparr>handlers := hs\<rparr>) }"

definition sendEOI :: "'h Machine \<Rightarrow> InterruptManager \<times> 'h \<Rightarrow> InterruptManager \<times> 'h" where
  "sendEOI M s =
     (case controller (fst s) of
        None \<Rightarrow> s
      | Some PIC8259 \<Rightarrow> (fst s, pic_send_eoi M (current_interrupt (fst s)) (snd s))
      | Some APIC \<Rightarrow> (fst s, apic_write M 0xB0 0 (snd s)))"

definition enableIRQ :: "'h Machine \<Rightarrow> u8 \<Rightarrow> InterruptManager \<Rightarrow> 'h \<Rightarrow> 'h option" where
  "enableIRQ M irq im h =
     (case controller im of None \<Rightarrow> Some h | Some PIC8259 \<Rightarrow> pic_enable_irq M irq h | Some APIC \<Rightarrow> Some (apic_enable_irq M irq h))"

definition disableIRQ :: "'h Machine \<Rightarrow> u8 \<Rightarrow> InterruptManager \<Rightarrow> 'h \<Rightarrow> 'h option" where
  "disableIRQ M irq im h =
     (case controller im of None \<Rightarrow> Some h | Some PIC8259 \<Rightarrow> pic_disable_irq M irq h | Some APIC \<Rightarrow> Some (apic_disable_irq M irq h))"

definition handleInterrupt ::
  "'h Machine \<Rightarrow> (u32 \<Rightarrow> InterruptManager \<times> 'h \<Rightarrow> (InterruptManager \<times> 'h) option) \<Rightarrow> u32 \<Rightarrow>
     InterruptManager \<times> 'h \<Rightarrow> (InterruptManager \<times> 'h) option" where
  "handleInterrupt M call interrupt s =
     (let im = (if controller (fst s) = None then fst s else (fst s)\<lparr>current_interrupt := interrupt\<rparr>) in
      do { f \<leftarrow> arr_get (handlers im) (unat interrupt);
           s \<leftarrow> (if f \<noteq> 0 then call f (im, snd s) else Some (im, snd s));
           Some (sendEOI M s) })"

section \<open>The interrupt lines\<close>

text \<open>
  Line \<open>i\<close> has a low and a high register. Software can write these bits of the low one: the
  vector (0 to 7), the delivery mode and the destination mode (8 to 11), the polarity (13), the trigger mode (15)
  and the mask (16). Bits 12 and 14 are read-only and the others reserved. In the high register it can write
  the destination (24 to 31).
\<close>

definition line_register :: "nat \<Rightarrow> u32" where
  "line_register i = 0x10 + 2 * of_nat i"

definition writable :: "nat \<Rightarrow> bool" where
  "writable b \<longleftrightarrow> b < 12 \<or> b = 13 \<or> b = 15 \<or> b = 16"

definition destination :: "nat \<Rightarrow> bool" where
  "destination b \<longleftrightarrow> 24 \<le> b \<and> b < 32"

text \<open>
  What the I/O APIC documents, for registers \<open>reg\<close> behind a selector \<open>sel\<close>: a write to the window
  changes the selected register only, the registers of a line keep the writable bits that are
  written, a read of the window changes nothing, and other devices do not reach these registers.
\<close>

definition io_apic :: "'h Machine \<Rightarrow> ('h \<Rightarrow> u32) \<Rightarrow> ('h \<Rightarrow> u32 \<Rightarrow> u32) \<Rightarrow> bool" where
  "io_apic M sel reg \<longleftrightarrow>
     (\<forall>h v. sel (mmio_write M 0xFEC00000 v h) = v \<and> reg (mmio_write M 0xFEC00000 v h) = reg h) \<and>
     (\<forall>h v r. sel h \<noteq> r \<longrightarrow> reg (mmio_write M 0xFEC00010 v h) r = reg h r) \<and>
     (\<forall>h v i b. i < 24 \<longrightarrow> sel h = line_register i \<longrightarrow> writable b \<longrightarrow>
        bit (reg (mmio_write M 0xFEC00010 v h) (line_register i)) b = bit v b) \<and>
     (\<forall>h v i b. i < 24 \<longrightarrow> sel h = line_register i + 1 \<longrightarrow> destination b \<longrightarrow>
        bit (reg (mmio_write M 0xFEC00010 v h) (line_register i + 1)) b = bit v b) \<and>
     (\<forall>h. fst (mmio_read M 0xFEC00010 h) = reg h (sel h) \<and> reg (snd (mmio_read M 0xFEC00010 h)) = reg h) \<and>
     (\<forall>h p v. reg (outb M p v h) = reg h) \<and> (\<forall>h r. reg (snd (rdmsr M r h)) = reg h) \<and>
     (\<forall>h r a d. reg (wrmsr M r a d h) = reg h) \<and>
     (\<forall>h a v. a \<ge> 0xFEE00000 \<longrightarrow> reg (mmio_write M a v h) = reg h \<and> reg (snd (mmio_read M a h)) = reg h)"

text \<open>
  The registers of line \<open>i\<close> are \<open>lo\<close> and \<open>hi\<close> in all bits that software can write.
\<close>

definition line_is :: "('h \<Rightarrow> u32 \<Rightarrow> u32) \<Rightarrow> 'h \<Rightarrow> nat \<Rightarrow> u32 \<Rightarrow> u32 \<Rightarrow> bool" where
  "line_is reg h i lo hi \<longleftrightarrow> (\<forall>b. (writable b \<longrightarrow> bit (reg h (line_register i)) b = bit lo b) \<and>
     (destination b \<longrightarrow> bit (reg h (line_register i + 1)) b = bit hi b))"

lemma line_register_ucast: "0x10 + 2 * ucast (irq :: u8) = line_register (unat irq)"
  by (simp add: line_register_def)

lemma unat_line_register: "i < 24 \<Longrightarrow> unat (line_register i) = 16 + 2 * i" "i < 24 \<Longrightarrow> unat (line_register i + 1) = 17 + 2 * i"
  by (simp_all add: line_register_def unat_word_ariths unat_of_nat)

lemma line_registers_differ:
  assumes "i < 24" "j < 24"
  shows "line_register i = line_register j \<longleftrightarrow> i = j" and "line_register i + 1 \<noteq> line_register j" and "line_register i \<noteq> line_register j + 1"
proof -
  have "17 + 2 * i \<noteq> 16 + 2 * j" "16 + 2 * i \<noteq> 17 + 2 * j" by presburger+
  then show "line_register i = line_register j \<longleftrightarrow> i = j" "line_register i + 1 \<noteq> line_register j" "line_register i \<noteq> line_register j + 1"
    by (simp_all add: word_unat_eq_iff unat_line_register assms)
qed

lemma ioapic_write_reg:
  assumes "io_apic M sel reg"
  shows "r \<noteq> r' \<Longrightarrow> reg (ioapic_write M r v h) r' = reg h r'"
    and "i < 24 \<Longrightarrow> writable b \<Longrightarrow> bit (reg (ioapic_write M (line_register i) v h) (line_register i)) b = bit v b"
    and "i < 24 \<Longrightarrow> destination b \<Longrightarrow> bit (reg (ioapic_write M (line_register i + 1) v h) (line_register i + 1)) b = bit v b"
  using assms by (auto simp: io_apic_def ioapic_write_def)

lemma ioapic_read_reg:
  assumes "io_apic M sel reg"
  shows "ioapic_read M r h = (v, h') \<Longrightarrow> v = reg h r \<and> reg h' = reg h"
  using assms by (simp add: io_apic_def ioapic_read_def) (metis fst_conv snd_conv)

lemma apic_reg:
  assumes "io_apic M sel reg" and "r < 0x1000"
  shows "reg (apic_write M r v h) = reg h" and "reg (snd (apic_read M r h)) = reg h"
proof -
  have "LAPIC_BASE + r \<ge> 0xFEE00000" using assms(2) by (simp add: word_le_nat_alt word_less_nat_alt unat_word_ariths)
  then show "reg (apic_write M r v h) = reg h" "reg (snd (apic_read M r h)) = reg h"
    using assms(1) by (simp_all add: io_apic_def apic_write_def apic_read_def)
qed

text \<open>Writing both registers of a line sets it and leaves the registers of the other lines alone.\<close>

lemma set_line:
  assumes io: "io_apic M sel reg" and i: "i < 24"
    and h': "h' = ioapic_write M (line_register i + 1) hi (ioapic_write M (line_register i) lo h)"
  shows "line_is reg h' i lo hi"
    and "j < 24 \<Longrightarrow> j \<noteq> i \<Longrightarrow> reg h' (line_register j) = reg h (line_register j) \<and> reg h' (line_register j + 1) = reg h (line_register j + 1)"
proof -
  show "line_is reg h' i lo hi"
    using ioapic_write_reg [OF io] line_registers_differ(2) [OF i i] i by (simp add: line_is_def h')
  show "reg h' (line_register j) = reg h (line_register j) \<and> reg h' (line_register j + 1) = reg h (line_register j + 1)"
    if "j < 24" "j \<noteq> i"
    using ioapic_write_reg(1) [OF io] line_registers_differ [OF i that(1)] that(2) by (simp add: h')
qed

lemma line_is_cong:
  "reg h' (line_register i) = reg h (line_register i) \<Longrightarrow> reg h' (line_register i + 1) = reg h (line_register i + 1) \<Longrightarrow>
   line_is reg h' i lo hi = line_is reg h i lo hi"
  by (simp add: line_is_def)

text \<open>The word that initialisation writes: bit 14 is not writable, and the shifted identifier stays in the low half.\<close>

lemma open_word:
  fixes x :: u32 and v :: u8
  assumes "\<And>b. b \<le> 16 \<Longrightarrow> \<not> bit x b"
  shows "writable b \<Longrightarrow> bit (ucast ((ucast v OR push_bit 14 1) OR ucast x :: u64) :: u32) b = bit (ucast v :: u32) b"
    and "destination b \<Longrightarrow> \<not> bit (ucast (drop_bit 32 ((ucast v OR push_bit 14 1) OR ucast x :: u64)) :: u32) b"
proof -
  have v: "\<not> bit v n" if "8 \<le> n" for n using bit_imp_le_length [of v n] that by auto
  have x: "\<not> bit x n" if "32 \<le> n" for n using bit_imp_le_length [of x n] that by auto
  show "bit (ucast ((ucast v OR push_bit 14 1) OR ucast x :: u64) :: u32) b = bit (ucast v :: u32) b" if "writable b"
    using that assms [of b] v [of b] by (auto simp: writable_def bit_unsigned_iff bit_or_iff bit_push_bit_iff bit_1_iff simp del: push_bit_of_1)
  show "\<not> bit (ucast (drop_bit 32 ((ucast v OR push_bit 14 1) OR ucast x :: u64)) :: u32) b" if "destination b"
    using that v [of "32 + b"] x [of "32 + b"]
    by (auto simp: destination_def bit_unsigned_iff bit_or_iff bit_drop_bit_eq bit_push_bit_iff bit_1_iff simp del: push_bit_of_1)
qed

lemma init_line:
  fixes shl56 :: "u32 \<Rightarrow> u32"
  assumes io: "io_apic M sel reg" and i: "i < 24" and shl: "\<And>x b. b \<le> 16 \<Longrightarrow> \<not> bit (shl56 x) b"
    and h': "h' = (let v = ucast (ioapic_vectors ! i) OR push_bit 14 1; (apic_id, h) = apic_get_id M h
              in ioapic_set_irq M (of_nat i) (v OR ucast (shl56 apic_id)) h)"
  shows "line_is reg h' i (ucast (ioapic_vectors ! i)) 0"
    and "j < 24 \<Longrightarrow> j \<noteq> i \<Longrightarrow> line_is reg h' j lo hi = line_is reg h j lo hi"
proof -
  obtain apic_id h1 where a: "apic_get_id M h = (apic_id, h1)" by force
  have r: "reg h1 = reg h" using a apic_reg(2) [OF io, of "0x20" h] by (auto simp: apic_get_id_def split: prod.splits)
  have u: "0x10 + 2 * ucast (of_nat i :: u8) = line_register i"
    unfolding line_register_ucast using i by (simp add: unat_of_nat)
  let ?v = "(ucast (ioapic_vectors ! i) OR push_bit 14 1) OR ucast (shl56 apic_id) :: u64"
  have h'': "h' = ioapic_write M (line_register i + 1) (ucast (drop_bit 32 ?v)) (ioapic_write M (line_register i) (ucast ?v) h1)"
    using a u by (simp add: h' ioapic_set_irq_def Let_def)
  show "line_is reg h' i (ucast (ioapic_vectors ! i)) 0"
    using set_line(1) [OF io i h''] open_word [OF shl] by (simp add: line_is_def)
  show "line_is reg h' j lo hi = line_is reg h j lo hi" if "j < 24" "j \<noteq> i"
    using set_line(2) [OF io i h'' that] r by (simp add: line_is_def)
qed

lemma ioapic_init_lines:
  assumes io: "io_apic M sel reg" and shl: "\<And>x b. b \<le> 16 \<Longrightarrow> \<not> bit (shl56 x) b" and "i < 24"
  shows "line_is reg (ioapic_init shl56 M h) i (ucast (ioapic_vectors ! i)) 0"
proof -
  let ?step = "\<lambda>i h. let v = ucast (ioapic_vectors ! i) OR push_bit 14 1; (apic_id, h) = apic_get_id M h
                 in ioapic_set_irq M (of_nat i) (v OR ucast (shl56 apic_id)) h"
  have "n \<le> 24 \<Longrightarrow> i < n \<Longrightarrow> line_is reg (fold ?step [0..<n] h) i (ucast (ioapic_vectors ! i)) 0" for n
  proof (induction n)
    case (Suc n)
    have n: "n < 24" using Suc.prems(1) by simp
    have step: "fold ?step [0..<Suc n] h = ?step n (fold ?step [0..<n] h)" by simp
    show ?case
    proof (cases "i = n")
      case True
      show ?thesis unfolding step True by (rule init_line(1) [OF io n shl refl])
    next
      case False
      have "line_is reg (fold ?step [0..<n] h) i (ucast (ioapic_vectors ! i)) 0" using Suc False by simp
      moreover have "line_is reg (?step n (fold ?step [0..<n] h)) i lo hi = line_is reg (fold ?step [0..<n] h) i lo hi" for lo hi
        by (rule init_line(2) [OF io n shl refl assms(3) False])
      ultimately show ?thesis unfolding step by iprover
    qed
  qed simp
  then show ?thesis using assms(3) unfolding ioapic_init_def by blast
qed

text \<open>Reading a line, changing the low word and writing it back.\<close>

lemma change_line:
  assumes io: "io_apic M sel reg" and i: "unat (irq :: u8) < 24" and j: "j < 24"
    and h': "h' = (let ioredtbl = 0x10 + 2 * ucast irq; (low, h) = ioapic_read M ioredtbl h; (high, h) = ioapic_read M (ioredtbl + 1) h
      in ioapic_write M (ioredtbl + 1) high (ioapic_write M ioredtbl (f low) h))"
  shows "line_is reg h' j ((if j = unat irq then f else (\<lambda>w. w)) (reg h (line_register j))) (reg h (line_register j + 1))"
proof -
  obtain low h1 high h2 where a: "ioapic_read M (line_register (unat irq)) h = (low, h1)"
      "ioapic_read M (line_register (unat irq) + 1) h1 = (high, h2)" by force
  have h'': "h' = ioapic_write M (line_register (unat irq) + 1) high (ioapic_write M (line_register (unat irq)) (f low) h2)"
    using a line_register_ucast [of irq] by (simp add: h' Let_def)
  have r: "low = reg h (line_register (unat irq))" "high = reg h (line_register (unat irq) + 1)" "reg h2 = reg h"
    using ioapic_read_reg [OF io] a by metis+
  show ?thesis
  proof (cases "j = unat irq")
    case True
    then show ?thesis using set_line(1) [OF io i h''] r by simp
  next
    case False
    then show ?thesis using set_line(2) [OF io i h'' j] r by (simp add: line_is_def)
  qed
qed


text \<open>A machine with only the I/O APIC.\<close>

definition io_machine :: "(u32 \<times> (u32 \<Rightarrow> u32)) Machine" where
  "io_machine = \<lparr>outb = \<lambda>_ _ h. h, inb = \<lambda>_ h. (0, h), inw = \<lambda>_ h. (0, h), outw = \<lambda>_ _ h. h,
     mmio_read = \<lambda>a h. (if a = 0xFEC00010 then snd h (fst h) else 0, h),
     mmio_write = \<lambda>a v h. if a = 0xFEC00000 then (v, snd h) else if a = 0xFEC00010 then (fst h, (snd h)(fst h := v)) else h,
     rdmsr = \<lambda>_ h. ((0, 0), h), wrmsr = \<lambda>_ _ _ h. h\<rparr>"

lemma io_machine_ok: "io_apic io_machine fst snd"
  by (auto simp: io_apic_def io_machine_def)


end
