(* ===== verification/PageFault.thy ===== *)
theory PageFault
  imports Process
begin

text \<open>
  The page fault handler and the copy on write, \<open>kernel/core/kernel.cpp\<close>. The contents of the
  user's frames are a function from physical addresses to bytes, apart from the memory of the
  page tables. An access to a virtual address goes through the directory that the register CR3
  of the processor names, which a task switch loads and which need not be the directory that the
  page manager edits; one that does not translate, a fault inside the handler, is undefined.
\<close>

type_synonym frames = "u32 \<Rightarrow> u8"

abbreviation (input) TEMP_MAPPING_VADDR :: u32 where "TEMP_MAPPING_VADDR \<equiv> 0xFFC00000"

section \<open>Copy on write\<close>

text \<open>\<open>memcpy\<close> between virtual addresses, from the byte \<open>i\<close> on, by a processor with the register \<open>creg\<close>.\<close>

primrec virt_memcpy :: "nat \<Rightarrow> u32 \<Rightarrow> u32 \<Rightarrow> u32 \<Rightarrow> u32 \<Rightarrow> PageManager \<Rightarrow> frames \<Rightarrow> frames option" where
  "virt_memcpy 0 i dest src creg pm fr = Some fr"
| "virt_memcpy (Suc n) i dest src creg pm fr =
     do { s \<leftarrow> mmu (mem pm) phys2Virt (phys2Virt (frame creg)) (src + i);
          d \<leftarrow> mmu (mem pm) phys2Virt (phys2Virt (frame creg)) (dest + i);
          virt_memcpy n (i + 1) dest src creg pm (fr(d := fr s)) }"

datatype cow_result = E_OK | E_NOT_COW | E_PANIC

text \<open>The old frame, which the source looks up, is not used any more.\<close>

definition copyCOWPage :: "u32 \<Rightarrow> u32 \<Rightarrow> UserMemory \<Rightarrow> PageManager \<times> frames \<Rightarrow> (cow_result \<times> PageManager \<times> frames) option" where
  "copyCOWPage fault_addr creg um = (\<lambda>(pm, fr).
     let flags = getPageFlags pm fault_addr in
     if flags AND PAGE_COW \<noteq> 0 \<and> flags AND PAGE_PRESENT \<noteq> 0
     then do {
       (new_phys, km) \<leftarrow> alloc_pages (page_phys pm) 0 0;
       if new_phys = 0 then Some (E_PANIC, pm\<lparr>page_phys := km\<rparr>, fr)
       else do {
         pm \<leftarrow> mapPage (pm\<lparr>page_phys := km\<rparr>) TEMP_MAPPING_VADDR new_phys (PAGE_PRESENT OR PAGE_WRITE);
         fr \<leftarrow> virt_memcpy 4096 0 TEMP_MAPPING_VADDR fault_addr creg pm fr;
         (_, pm) \<leftarrow> map_pages um (fault_addr AND NOT 0xFFF) new_phys PAGE_SIZE ((flags AND NOT PAGE_COW) OR PAGE_WRITE)
                     (unmapPage pm TEMP_MAPPING_VADDR);
         Some (E_OK, pm, fr) } }
     else Some (E_NOT_COW, pm, fr))"

section \<open>The handler\<close>

text \<open>
  A fault that is not repaired halts the processor; afterwards the handler returns for a user
  address and loops for ever for a kernel address.
\<close>

datatype fault_result = Repaired | Halted

definition page_fault_handler :: "u32 \<Rightarrow> u32 \<Rightarrow> nat \<Rightarrow> Kernel \<times> frames \<Rightarrow> (fault_result \<times> Kernel \<times> frames) option" where
  "page_fault_handler error_code fault_addr cpu = (\<lambda>(k, fr).
     do { t \<leftarrow> get_current_task (sched k) cpu;
          let c = task_context (task_at (sched k) t);
          let um = user_mm (context_at k c);
          let is_present = error_code AND 0x1 \<noteq> 0;
          let is_write = error_code AND 0x2 \<noteq> 0;
          let is_user = error_code AND 0x4 \<noteq> 0 \<or> (fault_addr \<ge> 0x40000000 \<and> fault_addr < 0xC0000000);
          if t = 0 \<or> c = 0 then None
          else if \<not> is_user then None
          else if \<not> is_present
          then do { (r, k) \<leftarrow> on_pages (\<lambda>pm.
                      do { (phys_page, km) \<leftarrow> alloc_pages (page_phys pm) 0 0;
                           if phys_page = 0 then Some (Halted, pm\<lparr>page_phys := km\<rparr>)
                           else do { (_, pm) \<leftarrow> map_pages um (fault_addr AND NOT 0xFFF) phys_page PAGE_SIZE
                                       (if is_write then PAGE_USER OR PAGE_WRITE OR PAGE_PRESENT
                                        else (PAGE_USER OR PAGE_WRITE OR PAGE_PRESENT) AND NOT PAGE_WRITE)
                                       (pm\<lparr>page_phys := km\<rparr>);
                                     Some (Repaired, pm) } }) k;
                    Some (r, k, fr) }
          else if is_write
          then do { ((r, fr), k) \<leftarrow> on_pages (\<lambda>pm. do { (r, pm, fr) \<leftarrow> copyCOWPage fault_addr (cpu_cr3 k cpu) um (pm, fr); Some ((r, fr), pm) }) k;
                    Some (if r = E_OK then Repaired else Halted, k, fr) }
          else Some (Halted, k, fr) })"

section \<open>Copies\<close>

lemma virt_memcpy_eq:
  assumes "\<And>j. j < n \<Longrightarrow> mmu (mem pm) phys2Virt (phys2Virt (frame creg)) (src + (i + of_nat j)) = Some (s j)"
    and "\<And>j. j < n \<Longrightarrow> mmu (mem pm) phys2Virt (phys2Virt (frame creg)) (dest + (i + of_nat j)) = Some (d j)"
    and "\<And>j j'. j < n \<Longrightarrow> j' < n \<Longrightarrow> d j \<noteq> s j'" and "\<And>j j'. j < n \<Longrightarrow> j' < n \<Longrightarrow> d j = d j' \<Longrightarrow> j = j'"
  shows "\<exists>fr'. virt_memcpy n i dest src creg pm fr = Some fr' \<and> (\<forall>j<n. fr' (d j) = fr (s j)) \<and> (\<forall>a. (\<forall>j<n. a \<noteq> d j) \<longrightarrow> fr' a = fr a)"
  using assms
proof (induction n arbitrary: i s d fr)
  case (Suc n)
  let ?fr = "fr(d 0 := fr (s 0))"
  have "\<exists>fr'. virt_memcpy n (i + 1) dest src creg pm ?fr = Some fr' \<and> (\<forall>j<n. fr' (d (Suc j)) = ?fr (s (Suc j))) \<and>
      (\<forall>a. (\<forall>j<n. a \<noteq> d (Suc j)) \<longrightarrow> fr' a = ?fr a)"
  proof (rule Suc.IH)
    fix j assume "j < n"
    then show "mmu (mem pm) phys2Virt (phys2Virt (frame creg)) (src + (i + 1 + of_nat j)) = Some (s (Suc j))"
      "mmu (mem pm) phys2Virt (phys2Virt (frame creg)) (dest + (i + 1 + of_nat j)) = Some (d (Suc j))"
      using Suc.prems(1,2) [of "Suc j"] by (simp_all add: add.assoc)
  next
    fix j j' assume "j < n" "j' < n"
    then show "d (Suc j) \<noteq> s (Suc j')" "d (Suc j) = d (Suc j') \<Longrightarrow> j = j'" using Suc.prems(3,4) [of "Suc j" "Suc j'"] by auto
  qed
  then obtain fr' where v: "virt_memcpy n (i + 1) dest src creg pm ?fr = Some fr'" and r: "\<forall>j<n. fr' (d (Suc j)) = ?fr (s (Suc j))"
    and o: "\<forall>a. (\<forall>j<n. a \<noteq> d (Suc j)) \<longrightarrow> fr' a = ?fr a" by blast
  have "fr' (d j) = fr (s j)" if "j < Suc n" for j
  proof (cases j)
    case 0
    have "\<forall>j<n. d 0 \<noteq> d (Suc j)" using Suc.prems(4) [of 0] by fastforce
    then show ?thesis using 0 o by simp
  next
    case (Suc j')
    then show ?thesis using r that Suc.prems(3) [of 0 j] by auto
  qed
  moreover have "fr' a = fr a" if "\<forall>j<Suc n. a \<noteq> d j" for a using o that by (metis Suc_less_eq fun_upd_apply zero_less_Suc)
  moreover have "virt_memcpy (Suc n) i dest src creg pm fr = Some fr'" using v Suc.prems(1,2) [of 0] by simp
  ultimately show ?case by blast
qed simp

lemma page_bytes_distinct:
  assumes "page_aligned p" and "j < 4096" and "j' < 4096"
  shows "p + of_nat j = p + of_nat j' \<Longrightarrow> j = j'" and "frame (p + of_nat j) = p"
proof -
  note u = unat_page_offset [OF assms(1,2)] unat_page_offset [OF assms(1,3)]
  show "p + of_nat j = p + of_nat j' \<Longrightarrow> j = j'" using u by (metis add_left_cancel)
  have "4096 dvd unat p" using assms(1) by (simp only: page_aligned_unat mod_eq_0_iff_dvd)
  then obtain q where q: "unat p = 4096 * q" by (elim dvdE)
  have "(4096 * q + j) div 4096 = q" using div_mult_self4 [of 4096 q j] div_less [OF assms(2)] by linarith
  then have "(unat p + j) div 4096 * 4096 = unat p" unfolding q by (metis mult.commute)
  then show "frame (p + of_nat j) = p" using u(1) by (simp only: word_unat_eq_iff unat_frame)
qed

lemma temp_window:
  assumes "j < 4096"
  shows "unat (TEMP_MAPPING_VADDR + of_nat j) div 4096 = unat TEMP_MAPPING_VADDR div 4096"
    and "(TEMP_MAPPING_VADDR + of_nat j) AND 0xFFF = of_nat j"
proof -
  have "page_aligned TEMP_MAPPING_VADDR" by (simp add: page_aligned_def)
  then have u: "unat (TEMP_MAPPING_VADDR + of_nat j) = 0xFFC00000 + j" using unat_page_offset [of TEMP_MAPPING_VADDR j] assms by simp
  then show "unat (TEMP_MAPPING_VADDR + of_nat j) div 4096 = unat TEMP_MAPPING_VADDR div 4096" using assms by simp
  show "(TEMP_MAPPING_VADDR + of_nat j) AND 0xFFF = of_nat j"
  proof -
    have "(4096 * 0xFFC00 + j) mod 4096 = j" using assms by (simp only: mod_mult_self4 mod_less)
    then have "(0xFFC00000 + j) mod 4096 = j" by simp
    then show ?thesis using assms by (simp only: word_unat_eq_iff unat_and_FFF u) (simp add: unat_of_nat)
  qed
qed

lemma below_temp_window:
  assumes "(fa :: u32) < 0xC0000000" "j < 4096"
  shows "unat (fa + of_nat j) div 4096 \<noteq> unat TEMP_MAPPING_VADDR div 4096"
proof -
  have "unat fa < 0xC0000000" using assms(1) by (simp add: word_less_nat_alt)
  then have "unat (fa + of_nat j) = unat fa + j" using assms(2) by (simp add: unat_word_ariths unat_of_nat)
  then show ?thesis using \<open>unat fa < 0xC0000000\<close> assms(2) by simp
qed

lemma map_pages_returns:
  assumes "\<And>km. allocate_physical_page um km \<noteq> None"
  shows "\<exists>pm'. map_pages um va pa sz fl pm = Some (True, pm')"
proof -
  have e: "\<exists>t. ensure_table um v pm = Some t" for v pm
    using assms [of "page_phys pm"] by (auto simp: ensure_table_def)
  have "\<exists>pm'. map_page um v p fl pm = Some pm'" for v p pm
  proof -
    obtain t where "ensure_table um v pm = Some t" using e by blast
    then show ?thesis by (cases t) (simp add: map_page_def)
  qed
  then have "\<exists>pm'. map_run um va pa fl n pm = Some pm'" for n by (induction n) (simp, fastforce)
  then obtain pm' where "map_run um va pa fl (pages_of sz) pm = Some pm'" by blast
  then show ?thesis by (simp add: map_pages_def)
qed


text \<open>
  A fault in the middle of a page, on a processor with a directory of its own at \<open>0x800000\<close>: the page and its
  successor are mapped to two frames.
\<close>

definition fault_pm :: PageManager where
  "fault_pm = \<lparr>curPgdVirt = 0xC0400000,
     mem = \<lambda>a. if a = entry_addr 0xC0400000 1023 \<or> a = entry_addr 0xC0800000 1023 then 0x600003
       else if a = entry_addr 0xC0400000 256 \<or> a = entry_addr 0xC0800000 256 then 0x500007
       else if a = entry_addr 0xC0500000 1 \<or> a = entry_addr 0x500000 1 then 0x700205
       else if a = entry_addr 0xC0500000 2 then 0x701005 else 0,
     page_phys = small_memory, cr0 = 0, cr3 = 0\<rparr>"

definition fault_um :: UserMemory where
  "fault_um = new_UserMemory\<lparr>allocate_physical_page := \<lambda>km. Some (0x9000, km), phys_to_virt := phys2Virt, pgd := 0xC0400000\<rparr>"

lemma fault_pm_dir:
  "i < 1024 \<Longrightarrow> read_entry fault_pm 0xC0400000 i = (if i = 1023 then 0x600003 else if i = 256 then 0x500007 else 0)"
  "i < 1024 \<Longrightarrow> read_entry fault_pm 0xC0800000 i = (if i = 1023 then 0x600003 else if i = 256 then 0x500007 else 0)"
  by (simp_all add: fault_pm_def page_aligned_def)

lemma fault_pm_table:
  "i < 1024 \<Longrightarrow> read_entry fault_pm 0xC0500000 i = (if i = 1 then 0x700205 else if i = 2 then 0x701005 else 0)"
  by (simp add: fault_pm_def page_aligned_def)

lemma fault_pm_flags: "getPageFlags fault_pm 0x40001234 = 0x205"
proof -
  have "pd_index 0x40001234 = 256" "pt_index 0x40001234 = 1" by (simp_all add: pd_index_def pt_index_def)
  moreover have "read_entry fault_pm 0x500000 1 = 0x700205" by (simp add: fault_pm_def page_aligned_def)
  moreover have "curPgdVirt fault_pm = 0xC0400000" by (simp add: fault_pm_def)
  ultimately show ?thesis by (simp add: getPageFlags_def fault_pm_dir)
qed

lemma fault_source:
  assumes "j < 4096"
  shows "\<exists>f \<in> {0x700000, 0x701000}. mmu (mem fault_pm) phys2Virt 0xC0800000 (0x40001234 + of_nat j) =
    Some (f OR ((0x40001234 + of_nat j) AND 0xFFF))"
proof -
  let ?v = "0x40001234 + of_nat j :: u32"
  have u: "unat ?v = 0x40001234 + j" using assms by (simp add: unat_word_ariths unat_of_nat)
  have pd: "pd_index ?v = 256"
    using assms by (simp add: pd_index_def word_unat_eq_iff drop_bit_eq_div unat_div u)
  have "(0x40001234 + j) div 4096 = (if j < 0xDCC then 0x40001 else 0x40002)"
    using assms by (auto intro!: div_nat_eqI)
  then have "unat (pt_index ?v) = (if j < 0xDCC then 1 else 2)" by (simp add: unat_pt_index u)
  then have "pt_index ?v = (if j < 0xDCC then 1 else 2)" by (auto simp: word_unat_eq_iff)
  moreover have "phys2Virt 0x500000 = 0xC0500000" by (simp add: phys2Virt_def)
  ultimately show ?thesis using pd by (simp add: mmu_def fault_pm_dir fault_pm_table Let_def)
qed

lemma frame_or_offset: "page_aligned f \<Longrightarrow> frame (f OR (v AND 0xFFF)) = f"
  by (rule frame_or) (simp_all add: and.assoc)


section \<open>Demand paging\<close>

text \<open>The directory of a user memory and the frames it takes for tables.\<close>

definition tables_ok :: "UserMemory \<Rightarrow> u32 \<Rightarrow> PageManager \<Rightarrow> bool" where
  "tables_ok um va pm \<longleftrightarrow> phys_to_virt um = phys2Virt \<and> page_aligned (pgd um) \<and>
     (let pde = read_entry pm (pgd um) (pd_index va) in
      if pde AND PAGE_PRESENT \<noteq> 0 then phys2Virt (frame pde) \<noteq> pgd um
      else (\<exists>T km. allocate_physical_page um (page_phys pm) = Some (T, km) \<and> page_aligned T \<and> phys2Virt T \<noteq> pgd um))"

lemma zero_page_keeps:
  "page_aligned p \<Longrightarrow> page_aligned t \<Longrightarrow> p \<noteq> t \<Longrightarrow> i < 1024 \<Longrightarrow> read_entry (zero_page p pm) t i = read_entry pm t i"
  using fill_table_read [of p t i 1024 "\<lambda>_. 0" pm] by auto

lemma ensure_table_ok:
  assumes ok: "tables_ok um va pm"
  shows "\<exists>pm1. ensure_table um va pm = Some (phys2Virt (frame (read_entry pm1 (pgd um) (pd_index va))), pm1) \<and>
    read_entry pm1 (pgd um) (pd_index va) AND 1 \<noteq> 0 \<and> phys2Virt (frame (read_entry pm1 (pgd um) (pd_index va))) \<noteq> pgd um"
proof (cases "read_entry pm (pgd um) (pd_index va) AND PAGE_PRESENT = 0")
  case True
  with ok obtain T km where T: "allocate_physical_page um (page_phys pm) = Some (T, km)" "page_aligned T" "phys2Virt T \<noteq> pgd um"
    by (auto simp: tables_ok_def Let_def)
  let ?e = "T OR PAGE_PRESENT OR PAGE_WRITE OR PAGE_USER"
  define pm1 where "pm1 = zero_page (phys2Virt T) (write_entry (pgd um) (pd_index va) ?e (pm\<lparr>page_phys := km\<rparr>))"
  have "read_entry pm1 (pgd um) (pd_index va) = ?e"
    using zero_page_keeps [of "phys2Virt T" "pgd um" "pd_index va"] T ok pd_index_less by (simp add: pm1_def tables_ok_def)
  moreover have "?e = T OR 7" by simp
  ultimately have r: "read_entry pm1 (pgd um) (pd_index va) = T OR 7" by simp
  have "frame (T OR 7) = T" by (rule frame_or [OF T(2)]) simp
  moreover have "ensure_table um va pm = Some (phys2Virt (frame (read_entry pm1 (pgd um) (pd_index va))), pm1)"
    using True T ok by (simp add: ensure_table_def tables_ok_def pm1_def)
  ultimately show ?thesis using r T(3) or_low_bit(2) [of T] by (intro exI [of _ pm1]) (simp only: r simp_thms not_False_eq_True)
next
  case False
  then show ?thesis using ok by (auto simp: ensure_table_def tables_ok_def Let_def)
qed

lemma map_page_mmu:
  assumes ok: "tables_ok um va pm" and pa: "page_aligned pa" and fl: "frame fl = 0"
  shows "\<exists>pm' t. map_page um va pa fl pm = Some pm' \<and>
    (\<forall>v. pd_index v = pd_index va \<longrightarrow> pt_index v = pt_index va \<longrightarrow> mmu (mem pm') phys2Virt (pgd um) v = Some (pa OR (v AND 0xFFF))) \<and>
    t = phys2Virt (frame (read_entry pm' (pgd um) (pd_index va))) \<and> read_entry pm' t (pt_index va) = pa OR (fl OR PAGE_USER) OR PAGE_PRESENT"
proof -
  obtain pm1 where e: "ensure_table um va pm = Some (phys2Virt (frame (read_entry pm1 (pgd um) (pd_index va))), pm1)"
    and pr: "read_entry pm1 (pgd um) (pd_index va) AND 1 \<noteq> 0"
    and ne: "phys2Virt (frame (read_entry pm1 (pgd um) (pd_index va))) \<noteq> pgd um"
    using ensure_table_ok [OF ok] by blast
  let ?t = "phys2Virt (frame (read_entry pm1 (pgd um) (pd_index va)))"
  let ?e = "pa OR (fl OR PAGE_USER) OR PAGE_PRESENT"
  have al: "page_aligned ?t" "page_aligned (pgd um)" using ok by (simp_all add: frame_page_aligned tables_ok_def)
  have keep: "read_entry (write_entry ?t (pt_index va) ?e pm1) (pgd um) (pd_index va) = read_entry pm1 (pgd um) (pd_index va)"
    using al ne pd_index_less pt_index_less by simp
  have "frame ((fl OR PAGE_USER) OR PAGE_PRESENT) = 0"
    using fl by (simp add: bit.conj_disj_distrib2)
  then have f: "frame ?e = pa" using frame_or [OF pa] by simp
  have "?e AND 1 \<noteq> 0" using or_low_bit(3) [of "pa OR (fl OR PAGE_USER)"] by (simp add: or.assoc)
  then have "\<forall>v. pd_index v = pd_index va \<longrightarrow> pt_index v = pt_index va \<longrightarrow>
      mmu (mem (write_entry ?t (pt_index va) ?e pm1)) phys2Virt (pgd um) v = Some (pa OR (v AND 0xFFF))"
    using keep pr f by (simp add: mmu_def Let_def)
  then show ?thesis using e keep by (simp add: map_page_def)
qed

lemma page_start_index: "pd_index (va AND NOT 0xFFF) = pd_index va" "pt_index (va AND NOT 0xFFF) = pt_index va"
proof -
  have u: "unat (va AND NOT 0xFFF) div 4096 = unat va div 4096" unfolding unat_and_not_FFF by (rule div_mult_self_is_m) simp
  have "unat (pd_index w) = unat w div 4096 div 1024" for w
    by (simp add: pd_index_def drop_bit_eq_div unat_div div_mult2_eq [symmetric])
  then show "pd_index (va AND NOT 0xFFF) = pd_index va" by (simp only: word_unat_eq_iff u)
  show "pt_index (va AND NOT 0xFFF) = pt_index va" by (simp only: word_unat_eq_iff unat_pt_index u)
qed

lemma page_low_bits: "page_aligned p \<Longrightarrow> p AND 2 = 0" "page_aligned p \<Longrightarrow> p AND 4 = 0"
proof -
  assume "page_aligned p"
  then have p: "p = p AND 0xFFFFF000" by (rule frame_aligned [symmetric])
  show "p AND 2 = 0" by (subst p) (simp add: and.assoc)
  show "p AND 4 = 0" by (subst p) (simp add: and.assoc)
qed

text \<open>
  C10. Demand paging: a fault of the current task on a user page that is not present, for which
  there is a free frame, is repaired. Afterwards the processor translates the address to the
  new frame, user mode may use the page, and it is writable exactly when the access was
  a write.
\<close>

theorem demand_paging:
  assumes "get_current_task (sched k) cpu = Some t" and "t \<noteq> 0" and "task_context (task_at (sched k) t) = c" and "c \<noteq> 0"
    and "um = user_mm (context_at k c)" and "err AND 0x1 = 0" and "err AND 0x4 \<noteq> 0"
    and "alloc_pages (zones (kmem k)) 0 0 = Some (p, km)" and "p \<noteq> 0" and "page_aligned p"
    and "tables_ok um (fa AND NOT 0xFFF) ((page_manager (kmem k))\<lparr>page_phys := km\<rparr>)"
  shows "\<exists>k' pte. page_fault_handler err fa cpu (k, fr) = Some (Repaired, k', fr) \<and>
    mmu (mem (page_manager (kmem k'))) phys2Virt (pgd um) fa = Some (p OR (fa AND 0xFFF)) \<and>
    pte = read_entry (page_manager (kmem k'))
      (phys2Virt (frame (read_entry (page_manager (kmem k')) (pgd um) (pd_index fa)))) (pt_index fa) \<and>
    pte AND PAGE_USER \<noteq> 0 \<and> (pte AND PAGE_WRITE \<noteq> 0 \<longleftrightarrow> err AND 0x2 \<noteq> 0)"
proof -
  let ?va = "fa AND NOT 0xFFF"
  let ?fl = "if err AND 0x2 \<noteq> 0 then PAGE_USER OR PAGE_WRITE OR PAGE_PRESENT else (PAGE_USER OR PAGE_WRITE OR PAGE_PRESENT) AND NOT PAGE_WRITE"
  note va = page_start_index [of fa]
  have fl: "frame ?fl = 0" by simp
  obtain pm' where m: "map_page um ?va p ?fl ((page_manager (kmem k))\<lparr>page_phys := km\<rparr>) = Some pm'"
    and tr: "mmu (mem pm') phys2Virt (pgd um) fa = Some (p OR (fa AND 0xFFF))"
    and pte: "read_entry pm' (phys2Virt (frame (read_entry pm' (pgd um) (pd_index fa)))) (pt_index fa) = p OR (?fl OR PAGE_USER) OR PAGE_PRESENT"
    using map_page_mmu [OF assms(11,10) fl] va by auto
  have "pages_of PAGE_SIZE = 1" by simp
  then have "map_pages um ?va p PAGE_SIZE ?fl ((page_manager (kmem k))\<lparr>page_phys := km\<rparr>) = Some (True, pm')"
    using m by (simp add: map_pages_def)
  then have h: "page_fault_handler err fa cpu (k, fr) =
      Some (Repaired, k\<lparr>kmem := (kmem k)\<lparr>page_manager := pm', zones := page_phys pm'\<rparr>\<rparr>, fr)"
    using assms by (simp add: page_fault_handler_def on_pages_def Let_def)
  have "(p OR (?fl OR PAGE_USER) OR PAGE_PRESENT) AND PAGE_USER \<noteq> 0"
    "(p OR (?fl OR PAGE_USER) OR PAGE_PRESENT) AND PAGE_WRITE \<noteq> 0 \<longleftrightarrow> err AND 0x2 \<noteq> 0"
    using page_low_bits [OF assms(10)] by (simp_all add: bit.conj_disj_distrib2)
  then show ?thesis using h tr pte by simp
qed

definition fault_kernel :: Kernel where
  "fault_kernel = switch_kernel\<lparr>kmem := kmap_memory\<lparr>page_manager := fault_pm\<rparr>,
     context_at := \<lambda>_. new_Context\<lparr>user_mm := fault_um\<rparr>,
     sched := two_tasks\<lparr>task_at := \<lambda>t. (task_at two_tasks t)\<lparr>task_context := 0x3000\<rparr>\<rparr>\<rparr>"

theorem demand_paging_witness:
  "\<exists>k'. page_fault_handler 6 0x40003123 0 (fault_kernel, \<lambda>_. 0) = Some (Repaired, k', \<lambda>_. 0) \<and>
    mmu (mem (page_manager (kmem k'))) phys2Virt 0xC0400000 0x40003123 = Some 0x1123"
proof -
  obtain km where km: "alloc_pages (zones (kmem fault_kernel)) 0 0 = Some (0x1000, km)"
    using small_memory_first by (auto simp: fault_kernel_def kmap_memory_def)
  have t: "get_current_task (sched fault_kernel) 0 = Some 0x1000" "task_context (task_at (sched fault_kernel) 0x1000) = 0x3000"
      "user_mm (context_at fault_kernel 0x3000) = fault_um" "pgd fault_um = 0xC0400000"
    by (simp_all add: fault_kernel_def two_tasks_def get_current_task_def fault_um_def)
  have pm: "page_manager (kmem fault_kernel) = fault_pm" by (simp add: fault_kernel_def)
  have ok: "tables_ok fault_um (0x40003123 AND NOT 0xFFF) ((page_manager (kmem fault_kernel))\<lparr>page_phys := km\<rparr>)"
    unfolding pm by (simp add: tables_ok_def fault_um_def pd_index_def fault_pm_dir page_aligned_def
        phys2Virt_def)
  have al: "(0x1000 :: u32) \<noteq> 0" "page_aligned 0x1000" by (simp_all add: page_aligned_def)
  have e: "(6 :: u32) AND 1 = 0" "(6 :: u32) AND 4 \<noteq> 0" "(0x1000 :: u32) \<noteq> 0" "(0x3000 :: u32) \<noteq> 0" by simp_all
  show ?thesis
    using demand_paging [OF t(1) e(3) t(2) e(4) t(3) [symmetric] e(1,2) km al ok, of "\<lambda>_. 0"] by (auto simp: t(4))
qed

end
