(* ===== verification/Spec2Isabelle.thy ===== *)
theory Spec2Isabelle
  imports UserSpace SpinLock UserMem KernelMem LogBuffer ListHead Mutex MemFile InitRamFs Ext2 Syscall Format Elf Terminal Interrupts PageFault
begin

text \<open>
  A verification library of wandos, an operating system for 32-bit x86 in C++: the memory
  management, processes, file systems, drivers, system calls and the shell. All paths below are
  relative to \<open>src/\<close>.

  \<^bold>\<open>How the program is translated.\<close> Theory \<open>Prelude\<close> holds the conventions. Integers keep their
  width as words, so sums wrap as in the code, and a signed result is an \<open>int\<close>. A pointer is an
  address with 0 as null, and the objects it can refer to are functions from addresses in the
  record of the component, so aliasing is kept. C arrays and strings are lists of bytes with
  checked access. A function whose value is an \<open>option\<close> is undefined at \<open>None\<close>: an access outside an
  array or through null, a signed overflow, or a loop that does not end. Errors that the code
  reports, such as \<open>-1\<close> or null, are ordinary values. Loops are recursion on their data, \<open>function\<close>
  with a measure, or \<open>partial_function (option)\<close> where nothing in the code bounds
  them. There is no fuel: a claim that such a loop returns is proved from the data it runs over.
  Hardware (ports, disks, the interrupt controllers) and the virtual functions of objects
  are records of functions that the definitions take as an argument. Log messages are left out of the
  functions that print them.

  \<^bold>\<open>Memory.\<close>
  \<^item> \<open>Layout\<close>: the constants of \<open>include/arch/x86/paging.h\<close> and the direct mapping.
  \<^item> \<open>PagePool\<close>, \<open>SList\<close>, \<open>Queue\<close>: contracts and structures that several components share. The locales
    \<open>page_allocator\<close> and \<open>exact_page_allocator\<close> say what a layer of the page allocator promises, and prove
    once that live blocks are disjoint and that no page is lost over any run.
  \<^item> \<open>Buddy\<close> (\<open>kernel/memory/buddy_allocator.cpp\<close>) and \<open>Zone\<close> (\<open>zone.cpp\<close> and the page functions of
    \<open>kernel_memory.cpp\<close>) interpret them on \<open>allocate_pages\<close>, \<open>free_pages\<close> and \<open>alloc_pages\<close>.
  \<^item> \<open>Slab\<close> (\<open>slab_allocator.cpp\<close>): caches as lists of full, partial and free slabs; an object that is
    handed out was free, and freeing makes it free again.
  \<^item> \<open>VmTree\<close> (\<open>virtual_memory_tree.cpp\<close>): the red-black tree of areas on nodes with parent pointers.
  \<^item> \<open>Paging\<close> (\<open>paging.cpp\<close>): page tables as words in memory, with the translation the processor makes
    as their meaning. \<open>mapPage\<close>, the direct mapping and the copy on fork are proved against it.
  \<^item> \<open>UserMem\<close> (\<open>user_memory.cpp\<close>), \<open>KernelMem\<close> (\<open>kernel_memory.cpp\<close>): address spaces and the kernel's
    own allocation functions; new areas overlap no other.
  \<^item> \<open>PageFault\<close> (\<open>kernel/core/kernel.cpp\<close>): the fault handler over all of these. Demand paging
    repairs a fault; copy on write starts from the faulting address and so copies shifted bytes.

  \<^bold>\<open>Processes.\<close>
  \<^item> \<open>ListHead\<close> (\<open>include/kernel/list.h\<close>), with the locale \<open>node_list\<close>, carries the run queues of \<open>Sched\<close>
    (\<open>kernel/smp/smp_scheduler.cpp\<close>, \<open>Scheduler\<close> of \<open>process.cpp\<close>); \<open>round_robin\<close> shows that each of \<open>n\<close> tasks
    runs within \<open>n\<close> time slices.
  \<^item> \<open>Pid\<close>, \<open>Gdt\<close> (\<open>arch/x86/gdt.cpp\<close>, \<open>idt.cpp\<close>) and \<open>Process\<close> (\<open>kernel/process/process.cpp\<close>): identifiers,
    descriptor tables, creation and exit of tasks, and the context switch.
  \<^item> \<open>SpinLock\<close> (\<open>include/arch/x86/spinlock.h\<close>) and \<open>Mutex\<close> (\<open>lib/mutex.cpp\<close>): step relations over any
    number of processors or processes, with mutual exclusion by rule induction. In the other
    theories a section that a lock protects is one step, which \<open>spin_exclusion\<close> justifies.
  \<^item> \<open>Elf\<close> (\<open>kernel/process/elf_loader.cpp\<close>, \<open>elf_loader_reloc.cpp\<close>): loading over a memory of bytes.

  \<^bold>\<open>Files.\<close>
  \<^item> \<open>Cpio\<close> (\<open>include/kernel/cpio.h\<close>) and \<open>MemFs\<close> (\<open>kernel/fs/memfs.cpp\<close>): inodes and descriptors as objects.
    \<open>MemTree\<close> gives the tree of names that the inodes represent, and shows that the path operations
    act on it; \<open>MemFile\<close> gives files as byte sequences; \<open>InitRamFs\<close> shows that loading an archive undoes writing it.
  \<^item> \<open>BlockDev\<close> (\<open>drivers/block_device.cpp\<close>): the memory disk and the ATA disk. That a drive keeps the
    protocol is a hypothesis on the ports, which a concrete drive satisfies.
  \<^item> \<open>PageCache\<close> (\<open>kernel/fs/SimplePageCache.cpp\<close>): the hash table behind the locale \<open>key_map\<close>, and the cache as
    a refinement of a map from blocks to bytes.
  \<^item> \<open>Ext2\<close> (\<open>drivers/ext2.cpp\<close>) on the page cache; reading is proved for files of at most 268 blocks,
    because the doubly indirect block is indexed wrongly beyond them.
  \<^item> \<open>Vfs\<close> (\<open>kernel/fs/vfs.cpp\<close>): mounts, path dispatch and the calls on descriptors. A file system is a
    record of its virtual functions.

  \<^bold>\<open>Devices and text.\<close>
  \<^item> \<open>CString\<close> (\<open>lib/string.cpp\<close>), \<open>Format\<close> (\<open>lib/debug.cpp\<close>, \<open>_debug_print\<close>), \<open>LogBuffer\<close> (\<open>lib/log_buffer.cpp\<close>, an
    interpretation of the locale \<open>bounded_queue\<close>).
  \<^item> \<open>Terminal\<close> (\<open>lib/serial.cpp\<close>, \<open>lib/console.cpp\<close>, \<open>drivers/keyboard.cpp\<close>, \<open>kernel/fs/console_device.cpp\<close>): the
    screen refines a terminal of 25 lines of 80 cells.
  \<^item> \<open>Interrupts\<close> (\<open>arch/x86/pic8259.cpp\<close>, \<open>apic.cpp\<close>, \<open>interrupt.cpp\<close>): the controllers and the dispatch.

  \<^bold>\<open>System calls and user space.\<close>
  \<^item> \<open>Syscall\<close> (\<open>kernel/core/syscall.cpp\<close>): the table of handlers and the calls.
  \<^item> \<open>Shell\<close> (\<open>rootfs/\<close>): the user library, the parser, the commands and the shell loop, over a record \<open>Sys\<close>
    of system calls. The locales \<open>shell_output\<close> and \<open>shell_file\<close> say what the shell relies on: bytes
    written to descriptor 1 arrive, and reading a file returns its bytes until none is left.
  \<^item> \<open>UserSpace\<close> puts the parts together. \<open>kernel_calls\<close> is the record \<open>Sys\<close> of the kernel's own calls, and the two
    locales are interpreted on it, through the mount table, the descriptors, the memory file system and the
    console. \<open>cat_shows_file\<close> and \<open>echo_shows_arguments\<close> follow from the commands down to the cells of the
    screen. \<open>boot_console\<close> is the part of \<open>kernel_main\<close> (\<open>kernel/core/main.cpp\<close>) that mounts the
    file systems and opens the console.

  \<^bold>\<open>Not modelled.\<close>
  \<^item> Assembly (\<open>boot.asm\<close>, \<open>ap_boot.asm\<close>, \<open>arch/x86/interrupt.asm\<close> and the others) and the inline
    assembly of \<open>arch/x86/cpu.cpp\<close>: machine code, for which the library has no semantics.
  \<^item> \<open>arch/x86/smp.cpp\<close>: it waits for counters that code in assembly changes; the
    messages it sends to the other processors are \<open>apic_send_init\<close> and \<open>apic_send_sipi\<close> of \<open>Interrupts\<close>.
  \<^item> \<open>sys_execve\<close>: it reads a file through user addresses and runs the loader at them. The loader works on a memory
    of bytes and the page tables on frames, and the model keeps the two apart; the parts are modelled.
  \<^item> The rest of \<open>kernel_main\<close>, which calls the initialisers of the components in order, and the functions that only
    print (\<open>print\<close> of page tables and areas, \<open>arch/x86/segment_fault.cpp\<close>, names of interrupts).
  \<^item> \<open>include/arch/x86/atomic.h\<close>, wrappers of single instructions; \<open>drivers/console_device.cpp\<close>,
    which is not compiled; tests and tools.
  \<^item> Weak memory and timing: a step of a lock is atomic, and delays have no effect.
\<close>

end
